(* ===== verification/Prelude.thy ===== *)
theory Prelude
  imports Main "HOL-Library.Word"
begin

text \<open>
  Shared vocabulary of the development.  Code that can fail and mutates a receiver is a
  function from the state to a pair of a result (\<open>Inl\<close> an error, \<open>Inr\<close> a value) and the
  state left behind, because a Go method that returns an error keeps the mutations it has
  already made.  Byte slices are lists of 8-bit words, and fixed-width integers are words.
\<close>

unbundle bit_operations_syntax

type_synonym byte = "8 word"
type_synonym bytes = "byte list"
type_synonym ('s, 'e, 'a) prog = "'s \<Rightarrow> ('e + 'a) \<times> 's"

named_theorems prog_simps \<open>unfolding of the state-and-error combinators\<close>
named_theorems le_simps \<open>little-endian byte strings\<close>
named_theorems tl_defs \<open>definitions of the TL primitives\<close>

section \<open>State and error\<close>

definition ret :: "'a \<Rightarrow> ('s, 'e, 'a) prog" where
  [prog_simps]: "ret a s = (Inr a, s)"

definition fail :: "'e \<Rightarrow> ('s, 'e, 'a) prog" where
  [prog_simps]: "fail e s = (Inl e, s)"

definition andThen :: "('s, 'e, 'a) prog \<Rightarrow> ('a \<Rightarrow> ('s, 'e, 'b) prog) \<Rightarrow> ('s, 'e, 'b) prog" where
  "andThen m f s = (case m s of (Inl e, s') \<Rightarrow> (Inl e, s') | (Inr a, s') \<Rightarrow> f a s')"

definition modify :: "('s \<Rightarrow> 's) \<Rightarrow> ('s, 'e, unit) prog" where
  [prog_simps]: "modify f s = (Inr (), f s)"

lemma andThen_Inr [simp]: "m s = (Inr a, s') \<Longrightarrow> andThen m f s = f a s'"
  by (simp add: andThen_def)

lemma andThen_Inl [simp]: "m s = (Inl e, s') \<Longrightarrow> andThen m f s = (Inl e, s')"
  by (simp add: andThen_def)

lemma andThen_ret [simp]: "andThen (ret a) f = f a"
  by (rule ext) (simp add: ret_def)

lemma andThen_eq_Inr_iff:
  "andThen m f s = (Inr b, t) \<longleftrightarrow> (\<exists>a s'. m s = (Inr a, s') \<and> f a s' = (Inr b, t))"
  by (auto simp: andThen_def split: prod.splits sum.splits)

lemma andThen_eq_Inl_iff:
  "andThen m f s = (Inl e, t) \<longleftrightarrow>
     m s = (Inl e, t) \<or> (\<exists>a s'. m s = (Inr a, s') \<and> f a s' = (Inl e, t))"
  by (auto simp: andThen_def split: prod.splits sum.splits)

section \<open>Little-endian byte strings\<close>

text \<open>\<open>le k n\<close> is the \<open>k\<close>-byte little-endian form of \<open>n\<close> (higher bytes are dropped),
  as \<open>binary.LittleEndian.PutUint32\<close> and \<open>PutUint64\<close> write it; \<open>unle\<close> reads it back.\<close>

primrec le :: "nat \<Rightarrow> nat \<Rightarrow> bytes" where
  "le 0 n = []"
| "le (Suc k) n = word_of_nat n # le k (n div 256)"

primrec unle :: "bytes \<Rightarrow> nat" where
  "unle [] = 0"
| "unle (b # bs) = unat b + 256 * unle bs"

lemma length_le [simp, le_simps]: "length (le k n) = k"
  by (induction k arbitrary: n) auto

lemma take_le [le_simps]: "k \<le> m \<Longrightarrow> take k (le m n) = le k n"
proof (induction k arbitrary: m n)
  case 0
  then show ?case by simp
next
  case (Suc k)
  then obtain m' where "m = Suc m'" by (cases m) auto
  with Suc show ?case by simp
qed

lemma le_0 [simp, le_simps]: "le k 0 = replicate k 0"
  by (induction k) auto

lemma le_add: "le (j + k) n = le j n @ le k (n div 256 ^ j)"
  by (induction j arbitrary: n) (simp_all add: div_mult2_eq)

lemma unat_byte_of_nat [le_simps]: "unat (word_of_nat n :: byte) = n mod 256"
  by (simp add: unat_of_nat)

lemma unle_le [le_simps]: "unle (le k n) = n mod 256 ^ k"
proof (induction k arbitrary: n)
  case 0
  then show ?case by simp
next
  case (Suc k)
  have "n mod (256 * 256 ^ k) = 256 * (n div 256 mod 256 ^ k) + n mod 256"
    by (rule mod_mult2_eq)
  then show ?case
    by (simp add: Suc unat_byte_of_nat)
qed

lemma unle_bound: "unle bs < 256 ^ length bs"
proof (induction bs)
  case Nil
  then show ?case by simp
next
  case (Cons b bs)
  have "unat b < 256" using unsigned_less[of b] by simp
  then have "unat b + 256 * unle bs < 256 * (unle bs + 1)" by simp
  also have "\<dots> \<le> 256 * 256 ^ length bs" using Cons by (intro mult_le_mono2) simp
  finally show ?case by simp
qed

lemma le_unle [le_simps]: "le (length bs) (unle bs) = bs"
proof (induction bs)
  case Nil
  then show ?case by simp
next
  case (Cons b bs)
  have b: "unat b < 256" using unsigned_less[of b] by simp
  have "word_of_nat (unat b + 256 * unle bs) = b"
  proof (rule word_unat_eq_iff[THEN iffD2])
    show "unat (word_of_nat (unat b + 256 * unle bs) :: byte) = unat b"
      using b by (simp only: unat_byte_of_nat) simp
  qed
  moreover have "(unat b + 256 * unle bs) div 256 = unle bs"
    using b by simp
  ultimately show ?case using Cons by simp
qed

lemma unle_le_word32 [simp, le_simps]: "word_of_nat (unle (le 4 (unat (w :: 32 word)))) = w"
proof -
  have "unat w mod 256 ^ 4 = unat w"
    using unsigned_less[of w] by (intro mod_less) simp
  then show ?thesis by (simp add: unle_le)
qed

lemma unle_le_word64 [simp, le_simps]: "word_of_nat (unle (le 8 (unat (w :: 64 word)))) = w"
proof -
  have "unat w mod 256 ^ 8 = unat w"
    using unsigned_less[of w] by (intro mod_less) simp
  then show ?thesis by (simp add: unle_le)
qed

text \<open>Code that assembles an integer with shifts and bitwise or computes the same number.\<close>

lemma nat_or_push_bit:
  assumes "(x :: nat) < 2 ^ n"
  shows "x OR push_bit n y = x + 2 ^ n * y"
proof -
  have "m < n" if "bit x m" for m
    using assms that by (metis bit_take_bit_iff take_bit_nat_eq_self)
  then have "x + push_bit n y = x OR push_bit n y"
    by (intro disjunctive_add) (fastforce simp: bit_push_bit_iff)
  then show ?thesis by (simp add: push_bit_eq_mult mult.commute)
qed

lemma unat_byte_less [simp]: "unat (b :: byte) < 256"
  using unsigned_less[of b] by simp

lemma take_bit_unat_byte [simp]: "8 \<le> n \<Longrightarrow> take_bit n (unat (b :: byte)) = unat b"
  by (rule take_bit_nat_eq_self, rule less_le_trans[OF unat_byte_less])
    (use power_increasing[of 8 n "2::nat"] in simp)

lemma unat_or_shift24:
  "unat ((ucast (a :: byte) :: 32 word) OR push_bit 8 (ucast (b :: byte)) OR push_bit 16 (ucast (c :: byte)))
     = unle [a, b, c]"
proof -
  have a: "unat a < 2 ^ 8" and b: "unat b < 2 ^ 8" and c: "unat c < 2 ^ 8"
    using unat_byte_less[of a] unat_byte_less[of b] unat_byte_less[of c] by simp_all
  have b2: "take_bit 32 (push_bit 8 (unat b)) = push_bit 8 (unat b)"
    using b by (intro take_bit_nat_eq_self) (simp add: push_bit_eq_mult less_trans[of _ 256])
  have c2: "take_bit 32 (push_bit 16 (unat c)) = push_bit 16 (unat c)"
    using c by (intro take_bit_nat_eq_self) (simp add: push_bit_eq_mult less_trans[of _ 256])
  have "unat ((ucast a :: 32 word) OR push_bit 8 (ucast b) OR push_bit 16 (ucast c))
     = unat a OR (push_bit 8 (unat b) OR push_bit 16 (unat c))"
    by (simp add: unsigned_or_eq unsigned_push_bit_eq unsigned_ucast_eq b2 c2 or.assoc)
  also have "\<dots> = unat a OR push_bit 8 (unat b OR push_bit 8 (unat c))"
    by (simp add: push_bit_or)
  also have "\<dots> = unat a + 2 ^ 8 * (unat b + 2 ^ 8 * unat c)"
    using a b by (simp only: nat_or_push_bit)
  finally show ?thesis by simp
qed

lemma take_append_exact [simp]: "length xs = n \<Longrightarrow> take n (xs @ ys) = xs"
  by simp

lemma drop_append_exact [simp]: "length xs = n \<Longrightarrow> drop n (xs @ ys) = ys"
  by simp

text \<open>An \<open>int64\<close> result, and the \<open>int\<close> of Go on 64 bits.\<close>

definition wrap64 :: "int \<Rightarrow> int" where "wrap64 = signed_take_bit 63"

lemma wrap64_id: "- (2 ^ 63) \<le> x \<Longrightarrow> x < 2 ^ 63 \<Longrightarrow> wrap64 x = x"
  by (simp add: wrap64_def signed_take_bit_int_eq_self)

end
