(* ===== verification/TLBuffer.thy ===== *)
theory TLBuffer
  imports Prelude
begin

text \<open>
  Binary (de-)serialisation of the basic Type Language types: \<open>pkg/gotd/bin\<close>.  A
  \<open>Buffer\<close> is its byte slice \<open>Buf\<close>.  Encoders append to the slice; decoders consume from
  its front and leave the slice they stopped at, also on an error.  A slice expression out
  of range is the error \<open>Panic\<close>.  The two string routines and the two byte-slice routines
  of the package are separate copies in the source and are separate definitions here.
\<close>

section \<open>Constants and errors\<close>

datatype bin_err =
    EndOfFile
  | UnexpectedEOF
  | InvalidLengthError int string
  | UnexpectedIDErr "32 word"
  | Panic

type_synonym 'a decoder = "(bytes, bin_err, 'a) prog"

definition TypeIntID :: "32 word" where [tl_defs]: "TypeIntID = 0xa8509bda"
definition TypeLongID :: "32 word" where [tl_defs]: "TypeLongID = 0x22076cba"
definition TypeDoubleID :: "32 word" where [tl_defs]: "TypeDoubleID = 0x2210c154"
definition TypeStringID :: "32 word" where [tl_defs]: "TypeStringID = 0xb5286e24"
definition TypeVector :: "32 word" where [tl_defs]: "TypeVector = 0x1cb5c415"
definition TypeBytes :: "32 word" where [tl_defs]: "TypeBytes = 0xe937bb82"
definition TypeTrue :: "32 word" where [tl_defs]: "TypeTrue = 0x997275b5"
definition TypeFalse :: "32 word" where [tl_defs]: "TypeFalse = 0xbc799737"

abbreviation Word :: nat where "Word \<equiv> 4"

definition nearestPaddedValueLength :: "nat \<Rightarrow> nat" where
  "nearestPaddedValueLength l =
     (let n = Word * (l div Word) in if n < l then n + Word else n)"

definition maxSmallStringLength :: nat where "maxSmallStringLength = 253"
definition firstLongStringByte :: byte where "firstLongStringByte = 254"

section \<open>Slices\<close>

text \<open>
  What Go does with a byte slice at given places.  Reading before or past the slice is a panic, so
  that a routine is safe only by the lengths it checks first.  Go lets \<open>s[i:j]\<close> reach up to the
  capacity of the slice; the model takes the bytes past the length for unreadable.
\<close>

definition go_at :: "bytes \<Rightarrow> nat \<Rightarrow> bin_err + byte" where
  "go_at s i = (if i < length s then Inr (s ! i) else Inl Panic)"

definition go_slice :: "bytes \<Rightarrow> int \<Rightarrow> int \<Rightarrow> bin_err + bytes" where
  "go_slice s i j = (if 0 \<le> i \<and> i \<le> j \<and> j \<le> int (length s) then Inr (drop (nat i) (take (nat j) s)) else Inl Panic)"

text \<open>\<open>binary.LittleEndian\<close>: the first \<open>n\<close> bytes, which have to be there.\<close>

definition LittleEndian :: "nat \<Rightarrow> bytes \<Rightarrow> bin_err + nat" where
  "LittleEndian n s = (if n \<le> length s then Inr (unle (take n s)) else Inl Panic)"

definition bindE :: "'e + 'a \<Rightarrow> ('a \<Rightarrow> 'e + 'b) \<Rightarrow> 'e + 'b" where
  "bindE r f = (case r of Inl e \<Rightarrow> Inl e | Inr a \<Rightarrow> f a)"

lemma bindE_simps [simp]: "bindE (Inl e) f = Inl e" "bindE (Inr a) f = f a"
  by (simp_all add: bindE_def)

text \<open>A pure result on the buffer of a decoder, and \<open>b.Buf = b.Buf[n:]\<close>.\<close>

definition look :: "(bytes \<Rightarrow> bin_err + 'a) \<Rightarrow> 'a decoder" where
  "look f b = (f b, b)"

definition advance :: "int \<Rightarrow> unit decoder" where
  "advance n b = (if 0 \<le> n \<and> n \<le> int (length b) then (Inr (), drop (nat n) b) else (Inl Panic, b))"

section \<open>The buffer\<close>

definition ResetN :: "int \<Rightarrow> (bytes, bin_err, unit) prog" where
  "ResetN n b = (if n < 0 then (Inl Panic, b) else (Inr (), replicate (nat n) 0))"

definition Expand :: "int \<Rightarrow> (bytes, bin_err, unit) prog" where
  "Expand n b = (if n < 0 then (Inl Panic, b) else (Inr (), b @ replicate (nat n) 0))"

definition Skip :: "int \<Rightarrow> (bytes, bin_err, unit) prog" where
  "Skip n = advance n"

text \<open>\<open>Read k\<close> is \<open>Read(p)\<close> with \<open>len(p) = k\<close>; the value is what was copied to \<open>p\<close>.\<close>

definition Read :: "nat \<Rightarrow> (bytes, bin_err, bytes) prog" where
  "Read k b = (if k = 0 then (Inr [], b)
     else if b = [] then (Inl EndOfFile, b)
     else (Inr (take k b), drop k b))"

definition Reset :: "bytes \<Rightarrow> bytes" where "Reset b = []"
definition ResetTo :: "bytes \<Rightarrow> bytes \<Rightarrow> bytes" where "ResetTo buf b = buf"

section \<open>Encoding\<close>

definition Put :: "bytes \<Rightarrow> bytes \<Rightarrow> bytes" where
  [tl_defs]: "Put raw b = b @ raw"

definition PutUint16 :: "16 word \<Rightarrow> bytes \<Rightarrow> bytes" where
  [tl_defs]: "PutUint16 v b = b @ le 2 (unat v)"

definition PutUint32 :: "32 word \<Rightarrow> bytes \<Rightarrow> bytes" where
  [tl_defs]: "PutUint32 v b = b @ le Word (unat v)"

definition PutUint64 :: "64 word \<Rightarrow> bytes \<Rightarrow> bytes" where
  [tl_defs]: "PutUint64 v b = b @ le (Word * 2) (unat v)"

definition PutID :: "32 word \<Rightarrow> bytes \<Rightarrow> bytes" where
  [tl_defs]: "PutID ident b = PutUint32 ident b"

definition PutInt32 :: "int \<Rightarrow> bytes \<Rightarrow> bytes" where
  [tl_defs]: "PutInt32 v b = PutUint32 (word_of_int v) b"

definition PutInt :: "int \<Rightarrow> bytes \<Rightarrow> bytes" where
  [tl_defs]: "PutInt v b = PutInt32 v b"

definition PutLong :: "int \<Rightarrow> bytes \<Rightarrow> bytes" where
  [tl_defs]: "PutLong v b = PutUint64 (word_of_int v) b"

definition PutInt53 :: "int \<Rightarrow> bytes \<Rightarrow> bytes" where
  [tl_defs]: "PutInt53 v b = PutLong v b"

definition PutVectorHeader :: "int \<Rightarrow> bytes \<Rightarrow> bytes" where
  [tl_defs]: "PutVectorHeader len b = PutInt32 len (PutID TypeVector b)"

definition PutBool :: "bool \<Rightarrow> bytes \<Rightarrow> bytes" where
  [tl_defs]: "PutBool v b = (if v then PutID TypeTrue b else PutID TypeFalse b)"

definition PutInt128 :: "bytes \<Rightarrow> bytes \<Rightarrow> bytes" where
  [tl_defs]: "PutInt128 v b = b @ v"

definition PutInt256 :: "bytes \<Rightarrow> bytes \<Rightarrow> bytes" where
  [tl_defs]: "PutInt256 v b = b @ v"

definition encodeBytes :: "bytes \<Rightarrow> bytes \<Rightarrow> bytes" where
  "encodeBytes b v =
     (let l = length v in
      if l \<le> maxSmallStringLength then
        (let currentLen = l + 1 in
         b @ [word_of_nat l] @ v @ replicate (nearestPaddedValueLength currentLen - currentLen) 0)
      else
        (let currentLen = l + 4 in
         b @ [firstLongStringByte, word_of_nat l, word_of_nat (drop_bit 8 l), word_of_nat (drop_bit 16 l)]
           @ v @ replicate (nearestPaddedValueLength currentLen - currentLen) 0))"

definition encodeString :: "bytes \<Rightarrow> bytes \<Rightarrow> bytes" where
  "encodeString b v =
     (let l = length v in
      if l \<le> maxSmallStringLength then
        (let currentLen = l + 1 in
         b @ [word_of_nat l] @ v @ replicate (nearestPaddedValueLength currentLen - currentLen) 0)
      else
        (let currentLen = l + 4 in
         b @ [firstLongStringByte, word_of_nat l, word_of_nat (drop_bit 8 l), word_of_nat (drop_bit 16 l)]
           @ v @ replicate (nearestPaddedValueLength currentLen - currentLen) 0))"

definition PutBytes :: "bytes \<Rightarrow> bytes \<Rightarrow> bytes" where "PutBytes v b = encodeBytes b v"
definition PutString :: "bytes \<Rightarrow> bytes \<Rightarrow> bytes" where "PutString s b = encodeString b s"

section \<open>Decoding\<close>

definition PeekID :: "32 word decoder" where
  "PeekID b = (if length b < Word then (Inl UnexpectedEOF, b)
     else andThen (look (LittleEndian Word)) (\<lambda>v. ret (word_of_nat v)) b)"

text \<open>\<open>copy(dst, src)\<close> of Go: as many bytes as both have.\<close>

definition go_copy :: "bytes \<Rightarrow> bytes \<Rightarrow> bytes" where
  "go_copy dst src = take (length dst) src @ drop (length src) dst"

definition PeekN :: "bytes \<Rightarrow> int \<Rightarrow> bytes decoder" where
  "PeekN target n b =
     (if int (length b) < n then (Inl UnexpectedEOF, b)
      else andThen (look (\<lambda>s. go_slice s 0 n)) (\<lambda>src. ret (go_copy target src)) b)"

definition ConsumeN :: "bytes \<Rightarrow> int \<Rightarrow> bytes decoder" where
  "ConsumeN target n =
     andThen (PeekN target n) (\<lambda>t. andThen (advance n) (\<lambda>_. ret t))"

definition Uint32 :: "32 word decoder" where
  "Uint32 = andThen PeekID (\<lambda>v. andThen (advance (int Word)) (\<lambda>_. ret v))"

definition ID :: "32 word decoder" where
  [tl_defs]: "ID = Uint32"

definition Uint64 :: "64 word decoder" where
  "Uint64 b = (if length b < Word * 2 then (Inl UnexpectedEOF, b)
     else andThen (look (LittleEndian (Word * 2))) (\<lambda>v.
            andThen (advance (int (Word * 2))) (\<lambda>_. ret (word_of_nat v))) b)"

definition Int32 :: "int decoder" where
  [tl_defs]: "Int32 = andThen Uint32 (\<lambda>v. ret (sint v))"

definition Int_buf :: "int decoder" where
  [tl_defs]: "Int_buf = andThen Int32 (\<lambda>v. ret v)"

definition Long :: "int decoder" where
  [tl_defs]: "Long = andThen Uint64 (\<lambda>v. ret (sint v))"

definition Int53 :: "int decoder" where
  [tl_defs]: "Int53 = Long"

definition Bool :: "bool decoder" where
  "Bool = andThen PeekID (\<lambda>v.
     if v = TypeTrue then andThen (advance (int Word)) (\<lambda>_. ret True)
     else if v = TypeFalse then andThen (advance (int Word)) (\<lambda>_. ret False)
     else fail (UnexpectedIDErr v))"

definition ConsumeID :: "32 word \<Rightarrow> unit decoder" where
  "ConsumeID ident = andThen PeekID (\<lambda>v.
     if v \<noteq> ident then fail (UnexpectedIDErr v) else advance (int Word))"

definition VectorHeader :: "int decoder" where
  "VectorHeader = andThen (ConsumeID TypeVector) (\<lambda>_.
     andThen Int_buf (\<lambda>n. if n < 0 then fail (InvalidLengthError n ''vector'') else ret n))"

definition decodeBytes :: "bytes \<Rightarrow> bin_err + nat \<times> bytes" where
  "decodeBytes b =
     (if length b = 0 then Inl UnexpectedEOF
      else bindE (go_at b 0) (\<lambda>b0.
        if b0 = firstLongStringByte then
          (if length b < 4 then Inl UnexpectedEOF
           else bindE (go_at b 1) (\<lambda>b1. bindE (go_at b 2) (\<lambda>b2. bindE (go_at b 3) (\<lambda>b3.
             let strLen = (ucast b1 :: 32 word) OR push_bit 8 (ucast b2) OR push_bit 16 (ucast b3) in
             if length b < unat strLen + 4 then Inl UnexpectedEOF
             else bindE (go_slice b 4 (int (unat strLen) + 4)) (\<lambda>v.
               Inr (nearestPaddedValueLength (unat strLen + 4), v))))))
        else
          (let strLen = unat b0 in
           if length b < strLen + 1 then Inl UnexpectedEOF
           else if strLen > maxSmallStringLength then Inl (InvalidLengthError (int strLen) ''bytes'')
           else bindE (go_slice b 1 (int strLen + 1)) (\<lambda>v. Inr (nearestPaddedValueLength (strLen + 1), v)))))"

definition decodeString :: "bytes \<Rightarrow> bin_err + nat \<times> bytes" where
  "decodeString b =
     (if length b = 0 then Inl UnexpectedEOF
      else bindE (go_at b 0) (\<lambda>b0.
        if b0 = firstLongStringByte then
          (if length b < 4 then Inl UnexpectedEOF
           else bindE (go_at b 1) (\<lambda>b1. bindE (go_at b 2) (\<lambda>b2. bindE (go_at b 3) (\<lambda>b3.
             let strLen = (ucast b1 :: 32 word) OR push_bit 8 (ucast b2) OR push_bit 16 (ucast b3) in
             if length b < unat strLen + 4 then Inl UnexpectedEOF
             else bindE (go_slice b 4 (int (unat strLen) + 4)) (\<lambda>v.
               Inr (nearestPaddedValueLength (unat strLen + 4), v))))))
        else
          (let strLen = unat b0 in
           if length b < strLen + 1 then Inl UnexpectedEOF
           else if strLen > maxSmallStringLength then Inl (InvalidLengthError (int strLen) ''string'')
           else bindE (go_slice b 1 (int strLen + 1)) (\<lambda>v. Inr (nearestPaddedValueLength (strLen + 1), v)))))"

definition Bytes :: "bytes decoder" where
  "Bytes b = (case decodeBytes b of Inl e \<Rightarrow> (Inl e, b)
     | Inr (n, v) \<Rightarrow> if length b < n then (Inl UnexpectedEOF, b) else andThen (advance (int n)) (\<lambda>_. ret v) b)"

definition String :: "bytes decoder" where
  "String b = (case decodeString b of Inl e \<Rightarrow> (Inl e, b)
     | Inr (n, v) \<Rightarrow> if length b < n then (Inl UnexpectedEOF, b) else andThen (advance (int n)) (\<lambda>_. ret v) b)"

definition Int128 :: "bytes decoder" where
  "Int128 b = (if length b < 16 then (Inl UnexpectedEOF, b)
     else andThen (look (\<lambda>s. go_slice s 0 16)) (\<lambda>src.
            andThen (advance 16) (\<lambda>_. ret (go_copy (replicate 16 0) src))) b)"

definition Int256 :: "bytes decoder" where
  "Int256 b = (if length b < 32 then (Inl UnexpectedEOF, b)
     else andThen (look (\<lambda>s. go_slice s 0 32)) (\<lambda>src.
            andThen (advance 32) (\<lambda>_. ret (go_copy (replicate 32 0) src))) b)"

section \<open>What the length checks give\<close>

text \<open>Behind its check of the length each read stays within the buffer: no panic is left in these
  equations, except for a negative count that a caller gives.\<close>

named_theorems slices \<open>slices, reads and moves as functions of the buffer\<close>

lemmas [slices] = andThen_def ret_def fail_def look_def LittleEndian_def advance_def go_slice_def go_copy_def

lemma Skip_eq: "Skip n b = (if 0 \<le> n \<and> n \<le> int (length b) then (Inr (), drop (nat n) b) else (Inl Panic, b))"
  by (simp add: Skip_def advance_def)

lemma PeekID_eq [tl_defs]:
  "PeekID b = (if length b < Word then (Inl UnexpectedEOF, b) else (Inr (word_of_nat (unle (take Word b))), b))"
  by (simp add: PeekID_def slices)

lemma PeekN_eq: "PeekN target n b =
    (if int (length b) < n then (Inl UnexpectedEOF, b)
     else if n < 0 then (Inl Panic, b) else (Inr (go_copy target (take (nat n) b)), b))"
  by (simp add: PeekN_def slices)

lemma ConsumeN_eq: "ConsumeN target n = andThen (PeekN target n) (\<lambda>t b. (Inr t, drop (nat n) b))"
  by (intro ext) (simp add: ConsumeN_def PeekN_eq slices)

lemma Uint32_eq [tl_defs]: "Uint32 = andThen PeekID (\<lambda>v b. (Inr v, drop Word b))"
  by (intro ext) (simp add: Uint32_def PeekID_eq slices)

lemma Uint64_eq [tl_defs]:
  "Uint64 b = (if length b < Word * 2 then (Inl UnexpectedEOF, b)
     else (Inr (word_of_nat (unle (take (Word * 2) b))), drop (Word * 2) b))"
  by (simp add: Uint64_def slices)

lemma Bool_eq: "Bool = andThen PeekID (\<lambda>v b.
     if v = TypeTrue then (Inr True, drop Word b)
     else if v = TypeFalse then (Inr False, drop Word b)
     else (Inl (UnexpectedIDErr v), b))"
  by (intro ext) (simp add: Bool_def PeekID_eq slices)

lemma ConsumeID_eq: "ConsumeID ident = andThen PeekID (\<lambda>v b.
     if v \<noteq> ident then (Inl (UnexpectedIDErr v), b) else (Inr (), drop Word b))"
  by (intro ext) (simp add: ConsumeID_def PeekID_eq slices)

lemma go_slice_within:
  "4 + l \<le> length s \<Longrightarrow> go_slice s 4 (4 + int l) = Inr (take l (drop 4 s))"
  "1 + l \<le> length s \<Longrightarrow> go_slice s 1 (1 + int l) = Inr (take l (drop 1 s))"
  by (simp_all add: go_slice_def drop_take nat_add_distrib)

lemma decodeBytes_eq: "decodeBytes b = (case b of [] \<Rightarrow> Inl UnexpectedEOF
   | b0 # _ \<Rightarrow>
       if b0 = firstLongStringByte then
         (if length b < 4 then Inl UnexpectedEOF
          else let strLen = (ucast (b ! 1) :: 32 word) OR push_bit 8 (ucast (b ! 2)) OR push_bit 16 (ucast (b ! 3)) in
            if length b < unat strLen + 4 then Inl UnexpectedEOF
            else Inr (nearestPaddedValueLength (unat strLen + 4), take (unat strLen) (drop 4 b)))
       else let strLen = unat b0 in
         if length b < strLen + 1 then Inl UnexpectedEOF
         else if strLen > maxSmallStringLength then Inl (InvalidLengthError (int strLen) ''bytes'')
         else Inr (nearestPaddedValueLength (strLen + 1), take strLen (drop 1 b)))"
proof (cases b)
  case (Cons b0 bs)
  show ?thesis
    by (auto simp: decodeBytes_def go_at_def Let_def go_slice_within Cons ac_simps simp del: take_Suc_Cons drop_Suc_Cons of_nat_unat)
qed (simp add: decodeBytes_def)

lemma decodeString_eq: "decodeString b = (case b of [] \<Rightarrow> Inl UnexpectedEOF
   | b0 # _ \<Rightarrow>
       if b0 = firstLongStringByte then
         (if length b < 4 then Inl UnexpectedEOF
          else let strLen = (ucast (b ! 1) :: 32 word) OR push_bit 8 (ucast (b ! 2)) OR push_bit 16 (ucast (b ! 3)) in
            if length b < unat strLen + 4 then Inl UnexpectedEOF
            else Inr (nearestPaddedValueLength (unat strLen + 4), take (unat strLen) (drop 4 b)))
       else let strLen = unat b0 in
         if length b < strLen + 1 then Inl UnexpectedEOF
         else if strLen > maxSmallStringLength then Inl (InvalidLengthError (int strLen) ''string'')
         else Inr (nearestPaddedValueLength (strLen + 1), take strLen (drop 1 b)))"
proof (cases b)
  case (Cons b0 bs)
  show ?thesis
    by (auto simp: decodeString_def go_at_def Let_def go_slice_within Cons ac_simps simp del: take_Suc_Cons drop_Suc_Cons of_nat_unat)
qed (simp add: decodeString_def)

lemma Bytes_eq: "Bytes b = (case decodeBytes b of Inl e \<Rightarrow> (Inl e, b)
     | Inr (n, v) \<Rightarrow> if length b < n then (Inl UnexpectedEOF, b) else (Inr v, drop n b))"
  by (simp add: Bytes_def slices split: sum.split)

lemma String_eq: "String b = (case decodeString b of Inl e \<Rightarrow> (Inl e, b)
     | Inr (n, v) \<Rightarrow> if length b < n then (Inl UnexpectedEOF, b) else (Inr v, drop n b))"
  by (simp add: String_def slices split: sum.split)

lemma Int128_eq: "Int128 b = (if length b < 16 then (Inl UnexpectedEOF, b) else (Inr (take 16 b), drop 16 b))"
  by (simp add: Int128_def slices)

lemma Int256_eq: "Int256 b = (if length b < 32 then (Inl UnexpectedEOF, b) else (Inr (take 32 b), drop 32 b))"
  by (simp add: Int256_def slices)

section \<open>Conditional-field flags\<close>

type_synonym fields = "32 word"

definition Zero :: "fields \<Rightarrow> bool" where "Zero f \<longleftrightarrow> f = 0"
definition Has :: "fields \<Rightarrow> nat \<Rightarrow> bool" where "Has f n \<longleftrightarrow> f AND push_bit n 1 \<noteq> 0"
definition Unset :: "fields \<Rightarrow> nat \<Rightarrow> fields" where "Unset f n = f AND NOT (push_bit n 1)"
definition Set :: "fields \<Rightarrow> nat \<Rightarrow> fields" where "Set f n = f OR push_bit n 1"
definition Fields_Encode :: "fields \<Rightarrow> bytes \<Rightarrow> bytes" where "Fields_Encode f b = PutUint32 f b"
definition Fields_Decode :: "fields decoder" where
  "Fields_Decode = andThen Int32 (\<lambda>v. ret (word_of_int v))"

section \<open>The interface of a serialised type\<close>

text \<open>
  What every pair \<open>PutX\<close> / \<open>X\<close> of the package promises: the encoder appends to the buffer,
  the decoder reads back what the encoder wrote and leaves the bytes after it.  A primitive
  decoder moreover is safe on any input: it either fails without a panic and without consuming
  anything, or consumes a prefix.
\<close>

locale tl_type =
  fixes put :: "'a \<Rightarrow> bytes \<Rightarrow> bytes" and get :: "'a decoder" and valid :: "'a \<Rightarrow> bool"
  assumes put_append: "put x b = b @ put x []"
    and get_put: "valid x \<Longrightarrow> get (put x [] @ rest) = (Inr x, rest)"
begin

lemma put_prefix_free:
  assumes "valid x" "valid y" "put x [] @ r = put y [] @ s"
  shows "x = y \<and> r = s"
  using get_put[OF assms(1), of r] get_put[OF assms(2), of s] unfolding assms(3) by simp

lemma put_inj: "valid x \<Longrightarrow> valid y \<Longrightarrow> put x b = put y b \<Longrightarrow> x = y"
  using put_prefix_free[of x y "[]" "[]"] by (metis put_append same_append_eq append_Nil2)

lemma get_put_buf: "valid x \<Longrightarrow> get (drop (length b) (put x b) @ rest) = (Inr x, rest)"
  by (subst put_append) (simp add: get_put)

end

text \<open>A counted loop of decodes, as the decoders of containers and vectors have it.\<close>

primrec get_loop :: "nat \<Rightarrow> 'a decoder \<Rightarrow> 'a list decoder" where
  "get_loop 0 get = ret []"
| "get_loop (Suc n) get = andThen get (\<lambda>x. andThen (get_loop n get) (\<lambda>xs. ret (x # xs)))"

context tl_type
begin

lemma fold_put: "fold put xs b = b @ concat (map (\<lambda>x. put x []) xs)"
proof (induction xs arbitrary: b)
  case Nil
  then show ?case by simp
next
  case (Cons x xs)
  have "fold put xs (put x b) = put x b @ concat (map (\<lambda>x. put x []) xs)"
    by (rule Cons)
  then show ?case by (simp add: put_append[of x b])
qed

lemma get_loop_fold_put:
  assumes "\<forall>x\<in>set xs. valid x"
  shows "get_loop (length xs) get (fold put xs [] @ rest) = (Inr xs, rest)"
  using assms
proof (induction xs)
  case Nil
  then show ?case by (simp add: ret_def)
next
  case (Cons x xs)
  have "fold put (x # xs) [] @ rest = put x [] @ (fold put xs [] @ rest)"
    by (simp add: fold_put)
  then have "get (fold put (x # xs) [] @ rest) = (Inr x, fold put xs [] @ rest)"
    using get_put[of x] Cons.prems by simp
  with Cons show ?case by (simp add: ret_def)
qed

end

locale tl_prim = tl_type +
  assumes get_fail: "get b = (Inl e, b') \<Longrightarrow> e \<noteq> Panic \<and> b' = b"
    and get_consumes: "get b = (Inr x, b') \<Longrightarrow> \<exists>n. b' = drop n b"
begin

lemma get_length: "get b = (r, b') \<Longrightarrow> length b' \<le> length b"
  by (cases r) (auto dest: get_fail get_consumes)

text \<open>Neither does a loop of primitive reads, though it may stop in the middle.\<close>

lemma get_loop_no_panic: "get_loop n get b = (Inl e, b') \<Longrightarrow> e \<noteq> Panic"
proof (induction n arbitrary: b)
  case 0
  then show ?case by (simp add: ret_def)
next
  case (Suc n)
  then show ?case
    by (auto simp: andThen_eq_Inl_iff ret_def dest: get_fail)
qed

end

section \<open>The primitives keep the interface\<close>

abbreviation int32_range :: "int \<Rightarrow> bool" where "int32_range v \<equiv> - (2 ^ 31) \<le> v \<and> v < 2 ^ 31"
abbreviation int64_range :: "int \<Rightarrow> bool" where "int64_range v \<equiv> - (2 ^ 63) \<le> v \<and> v < 2 ^ 63"

lemma sint_word_of_int32: "int32_range v \<Longrightarrow> sint (word_of_int v :: 32 word) = v"
  by (simp add: signed_of_int signed_take_bit_int_eq_self)

lemma sint_word_of_int64: "int64_range v \<Longrightarrow> sint (word_of_int v :: 64 word) = v"
  by (simp add: signed_of_int signed_take_bit_int_eq_self)

lemma nearestPaddedValueLength_ge: "l \<le> nearestPaddedValueLength l"
  by (simp add: nearestPaddedValueLength_def Let_def) linarith

lemma nearestPaddedValueLength_dvd: "Word dvd nearestPaddedValueLength l"
  by (simp add: nearestPaddedValueLength_def Let_def dvd_add)

lemma nearestPaddedValueLength_less: "nearestPaddedValueLength l < l + Word"
  by (simp add: nearestPaddedValueLength_def Let_def) linarith

interpretation uint32: tl_prim PutUint32 Uint32 "\<lambda>_. True"
  by unfold_locales (auto simp: tl_defs andThen_def split: if_splits)

interpretation uint64: tl_prim PutUint64 Uint64 "\<lambda>_. True"
  by unfold_locales (auto simp: tl_defs split: if_splits)

interpretation typeid: tl_prim PutID ID "\<lambda>_. True"
  by unfold_locales (auto simp: tl_defs andThen_def split: if_splits)

interpretation int32: tl_prim PutInt32 Int32 int32_range
  by unfold_locales
    (auto simp: tl_defs andThen_def ret_def sint_word_of_int32 split: if_splits)

interpretation tl_int: tl_prim PutInt Int_buf int32_range
  by unfold_locales
    (auto simp: tl_defs andThen_def ret_def sint_word_of_int32 split: if_splits)

interpretation long: tl_prim PutLong Long int64_range
  by unfold_locales
    (auto simp: tl_defs andThen_def ret_def sint_word_of_int64 split: if_splits)

interpretation int53: tl_prim PutInt53 Int53 int64_range
  by unfold_locales
    (auto simp: tl_defs andThen_def ret_def sint_word_of_int64 split: if_splits)

lemma TypeTrue_neq_TypeFalse [simp]: "TypeTrue \<noteq> TypeFalse" "TypeFalse \<noteq> TypeTrue"
  by (simp_all add: TypeTrue_def TypeFalse_def)

lemma length_PutUint32 [simp]: "length (PutUint32 v []) = Word"
  by (simp add: PutUint32_def)

lemma PeekID_PutUint32 [simp]: "PeekID (PutUint32 v [] @ rest) = (Inr v, PutUint32 v [] @ rest)"
  by (simp add: PutUint32_def PeekID_eq)

lemma drop_PutUint32 [simp]: "drop Word (PutUint32 v [] @ rest) = rest"
  by (simp add: PutUint32_def)

interpretation tl_bool: tl_prim PutBool Bool "\<lambda>_. True"
proof
  show "PutBool x b = b @ PutBool x []" for x b
    by (simp add: tl_defs)
  show "Bool (PutBool x [] @ rest) = (Inr x, rest)" for x rest
    by (simp add: Bool_eq PutBool_def PutID_def)
  show "Bool b = (Inl e, b') \<Longrightarrow> e \<noteq> Panic \<and> b' = b" for b e b'
    by (auto simp: Bool_eq PeekID_eq andThen_def split: if_splits)
  show "Bool b = (Inr x, b') \<Longrightarrow> \<exists>n. b' = drop n b" for b x b'
    by (auto simp: Bool_eq PeekID_eq andThen_def split: if_splits)
qed

interpretation int128: tl_prim PutInt128 Int128 "\<lambda>v. length v = 16"
  by unfold_locales (auto simp: PutInt128_def Int128_eq split: if_splits)

interpretation int256: tl_prim PutInt256 Int256 "\<lambda>v. length v = 32"
  by unfold_locales (auto simp: PutInt256_def Int256_eq split: if_splits)

interpretation fields: tl_prim Fields_Encode Fields_Decode "\<lambda>_. True"
  by unfold_locales
    (auto simp: Fields_Encode_def Fields_Decode_def tl_defs andThen_def ret_def split: if_splits)

section \<open>Byte strings\<close>

lemma length_encodeBytes:
  "length (encodeBytes [] v) =
     nearestPaddedValueLength (length v + (if length v \<le> maxSmallStringLength then 1 else 4))"
  using nearestPaddedValueLength_ge[of "length v + 1"] nearestPaddedValueLength_ge[of "length v + 4"]
  by (auto simp: encodeBytes_def Let_def)

lemma drop_bit_8_16: "drop_bit 8 (l :: nat) = l div 256" "drop_bit 16 (l :: nat) = l div 65536"
  by (simp_all add: drop_bit_eq_div)

lemma decode_long_length:
  assumes "l < 2 ^ 24"
  shows "unat ((ucast (word_of_nat l :: byte) :: 32 word) OR push_bit 8 (ucast (word_of_nat (drop_bit 8 l) :: byte))
     OR push_bit 16 (ucast (word_of_nat (drop_bit 16 l) :: byte))) = l"
proof -
  have "[word_of_nat l, word_of_nat (drop_bit 8 l), word_of_nat (drop_bit 16 l)] = le 3 l"
    by (simp add: numeral_3_eq_3 drop_bit_8_16 flip: div_mult2_eq)
  then have "unle [word_of_nat l, word_of_nat (drop_bit 8 l), word_of_nat (drop_bit 16 l)] = l mod 256 ^ 3"
    by (simp only: unle_le)
  also have "\<dots> = l" using assms by (intro mod_less) simp
  finally show ?thesis by (simp only: unat_or_shift24)
qed

lemma unat_firstLongStringByte: "unat firstLongStringByte = 254"
  by (simp add: firstLongStringByte_def)

lemma decodeBytes_encodeBytes:
  assumes "length v < 2 ^ 24"
  shows "decodeBytes (encodeBytes [] v @ rest) = Inr (length (encodeBytes [] v), v)"
proof (cases "length v \<le> maxSmallStringLength")
  case True
  then have small: "length v \<le> 253" by (simp add: maxSmallStringLength_def)
  then have l: "unat (word_of_nat (length v) :: byte) = length v"
    by (simp only: unat_byte_of_nat) simp
  then have ne: "(word_of_nat (length v) :: byte) \<noteq> firstLongStringByte"
    using small unat_firstLongStringByte by force
  obtain p where enc: "encodeBytes [] v = word_of_nat (length v) # v @ replicate p 0"
    using True by (simp add: encodeBytes_def Let_def)
  have "decodeBytes (encodeBytes [] v @ rest) = Inr (nearestPaddedValueLength (length v + 1), v)"
    using True by (simp add: enc decodeBytes_eq Let_def ne l)
  then show ?thesis using True by (simp add: length_encodeBytes)
next
  case False
  define h where "h = [firstLongStringByte, word_of_nat (length v), word_of_nat (drop_bit 8 (length v)),
    word_of_nat (drop_bit 16 (length v))]"
  obtain p where enc: "encodeBytes [] v = h @ v @ replicate p 0"
    using False by (simp add: encodeBytes_def Let_def h_def)
  have "decodeBytes (encodeBytes [] v @ rest) = Inr (nearestPaddedValueLength (length v + 4), v)"
    using decode_long_length[OF assms] by (simp add: enc decodeBytes_eq Let_def h_def)
  then show ?thesis using False by (simp add: length_encodeBytes)
qed

lemma decodeBytes_fail: "decodeBytes b = Inl e \<Longrightarrow> e \<noteq> Panic"
  by (auto simp: decodeBytes_eq Let_def split: list.splits if_splits)

interpretation tl_bytes: tl_prim PutBytes Bytes "\<lambda>v. length v < 2 ^ 24"
proof
  show "PutBytes x b = b @ PutBytes x []" for x b
    by (simp add: PutBytes_def encodeBytes_def Let_def)
  show "Bytes (PutBytes x [] @ rest) = (Inr x, rest)" if "length x < 2 ^ 24" for x rest
    using decodeBytes_encodeBytes[OF that, of rest] by (simp add: Bytes_eq PutBytes_def)
  show "Bytes b = (Inl e, b') \<Longrightarrow> e \<noteq> Panic \<and> b' = b" for b e b'
    by (auto simp: Bytes_eq dest: decodeBytes_fail split: sum.splits if_splits)
  show "Bytes b = (Inr x, b') \<Longrightarrow> \<exists>n. b' = drop n b" for b x b'
    by (auto simp: Bytes_eq split: sum.splits if_splits)
qed

text \<open>Strings are the same routine up to the name in the error.\<close>

lemma PutString_eq: "PutString = PutBytes"
  by (intro ext) (simp add: PutString_def PutBytes_def encodeString_def encodeBytes_def)

lemma decodeString_decodeBytes:
  "decodeString b = (case decodeBytes b of
     Inl (InvalidLengthError n w) \<Rightarrow> Inl (InvalidLengthError n ''string'') | r \<Rightarrow> r)"
  by (simp add: decodeString_eq decodeBytes_eq Let_def split: list.split)

interpretation tl_string: tl_prim PutString String "\<lambda>v. length v < 2 ^ 24"
proof
  show "PutString x b = b @ PutString x []" for x b
    unfolding PutString_eq by (rule tl_bytes.put_append)
  show "String (PutString x [] @ rest) = (Inr x, rest)" if "length x < 2 ^ 24" for x rest
    using decodeBytes_encodeBytes[OF that, of rest]
    by (simp add: String_eq decodeString_decodeBytes PutString_eq PutBytes_def)
  show "String b = (Inl e, b') \<Longrightarrow> e \<noteq> Panic \<and> b' = b" for b e b'
    by (auto simp: String_eq decodeString_decodeBytes dest: decodeBytes_fail split: sum.splits bin_err.splits if_splits)
  show "String b = (Inr x, b') \<Longrightarrow> \<exists>n. b' = drop n b" for b x b'
    by (auto simp: String_eq split: sum.splits if_splits)
qed

lemma length_PutBytes: "4 dvd length (PutBytes x [])" "length (PutBytes x []) < length x + 8"
proof -
  have "4 dvd nearestPaddedValueLength n" for n using nearestPaddedValueLength_dvd[of n] by simp
  then show "4 dvd length (PutBytes x [])" "length (PutBytes x []) < length x + 8"
    using nearestPaddedValueLength_less[of "length x + 1"] nearestPaddedValueLength_less[of "length x + 4"]
    by (simp_all add: PutBytes_def length_encodeBytes)
qed

section \<open>Properties\<close>

text \<open>a TL vector of byte strings survives the wire: what \<open>PutVectorHeader\<close> and \<open>PutBytes\<close>
  write is read back by \<open>VectorHeader\<close> and a loop of \<open>Bytes\<close>, element by element, with the
  bytes that follow left in the buffer, for strings below 16 MiB; and each string takes a
  multiple of four bytes, less than eight more than it has.\<close>

theorem vector_of_bytes_roundtrip:
  assumes "\<forall>x \<in> set xs. length x < 2 ^ 24" "length xs < 2 ^ 31"
  shows "andThen VectorHeader (\<lambda>n. get_loop (nat n) Bytes) (fold PutBytes xs (PutVectorHeader (int (length xs)) []) @ rest) =
      (Inr xs, rest) \<and>
    (\<forall>x \<in> set xs. 4 dvd length (PutBytes x []) \<and> length (PutBytes x []) < length x + 8)"
proof
  have "fold PutBytes xs (PutVectorHeader (int (length xs)) []) @ rest =
      PutID TypeVector [] @ PutInt32 (int (length xs)) [] @ (fold PutBytes xs [] @ rest)"
    by (simp add: tl_bytes.fold_put PutVectorHeader_def int32.put_append[of _ "PutID TypeVector []"])
  moreover have "ConsumeID TypeVector (PutID TypeVector [] @ r) = (Inr (), r)" for r
    by (simp add: ConsumeID_eq PutID_def)
  moreover have "Int_buf (PutInt32 (int (length xs)) [] @ r) = (Inr (int (length xs)), r)" for r
    using tl_int.get_put[of "int (length xs)" r] assms(2) by (simp add: PutInt_def)
  ultimately show "andThen VectorHeader (\<lambda>n. get_loop (nat n) Bytes)
      (fold PutBytes xs (PutVectorHeader (int (length xs)) []) @ rest) = (Inr xs, rest)"
    using tl_bytes.get_loop_fold_put[OF assms(1), of rest] by (simp add: VectorHeader_def andThen_def ret_def)
  show "\<forall>x \<in> set xs. 4 dvd length (PutBytes x []) \<and> length (PutBytes x []) < length x + 8"
    using length_PutBytes by blast
qed

theorem vector_of_bytes_roundtrip_witness:
  "andThen VectorHeader (\<lambda>n. get_loop (nat n) Bytes)
     (fold PutBytes [[1, 2, 3], replicate 300 7] (PutVectorHeader 2 []) @ [9]) = (Inr [[1, 2, 3], replicate 300 7], [9])"
  using vector_of_bytes_roundtrip[of "[[1, 2, 3], replicate 300 7]" "[9]"] by simp

definition safe_read :: "'a decoder \<Rightarrow> bytes \<Rightarrow> bool" where
  "safe_read get b = (case get b of (Inl e, b') \<Rightarrow> e \<noteq> Panic \<and> b' = b | (Inr _, b') \<Rightarrow> \<exists>n. b' = drop n b)"

context tl_prim
begin

lemma safe: "safe_read get b"
  using get_fail get_consumes by (auto simp: safe_read_def split: prod.split sum.split)

end

text \<open>A read of fixed width: it fails on a shorter buffer, and otherwise takes exactly its bytes.\<close>

definition fixed_read :: "nat \<Rightarrow> 'a decoder \<Rightarrow> bytes \<Rightarrow> bool" where
  "fixed_read k get b \<longleftrightarrow>
     (if length b < k then get b = (Inl UnexpectedEOF, b) else \<exists>x. get b = (Inr x, drop k b))"

text \<open>C39: no decoder of the buffer trusts its input.  On any bytes a read returns an error, never a
  panic, and leaves the buffer as it was, or consumes a prefix; a read of fixed width, or of a
  number of bytes that is not negative, fails exactly on a shorter buffer.  Only the
  header of a vector may fail after it has taken its identifier, or identifier and length: it then
  leaves what follows them, without a panic, and a length it returns is not negative.\<close>

theorem decoders_are_safe:
  "fixed_read 4 Uint32 b \<and> fixed_read 4 ID b \<and> fixed_read 4 Int32 b \<and> fixed_read 4 Int_buf b \<and>
   fixed_read 4 Fields_Decode b \<and> fixed_read 8 Uint64 b \<and> fixed_read 8 Long b \<and> fixed_read 8 Int53 b \<and>
   fixed_read 16 Int128 b \<and> fixed_read 32 Int256 b \<and> fixed_read n (ConsumeN target (int n)) b \<and>
   safe_read PeekID b \<and> safe_read (PeekN target (int n)) b \<and> safe_read Bool b \<and> safe_read (ConsumeID i) b \<and>
   safe_read Bytes b \<and> safe_read String b \<and>
   (case VectorHeader b of
      (Inl e, b') \<Rightarrow> e \<noteq> Panic \<and> b' \<in> {b, drop 4 b, drop 8 b}
    | (Inr k, b') \<Rightarrow> 0 \<le> k \<and> 8 \<le> length b \<and> b' = drop 8 b)"
proof -
  have "safe_read PeekID b" "safe_read (PeekN target (int n)) b" "safe_read (ConsumeID i) b"
    by (auto simp: safe_read_def PeekID_eq PeekN_eq ConsumeID_eq andThen_def intro: exI[of _ 0])
  moreover have "fixed_read 4 Uint32 b" "fixed_read 4 ID b" "fixed_read 4 Int32 b" "fixed_read 4 Int_buf b"
    "fixed_read 4 Fields_Decode b" "fixed_read 8 Uint64 b" "fixed_read 8 Long b" "fixed_read 8 Int53 b"
    by (simp_all add: fixed_read_def Fields_Decode_def tl_defs andThen_def ret_def)
  moreover have "fixed_read 16 Int128 b" "fixed_read 32 Int256 b" "fixed_read n (ConsumeN target (int n)) b"
    by (simp_all add: fixed_read_def Int128_eq Int256_eq ConsumeN_eq PeekN_eq andThen_def)
  moreover have "case VectorHeader b of
      (Inl e, b') \<Rightarrow> e \<noteq> Panic \<and> b' \<in> {b, drop 4 b, drop 8 b}
    | (Inr k, b') \<Rightarrow> 0 \<le> k \<and> 8 \<le> length b \<and> b' = drop 8 b"
    by (auto simp: VectorHeader_def ConsumeID_eq tl_defs andThen_def ret_def fail_def)
  ultimately show ?thesis by (simp add: tl_bool.safe tl_bytes.safe tl_string.safe)
qed

text \<open>the encoder of byte strings does not check the length it can express: a string of 16 MiB
  or more is written with its length modulo 2^24 and read back truncated to that.\<close>

theorem long_bytes_truncated:
  assumes "2 ^ 24 \<le> length v"
  shows "fst (Bytes (PutBytes v [] @ rest)) = Inr (take (length v mod 2 ^ 24) v) \<and>
    take (length v mod 2 ^ 24) v \<noteq> v"
proof
  define l where "l = length v"
  define h where "h = [firstLongStringByte, word_of_nat l, word_of_nat (drop_bit 8 l), word_of_nat (drop_bit 16 l)]"
  have big: "\<not> length v \<le> maxSmallStringLength" using assms by (simp add: maxSmallStringLength_def)
  obtain p where enc: "encodeBytes [] v = h @ v @ replicate p 0"
    using big by (simp add: encodeBytes_def Let_def h_def l_def)
  have "[word_of_nat l, word_of_nat (drop_bit 8 l), word_of_nat (drop_bit 16 l)] = le 3 l"
    by (simp add: numeral_3_eq_3 drop_bit_8_16 flip: div_mult2_eq)
  then have "unle [word_of_nat l, word_of_nat (drop_bit 8 l), word_of_nat (drop_bit 16 l)] = l mod 256 ^ 3"
    by (simp only: unle_le)
  then have len: "unat ((ucast (word_of_nat l :: byte) :: 32 word) OR push_bit 8 (ucast (word_of_nat (drop_bit 8 l) :: byte))
     OR push_bit 16 (ucast (word_of_nat (drop_bit 16 l) :: byte))) = l mod 2 ^ 24"
    by (simp only: unat_or_shift24) simp
  have le: "l mod 2 ^ 24 \<le> l" by simp
  have lt: "l mod 2 ^ 24 < 2 ^ 24" by simp
  have dec: "decodeBytes (PutBytes v [] @ rest) = Inr (nearestPaddedValueLength (l mod 2 ^ 24 + 4), take (l mod 2 ^ 24) v)"
    using len le by (simp add: PutBytes_def enc decodeBytes_eq Let_def h_def l_def del: One_nat_def)
  have "nearestPaddedValueLength (l mod 2 ^ 24 + 4) < l mod 2 ^ 24 + 8"
    using nearestPaddedValueLength_less[of "l mod 2 ^ 24 + 4"] by simp
  moreover have "2 ^ 24 + l mod 2 ^ 24 \<le> l"
  proof -
    have "1 \<le> l div 2 ^ 24" using assms by (simp add: l_def)
    then have "2 ^ 24 * 1 + l mod 2 ^ 24 \<le> 2 ^ 24 * (l div 2 ^ 24) + l mod 2 ^ 24" by (intro add_mono mult_le_mono2) simp_all
    then show ?thesis by simp
  qed
  ultimately have "nearestPaddedValueLength (l mod 2 ^ 24 + 4) \<le> length (PutBytes v [] @ rest)"
    by (simp add: PutBytes_def enc h_def l_def)
  with dec show "fst (Bytes (PutBytes v [] @ rest)) = Inr (take (length v mod 2 ^ 24) v)"
    by (simp add: Bytes_eq l_def)
  show "take (length v mod 2 ^ 24) v \<noteq> v"
    using lt assms l_def by (metis length_take min.absorb2 le not_less)
qed

theorem long_bytes_truncated_witness:
  "fst (Bytes (PutBytes (replicate (2 ^ 24 + 3) 1) [] @ [])) = Inr (take 3 (replicate (2 ^ 24 + 3) 1))"
  using long_bytes_truncated[of "replicate (2 ^ 24 + 3) 1" "[]"] by (simp del: replicate.simps)

text \<open>the flag word of conditional fields behaves as a set of 32 bits: \<open>Set\<close> adds exactly its
  bit, \<open>Unset\<close> removes exactly its bit, and a written flag word is read back.\<close>

theorem fields_as_set:
  assumes "n < 32" "m < 32"
  shows "(Has (Set f n) m \<longleftrightarrow> m = n \<or> Has f m) \<and> (Has (Unset f n) m \<longleftrightarrow> m \<noteq> n \<and> Has f m) \<and>
    (Zero f \<longleftrightarrow> (\<forall>k < 32. \<not> Has f k)) \<and> Fields_Decode (Fields_Encode f [] @ rest) = (Inr f, rest)"
proof -
  have has: "Has g k \<longleftrightarrow> bit g k" for g k
    by (simp add: Has_def bit_iff_and_push_bit_not_eq_0)
  have "Zero f \<longleftrightarrow> (\<forall>k < 32. \<not> bit f k)" by (auto simp: Zero_def intro: bit_eqI)
  then show ?thesis
    using assms fields.get_put[of f rest]
    by (auto simp: has Set_def Unset_def bit_or_iff bit_and_iff bit_not_iff bit_push_bit_iff bit_1_iff bit_exp_iff)
qed

theorem fields_as_set_witness:
  "Has (Set 0 5) 5 \<and> \<not> Has (Set 0 5) 4 \<and> \<not> Has (Unset 32 5) 5"
  using fields_as_set[of 5 5 0] fields_as_set[of 5 4 0] fields_as_set[of 5 5 32]
  by (simp add: Has_def)

end
