(* ===== verification/Codec.thy ===== *)
theory Codec
  imports TLBuffer
begin

text \<open>
  The MTProto transport codecs, \<open>pkg/gotd/proto/codec\<close> and \<open>transport/detect_codec.go\<close>.
  A codec call has the buffer \<open>b\<close>, the bytes an \<open>io.Reader\<close> still has to deliver and the
  bytes an \<open>io.Writer\<close> has accepted as its state; the full transport adds its two packet
  counters.  The writer accepts everything it is given.  \<open>errors.Wrap\<close> adds text to an error
  and keeps its cause, so wrapped errors are their causes here.
\<close>

section \<open>State, errors and input\<close>

datatype codec_err =
    Bin bin_err
  | InvalidMsgLenErr int
  | AlignedPayloadExpectedErr nat
  | ErrProtocolHeaderMismatch
  | ErrSeqNoMismatch
  | ErrCRCMismatch
  | ProtocolErr int

record cstate =
  buf :: bytes
  strm :: bytes
  outp :: bytes
  wSeqNo :: int
  rSeqNo :: int

type_synonym 'a cprog = "(cstate, codec_err, 'a) prog"

named_theorems codec_defs \<open>definitions of the codec operations\<close>

definition CodeAuthKeyNotFound :: int where "CodeAuthKeyNotFound = 404"
definition CodeWrongDC :: int where "CodeWrongDC = 444"
definition CodeTransportFlood :: int where "CodeTransportFlood = 429"
definition maxMessageSize :: nat where "maxMessageSize = 2 ^ 24"

text \<open>A buffer method called on \<open>b\<close>.\<close>

definition onBuf :: "(bytes, bin_err, 'a) prog \<Rightarrow> 'a cprog" where
  "onBuf m s = (case m (buf s) of
     (Inl e, b) \<Rightarrow> (Inl (Bin e), s\<lparr>buf := b\<rparr>)
   | (Inr x, b) \<Rightarrow> (Inr x, s\<lparr>buf := b\<rparr>))"

text \<open>\<open>io.ReadFull(r, b.Buf[off:off+k])\<close>: what arrives is stored, a short read is an error.\<close>

definition ReadFullAt :: "nat \<Rightarrow> nat \<Rightarrow> unit cprog" where
  "ReadFullAt off k s =
     (let got = take k (strm s);
          s' = s\<lparr>strm := drop k (strm s), buf := take off (buf s) @ got @ drop (off + length got) (buf s)\<rparr>
      in if length got = k then (Inr (), s')
         else if got = [] then (Inl (Bin EndOfFile), s')
         else (Inl (Bin UnexpectedEOF), s'))"

definition io_write :: "bytes \<Rightarrow> unit cprog" where
  "io_write bs = modify (\<lambda>s. s\<lparr>outp := outp s @ bs\<rparr>)"

text \<open>\<open>ReadHeader\<close> reads into an array of its own, not into the message buffer.\<close>

definition readTag :: "nat \<Rightarrow> bytes cprog" where
  "readTag k s =
     (let got = take k (strm s); s' = s\<lparr>strm := drop k (strm s)\<rparr> in
      if length got = k then (Inr got, s')
      else if got = [] then (Inl (Bin EndOfFile), s')
      else (Inl (Bin UnexpectedEOF), s'))"

section \<open>Shared checks\<close>

definition readLen :: "int cprog" where
  "readLen = andThen (onBuf (ResetN (int Word))) (\<lambda>_. andThen (ReadFullAt 0 Word) (\<lambda>_ s.
     let n = int (unle (take Word (buf s))) in
     if n \<le> 0 \<or> n > int maxMessageSize then (Inl (InvalidMsgLenErr n), s) else (Inr n, s)))"

definition checkOutgoingMessage :: "unit cprog" where
  "checkOutgoingMessage s =
     (let len = length (buf s) in
      if len > maxMessageSize \<or> len = 0 then (Inl (InvalidMsgLenErr (int len)), s) else (Inr (), s))"

definition checkAlign :: "nat \<Rightarrow> unit cprog" where
  "checkAlign n s =
     (if length (buf s) mod n \<noteq> 0 then (Inl (AlignedPayloadExpectedErr n), s) else (Inr (), s))"

definition checkProtocolError :: "unit cprog" where
  "checkProtocolError s =
     (if length (buf s) \<noteq> Word then (Inr (), s)
      else andThen (onBuf Int32) (\<lambda>code. fail (ProtocolErr (sint (word_of_int (- code) :: 32 word)))) s)"

section \<open>Abridged\<close>

definition AbridgedClientStart :: bytes where "AbridgedClientStart = [0xef]"

definition Abridged_WriteHeader :: "unit cprog" where
  "Abridged_WriteHeader = io_write AbridgedClientStart"

definition Abridged_ReadHeader :: "unit cprog" where
  "Abridged_ReadHeader = andThen (readTag 1) (\<lambda>b.
     if b \<noteq> AbridgedClientStart then fail ErrProtocolHeaderMismatch else ret ())"

definition Abridged_ObfuscatedTag :: bytes where
  "Abridged_ObfuscatedTag = (let d = AbridgedClientStart ! 0 in [d, d, d, d])"

definition writeAbridged :: "unit cprog" where
  "writeAbridged s =
     (let encodeLength = drop_bit 2 (length (buf s));
          inner = (if encodeLength < 127 then [word_of_nat encodeLength]
                   else take 4 (0x7f # le Word encodeLength))
      in andThen (io_write inner) (\<lambda>_. io_write (buf s)) s)"

definition readAbridged :: "unit cprog" where
  "readAbridged = andThen (onBuf (ResetN (int Word))) (\<lambda>_. andThen (ReadFullAt 0 1) (\<lambda>_.
     andThen (\<lambda>s. if 127 \<le> buf s ! 0 then ReadFullAt 0 3 s else (Inr (), s)) (\<lambda>_.
     andThen (onBuf Int_buf) (\<lambda>n. andThen (onBuf (ResetN (push_bit 2 n))) (\<lambda>_ s.
       ReadFullAt 0 (length (buf s)) s)))))"

definition Abridged_Write :: "unit cprog" where
  "Abridged_Write = andThen checkOutgoingMessage (\<lambda>_. andThen (checkAlign 4) (\<lambda>_. writeAbridged))"

definition Abridged_Read :: "unit cprog" where
  "Abridged_Read = andThen readAbridged (\<lambda>_. checkProtocolError)"

section \<open>Intermediate\<close>

definition IntermediateClientStart :: bytes where "IntermediateClientStart = [0xee, 0xee, 0xee, 0xee]"

definition Intermediate_WriteHeader :: "unit cprog" where
  "Intermediate_WriteHeader = io_write IntermediateClientStart"

definition Intermediate_ReadHeader :: "unit cprog" where
  "Intermediate_ReadHeader = andThen (readTag 4) (\<lambda>b.
     if b \<noteq> IntermediateClientStart then fail ErrProtocolHeaderMismatch else ret ())"

definition Intermediate_ObfuscatedTag :: bytes where
  "Intermediate_ObfuscatedTag = IntermediateClientStart"

definition writeIntermediate :: "unit cprog" where
  "writeIntermediate s =
     andThen (io_write (PutInt (int (length (buf s))) [])) (\<lambda>_. io_write (buf s)) s"

definition readIntermediate :: "bool \<Rightarrow> unit cprog" where
  "readIntermediate padding = andThen readLen (\<lambda>n. andThen (onBuf (ResetN n)) (\<lambda>_.
     andThen (\<lambda>s. ReadFullAt 0 (length (buf s)) s) (\<lambda>_ s.
       if padding then (let paddingLength = nat n mod 4 in
         (Inr (), s\<lparr>buf := take (nat n - paddingLength) (buf s)\<rparr>))
       else (Inr (), s))))"

definition Intermediate_Write :: "unit cprog" where
  "Intermediate_Write = andThen checkOutgoingMessage (\<lambda>_. andThen (checkAlign 4) (\<lambda>_. writeIntermediate))"

definition Intermediate_Read :: "unit cprog" where
  "Intermediate_Read = andThen (readIntermediate False) (\<lambda>_. checkProtocolError)"

section \<open>Padded intermediate\<close>

definition PaddedIntermediateClientStart :: bytes where
  "PaddedIntermediateClientStart = [0xdd, 0xdd, 0xdd, 0xdd]"

definition PaddedIntermediate_WriteHeader :: "unit cprog" where
  "PaddedIntermediate_WriteHeader = io_write PaddedIntermediateClientStart"

definition PaddedIntermediate_ReadHeader :: "unit cprog" where
  "PaddedIntermediate_ReadHeader = andThen (readTag 4) (\<lambda>b.
     if b \<noteq> PaddedIntermediateClientStart then fail ErrProtocolHeaderMismatch else ret ())"

definition PaddedIntermediate_ObfuscatedTag :: bytes where
  "PaddedIntermediate_ObfuscatedTag = PaddedIntermediateClientStart"

text \<open>
  \<open>rnd\<close> are the four bytes read from the random source.  The source derives the padding length
  from \<open>b.Buf[length-1]\<close>, the last payload byte.  The deferred function restores the length of
  the buffer.
\<close>

definition writePaddedIntermediate :: "byte \<times> byte \<times> byte \<times> byte \<Rightarrow> unit cprog" where
  "writePaddedIntermediate rnd s =
     (let len = length (buf s);
          expanded = buf s @ (case rnd of (r0, r1, r2, r3) \<Rightarrow> [r0, r1, r2, r3]) in
      if len = 0 then (Inl (Bin Panic), s)
      else (let n = unat (expanded ! (len - 1)) mod 4;
                r = writeIntermediate (s\<lparr>buf := take (len + n) expanded\<rparr>)
            in (fst r, (snd r)\<lparr>buf := take len (buf (snd r))\<rparr>)))"

definition readPaddedIntermediate :: "unit cprog" where
  "readPaddedIntermediate = andThen (readIntermediate True) (\<lambda>_ s.
     let padding = length (buf s) mod 4 in
     (Inr (), s\<lparr>buf := take (length (buf s) - padding) (buf s)\<rparr>))"

definition PaddedIntermediate_Write :: "byte \<times> byte \<times> byte \<times> byte \<Rightarrow> unit cprog" where
  "PaddedIntermediate_Write rnd = andThen checkOutgoingMessage (\<lambda>_. andThen (checkAlign 4) (\<lambda>_.
     writePaddedIntermediate rnd))"

definition PaddedIntermediate_Read :: "unit cprog" where
  "PaddedIntermediate_Read = andThen readPaddedIntermediate (\<lambda>_. checkProtocolError)"

section \<open>Full\<close>

text \<open>\<open>crc32.ChecksumIEEE\<close> of the standard library: the reflected CRC-32, a byte at a time.\<close>

definition crc_bit :: "32 word \<Rightarrow> 32 word" where
  "crc_bit c = (if bit c 0 then drop_bit 1 c XOR 0xEDB88320 else drop_bit 1 c)"

definition crc_byte :: "32 word \<Rightarrow> byte \<Rightarrow> 32 word" where
  "crc_byte c b = (crc_bit ^^ 8) (c XOR ucast b)"

definition ChecksumIEEE :: "bytes \<Rightarrow> 32 word" where
  "ChecksumIEEE bs = NOT (foldl crc_byte (NOT 0) bs)"

definition writeFull :: "int \<Rightarrow> unit cprog" where
  "writeFull seqNo s =
     (let w = Put (buf s) (PutInt seqNo (PutInt (4 + 4 + int (length (buf s)) + 4) []));
          crc = ChecksumIEEE w
      in io_write (PutUint32 crc w) s)"

text \<open>
  \<open>inner\<close> aliases bytes \<open>4..n\<close> of the buffer, so reading the tail of the packet into it fills
  those bytes of the buffer (\<open>readFullChecked\<close> is the rest of the function); consuming from \<open>inner\<close> afterwards moves only its own slice header.
\<close>

definition readFullChecked :: "int \<Rightarrow> int \<Rightarrow> unit cprog" where
  "readFullChecked seqNo n s =
     (let inner = take (nat n - Word) (drop Word (buf s)) in
      case Int_buf inner of
        (Inl e, _) \<Rightarrow> (Inl (Bin e), s)
      | (Inr serverSeqNo, inner) \<Rightarrow>
          if serverSeqNo \<noteq> seqNo then (Inl ErrSeqNoMismatch, s)
          else let payloadLength = n - 3 * int Word in
            (case Skip payloadLength inner of
               (Inl e, _) \<Rightarrow> (Inl (Bin e), s)
             | (Inr _, inner) \<Rightarrow>
                 (case Uint32 inner of
                    (Inl e, _) \<Rightarrow> (Inl (Bin e), s)
                  | (Inr crc, _) \<Rightarrow>
                      let clientCRC = ChecksumIEEE (take (nat n - Word) (buf s)) in
                      if crc \<noteq> clientCRC then (Inl ErrCRCMismatch, s)
                      else (Inr (), s\<lparr>buf := take (nat payloadLength) (drop (2 * Word) (buf s))\<rparr>))))"

definition readFull :: "int \<Rightarrow> unit cprog" where
  "readFull seqNo = andThen readLen (\<lambda>n.
     andThen (modify (\<lambda>s. s\<lparr>buf := PutInt n (buf s)\<rparr>)) (\<lambda>_.
     andThen (onBuf (Expand (n - int Word))) (\<lambda>_.
     andThen (ReadFullAt Word (nat n - Word)) (\<lambda>_. readFullChecked seqNo n))))"

definition Full_WriteHeader :: "unit cprog" where "Full_WriteHeader = ret ()"
definition Full_ReadHeader :: "unit cprog" where "Full_ReadHeader = ret ()"

definition Full_Write :: "unit cprog" where
  "Full_Write = andThen checkOutgoingMessage (\<lambda>_ s.
     writeFull (wSeqNo s) (s\<lparr>wSeqNo := wSeqNo s + 1\<rparr>))"

definition Full_Read :: "unit cprog" where
  "Full_Read = andThen (\<lambda>s. readFull (rSeqNo s) (s\<lparr>rSeqNo := rSeqNo s + 1\<rparr>)) (\<lambda>_. checkProtocolError)"

section \<open>Detecting the codec of an incoming connection\<close>

datatype codec_kind = Abridged | Intermediate | PaddedIntermediate | Full

text \<open>The stream left for the codec: the full transport gets its four bytes back.\<close>

definition detectCodec :: "bytes \<Rightarrow> codec_err + codec_kind \<times> bytes" where
  "detectCodec c =
     (if c = [] then Inl (Bin EndOfFile)
      else if c ! 0 = AbridgedClientStart ! 0 then Inr (Abridged, drop 1 c)
      else if length c = 1 then Inl (Bin EndOfFile)
      else if length c < 4 then Inl (Bin UnexpectedEOF)
      else let tag = take 4 c in
        if tag = IntermediateClientStart then Inr (Intermediate, drop 4 c)
        else if tag = PaddedIntermediateClientStart then Inr (PaddedIntermediate, drop 4 c)
        else Inr (Full, tag @ drop 4 c))"

section \<open>Reading back a frame\<close>

lemma onBuf_simps [simp]:
  "onBuf (ResetN (int n)) s = (Inr (), s\<lparr>buf := replicate n 0\<rparr>)"
  "onBuf (Expand (int n)) s = (Inr (), s\<lparr>buf := buf s @ replicate n 0\<rparr>)"
  by (simp_all add: onBuf_def ResetN_def Expand_def)

lemma io_write_simp [simp]: "io_write bs s = (Inr (), s\<lparr>outp := outp s @ bs\<rparr>)"
  by (simp add: io_write_def modify_def)

lemma ReadFullAt_exact:
  assumes "strm s = xs @ rest" "length xs = k"
  shows "ReadFullAt off k s = (Inr (), s\<lparr>strm := rest, buf := take off (buf s) @ xs @ drop (off + k) (buf s)\<rparr>)"
  using assms by (simp add: ReadFullAt_def Let_def)

lemma readLen_exact:
  assumes "strm s = le Word n @ rest" "0 < n" "n \<le> maxMessageSize"
  shows "readLen s = (Inr (int n), s\<lparr>strm := rest, buf := le Word n\<rparr>)"
proof -
  have m: "n mod 256 ^ Word = n"
    using assms(3) by (intro mod_less) (simp add: maxMessageSize_def)
  have "ReadFullAt 0 Word (s\<lparr>buf := replicate Word 0\<rparr>) = (Inr (), s\<lparr>strm := rest, buf := le Word n\<rparr>)"
    by (subst ReadFullAt_exact[where xs = "le Word n" and rest = rest]) (use assms in simp_all)
  then show ?thesis
    using assms(2,3) m onBuf_simps(1)[of Word s] by (simp add: readLen_def unle_le)
qed

lemma checkOutgoing_ok [simp]:
  "0 < length (buf s) \<Longrightarrow> length (buf s) \<le> maxMessageSize \<Longrightarrow> checkOutgoingMessage s = (Inr (), s)"
  by (simp add: checkOutgoingMessage_def)

lemma checkAlign_ok [simp]: "n dvd length (buf s) \<Longrightarrow> checkAlign n s = (Inr (), s)"
  by (simp add: checkAlign_def dvd_eq_mod_eq_0)

lemma checkProtocolError_ok [simp]: "length (buf s) \<noteq> Word \<Longrightarrow> checkProtocolError s = (Inr (), s)"
  by (simp add: checkProtocolError_def)

definition payload_ok :: "bytes \<Rightarrow> bool" where
  "payload_ok p \<longleftrightarrow> 0 < length p \<and> length p + 12 \<le> maxMessageSize \<and> 4 dvd length p \<and> length p \<noteq> Word"

subsection \<open>Intermediate\<close>

lemma PutInt_len: "n \<le> maxMessageSize \<Longrightarrow> PutInt (int n) [] = le Word n"
  by (simp add: tl_defs maxMessageSize_def unsigned_of_nat take_bit_nat_eq_self)

lemma Intermediate_Write_frame:
  assumes "0 < length (buf w)" "length (buf w) \<le> maxMessageSize" "4 dvd length (buf w)"
  shows "Intermediate_Write w = (Inr (), w\<lparr>outp := outp w @ le Word (length (buf w)) @ buf w\<rparr>)"
  using assms by (simp add: Intermediate_Write_def writeIntermediate_def PutInt_len)

lemma readIntermediate_frame:
  assumes "strm r = le Word (length p) @ p @ rest" "0 < length p" "length p \<le> maxMessageSize"
  shows "readIntermediate pad r =
    (Inr (), r\<lparr>strm := rest, buf := (if pad then take (length p - length p mod 4) p else p)\<rparr>)"
proof -
  let ?r1 = "r\<lparr>strm := p @ rest, buf := le Word (length p)\<rparr>"
  let ?r2 = "r\<lparr>strm := p @ rest, buf := replicate (length p) 0\<rparr>"
  have 1: "readLen r = (Inr (int (length p)), ?r1)"
    by (rule readLen_exact[OF assms])
  have 2: "ReadFullAt 0 (length (buf ?r2)) ?r2 = (Inr (), r\<lparr>strm := rest, buf := p\<rparr>)"
    by (subst ReadFullAt_exact[where xs = p and rest = rest]) simp_all
  show ?thesis
    using 2 by (simp add: readIntermediate_def 1)
qed

subsection \<open>Padded intermediate\<close>

lemma writePadded_frame:
  assumes "buf w \<noteq> []" "length (buf w) + 3 \<le> maxMessageSize"
  shows "\<exists>pad. length pad < 4 \<and> writePaddedIntermediate rnd w =
    (Inr (), w\<lparr>outp := outp w @ le Word (length (buf w @ pad)) @ buf w @ pad\<rparr>)"
proof -
  obtain r0 r1 r2 r3 where rnd: "rnd = (r0, r1, r2, r3)" by (cases rnd)
  define n where "n = unat ((buf w @ [r0, r1, r2, r3]) ! (length (buf w) - Suc 0)) mod 4"
  define pad where "pad = take n [r0, r1, r2, r3]"
  have n: "n < 4" by (simp add: n_def)
  then have lp: "length pad = n" by (simp add: pad_def)
  have "take (length (buf w) + n) (buf w @ [r0, r1, r2, r3]) = buf w @ pad"
    by (simp add: pad_def)
  then have "writePaddedIntermediate rnd w =
    (Inr (), w\<lparr>outp := outp w @ le Word (length (buf w @ pad)) @ buf w @ pad\<rparr>)"
    using assms n lp PutInt_len[of "length (buf w @ pad)"]
    by (simp add: writePaddedIntermediate_def writeIntermediate_def rnd Let_def flip: n_def)
  with n lp show ?thesis by auto
qed

lemma PaddedIntermediate_Read_frame:
  assumes "strm r = le Word (length (p @ pad)) @ p @ pad @ rest" "payload_ok p" "length pad < 4"
  shows "PaddedIntermediate_Read r = (Inr (), r\<lparr>strm := rest, buf := p\<rparr>)"
proof -
  obtain k where k: "length p = 4 * k" using assms(2) by (auto simp: payload_ok_def)
  have m: "length (p @ pad) mod 4 = length pad" using assms(3) k by simp
  have "readIntermediate True r = (Inr (), r\<lparr>strm := rest, buf := take (length (p @ pad) - length (p @ pad) mod 4) (p @ pad)\<rparr>)"
    using readIntermediate_frame[of r "p @ pad" rest True] assms by (simp add: payload_ok_def)
  then have "readIntermediate True r = (Inr (), r\<lparr>strm := rest, buf := p\<rparr>)"
    using m by simp
  then show ?thesis using assms(2) k
    by (simp add: PaddedIntermediate_Read_def readPaddedIntermediate_def payload_ok_def)
qed

subsection \<open>Abridged\<close>

lemma Abridged_Write_frame:
  assumes "0 < length (buf w)" "length (buf w) \<le> maxMessageSize" "4 dvd length (buf w)"
  shows "Abridged_Write w = (Inr (), w\<lparr>outp := outp w @
    (if length (buf w) div 4 < 127 then [word_of_nat (length (buf w) div 4)]
     else 0x7f # le 3 (length (buf w) div 4)) @ buf w\<rparr>)"
proof -
  have "take 4 (0x7f # le Word k) = 0x7f # le 3 k" for k
    by (simp add: take_Cons' take_le)
  then show ?thesis
    using assms by (simp add: Abridged_Write_def writeAbridged_def drop_bit_eq_div)
qed

lemma readAbridged_payload:
  assumes "buf r = le Word n" "strm r = p @ rest" "length p = 4 * n" "n < 2 ^ 31"
  shows "andThen (onBuf Int_buf) (\<lambda>n. andThen (onBuf (ResetN (push_bit 2 n))) (\<lambda>_ s.
       ReadFullAt 0 (length (buf s)) s)) r = (Inr (), r\<lparr>strm := rest, buf := p\<rparr>)"
proof -
  have "Int_buf (PutInt (int n) [] @ []) = (Inr (int n), [])"
    using assms(4) by (intro tl_int.get_put) simp
  moreover have "PutInt (int n) [] = le Word n"
    using assms(4) by (simp add: tl_defs unsigned_of_nat take_bit_nat_eq_self)
  ultimately have 1: "onBuf Int_buf r = (Inr (int n), r\<lparr>buf := []\<rparr>)"
    by (simp add: onBuf_def assms(1))
  have 2: "push_bit 2 (int n) = int (4 * n)" by (simp add: push_bit_eq_mult)
  show ?thesis
    by (simp add: 1 2 assms(3) del: of_nat_mult)
      (subst ReadFullAt_exact[where xs = p and rest = rest]; simp add: assms)
qed

lemma replicate_Word: "replicate Word x = [x, x, x, x]" and replicate_3: "replicate 3 x = [x, x, x]"
  by (simp_all add: eval_nat_numeral)

lemma le_Word: "le Word n = word_of_nat n # le 3 (n div 256)"
  using le.simps(2)[of 3 n] by simp

lemma Abridged_Read_short:
  assumes "strm r = word_of_nat n # p @ rest" "length p = 4 * n" "n < 127" "1 < n"
  shows "Abridged_Read r = (Inr (), r\<lparr>strm := rest, buf := p\<rparr>)"
proof -
  let ?r1 = "r\<lparr>buf := le Word n, strm := p @ rest\<rparr>"
  have len: "le Word n = [word_of_nat n, 0, 0, 0]"
    using assms(3) by (simp add: le_Word replicate_3)
  have "unat (word_of_nat n :: byte) < unat (127 :: byte)"
    using assms(3) by (simp only: unat_byte_of_nat) simp
  then have small: "\<not> 127 \<le> (word_of_nat n :: byte)"
    by (simp only: word_less_nat_alt not_le)
  have 1: "ReadFullAt 0 1 (r\<lparr>buf := replicate Word 0\<rparr>) = (Inr (), ?r1)"
    by (subst ReadFullAt_exact[where xs = "[word_of_nat n]" and rest = "p @ rest"])
      (simp_all add: assms len replicate_Word)
  have 2: "andThen (onBuf Int_buf) (\<lambda>n. andThen (onBuf (ResetN (push_bit 2 n))) (\<lambda>_ s.
       ReadFullAt 0 (length (buf s)) s)) ?r1 = (Inr (), r\<lparr>strm := rest, buf := p\<rparr>)"
    using readAbridged_payload[of ?r1 n p rest] assms by simp
  have "readAbridged r = (Inr (), r\<lparr>strm := rest, buf := p\<rparr>)"
    using onBuf_simps(1)[of Word r] 1 2 small by (simp add: readAbridged_def len)
  then show ?thesis using assms by (simp add: Abridged_Read_def)
qed

lemma Abridged_Read_long:
  assumes "strm r = 0x7f # le 3 n @ p @ rest" "length p = 4 * n" "n < 2 ^ 24" "1 < n"
  shows "Abridged_Read r = (Inr (), r\<lparr>strm := rest, buf := p\<rparr>)"
proof -
  let ?r1 = "r\<lparr>buf := [0x7f, 0, 0, 0], strm := le 3 n @ p @ rest\<rparr>"
  let ?r2 = "r\<lparr>buf := le Word n, strm := p @ rest\<rparr>"
  have len: "le Word n = le 3 n @ [0]"
    using le_add[of 3 1 n] assms(3) by simp
  have 1: "ReadFullAt 0 1 (r\<lparr>buf := replicate Word 0\<rparr>) = (Inr (), ?r1)"
    by (subst ReadFullAt_exact[where xs = "[0x7f]" and rest = "le 3 n @ p @ rest"])
      (simp_all add: assms replicate_Word)
  have 2: "ReadFullAt 0 3 ?r1 = (Inr (), ?r2)"
    by (subst ReadFullAt_exact[where xs = "le 3 n" and rest = "p @ rest"])
      (simp_all add: len)
  have 3: "andThen (onBuf Int_buf) (\<lambda>n. andThen (onBuf (ResetN (push_bit 2 n))) (\<lambda>_ s.
       ReadFullAt 0 (length (buf s)) s)) ?r2 = (Inr (), r\<lparr>strm := rest, buf := p\<rparr>)"
    using readAbridged_payload[of ?r2 n p rest] assms by simp
  have "readAbridged r = (Inr (), r\<lparr>strm := rest, buf := p\<rparr>)"
    using onBuf_simps(1)[of Word r] 1 2 3 by (simp add: readAbridged_def)
  then show ?thesis using assms by (simp add: Abridged_Read_def)
qed

subsection \<open>Full\<close>

definition full_head :: "int \<Rightarrow> bytes \<Rightarrow> bytes" where
  "full_head seq p = le Word (length p + 12) @ PutInt seq [] @ p"

definition full_frame :: "int \<Rightarrow> bytes \<Rightarrow> bytes" where
  "full_frame seq p = full_head seq p @ PutUint32 (ChecksumIEEE (full_head seq p)) []"

lemma PutInt_app: "PutInt v b = b @ PutInt v []" and PutUint32_app: "PutUint32 w b = b @ PutUint32 w []"
  by (rule tl_int.put_append, rule uint32.put_append)

lemma length_PutInt [simp]: "length (PutInt v []) = Word"
  by (simp add: tl_defs)

lemma Full_Write_frame:
  assumes "0 < length (buf w)" "length (buf w) + 12 \<le> maxMessageSize"
  shows "Full_Write w = (Inr (), w\<lparr>wSeqNo := wSeqNo w + 1, outp := outp w @ full_frame (wSeqNo w) (buf w)\<rparr>)"
proof -
  have "Put (buf w) (PutInt (wSeqNo w) (PutInt (4 + 4 + int (length (buf w)) + 4) [])) = full_head (wSeqNo w) (buf w)"
    using PutInt_len[of "length (buf w) + 12"] assms(2)
    by (subst PutInt_app) (simp add: full_head_def Put_def add.commute)
  then show ?thesis
    using assms PutUint32_app[of _ "full_head (wSeqNo w) (buf w)"]
    by (simp add: Full_Write_def writeFull_def full_frame_def Let_def)
qed

lemma readFullChecked_frame:
  assumes "buf s = full_frame seq p @ z" "int32_range seq"
  shows "readFullChecked seq (int (length p + 12)) s = (Inr (), s\<lparr>buf := p\<rparr>)"
proof -
  let ?crc = "PutUint32 (ChecksumIEEE (full_head seq p)) []"
  have 1: "Int_buf (PutInt seq [] @ p @ ?crc) = (Inr seq, p @ ?crc)"
    by (rule tl_int.get_put) (rule assms(2))
  have 2: "Skip (int (length p)) (p @ ?crc) = (Inr (), ?crc)"
    by (simp add: Skip_eq)
  have 3: "Uint32 ?crc = (Inr (ChecksumIEEE (full_head seq p)), [])"
    using uint32.get_put[of _ "[]"] by simp
  have 4: "take (8 + length p) (buf s) = full_head seq p"
    "take (8 + length p) (drop Word (buf s)) = PutInt seq [] @ p @ ?crc"
    "take (length p) (drop 8 (buf s)) = p"
    by (simp_all add: assms(1) full_frame_def full_head_def)
  show ?thesis
    using 1 2 3 4 by (simp add: readFullChecked_def nat_add_distrib)
qed

lemma readFull_frame:
  assumes "strm r = full_frame seq p @ rest" "length p + 12 \<le> maxMessageSize" "int32_range seq"
  shows "readFull seq r = (Inr (), r\<lparr>strm := rest, buf := p\<rparr>)"
proof -
  let ?n = "length p + 12"
  let ?tail = "PutInt seq [] @ p @ PutUint32 (ChecksumIEEE (full_head seq p)) []"
  let ?r1 = "r\<lparr>strm := ?tail @ rest, buf := le Word ?n\<rparr>"
  let ?r2 = "?r1\<lparr>buf := PutInt (int ?n) (le Word ?n)\<rparr>"
  let ?r3 = "?r1\<lparr>buf := le Word ?n @ le Word ?n @ replicate (length p + 8) 0\<rparr>"
  let ?r4 = "r\<lparr>strm := rest, buf := full_frame seq p @ replicate Word 0\<rparr>"
  have 1: "readLen r = (Inr (int ?n), ?r1)"
    by (rule readLen_exact) (use assms in \<open>simp_all add: full_frame_def full_head_def\<close>)
  have 2: "modify (\<lambda>s. s\<lparr>buf := PutInt (int ?n) (buf s)\<rparr>) ?r1 = (Inr (), ?r2)"
    by (simp add: modify_def)
  have 3: "onBuf (Expand (int ?n - int Word)) ?r2 = (Inr (), ?r3)"
    using PutInt_len[OF assms(2)] PutInt_app[of "int ?n" "le Word ?n"]
    by (simp add: onBuf_def Expand_def nat_add_distrib)
  have 4: "ReadFullAt Word (nat (int ?n) - Word) ?r3 = (Inr (), ?r4)"
    by (subst ReadFullAt_exact[where xs = ?tail and rest = rest])
      (simp_all add: full_frame_def full_head_def nat_add_distrib)
  have 5: "readFullChecked seq (int ?n) ?r4 = (Inr (), r\<lparr>strm := rest, buf := p\<rparr>)"
    using assms(3) by (subst readFullChecked_frame[where z = "replicate Word 0"]) simp_all
  show ?thesis
    unfolding readFull_def andThen_Inr[where m = readLen, OF 1]
      andThen_Inr[where m = "modify f" for f, OF 2] andThen_Inr[where m = "onBuf e" for e, OF 3]
      andThen_Inr[where m = "ReadFullAt i k" for i k, OF 4] by (rule 5)
qed

subsection \<open>The checksum sees a change of any single byte\<close>

lemma crc_poly_bit31: "bit (0xEDB88320 :: 32 word) 31"
  by simp

lemma bit_crc_bit_31: "bit (crc_bit c) 31 = bit c 0"
  using crc_poly_bit31 bit_imp_le_length[of c 32] by (auto simp: crc_bit_def bit_simps)

lemma xor_cancel: "a XOR c = b XOR c \<Longrightarrow> a = (b :: 32 word)"
proof -
  have self: "(x XOR c) XOR c = x" for x :: "32 word" by (simp add: xor.assoc)
  assume "a XOR c = b XOR c"
  then have "(a XOR c) XOR c = (b XOR c) XOR c" by simp
  then show ?thesis unfolding self .
qed

lemma drop_bit_1_inj:
  assumes "drop_bit 1 a = drop_bit 1 (b :: 32 word)" "bit a 0 = bit b 0"
  shows "a = b"
proof (rule bit_word_eqI)
  fix n
  show "bit a n = bit b n"
  proof (cases n)
    case 0
    with assms(2) show ?thesis by simp
  next
    case (Suc m)
    have "bit (drop_bit 1 a) m = bit (drop_bit 1 b) m" by (simp only: assms(1))
    with Suc show ?thesis by (simp add: bit_drop_bit_eq)
  qed
qed

lemma crc_bit_inj:
  assumes eq: "crc_bit a = crc_bit b"
  shows "a = b"
proof (rule drop_bit_1_inj)
  show b0: "bit a 0 = bit b 0"
    using bit_crc_bit_31[of a] bit_crc_bit_31[of b] by (simp only: eq)
  show "drop_bit 1 a = drop_bit 1 b"
  proof (cases "bit a 0")
    case True
    then have "drop_bit 1 a XOR 0xEDB88320 = drop_bit 1 b XOR 0xEDB88320"
      using eq b0 by (simp only: crc_bit_def if_True)
    then show ?thesis by (rule xor_cancel)
  next
    case False
    then show ?thesis using eq b0 by (simp only: crc_bit_def if_False)
  qed
qed

lemma crc_byte_inj: "crc_byte a x = crc_byte b x \<Longrightarrow> a = b" 
  and crc_byte_inj2: "crc_byte a x = crc_byte a y \<Longrightarrow> x = y"
proof -
  have inj: "inj crc_bit" by (rule injI) (rule crc_bit_inj)
  have inj8: "inj (crc_bit ^^ 8)" by (rule inj_fn[OF inj])
  { assume "crc_byte a x = crc_byte b x" 
    then have "a XOR ucast x = b XOR ucast x" by (simp only: crc_byte_def inj_eq[OF inj8])
    then show "a = b" by (rule xor_cancel) }
  { assume "crc_byte a x = crc_byte a y" 
    then have "a XOR ucast x = a XOR (ucast y :: 32 word)" by (simp only: crc_byte_def inj_eq[OF inj8])
    then have "ucast x = (ucast y :: 32 word)" by (metis xor.commute xor_cancel)
    then have "unat (ucast x :: 32 word) = unat (ucast y :: 32 word)" by simp
    then show "x = y" by (simp add: unsigned_ucast_eq word_unat_eq_iff) }
qed

lemma crc_fold_inj: "foldl crc_byte a bs = foldl crc_byte b bs \<Longrightarrow> a = b"
  by (induction bs arbitrary: a b) (auto dest: crc_byte_inj)

lemma ChecksumIEEE_one_byte:
  assumes "x \<noteq> y"
  shows "ChecksumIEEE (as @ x # bs) \<noteq> ChecksumIEEE (as @ y # bs)"
proof
  assume "ChecksumIEEE (as @ x # bs) = ChecksumIEEE (as @ y # bs)"
  then have "foldl crc_byte (crc_byte (foldl crc_byte (NOT 0) as) x) bs = foldl crc_byte (crc_byte (foldl crc_byte (NOT 0) as) y) bs"
    by (simp add: ChecksumIEEE_def)
  then have "x = y" by (blast dest: crc_fold_inj crc_byte_inj2)
  with assms show False ..
qed
section \<open>The codec interface\<close>

text \<open>
  What a connection relies on: \<open>Write\<close> sends an acceptable message as some frame, and any peer
  in step with the writer whose input starts with that frame reads the message, stops right
  after it and is in step again.  \<open>insync k w r\<close> says that at least \<open>k\<close> more messages can be
  exchanged before a packet counter leaves its range.
\<close>

locale codec =
  fixes Write Read :: "unit cprog" and insync :: "nat \<Rightarrow> cstate \<Rightarrow> cstate \<Rightarrow> bool"
  assumes write_read: "payload_ok (buf w) \<Longrightarrow> insync (Suc k) w r \<Longrightarrow>
      \<exists>frame w'. Write w = (Inr (), w') \<and> outp w' = outp w @ frame \<and>
        (\<forall>rest. \<exists>r'. Read (r\<lparr>strm := frame @ rest\<rparr>) = (Inr (), r') \<and>
          buf r' = buf w \<and> strm r' = rest \<and> insync k w' r')"
    and insync_frame: "insync k (w\<lparr>buf := b\<rparr>) (r\<lparr>strm := i\<rparr>) = insync k w r"

text \<open>Repeated \<open>Send\<close> and \<open>Recv\<close> of \<open>transport/connection.go\<close> over one codec.\<close>

primrec send_all :: "unit cprog \<Rightarrow> bytes list \<Rightarrow> unit cprog" where
  "send_all Wr [] = ret ()"
| "send_all Wr (p # ps) = andThen (\<lambda>s. Wr (s\<lparr>buf := p\<rparr>)) (\<lambda>_. send_all Wr ps)"

primrec recv_all :: "unit cprog \<Rightarrow> nat \<Rightarrow> bytes list cprog" where
  "recv_all Rd 0 = ret []"
| "recv_all Rd (Suc n) = andThen Rd (\<lambda>_ s. andThen (recv_all Rd n) (\<lambda>ps. ret (buf s # ps)) s)"

context codec
begin

lemma send_recv_all:
  assumes "\<forall>p \<in> set ps. payload_ok p" "insync (length ps) w r"
  shows "\<exists>stream w'. send_all Write ps w = (Inr (), w') \<and> outp w' = outp w @ stream \<and>
    (\<forall>rest. \<exists>r'. recv_all Read (length ps) (r\<lparr>strm := stream @ rest\<rparr>) = (Inr ps, r') \<and> strm r' = rest)"
  using assms
proof (induction ps arbitrary: w r)
  case Nil
  then show ?case by (auto simp: ret_def)
next
  case (Cons p ps)
  have "insync (Suc (length ps)) (w\<lparr>buf := p\<rparr>) r"
    using Cons.prems(2) insync_frame[where w = w and b = p and r = r and i = "strm r"] by simp
  then obtain frame w1 where w1: "Write (w\<lparr>buf := p\<rparr>) = (Inr (), w1)" "outp w1 = outp w @ frame"
    and rd: "\<And>rest. \<exists>r'. Read (r\<lparr>strm := frame @ rest\<rparr>) = (Inr (), r') \<and>
          buf r' = p \<and> strm r' = rest \<and> insync (length ps) w1 r'"
    using write_read[of "w\<lparr>buf := p\<rparr>" "length ps" r] Cons.prems(1) by auto
  obtain r0 where r0: "insync (length ps) w1 r0" using rd[of "[]"] by blast
  then obtain stream w2 where w2: "send_all Write ps w1 = (Inr (), w2)" "outp w2 = outp w1 @ stream"
    using Cons.IH[of w1 r0] Cons.prems(1) by auto
  have "\<exists>r'. recv_all Read (length (p # ps)) (r\<lparr>strm := (frame @ stream) @ rest\<rparr>) = (Inr (p # ps), r') \<and> strm r' = rest" for rest
  proof -
    obtain r1 where r1: "Read (r\<lparr>strm := frame @ stream @ rest\<rparr>) = (Inr (), r1)" "buf r1 = p"
      "strm r1 = stream @ rest" "insync (length ps) w1 r1"
      using rd[of "stream @ rest"] by blast
    obtain stream' w3 where w3: "send_all Write ps w1 = (Inr (), w3)" "outp w3 = outp w1 @ stream'"
      and all: "\<And>rest. \<exists>r'. recv_all Read (length ps) (r1\<lparr>strm := stream' @ rest\<rparr>) = (Inr ps, r') \<and> strm r' = rest"
      using Cons.IH[OF _ r1(4)] Cons.prems(1) by auto
    have "stream' = stream" using w2 w3 by simp
    with all[of rest] r1(3) obtain r2 where "recv_all Read (length ps) r1 = (Inr ps, r2)" "strm r2 = rest"
      by (metis cstate.surjective cstate.update_convs(2))
    with r1(1,2) show ?thesis by (simp add: ret_def)
  qed
  with w1 w2 show ?case by (intro exI[of _ "frame @ stream"]) auto
qed

end

interpretation intermediate: codec Intermediate_Write Intermediate_Read "\<lambda>_ _ _. True"
proof
  show "\<exists>frame w'. Intermediate_Write w = (Inr (), w') \<and> outp w' = outp w @ frame \<and>
      (\<forall>rest. \<exists>r'. Intermediate_Read (r\<lparr>strm := frame @ rest\<rparr>) = (Inr (), r') \<and>
        buf r' = buf w \<and> strm r' = rest \<and> True)" if "payload_ok (buf w)" for w r
    using that readIntermediate_frame[of "r\<lparr>strm := _\<rparr>" "buf w" _ False]
    by (auto simp: payload_ok_def Intermediate_Write_frame Intermediate_Read_def)
qed simp

interpretation padded: codec "PaddedIntermediate_Write rnd" PaddedIntermediate_Read "\<lambda>_ _ _. True" for rnd
proof
  show "\<exists>frame w'. PaddedIntermediate_Write rnd w = (Inr (), w') \<and> outp w' = outp w @ frame \<and>
      (\<forall>rest. \<exists>r'. PaddedIntermediate_Read (r\<lparr>strm := frame @ rest\<rparr>) = (Inr (), r') \<and>
        buf r' = buf w \<and> strm r' = rest \<and> True)" if "payload_ok (buf w)" for w r
  proof -
    have "buf w \<noteq> []" "length (buf w) + 3 \<le> maxMessageSize"
      using that by (auto simp: payload_ok_def)
    then obtain pad where "length pad < 4" and wr: "writePaddedIntermediate rnd w =
      (Inr (), w\<lparr>outp := outp w @ le Word (length (buf w @ pad)) @ buf w @ pad\<rparr>)"
      using writePadded_frame[of w rnd] by blast
    then show ?thesis
      using that PaddedIntermediate_Read_frame[of "r\<lparr>strm := _\<rparr>" "buf w" pad]
      by (auto simp: PaddedIntermediate_Write_def payload_ok_def)
  qed
qed simp

interpretation abridged: codec Abridged_Write Abridged_Read "\<lambda>_ _ _. True"
proof
  show "\<exists>frame w'. Abridged_Write w = (Inr (), w') \<and> outp w' = outp w @ frame \<and>
      (\<forall>rest. \<exists>r'. Abridged_Read (r\<lparr>strm := frame @ rest\<rparr>) = (Inr (), r') \<and>
        buf r' = buf w \<and> strm r' = rest \<and> True)" if ok: "payload_ok (buf w)" for w r
  proof -
    obtain n where n: "length (buf w) = 4 * n"
      using ok by (auto simp: payload_ok_def)
    then have "1 < n" "n < 2 ^ 24"
      using ok by (auto simp: payload_ok_def maxMessageSize_def)
    note n = n this
    show ?thesis
      using ok n Abridged_Read_short[of "r\<lparr>strm := _\<rparr>" n "buf w"] Abridged_Read_long[of "r\<lparr>strm := _\<rparr>" n "buf w"]
      by (cases "n < 127") (auto simp: payload_ok_def Abridged_Write_frame)
  qed
qed simp

definition full_insync :: "nat \<Rightarrow> cstate \<Rightarrow> cstate \<Rightarrow> bool" where
  "full_insync k w r \<longleftrightarrow> wSeqNo w = rSeqNo r \<and> 0 \<le> wSeqNo w \<and> wSeqNo w + int k \<le> 2 ^ 31"

interpretation full: codec Full_Write Full_Read full_insync
proof
  show "\<exists>frame w'. Full_Write w = (Inr (), w') \<and> outp w' = outp w @ frame \<and>
      (\<forall>rest. \<exists>r'. Full_Read (r\<lparr>strm := frame @ rest\<rparr>) = (Inr (), r') \<and>
        buf r' = buf w \<and> strm r' = rest \<and> full_insync k w' r')"
    if "payload_ok (buf w)" "full_insync (Suc k) w r" for w r k
    using that readFull_frame[of "r\<lparr>strm := _, rSeqNo := rSeqNo r + 1\<rparr>" "rSeqNo r" "buf w"]
    by (auto simp: payload_ok_def full_insync_def Full_Write_frame Full_Read_def andThen_def)
qed (simp add: full_insync_def)

section \<open>What the full transport accepts\<close>

text \<open>The sequence number and the checksum of a packet, given the bytes after its length field.\<close>

definition packet_seq :: "bytes \<Rightarrow> int" where
  "packet_seq tail = sint (word_of_nat (unle (take Word tail)) :: 32 word)"

definition packet_crc :: "bytes \<Rightarrow> 32 word" where
  "packet_crc tail = word_of_nat (unle (drop (length tail - Word) tail))"

lemma readFullChecked_packet:
  assumes "buf s = le Word n @ tail @ z" "length tail = n - Word" "12 \<le> n"
  shows "readFullChecked seq (int n) s =
    (if packet_seq tail \<noteq> seq then (Inl ErrSeqNoMismatch, s)
     else if packet_crc tail \<noteq> ChecksumIEEE (le Word n @ take (n - 8) tail) then (Inl ErrCRCMismatch, s)
     else (Inr (), s\<lparr>buf := take (n - 12) (drop Word tail)\<rparr>))"
proof -
  have 1: "Int_buf tail = (Inr (packet_seq tail), drop Word tail)"
    using assms by (simp add: tl_defs andThen_def ret_def packet_seq_def)
  have 2: "Skip (int n - 12) (drop Word tail) = (Inr (), drop (n - 8) tail)"
    using assms by (simp add: Skip_eq nat_diff_distrib)
  have 3: "Uint32 (drop (n - 8) tail) = (Inr (packet_crc tail), [])"
    using assms by (simp add: tl_defs andThen_def packet_crc_def)
  have 4: "take (n - Word) (drop Word (buf s)) = tail" "take (n - Word) (buf s) = le Word n @ take (n - 8) tail"
    using assms by simp_all
  have 5: "take (n - 12) (drop 8 (buf s)) = take (n - 12) (drop Word tail)"
    using assms by simp
  have 6: "nat (int n - 12) = n - 12" using assms by simp
  show ?thesis
    using assms(3) by (simp add: readFullChecked_def 1 2 3 4 5 6)
qed

lemma readFull_packet:
  assumes "strm r = le Word n @ tail @ rest" "length tail = n - Word" "12 \<le> n" "n \<le> maxMessageSize"
  shows "fst (readFull seq r) =
    (if packet_seq tail \<noteq> seq then Inl ErrSeqNoMismatch
     else if packet_crc tail \<noteq> ChecksumIEEE (le Word n @ take (n - 8) tail) then Inl ErrCRCMismatch
     else Inr ())"
proof -
  let ?r1 = "r\<lparr>strm := tail @ rest, buf := le Word n\<rparr>"
  let ?r2 = "?r1\<lparr>buf := PutInt (int n) (le Word n)\<rparr>"
  let ?r3 = "?r1\<lparr>buf := le Word n @ le Word n @ replicate (n - Word) 0\<rparr>"
  let ?r4 = "r\<lparr>strm := rest, buf := le Word n @ tail @ replicate Word 0\<rparr>"
  have 1: "readLen r = (Inr (int n), ?r1)"
    by (rule readLen_exact) (use assms in simp_all)
  have 2: "modify (\<lambda>s. s\<lparr>buf := PutInt (int n) (buf s)\<rparr>) ?r1 = (Inr (), ?r2)"
    by (simp add: modify_def)
  have 3: "onBuf (Expand (int n - int Word)) ?r2 = (Inr (), ?r3)"
    using PutInt_len[OF assms(4)] PutInt_app[of "int n" "le Word n"] assms(3)
    by (simp add: onBuf_def Expand_def nat_diff_distrib)
  have 4: "ReadFullAt Word (nat (int n) - Word) ?r3 = (Inr (), ?r4)"
    by (subst ReadFullAt_exact[where xs = tail and rest = rest]) (use assms in simp_all)
  have "readFull seq r = readFullChecked seq (int n) ?r4"
    unfolding readFull_def andThen_Inr[where m = readLen, OF 1]
      andThen_Inr[where m = "modify f" for f, OF 2] andThen_Inr[where m = "onBuf e" for e, OF 3]
      andThen_Inr[where m = "ReadFullAt i k" for i k, OF 4] by (rule refl)
  also have "\<dots> = (if packet_seq tail \<noteq> seq then (Inl ErrSeqNoMismatch, ?r4)
     else if packet_crc tail \<noteq> ChecksumIEEE (le Word n @ take (n - 8) tail) then (Inl ErrCRCMismatch, ?r4)
     else (Inr (), ?r4\<lparr>buf := take (n - 12) (drop Word tail)\<rparr>))"
    using assms by (subst readFullChecked_packet[where tail = tail and z = "replicate Word 0"]) auto
  finally show ?thesis by simp
qed

lemma unle_inj: "length xs = length ys \<Longrightarrow> unle xs = unle ys \<Longrightarrow> xs = ys"
  by (metis le_unle)

lemma word_of_unle_inj:
  assumes "length xs = 4" "length ys = 4" "(word_of_nat (unle xs) :: 32 word) = word_of_nat (unle ys)"
  shows "xs = ys"
proof (rule unle_inj)
  have "unat (word_of_nat (unle zs) :: 32 word) = unle zs" if "length zs = 4" for zs
    using unle_bound[of zs] that by (simp add: unsigned_of_nat take_bit_nat_eq_self)
  then show "unle xs = unle ys" using assms by metis
qed (simp add: assms)

lemma ChecksumIEEE_update:
  assumes "i < length xs" "x \<noteq> xs ! i"
  shows "ChecksumIEEE (xs[i := x]) \<noteq> ChecksumIEEE xs"
proof -
  have "xs = take i xs @ xs ! i # drop (Suc i) xs" by (rule id_take_nth_drop[OF assms(1)])
  then have "ChecksumIEEE xs = ChecksumIEEE (take i xs @ xs ! i # drop (Suc i) xs)" by simp
  then show ?thesis
    using ChecksumIEEE_one_byte[OF assms(2), of "take i xs" "drop (Suc i) xs"]
    by (simp add: upd_conv_take_nth_drop[OF assms(1)])
qed

lemma full_frame_tail:
  "full_frame seq p = le Word (length p + 12) @ PutInt seq [] @ p @ PutUint32 (ChecksumIEEE (full_head seq p)) []"
  by (simp add: full_frame_def full_head_def)

lemma packet_seq_PutInt: "int32_range seq \<Longrightarrow> packet_seq (PutInt seq [] @ z) = seq"
  using tl_int.get_put[of seq z]
  by (simp add: packet_seq_def tl_defs andThen_def ret_def split: if_splits)

lemma packet_crc_PutUint32: "packet_crc (z @ PutUint32 c []) = c"
  by (simp add: packet_crc_def PutUint32_def)

lemma packet_seq_change:
  assumes "take Word xs \<noteq> take Word ys" "Word \<le> length xs" "Word \<le> length ys"
  shows "packet_seq xs \<noteq> packet_seq ys"
proof
  assume "packet_seq xs = packet_seq ys"
  then have "(word_of_nat (unle (take Word xs)) :: 32 word) = word_of_nat (unle (take Word ys))"
    by (intro signed_word_eqI) (simp add: packet_seq_def)
  with assms show False by (metis length_take min.absorb2 word_of_unle_inj)
qed

lemma packet_crc_change:
  assumes "drop (length xs - Word) xs \<noteq> drop (length ys - Word) ys" "Word \<le> length xs" "Word \<le> length ys"
  shows "packet_crc xs \<noteq> packet_crc ys"
proof -
  have "length (drop (length zs - Word) zs) = 4" if "Word \<le> length zs" for zs :: bytes
    using that by simp
  with assms show ?thesis by (metis packet_crc_def word_of_unle_inj)
qed

text \<open>A packet \<open>le n @ tail\<close> whose tail is changed at one place after the sequence number no
  longer carries its own checksum.\<close>

lemma checksum_mismatch:
  assumes "packet_crc tail = ChecksumIEEE (le Word n @ take (n - 8) tail)"
    and "length tail = n - Word" "12 \<le> n" "j < length tail" "x \<noteq> tail ! j"
  shows "packet_crc (tail[j := x]) \<noteq> ChecksumIEEE (le Word n @ take (n - 8) (tail[j := x]))"
proof (cases "j < n - 8")
  case True
  let ?h = "le Word n @ take (n - 8) tail"
  have "le Word n @ take (n - 8) (tail[j := x]) = ?h[Word + j := x]"
    by (simp add: list_update_append take_update_swap)
  moreover have "x \<noteq> ?h ! (Word + j)" "Word + j < length ?h"
    using True assms by (auto simp: nth_append)
  moreover have "packet_crc (tail[j := x]) = packet_crc tail"
    using True assms(2,3) by (simp add: packet_crc_def drop_update_cancel)
  ultimately show ?thesis using assms(1) ChecksumIEEE_update by metis
next
  case False
  have "drop (n - 8) tail ! (j - (n - 8)) \<noteq> drop (n - 8) (tail[j := x]) ! (j - (n - 8))"
    using False assms by (simp add: nth_list_update)
  then have "drop (n - 8) tail \<noteq> drop (n - 8) (tail[j := x])" by metis
  moreover have "length tail - Word = n - 8" using assms(2,3) by simp
  ultimately have "packet_crc tail \<noteq> packet_crc (tail[j := x])"
    using assms(2,3) by (intro packet_crc_change) simp_all
  moreover have "take (n - 8) (tail[j := x]) = take (n - 8) tail"
    using False by simp
  ultimately show ?thesis using assms(1) by simp
qed

text \<open>C30: a full-transport packet with any one byte after its length field replaced is rejected:
  with the sequence-number error when the byte is in the sequence number, with the checksum
  error when it is in the payload or in the checksum.\<close>

theorem full_detects_corruption:
  assumes "length p + 12 \<le> maxMessageSize" "int32_range seq"
    and "Word \<le> i" "i < length (full_frame seq p)" "x \<noteq> full_frame seq p ! i"
    and "strm r = (full_frame seq p)[i := x] @ rest"
  shows "fst (readFull seq r) = Inl (if i < 8 then ErrSeqNoMismatch else ErrCRCMismatch)"
proof -
  define c where "c = PutUint32 (ChecksumIEEE (full_head seq p)) []"
  define tail where "tail = PutInt seq [] @ p @ c"
  define j n where "j = i - Word" and "n = length p + 12"
  have len: "length c = Word" "length tail = n - Word" "12 \<le> n"
    by (simp_all add: c_def tail_def n_def)
  have frame: "full_frame seq p = le Word n @ tail"
    by (simp add: full_frame_tail c_def tail_def n_def)
  have j: "j < length tail" "x \<noteq> tail ! j"
    using assms(3-5) len by (auto simp: frame j_def nth_append)
  have upd: "(full_frame seq p)[i := x] = le Word n @ tail[j := x]"
    using assms(3) by (simp add: frame j_def list_update_append)
  have res: "fst (readFull seq r) = (if packet_seq (tail[j := x]) \<noteq> seq then Inl ErrSeqNoMismatch
      else if packet_crc (tail[j := x]) \<noteq> ChecksumIEEE (le Word n @ take (n - 8) (tail[j := x])) then Inl ErrCRCMismatch
      else Inr ())"
    using assms(1,6) len by (intro readFull_packet) (simp_all add: upd n_def)
  have seq: "packet_seq tail = seq"
    using packet_seq_PutInt[OF assms(2)] by (simp add: tail_def)
  have "packet_crc tail = ChecksumIEEE (full_head seq p)"
    using packet_crc_PutUint32[of "PutInt seq [] @ p"] by (simp add: tail_def c_def)
  then have crc: "packet_crc tail = ChecksumIEEE (le Word n @ take (n - 8) tail)"
    by (simp add: tail_def n_def full_head_def)
  show ?thesis
  proof (cases "i < 8")
    case True
    then have "j < Word" using assms(3) by (simp add: j_def)
    then have "take Word tail \<noteq> take Word (tail[j := x])"
      using j by (metis nth_list_update_eq nth_take)
    then have "packet_seq tail \<noteq> packet_seq (tail[j := x])"
      using len by (intro packet_seq_change) simp_all
    then show ?thesis using True res seq by simp
  next
    case False
    then have "\<not> j < Word" using assms(3) by (simp add: j_def)
    then have "tail[j := x] = PutInt seq [] @ (p @ c)[j - Word := x]"
      by (simp add: tail_def list_update_append)
    then have "packet_seq (tail[j := x]) = seq" using packet_seq_PutInt[OF assms(2)] by simp
    with False res checksum_mismatch[OF crc len(2,3) j] show ?thesis by simp
  qed
qed

definition idle :: cstate where
  "idle = \<lparr>buf = [], strm = [], outp = [], wSeqNo = 0, rSeqNo = 0\<rparr>"

theorem full_detects_corruption_witness:
  "fst (readFull 0 (idle\<lparr>strm := (full_frame 0 [1, 2, 3, 4])[9 := 7] @ []\<rparr>)) = Inl ErrCRCMismatch"
proof -
  have "full_frame 0 [1, 2, 3, 4] ! 9 = 2"
    by (simp add: full_frame_tail nth_append)
  then show ?thesis
    using full_detects_corruption[of "[1, 2, 3, 4]" 0 9 7 "idle\<lparr>strm := (full_frame 0 [1, 2, 3, 4])[9 := 7] @ []\<rparr>" "[]"]
    by (simp add: maxMessageSize_def full_frame_tail tl_defs)
qed

section \<open>Properties of the transport\<close>

text \<open>The codecs behind the interface.\<close>

definition codec_Write :: "codec_kind \<Rightarrow> byte \<times> byte \<times> byte \<times> byte \<Rightarrow> unit cprog" where
  "codec_Write kind rnd = (case kind of
     Abridged \<Rightarrow> Abridged_Write | Intermediate \<Rightarrow> Intermediate_Write
   | PaddedIntermediate \<Rightarrow> PaddedIntermediate_Write rnd | Full \<Rightarrow> Full_Write)"

definition codec_Read :: "codec_kind \<Rightarrow> unit cprog" where
  "codec_Read kind = (case kind of
     Abridged \<Rightarrow> Abridged_Read | Intermediate \<Rightarrow> Intermediate_Read
   | PaddedIntermediate \<Rightarrow> PaddedIntermediate_Read | Full \<Rightarrow> Full_Read)"

definition codec_WriteHeader :: "codec_kind \<Rightarrow> unit cprog" where
  "codec_WriteHeader kind = (case kind of
     Abridged \<Rightarrow> Abridged_WriteHeader | Intermediate \<Rightarrow> Intermediate_WriteHeader
   | PaddedIntermediate \<Rightarrow> PaddedIntermediate_WriteHeader | Full \<Rightarrow> Full_WriteHeader)"

text \<open>C9: whatever codec two peers use, any sequence of acceptable messages (non-empty, a multiple
  of four bytes, not four bytes, at most 16 MiB less the packet overhead; fewer than 2^31 of them
  on one connection) sent by one is received by the other unchanged, in order, with nothing of
  the stream consumed beyond it.\<close>

theorem transport_roundtrip:
  assumes "\<forall>p \<in> set ps. payload_ok p" "length ps \<le> 2 ^ 31" "wSeqNo w = 0" "rSeqNo r = 0"
  shows "\<exists>stream w'. send_all (codec_Write kind rnd) ps w = (Inr (), w') \<and> outp w' = outp w @ stream \<and>
    (\<forall>rest. \<exists>r'. recv_all (codec_Read kind) (length ps) (r\<lparr>strm := stream @ rest\<rparr>) = (Inr ps, r') \<and> strm r' = rest)"
proof (cases kind)
  case Full
  have "full_insync (length ps) w r" using assms(2-4) by (simp add: full_insync_def)
  with Full assms(1) show ?thesis
    using full.send_recv_all[of ps w r] by (simp add: codec_Write_def codec_Read_def)
qed (use assms(1) abridged.send_recv_all[of ps w r] intermediate.send_recv_all[of ps w r]
      padded.send_recv_all[where ps = ps and w = w and r = r and rnd = rnd] in \<open>simp_all add: codec_Write_def codec_Read_def\<close>)

theorem transport_roundtrip_witness:
  "\<exists>stream w'. send_all (codec_Write Full (0, 0, 0, 0)) [replicate 8 5, replicate 12 9] idle = (Inr (), w') \<and>
    outp w' = outp idle @ stream \<and>
    (\<forall>rest. \<exists>r'. recv_all (codec_Read Full) 2 (idle\<lparr>strm := stream @ rest\<rparr>) =
       (Inr [replicate 8 5, replicate 12 9], r') \<and> strm r' = rest)"
proof -
  let ?ps = "[replicate 8 5, replicate 12 9] :: bytes list"
  have "\<forall>p \<in> set ?ps. payload_ok p" "length ?ps = 2"
    by (simp_all add: payload_ok_def maxMessageSize_def)
  then show ?thesis
    using transport_roundtrip[of ?ps idle idle Full "(0, 0, 0, 0)"] by (simp only: idle_def cstate.simps) simp
qed

text \<open>every codec refuses to send an empty message, a message above 16 MiB and (but for the
  full transport) a message that is not a multiple of four bytes; it reports which, and neither
  sends a byte nor advances the packet counter.\<close>

theorem write_rejects:
  assumes "\<not> (0 < length (buf w) \<and> length (buf w) \<le> maxMessageSize \<and> (kind = Full \<or> 4 dvd length (buf w)))"
  shows "codec_Write kind rnd w =
    (Inl (if length (buf w) = 0 \<or> maxMessageSize < length (buf w)
          then InvalidMsgLenErr (int (length (buf w))) else AlignedPayloadExpectedErr 4), w)"
  using assms
  by (cases kind) (auto simp: codec_Write_def Abridged_Write_def Intermediate_Write_def
        PaddedIntermediate_Write_def Full_Write_def checkOutgoingMessage_def checkAlign_def andThen_def
        dvd_eq_mod_eq_0)

theorem write_rejects_witness:
  "codec_Write Abridged (0, 0, 0, 0) (idle\<lparr>buf := replicate 3 1\<rparr>) =
     (Inl (AlignedPayloadExpectedErr 4), idle\<lparr>buf := replicate 3 1\<rparr>)"
  using write_rejects[of "idle\<lparr>buf := replicate 3 1\<rparr>" Abridged "(0, 0, 0, 0)"]
  by (simp add: maxMessageSize_def)

lemma le_first_byte:
  assumes "4 dvd n" "b = 0xef \<or> b = 0xee \<or> b = (0xdd :: byte)"
  shows "word_of_nat n \<noteq> b"
proof
  assume "word_of_nat n = b"
  then have "n mod 256 = unat b" by (simp only: unat_byte_of_nat flip: unat_byte_of_nat)
  moreover have "4 dvd n mod 256" using assms(1) by (simp add: dvd_mod)
  moreover have "unat b = 239 \<or> unat b = 238 \<or> unat b = 221" using assms(2) by auto
  ultimately show False by (elim disjE) simp_all
qed

lemma detectCodec_full:
  assumes "4 dvd length p"
  shows "detectCodec (full_frame seq p @ rest) = Inr (Full, full_frame seq p @ rest)"
proof -
  obtain t where t: "full_frame seq p @ rest = word_of_nat (length p + 12) # t" "3 \<le> length t" "t \<noteq> []"
    by (simp add: full_frame_tail le_Word)
  have "4 dvd length p + 12" using assms by simp
  note ne = le_first_byte[OF this]
  have "take 4 (full_frame seq p @ rest) = word_of_nat (length p + 12) # take 3 t"
    by (simp only: t(1)) simp
  then show ?thesis
    using ne t by (simp add: detectCodec_def AbridgedClientStart_def IntermediateClientStart_def
        PaddedIntermediateClientStart_def Let_def)
qed

lemma detectCodec_tagged:
  "detectCodec (AbridgedClientStart @ rest) = Inr (Abridged, rest)"
  "detectCodec (IntermediateClientStart @ rest) = Inr (Intermediate, rest)"
  "detectCodec (PaddedIntermediateClientStart @ rest) = Inr (PaddedIntermediate, rest)"
  by (simp_all add: detectCodec_def AbridgedClientStart_def IntermediateClientStart_def
        PaddedIntermediateClientStart_def)

text \<open>C31: a client that opens a connection with any codec, by sending its header and a first
  message, is understood by a server that detects the codec from the first bytes: the server
  picks the client's codec and reads exactly the client's message, leaving what follows it.\<close>

theorem handshake_detects_codec:
  assumes "payload_ok p" "wSeqNo w = 0" "rSeqNo r = 0" "outp w = []"
  shows "\<exists>w' stream r'.
    andThen (codec_WriteHeader kind) (\<lambda>_ s. codec_Write kind rnd (s\<lparr>buf := p\<rparr>)) w = (Inr (), w') \<and>
    detectCodec (outp w' @ rest) = Inr (kind, stream) \<and>
    codec_Read kind (r\<lparr>strm := stream\<rparr>) = (Inr (), r') \<and> buf r' = p \<and> strm r' = rest"
proof (cases kind)
  case Abridged
  then show ?thesis
    using assms abridged.write_read[where w = "w\<lparr>outp := AbridgedClientStart, buf := p\<rparr>" and r = r]
    by (fastforce simp: codec_WriteHeader_def codec_Write_def codec_Read_def Abridged_WriteHeader_def
        detectCodec_tagged)
next
  case Intermediate
  then show ?thesis
    using assms intermediate.write_read[where w = "w\<lparr>outp := IntermediateClientStart, buf := p\<rparr>" and r = r]
    by (fastforce simp: codec_WriteHeader_def codec_Write_def codec_Read_def Intermediate_WriteHeader_def
        detectCodec_tagged)
next
  case PaddedIntermediate
  then show ?thesis
    using assms padded.write_read[where w = "w\<lparr>outp := PaddedIntermediateClientStart, buf := p\<rparr>" and r = r and rnd = rnd]
    by (fastforce simp: codec_WriteHeader_def codec_Write_def codec_Read_def PaddedIntermediate_WriteHeader_def
        detectCodec_tagged)
next
  case Full
  have "full_insync (Suc 0) (w\<lparr>buf := p\<rparr>) r" using assms by (simp add: full_insync_def)
  moreover have "Full_Write (w\<lparr>buf := p\<rparr>) =
    (Inr (), w\<lparr>buf := p, wSeqNo := 1, outp := full_frame 0 p\<rparr>)"
    using assms Full_Write_frame[of "w\<lparr>buf := p\<rparr>"] by (simp add: payload_ok_def)
  ultimately show ?thesis
    using Full assms full.write_read[of "w\<lparr>buf := p\<rparr>" 0 r] detectCodec_full[of p 0 rest]
    by (fastforce simp: codec_WriteHeader_def codec_Write_def codec_Read_def Full_WriteHeader_def payload_ok_def)
qed

theorem handshake_detects_codec_witness:
  "\<exists>w' stream r'.
    andThen (codec_WriteHeader Full) (\<lambda>_ s. codec_Write Full (0, 0, 0, 0) (s\<lparr>buf := replicate 8 5\<rparr>)) idle = (Inr (), w') \<and>
    detectCodec (outp w' @ [1]) = Inr (Full, stream) \<and>
    codec_Read Full (idle\<lparr>strm := stream\<rparr>) = (Inr (), r') \<and> buf r' = replicate 8 5 \<and> strm r' = [1]"
  by (rule handshake_detects_codec) (simp_all add: payload_ok_def maxMessageSize_def idle_def)

text \<open>the reader of the full transport does not check that a packet is long enough for its
  own fields.  A peer that announces a length of 1, 2 or 3 makes \<open>readFull\<close> panic whatever
  follows, and so does a packet of 8 to 11 bytes that carries the expected sequence number.\<close>

theorem full_short_packet_panics:
  assumes "0 < n" "n < 12" "strm r = le Word n @ tail @ rest" "length tail = n - Word"
    and "n < 4 \<or> 8 \<le> n \<and> packet_seq tail = seq"
  shows "fst (readFull seq r) = Inl (Bin Panic)"
proof -
  let ?r1 = "r\<lparr>strm := tail @ rest, buf := le Word n\<rparr>"
  let ?r2 = "?r1\<lparr>buf := PutInt (int n) (le Word n)\<rparr>"
  have max: "n \<le> maxMessageSize" using assms(2) by (simp add: maxMessageSize_def)
  have 1: "readLen r = (Inr (int n), ?r1)"
    by (rule readLen_exact) (use assms max in simp_all)
  have 2: "modify (\<lambda>s. s\<lparr>buf := PutInt (int n) (buf s)\<rparr>) ?r1 = (Inr (), ?r2)"
    by (simp add: modify_def)
  note start = readFull_def andThen_Inr[where m = readLen, OF 1] andThen_Inr[where m = "modify f" for f, OF 2]
  show ?thesis
  proof (cases "n < 4")
    case True
    then have "onBuf (Expand (int n - int Word)) ?r2 = (Inl (Bin Panic), ?r2)"
      by (simp add: onBuf_def Expand_def)
    then show ?thesis by (simp add: start)
  next
    case False
    let ?r3 = "?r1\<lparr>buf := le Word n @ le Word n @ replicate (n - Word) 0\<rparr>"
    let ?r4 = "r\<lparr>strm := rest, buf := le Word n @ tail @ replicate Word 0\<rparr>"
    have n8: "8 \<le> n" using False assms(5) by simp
    have 3: "onBuf (Expand (int n - int Word)) ?r2 = (Inr (), ?r3)"
      using PutInt_len[OF max] PutInt_app[of "int n" "le Word n"] False
      by (simp add: onBuf_def Expand_def nat_diff_distrib)
    have 4: "ReadFullAt Word (nat (int n) - Word) ?r3 = (Inr (), ?r4)"
      by (subst ReadFullAt_exact[where xs = tail and rest = rest]) (use assms n8 in simp_all)
    have "Int_buf tail = (Inr seq, drop Word tail)"
      using assms n8 by (simp add: tl_defs andThen_def ret_def packet_seq_def not_less)
    then have "readFullChecked seq (int n) ?r4 = (Inl (Bin Panic), ?r4)"
      using assms False by (simp add: readFullChecked_def Skip_eq)
    then show ?thesis
      unfolding start andThen_Inr[where m = "onBuf e" for e, OF 3]
        andThen_Inr[where m = "ReadFullAt i k" for i k, OF 4] by simp
  qed
qed

theorem full_short_packet_panics_witness:
  "fst (readFull 0 (idle\<lparr>strm := le Word 2 @ [] @ []\<rparr>)) = Inl (Bin Panic) \<and>
   fst (readFull 0 (idle\<lparr>strm := le Word 8 @ replicate 4 0 @ []\<rparr>)) = Inl (Bin Panic)"
proof
  have "packet_seq (replicate 4 0) = 0" by (simp add: packet_seq_def numeral_eq_Suc)
  then show "fst (readFull 0 (idle\<lparr>strm := le Word 8 @ replicate 4 0 @ []\<rparr>)) = Inl (Bin Panic)"
    by (intro full_short_packet_panics[where n = 8 and rest = "[]" and tail = "replicate 4 0"]) simp_all
qed (rule full_short_packet_panics[where n = 2 and rest = "[]" and tail = "[]"]; simp)

end
