(* ===== verification/SeqBox.thy ===== *)
theory SeqBox
  imports Prelude
begin

text \<open>
  Ordering of one sequence of updates: \<open>pkg/gotd/telegram/updates/sequence_box.go\<close>,
  \<open>gap_buffer.go\<close>, \<open>gap_check.go\<close> and the type \<open>update\<close> of \<open>update.go\<close>.  A box keeps the
  last applied position, the updates that arrived too early, and the ranges it still misses.
  Positions are Go ints that come from 32-bit fields, so sums of them do not wrap and are
  unbounded integers here.  The callback \<open>apply\<close> is a parameter: it is given the position and
  the updates, and may change the box and a surrounding world, because one of the callbacks of
  the program does.
\<close>

section \<open>Updates and gaps\<close>

record ('v, 'e) update =
  Value :: 'v
  State :: int
  Count :: int
  Entities :: 'e

definition ustart :: "('v, 'e, 'z) update_scheme \<Rightarrow> int" where "ustart u = State u - Count u"
definition uend :: "('v, 'e, 'z) update_scheme \<Rightarrow> int" where "uend u = State u"

datatype gapCheckResult = gapApply | gapIgnore | gapRefetch

definition checkGap :: "int \<Rightarrow> int \<Rightarrow> int \<Rightarrow> gapCheckResult" where
  "checkGap localState remoteState count =
     (if remoteState = 0 then gapApply
      else if localState + count = remoteState then gapApply
      else if localState + count > remoteState then gapIgnore
      else gapRefetch)"

type_synonym gap = "int \<times> int"

definition Has :: "gap list \<Rightarrow> bool" where "Has gs \<longleftrightarrow> gs \<noteq> []"
definition Clear :: "gap list \<Rightarrow> gap list" where "Clear gs = []"

text \<open>\<open>Enable\<close> panics on a non-empty buffer.\<close>

definition Enable :: "int \<Rightarrow> int \<Rightarrow> gap list \<Rightarrow> gap list option" where
  "Enable from to gs = (if gs \<noteq> [] then None else Some (gs @ [(from, to)]))"

text \<open>The loop of \<open>Consume\<close> from index \<open>i\<close>: the first gap that holds the update is replaced by
  what is left of it on either side, appended at the end.\<close>

function consume_loop :: "gap list \<Rightarrow> nat \<Rightarrow> ('v, 'e, 'z) update_scheme \<Rightarrow> gap list \<times> bool" where
  "consume_loop gs i u =
     (if i < length gs then
        (let (from, to) = gs ! i in
         if from \<le> ustart u \<and> to \<ge> uend u then
           (let gs1 = (if from < ustart u then gs @ [(from, ustart u)] else gs);
                gs2 = (if to > uend u then gs1 @ [(uend u, to)] else gs1)
            in (take i gs2 @ drop (i + 1) gs2, True))
         else consume_loop gs (Suc i) u)
      else (gs, False))"
  by pat_completeness auto
termination
  by (relation "measure (\<lambda>(gs, i, _). length gs - i)") auto

declare consume_loop.simps [simp del]

definition Consume :: "gap list \<Rightarrow> ('v, 'e, 'z) update_scheme \<Rightarrow> gap list \<times> bool" where
  "Consume gs u = consume_loop gs 0 u"

section \<open>The box\<close>

record ('v, 'e) sbox =
  state :: int
  gaps :: "gap list"
  pending :: "('v, 'e) update list"
  armed :: bool

datatype 'err box_err = PanicUnreachable | ApplyError 'err

type_synonym ('v, 'e, 'w, 'err) apply_fun =
  "int \<Rightarrow> ('v, 'e) update list \<Rightarrow> (('v, 'e) sbox \<times> 'w, 'err, unit) prog"

definition newSequenceBox :: "int \<Rightarrow> ('v, 'e) sbox" where
  "newSequenceBox initialState = \<lparr>state = initialState, gaps = [], pending = [], armed = False\<rparr>"

definition trimStale :: "('v, 'e) sbox \<Rightarrow> ('v, 'e) sbox" where
  "trimStale b = b\<lparr>pending := filter (\<lambda>u. checkGap (state b) (State u) (Count u) \<noteq> gapIgnore) (pending b)\<rparr>"

definition setState :: "int \<Rightarrow> ('v, 'e) sbox \<Rightarrow> ('v, 'e) sbox" where
  "setState st b = trimStale (b\<lparr>state := st\<rparr>)"

definition SetState :: "int \<Rightarrow> ('v, 'e) sbox \<Rightarrow> ('v, 'e) sbox" where
  "SetState st b = setState st b"

text \<open>The loop of \<open>applyPending\<close> over the sorted buffer: the accepted updates, the position
  after them and what stays in the buffer.\<close>

fun scan :: "int \<Rightarrow> ('v, 'e) update list \<Rightarrow> ('v, 'e) update list \<times> int \<times> ('v, 'e) update list" where
  "scan st [] = ([], st, [])"
| "scan st (u # us) =
     (case checkGap st (State u) (Count u) of
        gapApply \<Rightarrow> (let (accepted, st', rest) = scan (State u) us in (u # accepted, st', rest))
      | gapIgnore \<Rightarrow> scan st us
      | gapRefetch \<Rightarrow> ([], st, u # us))"

definition applyPending :: "('v, 'e, 'w, 'err) apply_fun \<Rightarrow> (('v, 'e) sbox \<times> 'w, 'err box_err, unit) prog" where
  "applyPending ap bw =
     (let (b, w) = bw;
          (accepted, st, rest) = scan (state b) (sort_key ustart (pending b));
          b1 = b\<lparr>pending := rest\<rparr>
      in if accepted = [] then (Inr (), (b1, w))
         else case ap st accepted (b1, w) of
           (Inl e, bw') \<Rightarrow> (Inl (ApplyError e), bw')
         | (Inr _, (b', w')) \<Rightarrow> (Inr (), (setState st b', w')))"

definition Handle :: "('v, 'e, 'w, 'err) apply_fun \<Rightarrow> ('v, 'e) update \<Rightarrow> (('v, 'e) sbox \<times> 'w, 'err box_err, unit) prog" where
  "Handle ap u bw =
     (let (b, w) = bw in
      if checkGap (state b) (State u) (Count u) = gapIgnore then (Inr (), (trimStale b, w))
      else if Has (gaps b) then
        (let b1 = b\<lparr>pending := pending b @ [u]\<rparr>;
             (gs, accepted) = Consume (gaps b1) u;
             b2 = b1\<lparr>gaps := gs\<rparr>
         in if \<not> accepted then (Inr (), (b2, w))
            else if \<not> Has gs then applyPending ap (b2\<lparr>armed := False\<rparr>, w)
            else (Inr (), (b2, w)))
      else case checkGap (state b) (State u) (Count u) of
        gapApply \<Rightarrow>
          (if pending b \<noteq> [] then applyPending ap (b\<lparr>pending := pending b @ [u]\<rparr>, w)
           else case ap (State u) [u] (b, w) of
             (Inl e, bw') \<Rightarrow> (Inl (ApplyError e), bw')
           | (Inr _, (b', w')) \<Rightarrow> (Inr (), (setState (State u) b', w')))
      | gapRefetch \<Rightarrow>
          (let b1 = b\<lparr>pending := pending b @ [u]\<rparr> in
           case Enable (state b1) (ustart u) (gaps b1) of
             None \<Rightarrow> (Inl PanicUnreachable, (b1, w))
           | Some gs \<Rightarrow>
               (let b2 = b1\<lparr>gaps := foldl (\<lambda>g v. fst (Consume g v)) gs (pending b1)\<rparr> in
                if \<not> Has (gaps b2) then applyPending ap (b2, w)
                else (Inr (), (b2\<lparr>armed := True\<rparr>, w))))
      | gapIgnore \<Rightarrow> (Inl PanicUnreachable, (b, w)))"

text \<open>A run of arrivals.\<close>

primrec handle_all :: "('v, 'e, 'w, 'err) apply_fun \<Rightarrow> ('v, 'e) update list \<Rightarrow> (('v, 'e) sbox \<times> 'w, 'err box_err, unit) prog" where
  "handle_all ap [] = ret ()"
| "handle_all ap (u # us) = andThen (Handle ap u) (\<lambda>_. handle_all ap us)"

section \<open>The gap buffer as a set of missing positions\<close>

text \<open>A gap \<open>(a, b)\<close> says that the positions after \<open>a\<close> up to \<open>b\<close> have not arrived.\<close>

definition missing :: "gap list \<Rightarrow> int set" where
  "missing gs = (\<Union>(a, b) \<in> set gs. {a<..b})"

definition span :: "('v, 'e, 'z) update_scheme \<Rightarrow> int set" where
  "span u = {ustart u<..uend u}"

definition apart :: "gap \<Rightarrow> gap \<Rightarrow> bool" where
  "apart g h \<longleftrightarrow> snd g < fst h \<or> snd h < fst g"

definition gaps_ok :: "gap list \<Rightarrow> bool" where
  "gaps_ok gs \<longleftrightarrow> (\<forall>g \<in> set gs. fst g < snd g) \<and> sorted_wrt apart gs"

named_theorems box_defs \<open>definitions of the box operations\<close>

declare ustart_def [box_defs] uend_def [box_defs] checkGap_def [box_defs] trimStale_def [box_defs]
  setState_def [box_defs] SetState_def [box_defs] Has_def [box_defs] newSequenceBox_def [box_defs]

subsection \<open>Consume\<close>

definition pieces :: "gap \<Rightarrow> ('v, 'e, 'z) update_scheme \<Rightarrow> gap list" where
  "pieces g u = (if fst g < ustart u then [(fst g, ustart u)] else []) @
                (if snd g > uend u then [(uend u, snd g)] else [])"

definition holds :: "gap \<Rightarrow> ('v, 'e, 'z) update_scheme \<Rightarrow> bool" where
  "holds g u \<longleftrightarrow> fst g \<le> ustart u \<and> uend u \<le> snd g"

lemma consume_loop_cases:
  assumes "i \<le> length gs"
  shows "(\<exists>xs g ys. gs = xs @ g # ys \<and> holds g u \<and> consume_loop gs i u = (xs @ ys @ pieces g u, True)) \<or>
    ((\<forall>g \<in> set (drop i gs). \<not> holds g u) \<and> consume_loop gs i u = (gs, False))"
  using assms
proof (induction gs i u rule: consume_loop.induct)
  case (1 gs i u)
  show ?case
  proof (cases "i < length gs")
    case False
    then have "consume_loop gs i u = (gs, False)" by (subst consume_loop.simps) simp
    with False show ?thesis by simp
  next
    case True
    obtain a b where g: "gs ! i = (a, b)" by fastforce
    have split: "gs = take i gs @ gs ! i # drop (Suc i) gs" using True by (rule id_take_nth_drop)
    show ?thesis
    proof (cases "holds (gs ! i) u")
      case True
      then have "consume_loop gs i u = (take i gs @ drop (Suc i) gs @ pieces (gs ! i) u, True)"
        using g \<open>i < length gs\<close>
        by (subst consume_loop.simps) (auto simp: holds_def pieces_def Let_def)
      then show ?thesis using True split by blast
    next
      case False
      then have "consume_loop gs i u = consume_loop gs (Suc i) u"
        using g True by (subst consume_loop.simps) (auto simp: holds_def)
      moreover have "set (drop i gs) = insert (gs ! i) (set (drop (Suc i) gs))"
        using True by (metis Cons_nth_drop_Suc list.simps(15))
      ultimately show ?thesis
        using "1.IH"[OF True g[symmetric] refl] True False g by (auto simp: holds_def)
    qed
  qed
qed

lemma Consume_cases:
  obtains (found) xs g ys where "gs = xs @ g # ys" "holds g u" "Consume gs u = (xs @ ys @ pieces g u, True)"
  | (none) "\<forall>g \<in> set gs. \<not> holds g u" "Consume gs u = (gs, False)"
  using consume_loop_cases[of 0 gs u] by (auto simp: Consume_def)

lemma missing_simps [simp]:
  "missing [] = {}" "missing (g # gs) = {fst g<..snd g} \<union> missing gs"
  "missing (xs @ ys) = missing xs \<union> missing ys"
  by (auto simp: missing_def split_beta)

lemma gaps_ok_split:
  "gaps_ok (xs @ g # ys) \<longleftrightarrow> gaps_ok (xs @ ys) \<and> fst g < snd g \<and> (\<forall>h \<in> set (xs @ ys). apart g h)"
  by (auto simp: gaps_ok_def sorted_wrt_append apart_def)

lemma apart_disjoint: "apart g h \<Longrightarrow> {fst g<..snd g} \<inter> {fst h<..snd h} = {}"
  by (auto simp: apart_def)

lemma missing_disjoint:
  assumes "\<forall>h \<in> set gs. apart g h"
  shows "{fst g<..snd g} \<inter> missing gs = {}"
  using assms apart_disjoint by (fastforce simp: missing_def)

lemma missing_pieces: "missing (pieces g u) = {fst g<..snd g} - span u" if "holds g u" "0 < Count u"
  using that by (auto simp: pieces_def holds_def span_def ustart_def uend_def)

lemma apart_pieces:
  assumes "apart g h" "p \<in> set (pieces g u)" "holds g u" "0 < Count u"
  shows "apart h p"
  using assms by (auto simp: pieces_def holds_def apart_def ustart_def uend_def split: if_splits)

lemma gaps_ok_pieces:
  assumes "holds g u" "0 < Count u"
  shows "gaps_ok (pieces g u)"
  using assms by (auto simp: pieces_def holds_def gaps_ok_def apart_def ustart_def uend_def)

lemma gaps_ok_append:
  "gaps_ok (xs @ ys) \<longleftrightarrow> gaps_ok xs \<and> gaps_ok ys \<and> (\<forall>g \<in> set xs. \<forall>h \<in> set ys. apart g h)"
  by (auto simp: gaps_ok_def sorted_wrt_append)

text \<open>A non-empty span inside the missing set lies in one gap, because gaps do not touch.\<close>

lemma span_in_gap:
  assumes "gaps_ok gs" "0 < Count u" "span u \<subseteq> missing gs"
  shows "\<exists>g \<in> set gs. holds g u"
proof -
  have lt: "ustart u < uend u" using assms(2) by (simp add: ustart_def uend_def)
  then have "ustart u + 1 \<in> span u" by (simp add: span_def)
  with assms(3) obtain g where g: "g \<in> set gs" "fst g \<le> ustart u" "ustart u < snd g"
    by (fastforce simp: missing_def)
  have "uend u \<le> snd g"
  proof (rule ccontr)
    assume "\<not> uend u \<le> snd g"
    then have "snd g + 1 \<in> span u" using g by (simp add: span_def)
    with assms(3) obtain h where h: "h \<in> set gs" "fst h < snd g + 1" "snd g + 1 \<le> snd h"
      by (fastforce simp: missing_def)
    then have "h \<noteq> g" by auto
    obtain xs ys where gs: "gs = xs @ g # ys" using g(1) by (meson split_list)
    with h \<open>h \<noteq> g\<close> have "h \<in> set (xs @ ys)" by auto
    then have "apart g h" using assms(1) unfolding gs gaps_ok_split by blast
    moreover have "fst g < snd g" using g by simp
    ultimately show False using h by (auto simp: apart_def)
  qed
  with g show ?thesis by (auto simp: holds_def)
qed

lemma holds_missing: "g \<in> set gs \<Longrightarrow> holds g u \<Longrightarrow> span u \<subseteq> missing gs"
  by (auto simp: holds_def span_def missing_def split_beta intro!: bexI[of _ g])

lemma Consume_spec:
  assumes "gaps_ok gs" "0 < Count u" "Consume gs u = (gs', accepted)"
  shows "gaps_ok gs'" "accepted \<longleftrightarrow> span u \<subseteq> missing gs"
    "missing gs' = (if accepted then missing gs - span u else missing gs)"
proof -
  have "gaps_ok gs' \<and> (accepted \<longleftrightarrow> span u \<subseteq> missing gs) \<and>
    missing gs' = (if accepted then missing gs - span u else missing gs)"
  proof (cases rule: Consume_cases[of gs u])
    case (found xs g ys)
    have ok: "gaps_ok (xs @ ys)" "\<forall>h \<in> set (xs @ ys). apart g h"
      using assms(1) unfolding found(1) gaps_ok_split by blast+
    have out: "gs' = (xs @ ys) @ pieces g u" "accepted" using found(3) assms(3) by simp_all
    have "gaps_ok gs'"
      unfolding out(1) gaps_ok_append[of "xs @ ys"]
      using ok gaps_ok_pieces[OF found(2) assms(2)] apart_pieces[OF _ _ found(2) assms(2)] by blast
    moreover have "span u \<subseteq> missing gs"
      using holds_missing[of g gs u] found(1,2) by simp
    moreover have "span u \<subseteq> {fst g<..snd g}"
      using found(2) by (auto simp: holds_def span_def)
    then have "missing gs' = missing gs - span u"
      using missing_disjoint[OF ok(2)] missing_pieces[OF found(2) assms(2)]
      by (auto simp: out(1) found(1))
    ultimately show ?thesis using out(2) by simp
  next
    case none
    then have "\<not> span u \<subseteq> missing gs" using span_in_gap[OF assms(1,2)] by blast
    with none assms show ?thesis by simp
  qed
  then show "gaps_ok gs'" "accepted \<longleftrightarrow> span u \<subseteq> missing gs"
    "missing gs' = (if accepted then missing gs - span u else missing gs)" by blast+
qed

lemma gaps_ok_missing_empty: "gaps_ok gs \<Longrightarrow> missing gs = {} \<longleftrightarrow> gs = []"
  by (cases gs) (auto simp: gaps_ok_def)

subsection \<open>Changing the surroundings of a call\<close>

definition map_world :: "('w \<Rightarrow> 'v) \<Rightarrow> 'r \<times> ('b \<times> 'w) \<Rightarrow> 'r \<times> ('b \<times> 'v)" where
  "map_world f x = (case x of (r, (b, w)) \<Rightarrow> (r, (b, f w)))"

lemma map_world_simp [simp]: "map_world f (r, (b, w)) = (r, (b, f w))"
  by (simp add: map_world_def)

text \<open>A callback that does not depend on some part of the surroundings makes the box operations
  independent of it.\<close>

lemma applyPending_natural:
  assumes "\<And>st us b w. ap st us (b, f w) = map_world f (ap st us (b, w))"
  shows "applyPending ap (b, f w) = map_world f (applyPending ap (b, w))"
proof -
  obtain acc st rest where sc: "scan (state b) (sort_key ustart (pending b)) = (acc, st, rest)"
    by (cases "scan (state b) (sort_key ustart (pending b))") auto
  obtain r b' w' where a: "ap st acc (b\<lparr>pending := rest\<rparr>, w) = (r, (b', w'))"
    by (cases "ap st acc (b\<lparr>pending := rest\<rparr>, w)") auto
  show ?thesis by (cases "acc = []"; cases r) (simp_all add: applyPending_def sc a assms)
qed

lemma Handle_natural:
  assumes "\<And>st us b w. ap st us (b, f w) = map_world f (ap st us (b, w))"
  shows "Handle ap u (b, f w) = map_world f (Handle ap u (b, w))"
proof -
  note pend = applyPending_natural[of ap f, OF assms]
  obtain gs acc where c: "Consume (gaps b) u = (gs, acc)" by fastforce
  obtain r b' w' where a: "ap (State u) [u] (b, w) = (r, (b', w'))"
    by (cases "ap (State u) [u] (b, w)") auto
  let ?g = "checkGap (state b) (State u) (Count u)"
  show ?thesis
  proof (cases "?g = gapIgnore \<or> Has (gaps b)")
    case True
    then show ?thesis by (cases "?g = gapIgnore"; cases acc) (simp_all add: Handle_def c pend Let_def)
  next
    case False
    then show ?thesis
    proof (cases ?g)
      case gapApply
      then show ?thesis using False by (cases "pending b = []"; cases r) (simp_all add: Handle_def pend a assms)
    next
      case gapRefetch
      then show ?thesis using False
        by (cases "Enable (state b) (ustart u) (gaps b)") (simp_all add: Handle_def pend Let_def)
    qed simp
  qed
qed

lemma handle_all_natural:
  assumes "\<And>st us b w. ap st us (b, f w) = map_world f (ap st us (b, w))"
  shows "handle_all ap us (b, f w) = map_world f (handle_all ap us (b, w))"
proof (induction us arbitrary: b w)
  case Nil
  then show ?case by (simp add: ret_def)
next
  case (Cons u us)
  obtain r b' w' where h: "Handle ap u (b, w) = (r, (b', w'))" by (cases "Handle ap u (b, w)") auto
  have "Handle ap u (b, f w) = map_world f (r, (b', w'))" using Handle_natural[of ap f, OF assms] h by metis
  then show ?case using h Cons by (cases r) (simp_all add: andThen_def)
qed

text \<open>A box whose gaps come with a running timer.\<close>

definition timed :: "('v, 'e) sbox \<Rightarrow> bool" where
  "timed b \<longleftrightarrow> (gaps b \<noteq> [] \<longrightarrow> armed b)"

text \<open>The callback is only ever called on a box without gaps.  If it leaves it without gaps, and
  keeps \<open>W\<close> of the surroundings, the box stays timed.\<close>

lemma applyPending_timed:
  assumes ap: "\<And>st us b w r b' w'. ap st us (b, w) = (r, (b', w')) \<Longrightarrow> gaps b = [] \<Longrightarrow> W w \<Longrightarrow> gaps b' = [] \<and> W w'"
    and "applyPending ap (b, w) = (r, (b', w'))" "gaps b = []" "W w"
  shows "timed b' \<and> W w'"
proof -
  obtain acc st rest where sc: "scan (state b) (sort_key ustart (pending b)) = (acc, st, rest)"
    by (cases "scan (state b) (sort_key ustart (pending b))") auto
  obtain r1 b1 w1 where a: "ap st acc (b\<lparr>pending := rest\<rparr>, w) = (r1, (b1, w1))"
    by (cases "ap st acc (b\<lparr>pending := rest\<rparr>, w)") auto
  then have "gaps b1 = [] \<and> W w1" using ap assms(3,4) by fastforce
  then show ?thesis using assms(2-4) sc a
    by (cases "acc = []"; cases r1) (auto simp: applyPending_def timed_def setState_def trimStale_def)
qed

lemma Handle_timed:
  assumes ap: "\<And>st us b w r b' w'. ap st us (b, w) = (r, (b', w')) \<Longrightarrow> gaps b = [] \<Longrightarrow> W w \<Longrightarrow> gaps b' = [] \<and> W w'"
    and "Handle ap u (b, w) = (r, (b', w'))" "timed b" "W w"
  shows "timed b' \<and> W w'"
proof -
  obtain gs acc where c: "Consume (gaps b) u = (gs, acc)" by fastforce
  obtain r1 b1 w1 where a: "ap (State u) [u] (b, w) = (r1, (b1, w1))" by (cases "ap (State u) [u] (b, w)") auto
  have pend: "timed b' \<and> W w'" if "applyPending ap (c, w) = (r, (b', w'))" "gaps c = []" for c
    using applyPending_timed[of ap W, OF ap that assms(4)] .
  let ?g = "checkGap (state b) (State u) (Count u)"
  show ?thesis
  proof (cases "?g = gapIgnore \<or> Has (gaps b)")
    case True
    then show ?thesis
    proof (cases "?g = gapIgnore \<or> \<not> acc \<or> Has gs")
      case True
      with \<open>?g = gapIgnore \<or> Has (gaps b)\<close> assms(2-4) show ?thesis
        by (cases "?g = gapIgnore"; cases acc) (auto simp: Handle_def c timed_def trimStale_def Has_def Let_def)
    next
      case False
      with True have "applyPending ap (b\<lparr>pending := pending b @ [u], gaps := gs, armed := False\<rparr>, w) = (r, (b', w'))"
        using assms(2) by (simp add: Handle_def c)
      then show ?thesis using pend False by (simp add: Has_def)
    qed
  next
    case False
    then have g: "gaps b = []" by (simp add: Has_def)
    show ?thesis
    proof (cases ?g)
      case gapApply
      show ?thesis
      proof (cases "pending b = []")
        case True
        have "gaps b1 = [] \<and> W w1" using ap[OF a g assms(4)] .
        with True gapApply False assms(2) a show ?thesis
          by (cases r1) (auto simp: Handle_def timed_def setState_def trimStale_def)
      next
        case ne: False
        with gapApply False have "applyPending ap (b\<lparr>pending := pending b @ [u]\<rparr>, w) = (r, (b', w'))"
          using assms(2) by (simp add: Handle_def)
        then show ?thesis using pend g by simp
      qed
    next
      case gapRefetch
      let ?gs = "foldl (\<lambda>g v. fst (Consume g v)) [(state b, ustart u)] (pending b @ [u])"
      have "(if ?gs = [] then applyPending ap (b\<lparr>pending := pending b @ [u], gaps := []\<rparr>, w)
          else (Inr (), (b\<lparr>pending := pending b @ [u], gaps := ?gs, armed := True\<rparr>, w))) = (r, (b', w'))"
        using assms(2) gapRefetch g by (simp add: Handle_def Has_def Enable_def Let_def del: foldl_append split: if_splits)
      then show ?thesis using pend assms(4) by (auto simp: timed_def simp del: foldl_append split: if_splits)
    qed (use False in simp)
  qed
qed

section \<open>Runs of contiguous updates\<close>

text \<open>\<open>chain s us t\<close>: the updates lead from position \<open>s\<close> to position \<open>t\<close> without a hole or an
  overlap.\<close>

primrec chain :: "int \<Rightarrow> ('v, 'e) update list \<Rightarrow> int \<Rightarrow> bool" where
  "chain s [] t \<longleftrightarrow> s = t"
| "chain s (u # us) t \<longleftrightarrow> ustart u = s \<and> chain (uend u) us t"

lemma chain_append: "chain s (us @ vs) t \<longleftrightarrow> (\<exists>m. chain s us m \<and> chain m vs t)"
  by (induction us arbitrary: s) auto

lemma chain_mono:
  assumes "chain s us t" "\<forall>u \<in> set us. 0 < Count u"
  shows "s \<le> t" "u \<in> set us \<Longrightarrow> s \<le> ustart u \<and> ustart u < uend u \<and> uend u \<le> t"
  using assms by (induction us arbitrary: s) (fastforce simp: ustart_def uend_def)+

lemma chain_length: "chain s us t \<Longrightarrow> sum_list (map Count us) = t - s"
  by (induction us arbitrary: s) (auto simp: ustart_def uend_def)

lemma checkGap_iff:
  assumes "State u \<noteq> 0"
  shows "checkGap st (State u) (Count u) = gapApply \<longleftrightarrow> ustart u = st"
    "checkGap st (State u) (Count u) = gapIgnore \<longleftrightarrow> ustart u < st"
    "checkGap st (State u) (Count u) = gapRefetch \<longleftrightarrow> st < ustart u"
  using assms by (auto simp: checkGap_def ustart_def)

lemma scan_chain:
  assumes "scan st us = (acc, st', rest)" "\<forall>u \<in> set us. State u \<noteq> 0"
  shows "chain st acc st' \<and> set acc \<subseteq> set us \<and> set rest \<subseteq> set us"
  using assms
proof (induction us arbitrary: st acc)
  case Nil
  then show ?case by simp
next
  case (Cons u us)
  show ?case
  proof (cases "checkGap st (State u) (Count u)")
    case gapApply
    then obtain acc1 where "scan (State u) us = (acc1, st', rest)" "acc = u # acc1"
      using Cons.prems(1) by (auto split: prod.splits)
    then show ?thesis using Cons.IH[of "State u" acc1] Cons.prems(2) gapApply checkGap_iff(1)[of u st]
      by (auto simp: uend_def)
  next
    case gapIgnore
    then show ?thesis using Cons by auto
  next
    case gapRefetch
    then show ?thesis using Cons.prems by auto
  qed
qed

text \<open>The gaps after an update that is not stale has been put into the buffer.\<close>

definition opened :: "('v, 'e) sbox \<Rightarrow> ('v, 'e) update \<Rightarrow> gap list" where
  "opened b u =
     (if gaps b \<noteq> [] then fst (Consume (gaps b) u)
      else if ustart u = state b then []
      else foldl (\<lambda>g v. fst (Consume g v)) [(state b, ustart u)] (pending b @ [u]))"

lemma Consume_not_accepted: "Consume gs u = (gs', False) \<Longrightarrow> gs' = gs"
  by (cases rule: Consume_cases[of gs u]) auto

text \<open>The five ways through \<open>Handle\<close>; none of them reaches its \<open>panic\<close>.\<close>

lemma Handle_paths [consumes 1, case_names stale direct await drain]:
  assumes "State u \<noteq> 0"
  obtains (stale) "ustart u < state b" "Handle ap u (b, w) = (Inr (), (trimStale b, w))"
  | (direct) "ustart u = state b" "gaps b = []" "pending b = []"
    "Handle ap u (b, w) = (case ap (State u) [u] (b, w) of
        (Inl e, bw') \<Rightarrow> (Inl (ApplyError e), bw')
      | (Inr _, (b', w')) \<Rightarrow> (Inr (), (setState (State u) b', w')))"
  | (await) a where "state b \<le> ustart u" "opened b u \<noteq> []"
    "Handle ap u (b, w) = (Inr (), (b\<lparr>pending := pending b @ [u], gaps := opened b u, armed := a\<rparr>, w))"
  | (drain) a where "state b \<le> ustart u" "opened b u = []"
    "Handle ap u (b, w) = applyPending ap (b\<lparr>pending := pending b @ [u], gaps := [], armed := a\<rparr>, w)"
proof (cases "checkGap (state b) (State u) (Count u) = gapIgnore")
  case True
  then show thesis using checkGap_iff(2)[OF assms] by (intro stale) (auto simp: Handle_def)
next
  case False
  then have le: "state b \<le> ustart u" using checkGap_iff(2)[OF assms, of "state b"] by simp
  let ?c = "b\<lparr>pending := pending b @ [u], gaps := opened b u\<rparr>"
  have split: thesis if "Handle ap u (b, w) = (if opened b u = [] then applyPending ap (?c\<lparr>armed := a\<rparr>, w)
      else (Inr (), (?c\<lparr>armed := a'\<rparr>, w)))" for a a'
    using that await[of a'] drain[of a] le by (cases "opened b u = []") simp_all
  show thesis
  proof (cases "gaps b = []")
    case gaps: False
    obtain gs acc where c: "Consume (gaps b) u = (gs, acc)" by fastforce
    then have "opened b u = gs" using gaps by (simp add: opened_def)
    then show thesis using False gaps c Consume_not_accepted[of "gaps b" u gs]
      by (intro split[of False "armed b"]) (cases acc; simp add: Handle_def Has_def)
  next
    case gaps: True
    show thesis
    proof (cases "ustart u = state b")
      case True
      then have "checkGap (state b) (State u) (Count u) = gapApply" using checkGap_iff(1)[OF assms] by blast
      moreover obtain st pe ar where "b = \<lparr>state = st, gaps = [], pending = pe, armed = ar\<rparr>"
        using gaps by (cases b) auto
      ultimately show thesis using gaps True le direct split[of "armed b" False]
        by (cases "pending b = []") (simp_all add: Handle_def Has_def opened_def)
    next
      case ne: False
      then have "checkGap (state b) (State u) (Count u) = gapRefetch"
        using le checkGap_iff(3)[OF assms] by simp
      moreover have "foldl (\<lambda>g v. fst (Consume g v)) [(state b, ustart u)] (pending b @ [u]) = opened b u"
        using ne gaps by (simp add: opened_def)
      ultimately show thesis using gaps
        by (intro split[of "armed b" True]) (simp add: Handle_def Has_def Enable_def Let_def del: foldl_append)
    qed
  qed
qed

section \<open>A callback that leaves the box alone\<close>

text \<open>The contract of a callback: it does not touch the box it is called from, and when it
  succeeds the values have been delivered, in order.  \<open>applied\<close> reads what has been delivered
  from the surrounding world.\<close>

locale box_client =
  fixes ap :: "('v, 'e, 'w, 'err) apply_fun"
    and applied :: "'w \<Rightarrow> 'v list"
    and ready :: "'w \<Rightarrow> bool"
  assumes keeps_box: "ap st us (b, w) = (r, (b', w')) \<Longrightarrow> b' = b"
    and delivers: "ready w \<Longrightarrow> ap st us (b, w) = (Inr x, (b', w')) \<Longrightarrow>
      applied w' = applied w @ map Value us \<and> ready w'"

definition numbered :: "('v, 'e) sbox \<Rightarrow> bool" where
  "numbered b \<longleftrightarrow> (\<forall>u \<in> set (pending b). State u \<noteq> 0)"

context box_client
begin

lemma setState_fields [simp]:
  "state (setState st b) = st" "gaps (setState st b) = gaps b" "armed (setState st b) = armed b"
  "set (pending (setState st b)) = {u \<in> set (pending b). checkGap st (State u) (Count u) \<noteq> gapIgnore}"
  by (auto simp: setState_def trimStale_def)

lemma applyPending_chain:
  assumes "applyPending ap (b, w) = (Inr x, (b', w'))" "ready w" "numbered b"
  shows "\<exists>us. set us \<subseteq> set (pending b) \<and> chain (state b) us (state b') \<and> applied w' = applied w @ map Value us \<and>
    ready w' \<and> numbered b' \<and> set (pending b') \<subseteq> set (pending b)"
proof -
  obtain acc st rest where sc: "scan (state b) (sort_key ustart (pending b)) = (acc, st, rest)"
    by (cases "scan (state b) (sort_key ustart (pending b))") auto
  have ch: "chain (state b) acc st" "set acc \<subseteq> set (pending b)" "set rest \<subseteq> set (pending b)"
    using scan_chain[OF sc] assms(3) by (simp_all add: numbered_def)
  show ?thesis
  proof (cases "acc = []")
    case True
    with sc assms ch show ?thesis
      by (intro exI[of _ "[]"]) (auto simp: applyPending_def numbered_def)
  next
    case False
    obtain r b1 w1 where a: "ap st acc (b\<lparr>pending := rest\<rparr>, w) = (r, (b1, w1))"
      by (cases "ap st acc (b\<lparr>pending := rest\<rparr>, w)") auto
    then have "b1 = b\<lparr>pending := rest\<rparr>" by (rule keeps_box)
    moreover obtain y where "r = Inr y" "b' = setState st b1" "w' = w1"
      using assms(1) sc False a by (cases r) (auto simp: applyPending_def)
    ultimately show ?thesis
      using delivers[OF assms(2) a[unfolded \<open>r = Inr y\<close>]] ch assms(3)
      by (intro exI[of _ acc]) (auto simp: numbered_def)
  qed
qed

lemma Handle_chain:
  assumes "Handle ap u (b, w) = (Inr x, (b', w'))" "ready w" "numbered b" "State u \<noteq> 0"
  shows "\<exists>us. set us \<subseteq> insert u (set (pending b)) \<and> chain (state b) us (state b') \<and>
    applied w' = applied w @ map Value us \<and> ready w' \<and> numbered b' \<and> set (pending b') \<subseteq> insert u (set (pending b))"
proof -
  from assms(4) show ?thesis
  proof (cases rule: Handle_paths[of u b ap w])
    case stale
    then show ?thesis using assms by (intro exI[of _ "[]"]) (auto simp: numbered_def trimStale_def)
  next
    case await
    then show ?thesis using assms by (intro exI[of _ "[]"]) (auto simp: numbered_def)
  next
    case (drain a)
    let ?c = "b\<lparr>pending := pending b @ [u], gaps := [], armed := a\<rparr>"
    have "numbered ?c" using assms(3,4) by (simp add: numbered_def)
    with drain assms(1) applyPending_chain[of ?c w x b' w'] assms(2) show ?thesis by simp
  next
    case direct
    obtain r b1 w1 where a: "ap (State u) [u] (b, w) = (r, (b1, w1))"
      by (cases "ap (State u) [u] (b, w)") auto
    moreover have "b1 = b" using a by (rule keeps_box)
    moreover obtain y where "r = Inr y" "b' = setState (State u) b1" "w' = w1"
      using assms(1) direct a by (cases r) auto
    ultimately show ?thesis
      using delivers[OF assms(2), of "State u" "[u]" b y b1 w1] direct assms(3)
      by (intro exI[of _ "[u]"]) (auto simp: numbered_def uend_def)
  qed
qed

text \<open>A call that fails does not move the position.\<close>

lemma Handle_error_state:
  assumes "Handle ap u (b, w) = (Inl e, (b', w'))"
  shows "state b' = state b"
proof -
  have pend: "state c' = state c" if "applyPending ap (c, w) = (Inl e, (c', w'))" for c c'
  proof -
    obtain acc st rest where sc: "scan (state c) (sort_key ustart (pending c)) = (acc, st, rest)"
      by (cases "scan (state c) (sort_key ustart (pending c))") auto
    obtain r c1 w1 where a: "ap st acc (c\<lparr>pending := rest\<rparr>, w) = (r, (c1, w1))"
      by (cases "ap st acc (c\<lparr>pending := rest\<rparr>, w)") auto
    then have "c1 = c\<lparr>pending := rest\<rparr>" by (rule keeps_box)
    with that sc a show ?thesis by (cases "acc = []"; cases r) (auto simp: applyPending_def)
  qed
  obtain gs acc where c: "Consume (gaps b) u = (gs, acc)" by fastforce
  obtain r b1 w1 where a: "ap (State u) [u] (b, w) = (r, (b1, w1))" by (cases "ap (State u) [u] (b, w)") auto
  have b1: "b1 = b" using a by (rule keeps_box)
  let ?g = "checkGap (state b) (State u) (Count u)"
  show ?thesis
  proof (cases "?g = gapIgnore \<or> Has (gaps b)")
    case True
    then show ?thesis using assms
      by (cases "?g = gapIgnore"; cases acc) (auto simp: Handle_def c Let_def dest!: pend split: if_splits)
  next
    case False
    then show ?thesis
    proof (cases ?g)
      case gapApply
      then show ?thesis using False assms a b1
        by (cases "pending b = []"; cases r) (auto simp: Handle_def dest!: pend)
    next
      case gapRefetch
      then show ?thesis using False assms
        by (cases "Enable (state b) (ustart u) (gaps b)")
          (auto simp: Handle_def Let_def dest!: pend split: if_splits)
    qed simp
  qed
qed

text \<open>Over a whole run of arrivals: what was delivered is a contiguous run of arrived updates.\<close>

lemma handle_all_chain:
  assumes "handle_all ap vs (b, w) = (Inr x, (b', w'))" "ready w" "numbered b" "\<forall>u \<in> set vs. State u \<noteq> 0"
  shows "\<exists>us. set us \<subseteq> set (pending b) \<union> set vs \<and> chain (state b) us (state b') \<and>
    applied w' = applied w @ map Value us"
  using assms
proof (induction vs arbitrary: b w)
  case Nil
  then show ?case by (intro exI[of _ "[]"]) (simp add: ret_def)
next
  case (Cons v vs)
  from Cons.prems(1) obtain y b1 w1 where
    1: "Handle ap v (b, w) = (Inr y, (b1, w1))" "handle_all ap vs (b1, w1) = (Inr x, (b', w'))"
    by (auto simp: andThen_eq_Inr_iff)
  obtain us1 where us1: "set us1 \<subseteq> insert v (set (pending b))" "chain (state b) us1 (state b1)"
    "applied w1 = applied w @ map Value us1" "ready w1" "numbered b1" "set (pending b1) \<subseteq> insert v (set (pending b))"
    using Handle_chain[OF 1(1) Cons.prems(2,3)] Cons.prems(4) by auto
  obtain us2 where us2: "set us2 \<subseteq> set (pending b1) \<union> set vs" "chain (state b1) us2 (state b')"
    "applied w' = applied w1 @ map Value us2"
    using Cons.IH[OF 1(2) us1(4,5)] Cons.prems(4) by auto
  have "chain (state b) (us1 @ us2) (state b')" using us1(2) us2(2) by (auto simp: chain_append)
  with us1 us2 show ?case by (intro exI[of _ "us1 @ us2"]) auto
qed

end

section \<open>Arrival order does not matter\<close>

text \<open>What the server publishes: a contiguous run of updates, each advancing the position.\<close>

definition feed :: "int \<Rightarrow> ('v, 'e) update list \<Rightarrow> int \<Rightarrow> bool" where
  "feed s us t \<longleftrightarrow> 0 \<le> s \<and> chain s us t \<and> (\<forall>u \<in> set us. 0 < Count u)"

lemma chain_sep:
  assumes "chain s us t" "\<forall>u \<in> set us. 0 < Count u" "u \<in> set us" "v \<in> set us"
  shows "u = v \<or> uend u \<le> ustart v \<or> uend v \<le> ustart u"
  using assms
proof (induction us arbitrary: s)
  case Nil
  then show ?case by simp
next
  case (Cons w us)
  then have ch: "chain (uend w) us t" "\<forall>u \<in> set us. 0 < Count u" by simp_all
  show ?case using Cons.IH[OF ch] Cons.prems(3,4) chain_mono(2)[OF ch] by auto
qed

lemma span_apart: "uend u \<le> ustart v \<or> uend v \<le> ustart u \<Longrightarrow> span u \<inter> span v = {}"
  by (auto simp: span_def)

lemma chain_cover:
  "chain s us t \<Longrightarrow> \<forall>u \<in> set us. 0 < Count u \<Longrightarrow> {s<..t} \<subseteq> \<Union> (span ` set us)"
proof (induction us arbitrary: s)
  case Nil
  then show ?case by simp
next
  case (Cons u us)
  then have "{s<..t} \<subseteq> span u \<union> {uend u<..t}" by (auto simp: span_def)
  with Cons show ?case by fastforce
qed

lemma Consume_diff:
  assumes "gaps_ok gs" "0 < Count u" "span u \<subseteq> missing gs \<or> span u \<inter> missing gs = {}"
  shows "gaps_ok (fst (Consume gs u))" "missing (fst (Consume gs u)) = missing gs - span u"
proof -
  obtain gs' acc where c: "Consume gs u = (gs', acc)" by fastforce
  note spec = Consume_spec[OF assms(1,2) c]
  show "gaps_ok (fst (Consume gs u))" using spec(1) c by simp
  show "missing (fst (Consume gs u)) = missing gs - span u"
    using spec(2,3) c assms(3) by (cases acc) auto
qed

text \<open>Consuming updates that lie in or outside of \<open>M\<close> takes their spans out of it.\<close>

lemma consume_all:
  assumes "gaps_ok gs" "missing gs = M - \<Union> (span ` D)"
    and "\<forall>u \<in> set vs. 0 < Count u \<and> (span u \<subseteq> M \<or> span u \<inter> M = {})"
    and "\<forall>u \<in> set vs. \<forall>v \<in> D \<union> set vs. u = v \<or> span u \<inter> span v = {}"
  shows "gaps_ok (foldl (\<lambda>g v. fst (Consume g v)) gs vs)"
    "missing (foldl (\<lambda>g v. fst (Consume g v)) gs vs) = M - \<Union> (span ` (D \<union> set vs))"
proof -
  have "gaps_ok (foldl (\<lambda>g v. fst (Consume g v)) gs vs) \<and>
    missing (foldl (\<lambda>g v. fst (Consume g v)) gs vs) = M - \<Union> (span ` (D \<union> set vs))"
    using assms
  proof (induction vs arbitrary: gs D)
    case Nil
    then show ?case by simp
  next
    case (Cons u vs)
    have "span u \<subseteq> missing gs \<or> span u \<inter> missing gs = {}"
    proof (cases "u \<in> D \<or> span u \<inter> M = {}")
      case True
      then show ?thesis using Cons.prems(2) by auto
    next
      case False
      then have "span u \<subseteq> M" "\<forall>v \<in> D. span u \<inter> span v = {}" using Cons.prems(3,4) by (simp, fastforce)
      then show ?thesis using Cons.prems(2) by blast
    qed
    moreover have "0 < Count u" using Cons.prems(3) by simp
    ultimately have "gaps_ok (fst (Consume gs u))"
      "missing (fst (Consume gs u)) = M - \<Union> (span ` insert u D)"
      using Consume_diff[OF Cons.prems(1)] Cons.prems(2) by auto
    then show ?case using Cons.IH[of "fst (Consume gs u)" "insert u D"] Cons.prems(3,4) by simp
  qed
  then show "gaps_ok (foldl (\<lambda>g v. fst (Consume g v)) gs vs)"
    "missing (foldl (\<lambda>g v. fst (Consume g v)) gs vs) = M - \<Union> (span ` (D \<union> set vs))" by blast+
qed

lemma chain_hd:
  assumes "chain s us t" "\<forall>u \<in> set us. 0 < Count u" "u \<in> set us" "ustart u = s"
  shows "\<exists>us'. us = u # us'"
proof (cases us)
  case (Cons v us')
  then have "chain (uend v) us' t" "\<forall>u \<in> set us'. 0 < Count u" "ustart v = s" "0 < Count v" using assms by auto
  then have "u \<notin> set us'" using chain_mono(2)[of "uend v" us' t u] assms(4) by (auto simp: ustart_def uend_def)
  with Cons assms(3) show ?thesis by simp
qed (use assms in simp)

lemma feed_numbered:
  assumes "feed s (pre @ suf) t" "u \<in> set pre \<union> set suf"
  shows "State u \<noteq> 0" "0 < Count u"
  using assms chain_mono(2)[of s "pre @ suf" t u] by (auto simp: feed_def uend_def)

lemma feed_split:
  assumes "feed s (pre @ suf) t" "chain s pre m"
  shows "chain m suf t" "\<forall>u \<in> set pre. ustart u < m" "\<forall>u \<in> set suf. m \<le> ustart u"
proof -
  have c: "chain s (pre @ suf) t" "\<forall>u \<in> set pre. 0 < Count u" "\<forall>u \<in> set suf. 0 < Count u"
    using assms(1) by (auto simp: feed_def)
  have uniq: "chain s pre m \<Longrightarrow> chain s pre m' \<Longrightarrow> m = m'" for m'
    using chain_length[of s pre m] chain_length[of s pre m'] by linarith
  then show *: "chain m suf t" using c(1) assms(2) uniq chain_append by metis
  show "\<forall>u \<in> set pre. ustart u < m" using chain_mono(2)[OF assms(2) c(2)] by (meson less_le_trans)
  show "\<forall>u \<in> set suf. m \<le> ustart u" using chain_mono(2)[OF * c(3)] by blast
qed

text \<open>On a buffer of published updates the loop of \<open>applyPending\<close> takes the longest available run.\<close>

lemma scan_feed:
  assumes "feed s (pre @ suf) t" "chain s pre st" "sorted (map ustart us)" "set us \<subseteq> set pre \<union> set suf"
    and "scan st us = (acc, st', rest)"
  shows "\<exists>suf'. suf = acc @ suf' \<and> chain s (pre @ acc) st' \<and> set acc \<subseteq> set us \<and>
    set rest \<inter> set suf' = set us \<inter> set suf' \<and> set rest \<subseteq> set us \<and> (suf' \<noteq> [] \<longrightarrow> hd suf' \<notin> set us)"
  using assms
proof (induction us arbitrary: pre suf st acc)
  case Nil
  then show ?case by auto
next
  case (Cons u us)
  note sp = feed_split[OF Cons.prems(1,2)]
  have pos: "\<forall>u \<in> set suf. 0 < Count u" using Cons.prems(1) by (auto simp: feed_def)
  have num: "State u \<noteq> 0" using feed_numbered(1)[OF Cons.prems(1), of u] Cons.prems(4) by simp
  show ?case
  proof (cases "checkGap st (State u) (Count u)")
    case gapApply
    then have st: "ustart u = st" using checkGap_iff(1)[OF num] by blast
    then have "u \<in> set suf" using Cons.prems(4) sp(2) by fastforce
    then obtain suf1 where suf: "suf = u # suf1" using chain_hd[OF sp(1) pos] st by blast
    obtain acc1 where sc: "scan (State u) us = (acc1, st', rest)" "acc = u # acc1"
      using gapApply Cons.prems(5) by (auto split: prod.splits)
    have "feed s ((pre @ [u]) @ suf1) t" "chain s (pre @ [u]) (State u)"
      using Cons.prems(1,2) suf st by (auto simp: chain_append uend_def)
    from Cons.IH[OF this _ _ sc(1)] Cons.prems(3,4) suf obtain suf' where
      "suf1 = acc1 @ suf'" "chain s ((pre @ [u]) @ acc1) st'" "set acc1 \<subseteq> set us"
      "set rest \<inter> set suf' = set us \<inter> set suf'" "set rest \<subseteq> set us" "suf' \<noteq> [] \<longrightarrow> hd suf' \<notin> set us" by auto
    moreover have "u \<notin> set suf1"
      using suf chain_mono(2)[of "uend u" suf1 t u] sp(1) pos by (auto simp: ustart_def uend_def)
    ultimately show ?thesis using suf sc(2) by (intro exI[of _ suf']) auto
  next
    case gapIgnore
    then have "u \<notin> set suf" using checkGap_iff(2)[OF num] sp(3) by fastforce
    moreover obtain suf' where "suf = acc @ suf'" "chain s (pre @ acc) st'" "set acc \<subseteq> set us"
      "set rest \<inter> set suf' = set us \<inter> set suf'" "set rest \<subseteq> set us" "suf' \<noteq> [] \<longrightarrow> hd suf' \<notin> set us"
      using Cons.IH[OF Cons.prems(1,2)] Cons.prems(3-5) gapIgnore by auto
    ultimately show ?thesis by (intro exI[of _ suf']) auto
  next
    case gapRefetch
    then have "st < ustart u" using checkGap_iff(3)[OF num] by blast
    then have "\<forall>v \<in> set (u # us). ustart v \<noteq> st" using Cons.prems(3) by auto
    moreover have "suf \<noteq> [] \<Longrightarrow> ustart (hd suf) = st" using sp(1) by (cases suf) auto
    ultimately show ?thesis using gapRefetch Cons.prems(2,5) by auto
  qed
qed

text \<open>The invariant of a box that has received the updates \<open>R\<close> of \<open>pre @ suf\<close> and has applied
  \<open>pre\<close>.\<close>

definition box_inv ::
  "int \<Rightarrow> int \<Rightarrow> ('v, 'e) update list \<Rightarrow> ('v, 'e) update list \<Rightarrow> ('v, 'e) update set \<Rightarrow> ('v, 'e) sbox \<Rightarrow> bool" where
  "box_inv s t pre suf R b \<longleftrightarrow>
     chain s pre (state b) \<and> set pre \<subseteq> R \<and> R \<subseteq> set pre \<union> set suf \<and> set (pending b) = R \<inter> set suf \<and>
     gaps_ok (gaps b) \<and> (gaps b = [] \<longrightarrow> suf \<noteq> [] \<longrightarrow> hd suf \<notin> R) \<and>
     (gaps b \<noteq> [] \<longrightarrow> (\<exists>v \<in> set suf. missing (gaps b) = {state b<..ustart v} - \<Union> (span ` (R \<inter> set suf))))"

lemma suf_inside:
  assumes "feed s (pre @ suf) t" "chain s pre m" "u \<in> set suf" "v \<in> set suf"
  shows "span u \<subseteq> {m<..ustart v} \<or> span u \<inter> {m<..ustart v} = {}"
proof -
  note sp = feed_split[OF assms(1,2)]
  have pos: "\<forall>u \<in> set suf. 0 < Count u" using assms(1) by (auto simp: feed_def)
  then have "ustart v < uend v" using assms(4) by (auto simp: ustart_def uend_def)
  moreover have "m \<le> ustart u" using sp(3) assms(3) by blast
  ultimately show ?thesis
    using chain_sep[OF sp(1) pos assms(3,4)] by (auto simp: span_def)
qed

lemma box_inv_await:
  assumes "feed s (pre @ suf) t" "box_inv s t pre suf R b" "u \<in> set suf" "opened b u \<noteq> []"
  shows "box_inv s t pre suf (insert u R) (b\<lparr>pending := pending b @ [u], gaps := opened b u, armed := a\<rparr>)"
proof -
  from assms(2) have inv: "chain s pre (state b)" "set (pending b) = R \<inter> set suf" "gaps_ok (gaps b)"
    "gaps b \<noteq> [] \<Longrightarrow> \<exists>v \<in> set suf. missing (gaps b) = {state b<..ustart v} - \<Union> (span ` (R \<inter> set suf))"
    by (auto simp: box_inv_def)
  note sp = feed_split[OF assms(1) inv(1)]
  have pos: "\<forall>u \<in> set suf. 0 < Count u" using assms(1) by (auto simp: feed_def)
  have sep: "w = v \<or> span w \<inter> span v = {}" if "w \<in> set suf" "v \<in> set suf" for v w
    using chain_sep[OF sp(1) pos that] span_apart by blast
  have ins: "insert u R \<inter> set suf = insert u (R \<inter> set suf)" using assms(3) by auto
  have "gaps_ok (opened b u) \<and>
    (\<exists>v \<in> set suf. missing (opened b u) = {state b<..ustart v} - \<Union> (span ` (insert u R \<inter> set suf)))"
  proof (cases "gaps b = []")
    case True
    then have ne: "ustart u \<noteq> state b" using assms(4) by (auto simp: opened_def)
    then have c1: "gaps_ok [(state b, ustart u)]" using sp(3) assms(3) by (fastforce simp: gaps_ok_def)
    have c2: "missing [(state b, ustart u)] = {state b<..ustart u} - \<Union> (span ` {})" by simp
    have c3: "\<forall>w \<in> set (pending b @ [u]). 0 < Count w \<and>
        (span w \<subseteq> {state b<..ustart u} \<or> span w \<inter> {state b<..ustart u} = {})"
      using inv(2) assms(3) pos suf_inside[OF assms(1) inv(1)] by auto
    have c4: "\<forall>w \<in> set (pending b @ [u]). \<forall>v \<in> {} \<union> set (pending b @ [u]). w = v \<or> span w \<inter> span v = {}"
      using inv(2) assms(3) sep by auto
    have "opened b u = foldl (\<lambda>g v. fst (Consume g v)) [(state b, ustart u)] (pending b @ [u])"
      using True ne by (simp add: opened_def)
    then have "gaps_ok (opened b u)"
      "missing (opened b u) = {state b<..ustart u} - \<Union> (span ` ({} \<union> set (pending b @ [u])))"
      by (simp_all only: consume_all[OF c1 c2 c3 c4])
    then show ?thesis using inv(2) ins assms(3) by (intro conjI bexI[of _ u]) simp_all
  next
    case False
    from inv(4)[OF this] obtain v where v: "v \<in> set suf"
      "missing (gaps b) = {state b<..ustart v} - \<Union> (span ` (R \<inter> set suf))" by blast
    have "span u \<subseteq> missing (gaps b) \<or> span u \<inter> missing (gaps b) = {}"
    proof (cases "u \<in> R")
      case True
      then show ?thesis using v assms(3) by auto
    next
      case False
      then have "\<forall>w \<in> R \<inter> set suf. span u \<inter> span w = {}" using sep assms(3) by blast
      then show ?thesis using suf_inside[OF assms(1) inv(1) assms(3) v(1)] v(2) by blast
    qed
    then have "gaps_ok (opened b u)" "missing (opened b u) = missing (gaps b) - span u"
      using Consume_diff[OF inv(3), of u] pos assms(3) False by (simp_all add: opened_def)
    then show ?thesis using v by (intro conjI bexI[of _ v]) (auto simp: ins)
  qed
  moreover have "set (pending b @ [u]) = insert u R \<inter> set suf" using inv(2) ins by simp
  moreover have "set pre \<subseteq> insert u R" "insert u R \<subseteq> set pre \<union> set suf"
    using assms(2,3) by (auto simp: box_inv_def)
  ultimately show ?thesis using assms(4) inv(1) by (simp add: box_inv_def)
qed

lemma box_inv_applied:
  assumes f: "feed s (pre @ suf) t" and inv: "chain s pre m" "set pre \<subseteq> R" "R \<subseteq> set pre \<union> set suf"
    and sc: "suf = acc @ suf'" "chain s (pre @ acc) st" "set acc \<subseteq> R" "suf' \<noteq> [] \<longrightarrow> hd suf' \<notin> R"
    and p: "set rest \<inter> set suf' = R \<inter> set suf'" "set rest \<subseteq> set pre \<union> set suf"
  shows "box_inv s t (pre @ acc) suf' R (setState st (b\<lparr>pending := rest, gaps := []\<rparr>))"
proof -
  have f': "feed s ((pre @ acc) @ suf') t" using f sc(1) by simp
  note sp = feed_split[OF f' sc(2)]
  have "checkGap st (State u) (Count u) = gapIgnore \<longleftrightarrow> u \<in> set (pre @ acc)" if "u \<in> set rest" for u
  proof -
    have u: "u \<in> set (pre @ acc) \<union> set suf'" using that p(2) sc(1) by auto
    show ?thesis using checkGap_iff(2)[OF feed_numbered(1)[OF f' u]] sp(2,3) u by fastforce
  qed
  moreover have "u \<notin> set suf'" if "u \<in> set (pre @ acc)" for u
    using sp(2,3) that by fastforce
  ultimately have "{u \<in> set rest. checkGap st (State u) (Count u) \<noteq> gapIgnore} = R \<inter> set suf'"
    using p sc(1) by auto
  then show ?thesis using inv sc by (auto simp: box_inv_def setState_def trimStale_def gaps_ok_def)
qed

locale box_sink = box_client ap applied ready
  for ap :: "('v, 'e, 'w, 'err) apply_fun" and applied :: "'w \<Rightarrow> 'v list" and ready :: "'w \<Rightarrow> bool" +
  assumes accepts: "ready w \<Longrightarrow> \<exists>w'. ap st us (b, w) = (Inr (), (b, w'))"
begin

lemma Handle_inv:
  assumes "feed s (pre @ suf) t" "box_inv s t pre suf R b" "ready w" "u \<in> set pre \<union> set suf"
  shows "\<exists>acc suf' b' w'. suf = acc @ suf' \<and> Handle ap u (b, w) = (Inr (), (b', w')) \<and>
    box_inv s t (pre @ acc) suf' (insert u R) b' \<and> applied w' = applied w @ map Value acc \<and> ready w'"
proof -
  note num = feed_numbered[OF assms(1)]
  from assms(2) have inv: "chain s pre (state b)" "set pre \<subseteq> R" "R \<subseteq> set pre \<union> set suf"
    "set (pending b) = R \<inter> set suf" "gaps b = [] \<Longrightarrow> suf \<noteq> [] \<Longrightarrow> hd suf \<notin> R"
    by (auto simp: box_inv_def)
  note sp = feed_split[OF assms(1) inv(1)]
  have pos: "\<forall>u \<in> set suf. 0 < Count u" using assms(1) by (auto simp: feed_def)
  have late: "u \<in> set suf" if "state b \<le> ustart u" using that assms(4) sp(2) by fastforce
  from num(1)[OF assms(4)] show ?thesis
  proof (cases rule: Handle_paths[of u b ap w])
    case stale
    then have "u \<in> set pre" using assms(4) sp(3) by fastforce
    then have R: "insert u R = R" using inv(2) by auto
    have "checkGap (state b) (State v) (Count v) \<noteq> gapIgnore" if "v \<in> set (pending b)" for v
      using that inv(4) num(1)[of v] sp(3) checkGap_iff(2)[of v "state b"] by auto
    then have "trimStale b = b" by (simp add: trimStale_def filter_id_conv)
    then show ?thesis using stale assms(2,3) R by - (rule exI[of _ "[]"], rule exI[of _ suf], auto)
  next
    case (await a)
    then show ?thesis using box_inv_await[OF assms(1,2) late[OF await(1)] await(2)] assms(3)
      by - (rule exI[of _ "[]"], rule exI[of _ suf], auto)
  next
    case (drain a)
    let ?c = "b\<lparr>pending := pending b @ [u], gaps := [], armed := a\<rparr>"
    obtain acc st rest where sc: "scan (state b) (sort_key ustart (pending b @ [u])) = (acc, st, rest)"
      by (cases "scan (state b) (sort_key ustart (pending b @ [u]))") auto
    have u: "u \<in> set suf" by (rule late[OF drain(1)])
    have "set (sort_key ustart (pending b @ [u])) \<subseteq> set pre \<union> set suf"
      using inv(4) u by auto
    from scan_feed[OF assms(1) inv(1) _ this sc] obtain suf' where
      s': "suf = acc @ suf'" "chain s (pre @ acc) st" "set acc \<subseteq> insert u (set (pending b))"
        "set rest \<inter> set suf' = insert u (set (pending b)) \<inter> set suf'" "set rest \<subseteq> insert u (set (pending b))"
        "suf' \<noteq> [] \<longrightarrow> hd suf' \<notin> insert u (set (pending b))" by auto
    have new: "box_inv s t (pre @ acc) suf' (insert u R) (setState st (c\<lparr>pending := rest, gaps := []\<rparr>))" for c :: "('v, 'e) sbox"
      using s' inv(2,3,4) u by (intro box_inv_applied[OF assms(1) inv(1)]) (auto simp: hd_in_set)
    show ?thesis
    proof (cases "acc = []")
      case True
      then have st: "st = state b" using s'(2) inv(1) chain_length[of s pre st] chain_length[of s pre "state b"] by simp
      have r: "applyPending ap (?c, w) = (Inr (), (?c\<lparr>pending := rest\<rparr>, w))"
        using sc True by (simp add: applyPending_def)
      have "box_inv s t pre suf (insert u R) (?c\<lparr>pending := rest\<rparr>)"
        using new[of ?c] True s' inv u unfolding box_inv_def st by (auto simp: gaps_ok_def setState_def trimStale_def)
      then show ?thesis using r drain(3) assms(3) by - (rule exI[of _ "[]"], rule exI[of _ suf], auto)
    next
      case False
      obtain w' where a: "ap st acc (?c\<lparr>pending := rest\<rparr>, w) = (Inr (), (?c\<lparr>pending := rest\<rparr>, w'))"
        using accepts[OF assms(3)] by blast
      then have "applyPending ap (?c, w) = (Inr (), (setState st (?c\<lparr>pending := rest\<rparr>), w'))"
        using sc False by (simp add: applyPending_def)
      moreover have e: "?c\<lparr>pending := rest, gaps := []\<rparr> = ?c\<lparr>pending := rest\<rparr>" by simp
      ultimately show ?thesis using new[of ?c, unfolded e] delivers[OF assms(3) a] drain(3) s'(1)
        by - (rule exI[of _ acc], rule exI[of _ suf'], auto)
    qed
  next
    case direct
    obtain suf' where suf: "suf = u # suf'"
      using chain_hd[OF sp(1) pos late] direct(1) by auto
    obtain w' where a: "ap (State u) [u] (b, w) = (Inr (), (b, w'))"
      using accepts[OF assms(3)] by blast
    have R: "R \<inter> set suf = {}" using inv(4) direct(3) by simp
    have "u \<notin> set suf'"
      using suf chain_mono(2)[of "uend u" suf' t u] sp(1) pos by (auto simp: ustart_def uend_def)
    then have "box_inv s t (pre @ [u]) suf' (insert u R) (setState (State u) (b\<lparr>pending := [], gaps := []\<rparr>))"
      using inv suf R direct(1)
      by (intro box_inv_applied[OF assms(1) inv(1)]) (auto simp: chain_append uend_def hd_in_set)
    moreover have "b\<lparr>pending := [], gaps := []\<rparr> = b" using direct(2,3) by (cases b) simp
    ultimately show ?thesis using direct(4) a delivers[OF assms(3) a] suf
      by - (rule exI[of _ "[u]"], rule exI[of _ suf'], auto)
  qed
qed

lemma handle_all_inv:
  assumes "feed s (pre @ suf) t" "box_inv s t pre suf R b" "ready w" "set vs \<subseteq> set pre \<union> set suf"
  shows "\<exists>acc suf' b' w'. suf = acc @ suf' \<and> handle_all ap vs (b, w) = (Inr (), (b', w')) \<and>
    box_inv s t (pre @ acc) suf' (R \<union> set vs) b' \<and> applied w' = applied w @ map Value acc \<and> ready w'"
  using assms
proof (induction vs arbitrary: pre suf R b w)
  case Nil
  then show ?case by - (rule exI[of _ "[]"], rule exI[of _ suf], (simp add: ret_def))
next
  case (Cons v vs)
  from Handle_inv[OF Cons.prems(1-3), of v] Cons.prems(4) obtain acc suf' b1 w1 where
    1: "suf = acc @ suf'" "Handle ap v (b, w) = (Inr (), (b1, w1))" "box_inv s t (pre @ acc) suf' (insert v R) b1"
      "applied w1 = applied w @ map Value acc" "ready w1" by auto
  have "feed s ((pre @ acc) @ suf') t" "set vs \<subseteq> set (pre @ acc) \<union> set suf'" using Cons.prems(1,4) 1(1) by auto
  from Cons.IH[OF this(1) 1(3,5) this(2)] obtain acc' suf'' b' w' where
    2: "suf' = acc' @ suf''" "handle_all ap vs (b1, w1) = (Inr (), (b', w'))"
      "box_inv s t ((pre @ acc) @ acc') suf'' (insert v R \<union> set vs) b'"
      "applied w' = applied w1 @ map Value acc'" "ready w'" by blast
  show ?case using 1 2 by - (rule exI[of _ "acc @ acc'"], rule exI[of _ suf''], auto)
qed

lemma any_order:
  assumes "feed s us t" "set vs = set us" "ready w"
  shows "\<exists>b w'. handle_all ap vs (newSequenceBox s, w) = (Inr (), (b, w')) \<and>
    state b = t \<and> gaps b = [] \<and> pending b = [] \<and> applied w' = applied w @ map Value us"
proof -
  have "box_inv s t [] us {} (newSequenceBox s)"
    by (simp add: box_inv_def newSequenceBox_def gaps_ok_def)
  from handle_all_inv[of s "[]" us t, OF _ this assms(3), of vs] assms(1,2) obtain acc suf b w' where
    1: "us = acc @ suf" "handle_all ap vs (newSequenceBox s, w) = (Inr (), (b, w'))"
      "box_inv s t acc suf (set us) b" "applied w' = applied w @ map Value acc" by auto
  have f: "feed s (acc @ suf) t" "chain s acc (state b)" using assms(1) 1(1,3) by (auto simp: box_inv_def)
  note sp = feed_split[OF f]
  have pos: "\<forall>u \<in> set suf. 0 < Count u" using f(1) by (auto simp: feed_def)
  have "gaps b = []"
  proof (rule ccontr)
    assume "gaps b \<noteq> []"
    then obtain v where v: "v \<in> set suf" "missing (gaps b) = {state b<..ustart v} - \<Union> (span ` set suf)" "gaps_ok (gaps b)"
      using 1(1,3) by (auto simp: box_inv_def Int_Un_distrib2 Un_absorb1)
    have "ustart v \<le> t" using chain_mono(2)[OF sp(1) pos v(1)] by simp
    then have "missing (gaps b) = {}" using chain_cover[OF sp(1) pos] v(2) by fastforce
    then show False using gaps_ok_missing_empty[OF v(3)] \<open>gaps b \<noteq> []\<close> by simp
  qed
  moreover from this have "suf = []" using 1(1,3) by (cases suf) (auto simp: box_inv_def)
  ultimately show ?thesis using 1 sp(1) by (auto simp: box_inv_def)
qed

end

section \<open>Properties\<close>

text \<open>C23: the gap buffer is a set of missing positions.  While the gaps are non-empty and do not
  touch, \<open>Consume\<close> accepts an update exactly when all its positions are missing, takes exactly
  them out, changes nothing otherwise, and \<open>Has\<close> says whether a position is still missing.\<close>

theorem gap_buffer_refines_missing:
  assumes "gaps_ok gs" "0 < Count u" "Consume gs u = (gs', accepted)"
  shows "gaps_ok gs' \<and> (accepted \<longleftrightarrow> span u \<subseteq> missing gs) \<and>
    missing gs' = (if accepted then missing gs - span u else missing gs) \<and>
    (Has gs' \<longleftrightarrow> missing gs' \<noteq> {})"
  using Consume_spec[OF assms] gaps_ok_missing_empty[of gs'] by (simp add: Has_def)

definition sample :: "int \<Rightarrow> int \<Rightarrow> (unit, unit) update" where
  "sample st n = \<lparr>Value = (), State = st, Count = n, Entities = ()\<rparr>"

theorem gap_buffer_refines_missing_witness:
  "missing [(2, 4), (6, 9)] = missing [(2, 9)] - span (sample 6 2) \<and> span (sample 6 2) \<subseteq> missing [(2, 9)]"
proof -
  have "gaps_ok [(2, 9)]" "Consume [(2, 9)] (sample 6 2) = ([(2, 4), (6, 9)], True)"
    by (simp_all add: gaps_ok_def Consume_def consume_loop.simps ustart_def uend_def sample_def)
  then show ?thesis using gap_buffer_refines_missing[of "[(2, 9)]" "sample 6 2"] by (simp add: sample_def)
qed

text \<open>there is never a gap without a running timer.  Whatever update arrives and whatever
  the callback does (as long as it leaves the box alone), if a box with gaps has its timer armed
  before, it has after, so an unresolved gap always ends in a \<open>getDifference\<close>.\<close>

theorem gap_timer_armed:
  assumes "\<And>st us b w r b' w'. ap st us (b, w) = (r, (b', w')) \<Longrightarrow> b' = b"
    and "Handle ap u (b, w) = (r, (b', w'))" "gaps b \<noteq> [] \<longrightarrow> armed b"
  shows "gaps b' \<noteq> [] \<longrightarrow> armed b'"
proof -
  have "timed b' \<and> True"
    by (rule Handle_timed[of ap "\<lambda>_. True" u b w r b' w']) (use assms in \<open>auto simp: timed_def dest!: assms(1)\<close>)
  then show ?thesis by (simp add: timed_def)
qed

theorem gap_timer_armed_witness:
  "\<exists>b. Handle (\<lambda>_ _ bw. (Inr () :: unit + unit, bw)) (sample 6 2) (newSequenceBox 1, ()) = (Inr (), (b, ())) \<and>
    gaps b = [(1, 4)] \<and> armed b"
proof -
  have eq: "Handle (\<lambda>_ _ bw. (Inr () :: unit + unit, bw)) (sample 6 2) (newSequenceBox 1, ()) =
      (Inr (), (\<lparr>state = 1, gaps = [(1, 4)], pending = [sample 6 2], armed = True\<rparr>, ()))"
    by (simp add: Handle_def sample_def checkGap_def newSequenceBox_def Has_def Enable_def Consume_def
        consume_loop.simps ustart_def uend_def)
  show ?thesis
    using gap_timer_armed[OF _ eq] eq by (simp add: newSequenceBox_def)
qed

end
