(* ===== verification/UpdData.thy ===== *)
theory UpdData
  imports SeqBox "HOL-Library.Multiset"
begin

text \<open>
  The data of the update manager: the parts of Telegram's update types that
  \<open>pkg/gotd/telegram/updates\<close> looks at, with the classifiers over them, merging of entities
  (\<open>update.go\<close>), validation and conversion (\<open>utils.go\<close>, \<open>conv_shorts.go\<close>) and the order of
  updates (\<open>sort_pts.go\<close>).  \<open>'x\<close> stands for the content of a TL object that this code never
  inspects.  Updates that the code treats alike share a constructor: \<open>CommonPts\<close> is any of the
  eight common pts updates beside \<open>UpdateNewMessage\<close>, \<open>CommonQts\<close> any qts update beside
  \<open>UpdateNewEncryptedMessage\<close>, \<open>ChannelPts\<close> a channel update that carries its channel.
\<close>

section \<open>Users, chats and messages\<close>

datatype UserClass =
    User (user_id: int) (user_hash: "int option") (user_min: bool)
  | UserEmpty (user_id: int)

datatype ChatClass =
    Channel (chat_id: int) (channel_hash: "int option") (channel_min: bool) (channel_left: bool)
  | ChannelForbidden (chat_id: int) (forbidden_hash: int)
  | Community (chat_id: int) (community_hash: "int option") (community_min: bool)
  | CommunityForbidden (chat_id: int) (community_hash: "int option")
  | OtherChat (chat_id: int)

datatype PeerClass = PeerUser int | PeerChat int | PeerChannel int

record 'x message =
  msgID :: int
  PeerID :: PeerClass
  Text :: string
  MsgDate :: int
  Out :: bool
  Mentioned :: bool
  MediaUnread :: bool
  Silent :: bool
  FromScheduled :: bool
  FromID :: "PeerClass option"
  FwdFrom :: "'x option"
  ViaBotID :: "int option"
  ReplyTo :: "'x option"
  MsgEntities :: "'x list option"
  TTLPeriod :: "int option"

datatype 'x MessageClass =
    MessageEmpty int "PeerClass option"
  | Message "'x message"
  | MessageService int PeerClass 'x

section \<open>Updates\<close>

datatype 'x UpdateClass =
    UpdateNewMessage "'x MessageClass" int int
  | CommonPts 'x int int
  | UpdateNewEncryptedMessage 'x int
  | CommonQts 'x int
  | UpdateChannelTooLong int "int option"
  | UpdateNewChannelMessage "'x MessageClass" int int
  | UpdateEditChannelMessage "'x MessageClass" int int
  | UpdateReadChannelInbox int int 'x
  | ChannelPts 'x int int int
  | UpdatePtsChanged
  | OtherUpdate 'x

fun IsPtsUpdate :: "'x UpdateClass \<Rightarrow> (int \<times> int) option" where
  "IsPtsUpdate (UpdateNewMessage _ pts cnt) = Some (pts, cnt)"
| "IsPtsUpdate (CommonPts _ pts cnt) = Some (pts, cnt)"
| "IsPtsUpdate _ = None"

fun IsQtsUpdate :: "'x UpdateClass \<Rightarrow> int option" where
  "IsQtsUpdate (UpdateNewEncryptedMessage _ qts) = Some qts"
| "IsQtsUpdate (CommonQts _ qts) = Some qts"
| "IsQtsUpdate _ = None"

fun extractChannelID :: "'x MessageClass \<Rightarrow> int option" where
  "extractChannelID (MessageEmpty _ (Some (PeerChannel c))) = Some c"
| "extractChannelID (Message m) = (case PeerID m of PeerChannel c \<Rightarrow> Some c | _ \<Rightarrow> None)"
| "extractChannelID (MessageService _ (PeerChannel c) _) = Some c"
| "extractChannelID _ = None"

text \<open>\<open>Some (id, pts, count)\<close> when the update is a channel update; \<open>id = None\<close> stands for the
  error that goes with it.  The channel id of the erroneous result is 0.\<close>

fun IsChannelPtsUpdate :: "'x UpdateClass \<Rightarrow> (int option \<times> int \<times> int) option" where
  "IsChannelPtsUpdate (UpdateChannelTooLong c pts) = Some (Some c, case pts of None \<Rightarrow> 0 | Some p \<Rightarrow> p, 0)"
| "IsChannelPtsUpdate (UpdateNewChannelMessage m pts cnt) = Some (extractChannelID m, pts, cnt)"
| "IsChannelPtsUpdate (UpdateReadChannelInbox c pts _) = Some (Some c, pts, 0)"
| "IsChannelPtsUpdate (UpdateEditChannelMessage m pts cnt) = Some (extractChannelID m, pts, cnt)"
| "IsChannelPtsUpdate (ChannelPts _ c pts cnt) = Some (Some c, pts, cnt)"
| "IsChannelPtsUpdate _ = None"

section \<open>Entities\<close>

record entities =
  Users :: "UserClass list"
  Chats :: "ChatClass list"

definition no_entities :: entities where
  "no_entities = \<lparr>Users = [], Chats = []\<rparr>"

text \<open>The two loops of \<open>Merge\<close>: a candidate is appended unless its id is already present.\<close>

definition merge_by :: "('a \<Rightarrow> int) \<Rightarrow> 'a list \<Rightarrow> 'a list \<Rightarrow> 'a list" where
  "merge_by GetID = foldl (\<lambda>have candidate.
     if \<exists>exist \<in> set have. GetID exist = GetID candidate then have else have @ [candidate])"

definition Merge :: "entities \<Rightarrow> entities \<Rightarrow> entities" where
  "Merge e from =
     \<lparr>Users = merge_by user_id (Users e) (Users from), Chats = merge_by chat_id (Chats e) (Chats from)\<rparr>"

lemma merge_by_Cons:
  "merge_by f xs (y # ys) = merge_by f (if f y \<in> f ` set xs then xs else xs @ [y]) ys"
  by (simp add: merge_by_def image_iff) metis

lemma merge_by_Nil [simp]: "merge_by f xs [] = xs"
  by (simp add: merge_by_def)

lemma merge_by_props:
  "\<exists>new. merge_by f xs ys = xs @ new \<and> set new \<subseteq> set ys"
  "f ` set (merge_by f xs ys) = f ` (set xs \<union> set ys)"
  "distinct (map f xs) \<Longrightarrow> distinct (map f (merge_by f xs ys))"
proof -
  show "\<exists>new. merge_by f xs ys = xs @ new \<and> set new \<subseteq> set ys"
  proof (induction ys arbitrary: xs)
    case (Cons y ys)
    show ?case
    proof (cases "f y \<in> f ` set xs")
      case True
      then show ?thesis using Cons[of xs] by (auto simp: merge_by_Cons)
    next
      case False
      then show ?thesis using Cons[of "xs @ [y]"] by (auto simp: merge_by_Cons)
    qed
  qed simp
  show "f ` set (merge_by f xs ys) = f ` (set xs \<union> set ys)"
    by (induction ys arbitrary: xs) (auto simp: merge_by_Cons)
  show "distinct (map f xs) \<Longrightarrow> distinct (map f (merge_by f xs ys))"
    by (induction ys arbitrary: xs) (auto simp: merge_by_Cons)
qed

definition merge_all :: "entities list \<Rightarrow> entities" where
  "merge_all es = foldl Merge no_entities es"

lemma merge_all_ids:
  "user_id ` set (Users (merge_all es)) = (\<Union>e \<in> set es. user_id ` set (Users e))"
  "chat_id ` set (Chats (merge_all es)) = (\<Union>e \<in> set es. chat_id ` set (Chats e))"
  "distinct (map user_id (Users (merge_all es)))" "distinct (map chat_id (Chats (merge_all es)))"
proof -
  have "user_id ` set (Users (foldl Merge e es)) = user_id ` set (Users e) \<union> (\<Union>e \<in> set es. user_id ` set (Users e)) \<and>
    chat_id ` set (Chats (foldl Merge e es)) = chat_id ` set (Chats e) \<union> (\<Union>e \<in> set es. chat_id ` set (Chats e)) \<and>
    (distinct (map user_id (Users e)) \<longrightarrow> distinct (map user_id (Users (foldl Merge e es)))) \<and>
    (distinct (map chat_id (Chats e)) \<longrightarrow> distinct (map chat_id (Chats (foldl Merge e es))))" for e
    by (induction es arbitrary: e) (auto simp: Merge_def merge_by_props)
  from this[of no_entities] show
    "user_id ` set (Users (merge_all es)) = (\<Union>e \<in> set es. user_id ` set (Users e))"
    "chat_id ` set (Chats (merge_all es)) = (\<Union>e \<in> set es. chat_id ` set (Chats e))"
    "distinct (map user_id (Users (merge_all es)))" "distinct (map chat_id (Chats (merge_all es)))"
    by (simp_all add: merge_all_def no_entities_def)
qed

section \<open>Validation and conversion\<close>

definition validatePts :: "int \<Rightarrow> int \<Rightarrow> bool" where
  "validatePts pts ptsCount \<longleftrightarrow> \<not> pts < 0 \<and> \<not> ptsCount < 0"

definition validateQts :: "int \<Rightarrow> bool" where
  "validateQts qts \<longleftrightarrow> \<not> qts < 0"

definition validateSeq :: "int \<Rightarrow> int \<Rightarrow> bool" where
  "validateSeq seq seqStart \<longleftrightarrow> \<not> seq < 0 \<and> \<not> seqStart < 0"

datatype DialogClass = Dialog "int option" | DialogFolder

definition getDialogPts :: "DialogClass \<Rightarrow> int option" where
  "getDialogPts dialog = (case dialog of Dialog pts \<Rightarrow> pts | DialogFolder \<Rightarrow> None)"

definition msgsToUpdates :: "'x MessageClass list \<Rightarrow> bool \<Rightarrow> 'x UpdateClass list" where
  "msgsToUpdates msgs channel =
     map (\<lambda>msg. if channel then UpdateNewChannelMessage msg (-1) (-1) else UpdateNewMessage msg (-1) (-1)) msgs"

definition encryptedMsgsToUpdates :: "'x list \<Rightarrow> 'x UpdateClass list" where
  "encryptedMsgsToUpdates msgs = map (\<lambda>msg. UpdateNewEncryptedMessage msg (-1)) msgs"

text \<open>The short forms of an update.  \<open>UpdateShortMessage\<close> and \<open>UpdateShortChatMessage\<close> have the
  same optional fields; neither has media.\<close>

record 'x short_message =
  sID :: int
  sUserID :: int
  sChatID :: int
  sMessage :: string
  sPts :: int
  sPtsCount :: int
  sDate :: int
  sOut :: bool
  sMentioned :: bool
  sMediaUnread :: bool
  sSilent :: bool
  sFwdFrom :: "'x option"
  sViaBotID :: "int option"
  sReplyTo :: "'x option"
  sEntities :: "'x list option"
  sTTLPeriod :: "int option"

record sent_message =
  sentID :: int
  sentPts :: int
  sentPtsCount :: int
  sentDate :: int

definition convertOptional :: "'x message \<Rightarrow> 'x short_message \<Rightarrow> 'x message" where
  "convertOptional msg i =
     (let set_opt = (\<lambda>new old. case new of None \<Rightarrow> old | Some v \<Rightarrow> Some v);
          set_opt_id = (\<lambda>new old. case new of None \<Rightarrow> old | Some v \<Rightarrow> Some v);
          set_opt_list = (\<lambda>new old. case new of None \<Rightarrow> old | Some v \<Rightarrow> Some v)
      in msg\<lparr>FwdFrom := set_opt (sFwdFrom i) (FwdFrom msg),
             ViaBotID := set_opt_id (sViaBotID i) (ViaBotID msg),
             ReplyTo := set_opt (sReplyTo i) (ReplyTo msg),
             MsgEntities := set_opt_list (sEntities i) (MsgEntities msg),
             TTLPeriod := set_opt_id (sTTLPeriod i) (TTLPeriod msg)\<rparr>)"

definition new_message :: "int \<Rightarrow> PeerClass \<Rightarrow> string \<Rightarrow> int \<Rightarrow> 'x message" where
  "new_message i p t d = \<lparr>msgID = i, PeerID = p, Text = t, MsgDate = d, Out = False, Mentioned = False,
     MediaUnread = False, Silent = False, FromScheduled = False, FromID = None, FwdFrom = None,
     ViaBotID = None, ReplyTo = None, MsgEntities = None, TTLPeriod = None\<rparr>"

text \<open>An \<open>UpdateShort\<close> is its update and its date.\<close>

definition convertShortMessage :: "int \<Rightarrow> 'x short_message \<Rightarrow> 'x UpdateClass \<times> int" where
  "convertShortMessage selfID u =
     (let msg = (new_message (sID u) (PeerUser (sUserID u)) (sMessage u) (sDate u))
            \<lparr>Out := sOut u, Mentioned := sMentioned u, MediaUnread := sMediaUnread u, Silent := sSilent u,
             FromID := Some (PeerUser selfID)\<rparr>;
          msg = (if \<not> sOut u then msg\<lparr>FromID := Some (PeerUser (sUserID u))\<rparr> else msg)
      in (UpdateNewMessage (Message (convertOptional msg u)) (sPts u) (sPtsCount u), sDate u))"

definition convertShortChatMessage :: "'x short_message \<Rightarrow> 'x UpdateClass \<times> int" where
  "convertShortChatMessage u =
     (let msg = (new_message (sID u) (PeerChat (sChatID u)) (sMessage u) (sDate u))
            \<lparr>Out := sOut u, Mentioned := sMentioned u, MediaUnread := sMediaUnread u, Silent := sSilent u\<rparr>;
          msg = msg\<lparr>FromScheduled := FromScheduled msg\<rparr>;
          msg = msg\<lparr>FromID := Some (PeerUser (sUserID u))\<rparr>
      in (UpdateNewMessage (Message (convertOptional msg u)) (sPts u) (sPtsCount u), sDate u))"

definition convertShortSentMessage :: "sent_message \<Rightarrow> 'x UpdateClass \<times> int" where
  "convertShortSentMessage u =
     (UpdateNewMessage (MessageEmpty (sentID u) None) (sentPts u) (sentPtsCount u), sentDate u)"

section \<open>The order of updates in a container\<close>

datatype ptsType = other | commonPts | commonQts | channelPts

datatype compare = Compare (ckind: ptsType) (cchannel: int) (ptsDiff: int)

definition getType :: "'x UpdateClass \<Rightarrow> compare" where
  "getType u =
     (case IsPtsUpdate u of
        Some (pts, ptsCount) \<Rightarrow> Compare commonPts 0 (pts - ptsCount)
      | None \<Rightarrow>
     (case IsChannelPtsUpdate u of
        Some (c, pts, ptsCount) \<Rightarrow> Compare channelPts (case c of None \<Rightarrow> 0 | Some i \<Rightarrow> i) (pts - ptsCount)
      | None \<Rightarrow>
     (case IsQtsUpdate u of
        Some qts \<Rightarrow> Compare commonQts 0 qts
      | None \<Rightarrow> Compare other 0 0)))"

definition ptsType_no :: "ptsType \<Rightarrow> nat" where
  "ptsType_no t = (case t of other \<Rightarrow> 0 | commonPts \<Rightarrow> 1 | commonQts \<Rightarrow> 2 | channelPts \<Rightarrow> 3)"

definition Less :: "'x UpdateClass \<Rightarrow> 'x UpdateClass \<Rightarrow> bool" where
  "Less p q =
     (let a = getType p; b = getType q in
      if ptsType_no (ckind a) < ptsType_no (ckind b) then True
      else if ptsType_no (ckind a) > ptsType_no (ckind b) then False
      else case ckind a of
        other \<Rightarrow> False
      | channelPts \<Rightarrow>
          (if cchannel a < cchannel b then True
           else if cchannel a > cchannel b then False
           else ptsDiff a < ptsDiff b)
      | _ \<Rightarrow> ptsDiff a < ptsDiff b)"

text \<open>\<open>sort.Stable\<close>: an element is put before the first one that is not less than it.\<close>

primrec stable_insert :: "('a \<Rightarrow> 'a \<Rightarrow> bool) \<Rightarrow> 'a \<Rightarrow> 'a list \<Rightarrow> 'a list" where
  "stable_insert lt x [] = [x]"
| "stable_insert lt x (y # ys) = (if lt y x then y # stable_insert lt x ys else x # y # ys)"

definition sort_Stable :: "('a \<Rightarrow> 'a \<Rightarrow> bool) \<Rightarrow> 'a list \<Rightarrow> 'a list" where
  "sort_Stable lt xs = foldr (stable_insert lt) xs []"

definition sortUpdatesByPts :: "'x UpdateClass list \<Rightarrow> 'x UpdateClass list" where
  "sortUpdatesByPts u = sort_Stable Less u"

text \<open>The comparison key is linearly ordered, lexicographically.\<close>

instantiation compare :: linorder
begin

definition less_eq_compare :: "compare \<Rightarrow> compare \<Rightarrow> bool" where
  "a \<le> b \<longleftrightarrow> ptsType_no (ckind a) < ptsType_no (ckind b) \<or> ptsType_no (ckind a) = ptsType_no (ckind b) \<and>
     (cchannel a < cchannel b \<or> cchannel a = cchannel b \<and> ptsDiff a \<le> ptsDiff b)"

definition less_compare :: "compare \<Rightarrow> compare \<Rightarrow> bool" where
  "a < b \<longleftrightarrow> a \<le> b \<and> \<not> b \<le> (a :: compare)"

instance
proof
  fix a b c :: compare
  have inj: "ptsType_no s = ptsType_no t \<Longrightarrow> s = t" for s t
    by (cases s; cases t) (simp_all add: ptsType_no_def)
  show "a < b \<longleftrightarrow> a \<le> b \<and> \<not> b \<le> a" by (rule less_compare_def)
  show "a \<le> a" by (simp add: less_eq_compare_def)
  show "a \<le> b \<Longrightarrow> b \<le> c \<Longrightarrow> a \<le> c" by (auto simp: less_eq_compare_def)
  show "a \<le> b \<or> b \<le> a" by (auto simp: less_eq_compare_def)
  show "a \<le> b \<Longrightarrow> b \<le> a \<Longrightarrow> a = b"
    using inj by (cases a; cases b) (auto simp: less_eq_compare_def)
qed

end

lemma getType_common [simp]: "ckind (getType u) \<noteq> channelPts \<Longrightarrow> cchannel (getType u) = 0"
  "ckind (getType u) = other \<Longrightarrow> ptsDiff (getType u) = 0"
  by (auto simp: getType_def split: option.splits)

lemma Less_key: "Less p q \<longleftrightarrow> getType p < getType q"
proof -
  have inj: "ptsType_no s = ptsType_no t \<Longrightarrow> s = t" for s t
    by (cases s; cases t) (simp_all add: ptsType_no_def)
  show ?thesis
  proof (cases "ptsType_no (ckind (getType p)) = ptsType_no (ckind (getType q))")
    case True
    then have "ckind (getType q) = ckind (getType p)" using inj by metis
    then show ?thesis
      by (cases "ckind (getType p)") (auto simp: Less_def less_compare_def less_eq_compare_def Let_def)
  next
    case False
    then show ?thesis by (auto simp: Less_def less_compare_def less_eq_compare_def Let_def)
  qed
qed

lemma stable_insert_key: "stable_insert Less x ys = insort_key getType x ys"
  by (induction ys) (auto simp: Less_key)

lemma sortUpdatesByPts_key: "sortUpdatesByPts us = sort_key getType us"
  by (simp add: sortUpdatesByPts_def sort_Stable_def sort_key_def ext[OF ext[OF stable_insert_key]])

text \<open>What the order is to be, from the updates themselves: updates without a position first, then those
  of the common sequence, the secret chats and the channels, channel by channel, each by the state
  that it starts from, which is \<open>pts - ptsCount\<close>.\<close>

fun place :: "'x UpdateClass \<Rightarrow> nat \<times> int \<times> int" where
  "place (UpdateNewMessage _ pts cnt) = (1, 0, pts - cnt)"
| "place (CommonPts _ pts cnt) = (1, 0, pts - cnt)"
| "place (UpdateNewEncryptedMessage _ qts) = (2, 0, qts)"
| "place (CommonQts _ qts) = (2, 0, qts)"
| "place (UpdateChannelTooLong c pts) = (3, c, case pts of None \<Rightarrow> 0 | Some p \<Rightarrow> p)"
| "place (UpdateNewChannelMessage m pts cnt) = (3, case extractChannelID m of None \<Rightarrow> 0 | Some c \<Rightarrow> c, pts - cnt)"
| "place (UpdateEditChannelMessage m pts cnt) = (3, case extractChannelID m of None \<Rightarrow> 0 | Some c \<Rightarrow> c, pts - cnt)"
| "place (UpdateReadChannelInbox c pts _) = (3, c, pts)"
| "place (ChannelPts _ c pts cnt) = (3, c, pts - cnt)"
| "place UpdatePtsChanged = (0, 0, 0)"
| "place (OtherUpdate _) = (0, 0, 0)"

fun not_after :: "nat \<times> int \<times> int \<Rightarrow> nat \<times> int \<times> int \<Rightarrow> bool" where
  "not_after (k, c, p) (k', c', p') \<longleftrightarrow> k < k' \<or> k = k' \<and> (c < c' \<or> c = c' \<and> p \<le> p')"

lemma ptsType_no_inj: "ptsType_no s = ptsType_no t \<longleftrightarrow> s = t"
  by (cases s; cases t) (simp_all add: ptsType_no_def)

lemma place_getType: "place u = (ptsType_no (ckind (getType u)), cchannel (getType u), ptsDiff (getType u))"
  by (cases u) (simp_all add: getType_def ptsType_no_def)

lemma place_order:
  "getType u \<le> getType v \<longleftrightarrow> not_after (place u) (place v)" "getType u = getType v \<longleftrightarrow> place u = place v"
  by (auto simp: place_getType less_eq_compare_def ptsType_no_inj intro: compare.expand)

text \<open>Updates of the common sequence that follow one another from a state, each starting where the one
  before it ends.\<close>

fun follow_on :: "int \<Rightarrow> 'x UpdateClass list \<Rightarrow> bool" where
  "follow_on p [] = True"
| "follow_on p (u # us) = (\<exists>pts n. IsPtsUpdate u = Some (pts, n) \<and> 0 < n \<and> pts - n = p \<and> follow_on pts us)"

lemma follow_on_common: "follow_on p us \<Longrightarrow> \<forall>v \<in> set us. \<exists>x. getType v = Compare commonPts 0 x"
  by (induction us arbitrary: p) (auto simp: getType_def)

lemma follow_on_increases:
  "follow_on p us \<Longrightarrow> (\<forall>u \<in> set us. p \<le> ptsDiff (getType u)) \<and> sorted_wrt (\<lambda>u v. getType u < getType v) us"
proof (induction us arbitrary: p)
  case (Cons u us)
  obtain pts n where u: "IsPtsUpdate u = Some (pts, n)" "0 < n" "pts - n = p" "follow_on pts us"
    using Cons.prems by auto
  have "getType u = Compare commonPts 0 p" using u by (simp add: getType_def)
  moreover from Cons.IH[OF u(4)] follow_on_common[OF u(4)] have
    "\<forall>v \<in> set us. \<exists>x. getType v = Compare commonPts 0 x \<and> pts \<le> x" by fastforce
  ultimately show ?case using u(2,3) Cons.IH[OF u(4)]
    by (fastforce simp: less_compare_def less_eq_compare_def)
qed simp

text \<open>C36: a container's updates are put into the order in which they apply.  \<open>sortUpdatesByPts\<close> permutes
  them by kind, channel and the state they start from, and keeps those of one place, all
  updates without a position among them, in the order they came, and the comparator it hands to
  \<open>sort.Stable\<close> says just that; so, however the server mixed them, updates of the common sequence that
  follow one another come out one after the other.\<close>

theorem sortUpdatesByPts_stable:
  "mset (sortUpdatesByPts us) = mset us \<and>
   sorted_wrt (\<lambda>u v. not_after (place u) (place v)) (sortUpdatesByPts us) \<and>
   filter (\<lambda>u. place u = k) (sortUpdatesByPts us) = filter (\<lambda>u. place u = k) us \<and>
   (Less p q \<longleftrightarrow> \<not> not_after (place q) (place p)) \<and>
   (follow_on s cs \<and> mset cs = mset (filter (\<lambda>u. IsPtsUpdate u \<noteq> None) us) \<longrightarrow>
      filter (\<lambda>u. IsPtsUpdate u \<noteq> None) (sortUpdatesByPts us) = cs)"
proof (intro conjI impI)
  show "mset (sortUpdatesByPts us) = mset us" by (simp add: sortUpdatesByPts_key)
  show "sorted_wrt (\<lambda>u v. not_after (place u) (place v)) (sortUpdatesByPts us)"
    using sorted_sort_key[of getType us] by (simp add: sortUpdatesByPts_key sorted_map flip: place_order)
  show "filter (\<lambda>u. place u = k) (sortUpdatesByPts us) = filter (\<lambda>u. place u = k) us"
  proof (cases "\<exists>w \<in> set us. place w = k")
    case True
    then obtain w where "w \<in> set us" "place w = k" by blast
    then have same: "place u = k \<longleftrightarrow> getType u = getType w" for u by (simp add: place_order)
    show ?thesis unfolding same sortUpdatesByPts_key by (rule sort_key_stable)
  qed (auto simp: sortUpdatesByPts_key filter_empty_conv)
  show "Less p q \<longleftrightarrow> \<not> not_after (place q) (place p)"
    by (simp add: Less_key not_le flip: place_order)
  assume cs: "follow_on s cs \<and> mset cs = mset (filter (\<lambda>u. IsPtsUpdate u \<noteq> None) us)"
  then have "sorted_wrt (<) (map getType cs)" using follow_on_increases by (auto simp: sorted_wrt_map)
  then have sorted: "sorted (map getType cs)" and dist: "distinct (map getType cs)" by (simp_all only: strict_sorted_iff)
  have "sort_key getType (filter (\<lambda>u. IsPtsUpdate u \<noteq> None) us) = cs"
  proof (rule sort_key_inj_key_eq)
    show "mset (filter (\<lambda>u. IsPtsUpdate u \<noteq> None) us) = mset cs" using cs by simp
    then have "set (filter (\<lambda>u. IsPtsUpdate u \<noteq> None) us) = set cs" by (rule mset_eq_setD)
    then show "inj_on getType (set (filter (\<lambda>u. IsPtsUpdate u \<noteq> None) us))" using dist by (simp only: distinct_map)
  qed (rule sorted)
  then show "filter (\<lambda>u. IsPtsUpdate u \<noteq> None) (sortUpdatesByPts us) = cs"
    by (simp add: sortUpdatesByPts_key filter_sort)
qed

theorem sortUpdatesByPts_stable_witness:
  "filter (\<lambda>u. IsPtsUpdate u \<noteq> None) (sortUpdatesByPts
     [CommonPts CHR ''c'' 13 1, OtherUpdate CHR ''x'', CommonPts CHR ''a'' 11 1, CommonQts CHR ''q'' 4, CommonPts CHR ''b'' 12 1]) =
   [CommonPts CHR ''a'' 11 1, CommonPts CHR ''b'' 12 1, CommonPts CHR ''c'' 13 1]"
  using sortUpdatesByPts_stable[of
      "[CommonPts CHR ''c'' 13 1, OtherUpdate CHR ''x'', CommonPts CHR ''a'' 11 1, CommonQts CHR ''q'' 4, CommonPts CHR ''b'' 12 1]"
      "(0, 0, 0)" "OtherUpdate CHR ''x''" "OtherUpdate CHR ''x''" 10
      "[CommonPts CHR ''a'' 11 1, CommonPts CHR ''b'' 12 1, CommonPts CHR ''c'' 13 1]"]
  by simp

end
