(* ===== verification/TgErr.thy ===== *)
theory TgErr
  imports Prelude
begin

text \<open>
  RPC errors of the server, \<open>pkg/gotd/tgerr/error.go\<close> and the classification in
  \<open>flood_wait.go\<close>: the message \<open>FLOOD_WAIT_3\<close> is the type \<open>FLOOD_WAIT\<close> with the argument 3.
\<close>

section \<open>Strings\<close>

text \<open>\<open>strings.Split\<close> on one character, \<open>strings.Join\<close>, \<open>ascii.IsDigit\<close> and \<open>strconv.Atoi\<close> on a
  string of digits (an error when it is empty or does not fit 64 bits).\<close>

fun split_on :: "'a \<Rightarrow> 'a list \<Rightarrow> 'a list list" where
  "split_on d [] = [[]]"
| "split_on d (c # cs) = (if c = d then [] # split_on d cs
     else (case split_on d cs of p # ps \<Rightarrow> (c # p) # ps | [] \<Rightarrow> [[c]]))"

fun join_with :: "'a \<Rightarrow> 'a list list \<Rightarrow> 'a list" where
  "join_with d [] = []"
| "join_with d [p] = p"
| "join_with d (p # q # ps) = p @ d # join_with d (q # ps)"

definition IsDigit :: "char \<Rightarrow> bool" where
  "IsDigit r \<longleftrightarrow> 48 \<le> (of_char r :: nat) \<and> (of_char r :: nat) \<le> 57"

definition digits_value :: "string \<Rightarrow> nat" where
  "digits_value s = foldl (\<lambda>acc c. 10 * acc + (of_char c - 48)) 0 s"

definition Atoi :: "string \<Rightarrow> int option" where
  "Atoi s = (if s = [] \<or> (\<exists>c \<in> set s. \<not> IsDigit c) \<or> digits_value s \<ge> 2 ^ 63
     then None else Some (int (digits_value s)))"

section \<open>Errors\<close>

record Error =
  Code :: int
  Message :: string
  Type :: string
  Argument :: int

text \<open>The loop over the parts: \<open>None\<close> is the early return on a part that \<open>Atoi\<close> refuses, which
  leaves the type the whole message.\<close>

fun parts_loop :: "string list \<Rightarrow> string list \<Rightarrow> Error \<Rightarrow> Error \<times> string list option" where
  "parts_loop [] nonDigit e = (e, Some nonDigit)"
| "parts_loop (part # parts) nonDigit e =
     (if \<exists>r \<in> set part. \<not> IsDigit r then parts_loop parts (nonDigit @ [part]) e
      else case Atoi part of
        None \<Rightarrow> (e, None)
      | Some argument \<Rightarrow> parts_loop parts nonDigit (e\<lparr>Argument := argument\<rparr>))"

definition extractArgument :: "Error \<Rightarrow> Error" where
  "extractArgument e =
     (if Message e = [] then e
      else let e = e\<lparr>Type := Message e\<rparr>;
               parts = split_on (CHR ''_'') (Message e) in
           if length parts < 2 then e
           else case parts_loop parts [] e of
             (e, None) \<Rightarrow> e
           | (e, Some nonDigit) \<Rightarrow> e\<lparr>Type := join_with (CHR ''_'') nonDigit\<rparr>)"

definition New :: "int \<Rightarrow> string \<Rightarrow> Error" where
  "New code msg = extractArgument \<lparr>Code = code, Message = msg, Type = [], Argument = 0\<rparr>"

text \<open>The methods accept a nil receiver, which is \<open>None\<close> here.\<close>

definition IsType :: "Error option \<Rightarrow> string \<Rightarrow> bool" where
  "IsType e t = (case e of None \<Rightarrow> False | Some e \<Rightarrow> Type e = t)"

definition IsCode :: "Error option \<Rightarrow> int \<Rightarrow> bool" where
  "IsCode e code = (case e of None \<Rightarrow> False | Some e \<Rightarrow> Code e = code)"

definition IsOneOf :: "Error option \<Rightarrow> string list \<Rightarrow> bool" where
  "IsOneOf e tt = (case e of None \<Rightarrow> False | Some _ \<Rightarrow> \<exists>t \<in> set tt. IsType e t)"

definition IsCodeOneOf :: "Error option \<Rightarrow> int list \<Rightarrow> bool" where
  "IsCodeOneOf e codes = (case e of None \<Rightarrow> False | Some _ \<Rightarrow> \<exists>c \<in> set codes. IsCode e c)"

definition ErrFloodWait :: string where "ErrFloodWait = ''FLOOD_WAIT''"
definition ErrPremiumFloodWait :: string where "ErrPremiumFloodWait = ''FLOOD_PREMIUM_WAIT''"
definition FloodWaitErrors :: "string list" where
  "FloodWaitErrors = [ErrFloodWait, ErrPremiumFloodWait]"

definition AsType :: "Error option \<Rightarrow> string \<Rightarrow> Error option" where
  "AsType err t = (case err of Some e \<Rightarrow> if Type e = t then Some e else None | None \<Rightarrow> None)"

text \<open>The wait in seconds.\<close>

fun first_wait :: "Error option \<Rightarrow> string list \<Rightarrow> int option" where
  "first_wait err [] = None"
| "first_wait err (t # ts) = (case AsType err t of Some e \<Rightarrow> Some (Argument e) | None \<Rightarrow> first_wait err ts)"

definition AsFloodWait :: "Error option \<Rightarrow> int option" where
  "AsFloodWait err = first_wait err FloodWaitErrors"

section \<open>Decimal numbers\<close>

definition digit_char :: "nat \<Rightarrow> char" where
  "digit_char n = char_of (48 + n mod 10)"

fun decimal :: "nat \<Rightarrow> string" where
  "decimal n = (if n < 10 then [digit_char n] else decimal (n div 10) @ [digit_char n])"

declare decimal.simps [simp del]

lemma of_char_digit [simp]: "of_char (digit_char n) = (48 + n mod 10 :: nat)"
proof -
  have "n mod 10 < 10" by simp
  then have "48 + n mod 10 < (256 :: nat)" by linarith
  then show ?thesis by (simp only: digit_char_def of_char_of mod_less)
qed

lemma IsDigit_decimal: "c \<in> set (decimal n) \<Longrightarrow> IsDigit c"
proof (induction n rule: decimal.induct)
  case (1 n)
  have "n mod 10 \<le> 9" using mod_less_divisor[of 10 n] by linarith
  then have "IsDigit (digit_char n)" by (simp add: IsDigit_def)
  with 1 show ?case by (cases "n < 10") (auto simp: decimal.simps[of n])
qed

lemma digits_value_decimal: "digits_value (decimal n) = n"
proof (induction n rule: decimal.induct)
  case (1 n)
  show ?case
  proof (cases "n < 10")
    case True
    then show ?thesis by (simp add: decimal.simps[of n] digits_value_def)
  next
    case False
    then have "digits_value (decimal n) = 10 * (n div 10) + n mod 10"
      using 1 by (simp add: decimal.simps[of n] digits_value_def)
    then show ?thesis by simp
  qed
qed

lemma decimal_not_Nil: "decimal n \<noteq> []"
  by (simp add: decimal.simps[of n])

lemma Atoi_decimal: "n < 2 ^ 63 \<Longrightarrow> Atoi (decimal n) = Some (int n)"
  using IsDigit_decimal by (auto simp: Atoi_def digits_value_decimal decimal_not_Nil)

lemma split_on_single: "d \<notin> set p \<Longrightarrow> split_on d p = [p]"
  by (induction p) auto

lemma split_on_append: "d \<notin> set p \<Longrightarrow> split_on d (p @ d # s) = p # split_on d s"
  by (induction p) auto

lemma split_join:
  assumes "ps \<noteq> []" "\<forall>p \<in> set ps. d \<notin> set p"
  shows "split_on d (join_with d ps) = ps"
  using assms by (induction d ps rule: join_with.induct) (auto simp: split_on_single split_on_append)

lemma parts_loop_names:
  assumes "\<forall>p \<in> set ps. \<exists>r \<in> set p. \<not> IsDigit r"
  shows "parts_loop (ps @ qs) nonDigit e = parts_loop qs (nonDigit @ ps) e"
  using assms by (induction ps arbitrary: nonDigit) auto

text \<open>C18: an error message made of a name (words joined by underscores, none of them a number)
  and a decimal argument is split into exactly that name as the type and that number as the
  argument, whatever the name; so \<open>FLOOD_WAIT_n\<close> is seen as a wait of \<open>n\<close> seconds.\<close>

theorem error_type_and_argument:
  assumes "words \<noteq> []" "\<forall>p \<in> set words. CHR ''_'' \<notin> set p \<and> (\<exists>r \<in> set p. \<not> IsDigit r)" "n < 2 ^ 63"
  shows "Type (New code (join_with (CHR ''_'') (words @ [decimal n]))) = join_with (CHR ''_'') words \<and>
    Argument (New code (join_with (CHR ''_'') (words @ [decimal n]))) = int n \<and>
    (join_with (CHR ''_'') words \<in> set FloodWaitErrors \<longleftrightarrow>
      AsFloodWait (Some (New code (join_with (CHR ''_'') (words @ [decimal n])))) = Some (int n))"
proof -
  let ?m = "join_with (CHR ''_'') (words @ [decimal n])"
  let ?e = "\<lparr>Code = code, Message = ?m, Type = ?m, Argument = 0\<rparr>"
  have "CHR ''_'' \<notin> set (decimal n)" using IsDigit_decimal[of "CHR ''_''" n] by (auto simp: IsDigit_def)
  then have parts: "split_on (CHR ''_'') ?m = words @ [decimal n]" using assms by (intro split_join) auto
  have ne: "?m \<noteq> []" using parts assms(1) by (metis append_is_Nil_conv list.inject split_on.simps(1) append_eq_Cons_conv not_Cons_self2)
  have "parts_loop (words @ [decimal n]) [] ?e = (?e\<lparr>Argument := int n\<rparr>, Some words)"
    using assms(2) IsDigit_decimal[of _ n] Atoi_decimal[OF assms(3)]
    by (subst parts_loop_names) auto
  then have "New code ?m = ?e\<lparr>Argument := int n, Type := join_with (CHR ''_'') words\<rparr>"
    using ne parts assms(1) by (cases words) (simp_all add: New_def extractArgument_def)
  then show ?thesis
    by (simp add: AsFloodWait_def FloodWaitErrors_def AsType_def ErrFloodWait_def ErrPremiumFloodWait_def)
qed

theorem error_type_and_argument_witness:
  "Type (New 420 ''FLOOD_WAIT_37'') = ''FLOOD_WAIT'' \<and> AsFloodWait (Some (New 420 ''FLOOD_WAIT_37'')) = Some 37"
proof -
  have d: "decimal 37 = ''37''" by (simp add: decimal.simps digit_char_def char_of_eq_iff)
  have "\<not> IsDigit (CHR ''F'')" "\<not> IsDigit (CHR ''W'')" by (simp_all add: IsDigit_def)
  then show ?thesis
    using error_type_and_argument[of "[''FLOOD'', ''WAIT'']" 37 420]
    by (simp add: d FloodWaitErrors_def ErrFloodWait_def)
qed

end
