(* ===== verification/UpdStore.thy ===== *)
theory UpdStore
  imports UpdData TgErr "HOL-Library.AList"
begin

text \<open>
  What the update manager remembers: the interfaces \<open>StateStorage\<close> and \<open>AccessHasher\<close>
  (\<open>storage.go\<close>), with their documented laws as locales, and the in-memory implementations of
  \<open>storage_mem.go\<close>.  An implementation is used through a record of its operations over a state
  \<open>'w\<close> of the surroundings.  A Go map whose iteration order matters is an association list; its
  order stands for the one the runtime picks.  \<open>Blocked\<close> marks a call that waits for a mutex its
  own caller holds, and so never returns.
\<close>

section \<open>Errors of the update manager\<close>

datatype uerr =
    OutOfFuel
  | ContextCanceled
  | Rpc Error
  | ErrKeyFingerprintNotFound
  | StateNotFound
  | Blocked
  | HandlerError nat
  | ErrRemoveChannelState
  | PanicUnreachableUpdate
  | PanicNilFunction
  | Unexpected nat

section \<open>The interfaces\<close>

record State =
  Pts :: int
  Qts :: int
  Date :: int
  Seq :: int

record UpdatesState =
  rPts :: int
  rQts :: int
  rDate :: int
  rSeq :: int

definition fromRemote :: "UpdatesState \<Rightarrow> State" where
  "fromRemote remote = \<lparr>Pts = rPts remote, Qts = rQts remote, Date = rDate remote, Seq = rSeq remote\<rparr>"

record 'w StateStorage =
  GetState :: "int \<Rightarrow> ('w, uerr, State option) prog"
  PutState :: "int \<Rightarrow> State \<Rightarrow> ('w, uerr, unit) prog"
  SetPts :: "int \<Rightarrow> int \<Rightarrow> ('w, uerr, unit) prog"
  SetQts :: "int \<Rightarrow> int \<Rightarrow> ('w, uerr, unit) prog"
  SetDate :: "int \<Rightarrow> int \<Rightarrow> ('w, uerr, unit) prog"
  SetSeq :: "int \<Rightarrow> int \<Rightarrow> ('w, uerr, unit) prog"
  SetDateSeq :: "int \<Rightarrow> int \<Rightarrow> int \<Rightarrow> ('w, uerr, unit) prog"
  GetChannelPts :: "int \<Rightarrow> int \<Rightarrow> ('w, uerr, int option) prog"
  SetChannelPts :: "int \<Rightarrow> int \<Rightarrow> int \<Rightarrow> ('w, uerr, unit) prog"
  ForEachChannels :: "int \<Rightarrow> (int \<Rightarrow> int \<Rightarrow> ('w, uerr, unit) prog) \<Rightarrow> ('w, uerr, unit) prog"

record 'w AccessHasher =
  SetChannelAccessHash :: "int \<Rightarrow> int \<Rightarrow> int \<Rightarrow> ('w, uerr, unit) prog"
  GetChannelAccessHash :: "int \<Rightarrow> int \<Rightarrow> ('w, uerr, int option) prog"
  SetUserAccessHash :: "int \<Rightarrow> int \<Rightarrow> int \<Rightarrow> ('w, uerr, unit) prog"
  GetUserAccessHash :: "int \<Rightarrow> int \<Rightarrow> ('w, uerr, int option) prog"

section \<open>The in-memory state storage\<close>

record mem =
  states :: "int \<Rightarrow> State option"
  channels :: "int \<Rightarrow> (int \<times> int) list option"
  mutex :: bool

definition newMemStorage :: mem where
  "newMemStorage = \<lparr>states = (\<lambda>_. None), channels = (\<lambda>_. None), mutex = False\<rparr>"

text \<open>\<open>mux.Lock()\<close> and the deferred \<open>mux.Unlock()\<close>.\<close>

definition withLock :: "(mem, uerr, 'a) prog \<Rightarrow> (mem, uerr, 'a) prog" where
  "withLock m s =
     (if mutex s then (Inl Blocked, s)
      else case m (s\<lparr>mutex := True\<rparr>) of (r, s') \<Rightarrow> (r, s'\<lparr>mutex := False\<rparr>))"

definition mem_GetState :: "int \<Rightarrow> (mem, uerr, State option) prog" where
  "mem_GetState userID = withLock (\<lambda>s. (Inr (states s userID), s))"

definition mem_SetState :: "int \<Rightarrow> State \<Rightarrow> (mem, uerr, unit) prog" where
  "mem_SetState userID st = withLock (\<lambda>s.
     (Inr (), s\<lparr>states := (states s)(userID \<mapsto> st), channels := (channels s)(userID \<mapsto> [])\<rparr>))"

text \<open>The setters share their shape: look up, fail when missing, store the changed copy.\<close>

definition mem_SetPts :: "int \<Rightarrow> int \<Rightarrow> (mem, uerr, unit) prog" where
  "mem_SetPts userID pts = withLock (\<lambda>s. case states s userID of
     None \<Rightarrow> (Inl StateNotFound, s)
   | Some st \<Rightarrow> (Inr (), s\<lparr>states := (states s)(userID \<mapsto> st\<lparr>Pts := pts\<rparr>)\<rparr>))"

definition mem_SetQts :: "int \<Rightarrow> int \<Rightarrow> (mem, uerr, unit) prog" where
  "mem_SetQts userID qts = withLock (\<lambda>s. case states s userID of
     None \<Rightarrow> (Inl StateNotFound, s)
   | Some st \<Rightarrow> (Inr (), s\<lparr>states := (states s)(userID \<mapsto> st\<lparr>Qts := qts\<rparr>)\<rparr>))"

definition mem_SetDate :: "int \<Rightarrow> int \<Rightarrow> (mem, uerr, unit) prog" where
  "mem_SetDate userID d = withLock (\<lambda>s. case states s userID of
     None \<Rightarrow> (Inl StateNotFound, s)
   | Some st \<Rightarrow> (Inr (), s\<lparr>states := (states s)(userID \<mapsto> st\<lparr>Date := d\<rparr>)\<rparr>))"

definition mem_SetSeq :: "int \<Rightarrow> int \<Rightarrow> (mem, uerr, unit) prog" where
  "mem_SetSeq userID sq = withLock (\<lambda>s. case states s userID of
     None \<Rightarrow> (Inl StateNotFound, s)
   | Some st \<Rightarrow> (Inr (), s\<lparr>states := (states s)(userID \<mapsto> st\<lparr>Seq := sq\<rparr>)\<rparr>))"

definition mem_SetDateSeq :: "int \<Rightarrow> int \<Rightarrow> int \<Rightarrow> (mem, uerr, unit) prog" where
  "mem_SetDateSeq userID d sq = withLock (\<lambda>s. case states s userID of
     None \<Rightarrow> (Inl StateNotFound, s)
   | Some st \<Rightarrow> (Inr (), s\<lparr>states := (states s)(userID \<mapsto> st\<lparr>Date := d, Seq := sq\<rparr>)\<rparr>))"

definition mem_SetChannelPts :: "int \<Rightarrow> int \<Rightarrow> int \<Rightarrow> (mem, uerr, unit) prog" where
  "mem_SetChannelPts userID channelID pts = withLock (\<lambda>s. case channels s userID of
     None \<Rightarrow> (Inl StateNotFound, s)
   | Some cs \<Rightarrow> (Inr (), s\<lparr>channels := (channels s)(userID \<mapsto> AList.update channelID pts cs)\<rparr>))"

definition mem_GetChannelPts :: "int \<Rightarrow> int \<Rightarrow> (mem, uerr, int option) prog" where
  "mem_GetChannelPts userID channelID = withLock (\<lambda>s. case channels s userID of
     None \<Rightarrow> (Inr None, s)
   | Some cs \<Rightarrow> (Inr (map_of cs channelID), s))"

primrec each :: "('a \<Rightarrow> ('s, 'e, unit) prog) \<Rightarrow> 'a list \<Rightarrow> ('s, 'e, unit) prog" where
  "each f [] = ret ()"
| "each f (x # xs) = andThen (f x) (\<lambda>_. each f xs)"

definition mem_ForEachChannels ::
  "int \<Rightarrow> (int \<Rightarrow> int \<Rightarrow> (mem, uerr, unit) prog) \<Rightarrow> (mem, uerr, unit) prog" where
  "mem_ForEachChannels userID f = withLock (\<lambda>s. case channels s userID of
     None \<Rightarrow> (Inl StateNotFound, s)
   | Some cmap \<Rightarrow> each (\<lambda>(i, pts). f i pts) cmap s)"

definition memStorage :: "mem StateStorage" where
  "memStorage = \<lparr>GetState = mem_GetState, PutState = mem_SetState, SetPts = mem_SetPts, SetQts = mem_SetQts,
     SetDate = mem_SetDate, SetSeq = mem_SetSeq, SetDateSeq = mem_SetDateSeq,
     GetChannelPts = mem_GetChannelPts, SetChannelPts = mem_SetChannelPts,
     ForEachChannels = mem_ForEachChannels\<rparr>"

section \<open>The in-memory access hashes\<close>

record hashes =
  channelHashes :: "int \<Rightarrow> (int \<Rightarrow> int option) option"
  userHashes :: "int \<Rightarrow> (int \<Rightarrow> int option) option"

definition newMemAccessHasher :: hashes where
  "newMemAccessHasher = \<lparr>channelHashes = (\<lambda>_. None), userHashes = (\<lambda>_. None)\<rparr>"

definition mem_GetChannelAccessHash :: "int \<Rightarrow> int \<Rightarrow> (hashes, uerr, int option) prog" where
  "mem_GetChannelAccessHash forUserID cid m = (case channelHashes m forUserID of
     None \<Rightarrow> (Inr None, m) | Some accessHashes \<Rightarrow> (Inr (accessHashes cid), m))"

definition mem_SetChannelAccessHash :: "int \<Rightarrow> int \<Rightarrow> int \<Rightarrow> (hashes, uerr, unit) prog" where
  "mem_SetChannelAccessHash forUserID cid accessHash m =
     (let accessHashes = (case channelHashes m forUserID of None \<Rightarrow> (\<lambda>_. None) | Some h \<Rightarrow> h) in
      (Inr (), m\<lparr>channelHashes := (channelHashes m)(forUserID \<mapsto> accessHashes(cid \<mapsto> accessHash))\<rparr>))"

definition mem_GetUserAccessHash :: "int \<Rightarrow> int \<Rightarrow> (hashes, uerr, int option) prog" where
  "mem_GetUserAccessHash forUserID uid m = (case userHashes m forUserID of
     None \<Rightarrow> (Inr None, m) | Some accessHashes \<Rightarrow> (Inr (accessHashes uid), m))"

text \<open>When the user has no hashes yet, the new map is put into \<open>channelHashes\<close>.\<close>

definition mem_SetUserAccessHash :: "int \<Rightarrow> int \<Rightarrow> int \<Rightarrow> (hashes, uerr, unit) prog" where
  "mem_SetUserAccessHash forUserID uid accessHash m = (case userHashes m forUserID of
     None \<Rightarrow> (Inr (), m\<lparr>channelHashes := (channelHashes m)(forUserID \<mapsto> [uid \<mapsto> accessHash])\<rparr>)
   | Some accessHashes \<Rightarrow>
       (Inr (), m\<lparr>userHashes := (userHashes m)(forUserID \<mapsto> accessHashes(uid \<mapsto> accessHash))\<rparr>))"

definition memAccessHasher :: "hashes AccessHasher" where
  "memAccessHasher = \<lparr>SetChannelAccessHash = mem_SetChannelAccessHash, GetChannelAccessHash = mem_GetChannelAccessHash,
     SetUserAccessHash = mem_SetUserAccessHash, GetUserAccessHash = mem_GetUserAccessHash\<rparr>"

section \<open>The contract of a state storage\<close>

text \<open>A setter of the user's state fails when there is no state and otherwise changes its part of
  it and nothing else.\<close>

definition setter ::
  "('w \<Rightarrow> bool) \<Rightarrow> ('w \<Rightarrow> int \<Rightarrow> State option) \<Rightarrow> ('w \<Rightarrow> int \<Rightarrow> int \<Rightarrow> int option) \<Rightarrow>
   (int \<Rightarrow> ('w, uerr, unit) prog) \<Rightarrow> (State \<Rightarrow> State) \<Rightarrow> bool" where
  "setter ok user chan op f \<longleftrightarrow> (\<forall>w u. ok w \<longrightarrow>
     (case user w u of
        None \<Rightarrow> (\<exists>e. op u w = (Inl e, w))
      | Some st \<Rightarrow> (\<exists>w'. op u w = (Inr (), w') \<and> ok w' \<and> user w' = (user w)(u \<mapsto> f st) \<and> chan w' = chan w)))"

locale state_storage =
  fixes S :: "'w StateStorage"
    and ok :: "'w \<Rightarrow> bool"
    and user :: "'w \<Rightarrow> int \<Rightarrow> State option"
    and chan :: "'w \<Rightarrow> int \<Rightarrow> int \<Rightarrow> int option"
  assumes get_state: "ok w \<Longrightarrow> GetState S u w = (Inr (user w u), w)"
    and put_state: "ok w \<Longrightarrow> \<exists>w'. PutState S u st w = (Inr (), w') \<and> ok w' \<and> user w' = (user w)(u \<mapsto> st)"
    and set_pts: "setter ok user chan (\<lambda>u. SetPts S u p) (\<lambda>st. st\<lparr>Pts := p\<rparr>)"
    and set_qts: "setter ok user chan (\<lambda>u. SetQts S u p) (\<lambda>st. st\<lparr>Qts := p\<rparr>)"
    and set_date: "setter ok user chan (\<lambda>u. SetDate S u p) (\<lambda>st. st\<lparr>Date := p\<rparr>)"
    and set_seq: "setter ok user chan (\<lambda>u. SetSeq S u p) (\<lambda>st. st\<lparr>Seq := p\<rparr>)"
    and set_date_seq: "setter ok user chan (\<lambda>u. SetDateSeq S u d p) (\<lambda>st. st\<lparr>Date := d, Seq := p\<rparr>)"
    and get_channel: "ok w \<Longrightarrow> GetChannelPts S u c w = (Inr (chan w u c), w)"
    and set_channel: "ok w \<Longrightarrow> user w u \<noteq> None \<Longrightarrow>
      \<exists>w'. SetChannelPts S u c p w = (Inr (), w') \<and> ok w' \<and> user w' = user w \<and>
        chan w' = (chan w)(u := (chan w u)(c \<mapsto> p))"

text \<open>The writes the manager makes, as data.\<close>

datatype stwrite = WPts int | WQts int | WDate int | WSeq int | WDateSeq int int

definition store_write :: "'w StateStorage \<Rightarrow> int \<Rightarrow> stwrite \<Rightarrow> ('w, uerr, unit) prog" where
  "store_write S u x = (case x of WPts p \<Rightarrow> SetPts S u p | WQts p \<Rightarrow> SetQts S u p | WDate p \<Rightarrow> SetDate S u p
     | WSeq p \<Rightarrow> SetSeq S u p | WDateSeq d p \<Rightarrow> SetDateSeq S u d p)"

definition effect :: "stwrite \<Rightarrow> State \<Rightarrow> State" where
  "effect x st = (case x of WPts p \<Rightarrow> st\<lparr>Pts := p\<rparr> | WQts p \<Rightarrow> st\<lparr>Qts := p\<rparr> | WDate p \<Rightarrow> st\<lparr>Date := p\<rparr>
     | WSeq p \<Rightarrow> st\<lparr>Seq := p\<rparr> | WDateSeq d p \<Rightarrow> st\<lparr>Date := d, Seq := p\<rparr>)"

lemma effect_fun:
  "effect (WPts p) = (\<lambda>st. st\<lparr>Pts := p\<rparr>)" "effect (WQts p) = (\<lambda>st. st\<lparr>Qts := p\<rparr>)"
  "effect (WDate p) = (\<lambda>st. st\<lparr>Date := p\<rparr>)" "effect (WSeq p) = (\<lambda>st. st\<lparr>Seq := p\<rparr>)"
  "effect (WDateSeq d p) = (\<lambda>st. st\<lparr>Date := d, Seq := p\<rparr>)"
  by (simp_all add: fun_eq_iff effect_def)

context state_storage
begin

lemma write_setter: "setter ok user chan (\<lambda>u. store_write S u x) (effect x)"
  by (cases x) (simp_all add: store_write_def effect_fun set_pts set_qts set_date set_seq set_date_seq)

lemma write_some:
  assumes "ok w" "user w u = Some st"
  shows "\<exists>w'. store_write S u x w = (Inr (), w') \<and> ok w' \<and> user w' = (user w)(u \<mapsto> effect x st) \<and> chan w' = chan w"
proof -
  have "case user w u of None \<Rightarrow> (\<exists>e. store_write S u x w = (Inl e, w))
    | Some st \<Rightarrow> (\<exists>w'. store_write S u x w = (Inr (), w') \<and> ok w' \<and> user w' = (user w)(u \<mapsto> effect x st) \<and> chan w' = chan w)"
    using write_setter assms(1) unfolding setter_def by blast
  with assms(2) show ?thesis by simp
qed

lemma write_none:
  assumes "ok w" "user w u = None"
  shows "\<exists>e. store_write S u x w = (Inl e, w)"
proof -
  have "case user w u of None \<Rightarrow> (\<exists>e. store_write S u x w = (Inl e, w))
    | Some st \<Rightarrow> (\<exists>w'. store_write S u x w = (Inr (), w') \<and> ok w' \<and> user w' = (user w)(u \<mapsto> effect x st) \<and> chan w' = chan w)"
    using write_setter assms(1) unfolding setter_def by blast
  with assms(2) show ?thesis by simp
qed

lemma writes_then_get:
  assumes "ok w" "user w u = Some st"
  shows "\<exists>w'. each (store_write S u) xs w = (Inr (), w') \<and> ok w' \<and> chan w' = chan w \<and>
    user w' = (user w)(u \<mapsto> fold effect xs st) \<and> GetState S u w' = (Inr (Some (fold effect xs st)), w')"
  using assms
proof (induction xs arbitrary: w st)
  case Nil
  then show ?case by (auto simp: ret_def get_state)
next
  case (Cons x xs)
  obtain w1 where 1: "store_write S u x w = (Inr (), w1)" "ok w1" "user w1 = (user w)(u \<mapsto> effect x st)" "chan w1 = chan w"
    using write_some[OF Cons.prems] by blast
  then have u: "user w1 u = Some (effect x st)" by simp
  have "(user w1)(u \<mapsto> y) = (user w)(u \<mapsto> y)" for y by (simp add: 1(3) fun_eq_iff)
  with Cons.IH[OF 1(2) u] 1(1,4) show ?case by (simp add: andThen_Inr[of "store_write S u x" w "()" w1, OF 1(1)])
qed

lemma put_writes_get:
  assumes "ok w"
  shows "\<exists>w'. andThen (PutState S u st) (\<lambda>_. each (store_write S u) xs) w = (Inr (), w') \<and>
    ok w' \<and> GetState S u w' = (Inr (Some (fold effect xs st)), w')"
proof -
  obtain w1 where 1: "PutState S u st w = (Inr (), w1)" "ok w1" "user w1 = (user w)(u \<mapsto> st)"
    using put_state[OF assms] by blast
  then have "user w1 u = Some st" by simp
  from writes_then_get[OF 1(2) this] 1(1) show ?thesis by auto
qed

end

section \<open>The in-memory storage keeps the contract\<close>

text \<open>The mutex is free between calls, and a user with a state has a channel map.\<close>

definition mem_ok :: "mem \<Rightarrow> bool" where
  "mem_ok s \<longleftrightarrow> \<not> mutex s \<and> dom (states s) \<subseteq> dom (channels s)"

definition mem_chan :: "mem \<Rightarrow> int \<Rightarrow> int \<Rightarrow> int option" where
  "mem_chan s u c = (case channels s u of None \<Rightarrow> None | Some cs \<Rightarrow> map_of cs c)"

lemmas mem_defs = mem_GetState_def mem_SetState_def mem_SetPts_def mem_SetQts_def mem_SetDate_def mem_SetSeq_def
  mem_SetDateSeq_def mem_GetChannelPts_def mem_SetChannelPts_def withLock_def

lemma mem_mutex_eta [simp]: "\<not> mutex s \<Longrightarrow> s\<lparr>mutex := False\<rparr> = s"
  by (cases s) simp

lemma mem_setter:
  assumes "\<And>u s. op u s = withLock (\<lambda>s. case states s u of None \<Rightarrow> (Inl StateNotFound, s)
    | Some st \<Rightarrow> (Inr (), s\<lparr>states := (states s)(u \<mapsto> f st)\<rparr>)) s"
  shows "setter mem_ok states mem_chan op f"
  unfolding setter_def assms
  by (auto simp: withLock_def mem_ok_def mem_chan_def fun_eq_iff split: option.splits)

interpretation mem_storage: state_storage memStorage mem_ok states mem_chan
proof unfold_locales
  fix w u c p st
  assume ok: "mem_ok w"
  then show "GetState memStorage u w = (Inr (states w u), w)" "GetChannelPts memStorage u c w = (Inr (mem_chan w u c), w)"
    by (auto simp: memStorage_def mem_defs mem_ok_def mem_chan_def split: option.splits)
  show "\<exists>w'. PutState memStorage u st w = (Inr (), w') \<and> mem_ok w' \<and> states w' = (states w)(u \<mapsto> st)"
    using ok by (auto simp: memStorage_def mem_defs mem_ok_def)
  assume "states w u \<noteq> None"
  with ok obtain cs where "channels w u = Some cs" by (auto simp: mem_ok_def)
  then show "\<exists>w'. SetChannelPts memStorage u c p w = (Inr (), w') \<and> mem_ok w' \<and> states w' = states w \<and>
      mem_chan w' = (mem_chan w)(u := (mem_chan w u)(c \<mapsto> p))"
    using ok by (auto simp: memStorage_def mem_defs mem_ok_def mem_chan_def fun_eq_iff update_conv')
qed (rule mem_setter; simp add: memStorage_def mem_SetPts_def mem_SetQts_def mem_SetDate_def mem_SetSeq_def
      mem_SetDateSeq_def)+

section \<open>The contract of a store of access hashes\<close>

locale hash_store =
  fixes set_hash :: "int \<Rightarrow> int \<Rightarrow> int \<Rightarrow> ('w, uerr, unit) prog"
    and get_hash :: "int \<Rightarrow> int \<Rightarrow> ('w, uerr, int option) prog"
    and known :: "'w \<Rightarrow> int \<Rightarrow> int \<Rightarrow> int option"
  assumes get_known: "get_hash u i w = (Inr (known w u i), w)"
    and set_known: "\<exists>w'. set_hash u i h w = (Inr (), w') \<and> known w' = (known w)(u := (known w u)(i \<mapsto> h))"
begin

lemma set_all_get:
  "\<exists>w'. each (\<lambda>(i, h). set_hash u i h) ihs w = (Inr (), w') \<and>
    known w' = (known w)(u := known w u ++ map_of (rev ihs)) \<and>
    get_hash u i w' = (Inr ((known w u ++ map_of (rev ihs)) i), w')"
proof (induction ihs arbitrary: w)
  case Nil
  then show ?case by (simp add: ret_def get_known)
next
  case (Cons ih ihs)
  obtain j h where ih: "ih = (j, h)" by fastforce
  obtain w1 where 1: "set_hash u j h w = (Inr (), w1)" "known w1 = (known w)(u := (known w u)(j \<mapsto> h))"
    using set_known by blast
  have "known w1 u ++ map_of (rev ihs) = known w u ++ map_of (rev (ih # ihs))"
    by (simp add: ih 1(2) map_add_def fun_eq_iff split: option.splits)
  moreover have "(known w1)(u := f) = (known w)(u := f)" for f by (simp add: 1(2) fun_eq_iff)
  ultimately show ?case using Cons[of w1] by (simp add: ih andThen_Inr[of "set_hash u j h" w "()" w1, OF 1(1)])
qed

end

definition mem_known :: "hashes \<Rightarrow> int \<Rightarrow> int \<Rightarrow> int option" where
  "mem_known m u c = (case channelHashes m u of None \<Rightarrow> None | Some h \<Rightarrow> h c)"

interpretation mem_channel_hashes: hash_store mem_SetChannelAccessHash mem_GetChannelAccessHash mem_known
  by unfold_locales
    (auto simp: mem_GetChannelAccessHash_def mem_SetChannelAccessHash_def mem_known_def fun_eq_iff split: option.splits)

section \<open>Properties\<close>

text \<open>C14: the in-memory storage is a store: after \<open>SetState\<close> and any run of single-field writes for
  a user, \<open>GetState\<close> returns the state with exactly those writes applied in order, every write
  succeeds, and a write for a user without a state fails and changes nothing.\<close>

theorem mem_storage_resumes:
  assumes "mem_ok s"
  shows "(\<exists>s'. andThen (mem_SetState u st) (\<lambda>_. each (store_write memStorage u) xs) s = (Inr (), s') \<and>
      mem_ok s' \<and> mem_GetState u s' = (Inr (Some (fold effect xs st)), s')) \<and>
    (states s v = None \<longrightarrow> (\<exists>e. store_write memStorage v x s = (Inl e, s)))"
proof -
  have "PutState memStorage = mem_SetState" "GetState memStorage = mem_GetState" by (simp_all add: memStorage_def)
  then show ?thesis
    using mem_storage.put_writes_get[OF assms, of u st xs] mem_storage.write_none[OF assms, of v x] by simp
qed

theorem mem_storage_resumes_witness:
  "\<exists>s'. andThen (mem_SetState 7 \<lparr>Pts = 1, Qts = 1, Date = 5, Seq = 1\<rparr>)
      (\<lambda>_. each (store_write memStorage 7) [WPts 9, WSeq 2]) newMemStorage = (Inr (), s') \<and>
    mem_GetState 7 s' = (Inr (Some \<lparr>Pts = 9, Qts = 1, Date = 5, Seq = 2\<rparr>), s')"
proof -
  have ok: "mem_ok newMemStorage" by (simp add: mem_ok_def newMemStorage_def)
  have e: "fold effect [WPts 9, WSeq 2] \<lparr>Pts = 1, Qts = 1, Date = 5, Seq = 1\<rparr> = \<lparr>Pts = 9, Qts = 1, Date = 5, Seq = 2\<rparr>"
    by (simp add: effect_def)
  show ?thesis
    using mem_storage_resumes[OF ok, of 7 "\<lparr>Pts = 1, Qts = 1, Date = 5, Seq = 1\<rparr>" "[WPts 9, WSeq 2]"] unfolding e by blast
qed

text \<open>C21: channel access hashes read back as written, the last write of an id winning, whatever
  run of writes is made; a user access hash for an account that has none yet is lost: it cannot
  be read back, and all channel hashes of the account are gone.\<close>

theorem access_hashes_read_back:
  "(\<exists>m'. each (\<lambda>(i, h). mem_SetChannelAccessHash u i h) ihs m = (Inr (), m') \<and>
      mem_GetChannelAccessHash u c m' = (Inr ((mem_known m u ++ map_of (rev ihs)) c), m')) \<and>
   (\<exists>m'. mem_SetUserAccessHash u i h (m\<lparr>userHashes := (userHashes m)(u := None)\<rparr>) = (Inr (), m') \<and>
      mem_GetUserAccessHash u i m' = (Inr None, m') \<and>
      mem_known m' u = [i \<mapsto> h])"
  using mem_channel_hashes.set_all_get[of u ihs m c]
  by (auto simp: mem_SetUserAccessHash_def mem_GetUserAccessHash_def mem_known_def)

text \<open>\<open>ForEachChannels\<close> holds the storage's mutex while it calls back, so a callback that writes
  to the same storage, as the one of \<open>Manager.Run\<close> does for a channel the account has left, never
  returns.\<close>

theorem for_each_blocks_on_write:
  assumes "mem_ok s" "channels s u = Some ((i, pts) # cs)" "f i pts = mem_SetChannelPts u i (-1)"
  shows "fst (mem_ForEachChannels u f s) = Inl Blocked"
  using assms by (simp add: mem_ForEachChannels_def withLock_def mem_ok_def mem_SetChannelPts_def andThen_def)

theorem for_each_blocks_on_write_witness:
  "fst (mem_ForEachChannels 7 (\<lambda>i _. mem_SetChannelPts 7 i (-1))
      (newMemStorage\<lparr>channels := [7 \<mapsto> [(1001, 5)]]\<rparr>)) = Inl Blocked"
  by (rule for_each_blocks_on_write[of _ _ 1001 5 "[]"]) (simp_all add: mem_ok_def newMemStorage_def)

end
