(* ===== verification/UpdState.thy ===== *)
theory UpdState
  imports UpdStore
begin

text \<open>
  The account's update state, \<open>internalState\<close> of \<open>pkg/gotd/telegram/updates/state.go\<close> with
  \<open>state_apply.go\<close> and \<open>access_hash_feeder.go\<close>.  The handler, the RPC client, the clock and the
  two stores are interfaces in the code and operations of the record \<open>deps\<close> here; \<open>'w\<close> is the
  state they act on.  The loop \<open>getDifference\<close> runs as long as the server has more to say, and
  \<open>getDifferenceWithRetry\<close> as long as it fails, so the recursive functions take fuel;
  \<open>OutOfFuel\<close> passes through the two places that only log an error.  Logging, tracing and the
  idle timer are left out.
\<close>

section \<open>The types\<close>

record 'x Updates =
  Upds :: "'x UpdateClass list"
  UUsers :: "UserClass list"
  UChats :: "ChatClass list"

record 'x UpdatesCombined =
  CUpdates :: "'x UpdateClass list"
  CUsers :: "UserClass list"
  CChats :: "ChatClass list"
  CDate :: int
  CSeq :: int
  CSeqStart :: int

text \<open>\<open>TgUpdates\<close> is \<open>tg.Updates\<close>: updates, users, chats, date and seq.\<close>

datatype 'x UpdatesClass =
    TgUpdates "'x UpdateClass list" "UserClass list" "ChatClass list" int int
  | TgUpdatesCombined "'x UpdatesCombined"
  | UpdateShort "'x UpdateClass" int
  | UpdateShortMessage "'x short_message"
  | UpdateShortChatMessage "'x short_message"
  | UpdateShortSentMessage sent_message
  | UpdatesTooLong

record 'x diff_body =
  NewMessages :: "'x MessageClass list"
  NewEncryptedMessages :: "'x list"
  OtherUpdates :: "'x UpdateClass list"
  DChats :: "ChatClass list"
  DUsers :: "UserClass list"

datatype 'x UpdatesDifferenceClass =
    UpdatesDifference "'x diff_body" UpdatesState
  | UpdatesDifferenceEmpty int int
  | UpdatesDifferenceSlice "'x diff_body" UpdatesState
  | UpdatesDifferenceTooLong int

record 'x channelUpdate =
  chUpdate :: "'x UpdateClass"
  chEntities :: entities

text \<open>The part of a channel state that \<open>internalState\<close> uses: its queue and whether its context
  has ended.\<close>

record 'x channelRef =
  refHash :: int
  refInitialPts :: int
  refQueue :: "'x channelUpdate list"
  refStopped :: bool

record ('w, 'x) deps =
  handler_Handle :: "'x Updates \<Rightarrow> ('w, uerr, unit) prog"
  storage :: "'w StateStorage"
  hasher :: "'w AccessHasher"
  UpdatesGetDifference :: "int \<Rightarrow> int \<Rightarrow> int \<Rightarrow> ('w, uerr, 'x UpdatesDifferenceClass) prog"
  sleep :: "int \<Rightarrow> ('w, uerr, unit) prog"
  selfID :: int

record ('w, 'x) internalState =
  pts :: "('x UpdateClass, entities) sbox"
  qts :: "('x UpdateClass, entities) sbox"
  seq :: "('x UpdatesCombined, entities) sbox"
  date :: int
  chans :: "int \<Rightarrow> 'x channelRef option"
  recentlyLeftChannels :: "int set"
  savedCommunities :: "int set"
  env :: 'w

type_synonym ('w, 'x, 'a) sprog = "(('w, 'x) internalState, uerr, 'a) prog"

section \<open>Small steps\<close>

definition out :: "('w, uerr, 'a) prog \<Rightarrow> ('w, 'x, 'a) sprog" where
  "out m s = (case m (env s) of (r, w) \<Rightarrow> (r, s\<lparr>env := w\<rparr>))"

text \<open>A call whose error is only logged.\<close>

definition logged :: "('s, uerr, 'a) prog \<Rightarrow> ('s, uerr, unit) prog" where
  "logged m s = (case m s of (_, s') \<Rightarrow> (Inr (), s'))"

definition box_result :: "uerr box_err + 'a \<Rightarrow> uerr + 'a" where
  "box_result r = (case r of Inr x \<Rightarrow> Inr x | Inl (ApplyError e) \<Rightarrow> Inl e
     | Inl PanicUnreachable \<Rightarrow> Inl PanicUnreachableUpdate)"

text \<open>A box method called from the state.  A callback sees the state with the box as it is.\<close>

definition on_pts where
  "on_pts m s = (case m (pts s, s) of (r, (b, s')) \<Rightarrow> (box_result r, s'\<lparr>pts := b\<rparr>))"

definition on_qts where
  "on_qts m s = (case m (qts s, s) of (r, (b, s')) \<Rightarrow> (box_result r, s'\<lparr>qts := b\<rparr>))"

definition on_seq where
  "on_seq m s = (case m (seq s, s) of (r, (b, s')) \<Rightarrow> (box_result r, s'\<lparr>seq := b\<rparr>))"

definition isFatalError :: "uerr \<Rightarrow> bool" where
  "isFatalError err = (case err of
     ErrKeyFingerprintNotFound \<Rightarrow> True
   | Rpc e \<Rightarrow> IsOneOf (Some e) [''AUTH_KEY_UNREGISTERED'', ''SESSION_EXPIRED''] \<or> IsCodeOneOf (Some e) [401] \<or>
       IsCodeOneOf (Some e) [406] \<and> IsOneOf (Some e) [''AUTH_KEY_DUPLICATED'']
   | _ \<Rightarrow> False)"

section \<open>Access hashes\<close>

definition saveChannelHash :: "('w, 'x) deps \<Rightarrow> ChatClass \<Rightarrow> ('w, 'x, unit) sprog" where
  "saveChannelHash D c s =
     (let save = (\<lambda>i h. out (SetChannelAccessHash (hasher D) (selfID D) i h));
          community = (\<lambda>i hash. case hash of
              Some h \<Rightarrow> if i \<in> savedCommunities s then (Inr (), s)
                else (case save i h s of
                    (Inl _, s') \<Rightarrow> (Inr (), s')
                  | (Inr _, s') \<Rightarrow> (Inr (), s'\<lparr>savedCommunities := insert i (savedCommunities s')\<rparr>))
            | None \<Rightarrow> (Inr (), s))
      in case c of
        Channel i hash isMin _ \<Rightarrow>
          (if isMin then (Inr (), s)
           else case hash of
             None \<Rightarrow> (Inr (), s)
           | Some h \<Rightarrow> if chans s i \<noteq> None then (Inr (), s) else logged (save i h) s)
      | ChannelForbidden i h \<Rightarrow> if chans s i \<noteq> None then (Inr (), s) else logged (save i h) s
      | Community i hash isMin \<Rightarrow> if isMin then (Inr (), s) else community i hash
      | CommunityForbidden i hash \<Rightarrow> community i hash
      | OtherChat _ \<Rightarrow> (Inr (), s))"

definition saveChannelHashes :: "('w, 'x) deps \<Rightarrow> ChatClass list \<Rightarrow> ('w, 'x, unit) sprog" where
  "saveChannelHashes D chats = each (saveChannelHash D) chats"

definition saveUserHash :: "('w, 'x) deps \<Rightarrow> UserClass \<Rightarrow> ('w, 'x, unit) sprog" where
  "saveUserHash D u = (case u of
     UserEmpty _ \<Rightarrow> ret ()
   | User i hash isMin \<Rightarrow> (case hash of
       None \<Rightarrow> ret ()
     | Some h \<Rightarrow> if isMin then ret () else logged (out (SetUserAccessHash (hasher D) (selfID D) i h))))"

definition saveUserHashes :: "('w, 'x) deps \<Rightarrow> UserClass list \<Rightarrow> ('w, 'x, unit) sprog" where
  "saveUserHashes D users = each (saveUserHash D) users"

text \<open>The wait before a retry in seconds: what the server asks for, or five.\<close>

definition retry_delay :: "uerr \<Rightarrow> int" where
  "retry_delay err = (case AsFloodWait (case err of Rpc e \<Rightarrow> Some e | _ \<Rightarrow> None) of Some dur \<Rightarrow> dur | None \<Rightarrow> 5)"

primrec getDifferenceWithRetry :: "nat \<Rightarrow> ('w, 'x) deps \<Rightarrow> int \<Rightarrow> ('w, 'x, 'x UpdatesDifferenceClass) sprog" where
  "getDifferenceWithRetry 0 D d = fail OutOfFuel"
| "getDifferenceWithRetry (Suc n) D d = (\<lambda>s.
     case out (UpdatesGetDifference D (state (pts s)) (state (qts s)) d) s of
       (Inr diff, s') \<Rightarrow> (Inr diff, s')
     | (Inl err, s') \<Rightarrow>
         if isFatalError err then (Inl err, s')
         else andThen (out (sleep D (retry_delay err))) (\<lambda>_. getDifferenceWithRetry n D d) s')"

definition diff_entities :: "'x UpdatesDifferenceClass \<Rightarrow> ChatClass list \<times> UserClass list" where
  "diff_entities diff = (case diff of
     UpdatesDifference b _ \<Rightarrow> (DChats b, DUsers b)
   | UpdatesDifferenceSlice b _ \<Rightarrow> (DChats b, DUsers b)
   | _ \<Rightarrow> ([], []))"

definition handleDifference ::
  "nat \<Rightarrow> ('w, 'x) deps \<Rightarrow> int \<Rightarrow> ('w, 'x, ChatClass list \<times> UserClass list) sprog" where
  "handleDifference n D d = andThen (getDifferenceWithRetry n D d) (\<lambda>diff.
     let (cs, us) = diff_entities diff in
     andThen (saveChannelHashes D cs) (\<lambda>_. andThen (saveUserHashes D us) (\<lambda>_. ret (cs, us))))"

fun find_hash :: "int \<Rightarrow> ChatClass list \<Rightarrow> int option" where
  "find_hash cid [] = None"
| "find_hash cid (c # cs) = (case c of
     Channel i hash isMin _ \<Rightarrow>
       (if isMin \<or> i \<noteq> cid then find_hash cid cs
        else case hash of Some h \<Rightarrow> Some h | None \<Rightarrow> find_hash cid cs)
   | ChannelForbidden i h \<Rightarrow> if i \<noteq> cid then find_hash cid cs else Some h
   | _ \<Rightarrow> find_hash cid cs)"

definition restoreChannelAccessHash :: "nat \<Rightarrow> ('w, 'x) deps \<Rightarrow> int \<Rightarrow> int \<Rightarrow> ('w, 'x, int option) sprog" where
  "restoreChannelAccessHash n D cid d s = (case handleDifference n D d s of
     (Inl e, s') \<Rightarrow> if e = OutOfFuel then (Inl OutOfFuel, s') else (Inr None, s')
   | (Inr (cs, _), s') \<Rightarrow> (Inr (find_hash cid cs), s'))"

section \<open>The callbacks of the boxes\<close>

definition deliver :: "('w, 'x) deps \<Rightarrow> ('x UpdateClass, entities) update list \<Rightarrow> ('w, 'x, unit) sprog" where
  "deliver D us = (let ents = merge_all (map Entities us) in
     out (handler_Handle D \<lparr>Upds = map Value us, UUsers = Users ents, UChats = Chats ents\<rparr>))"

definition applyPts :: "('w, 'x) deps \<Rightarrow> int \<Rightarrow> ('x UpdateClass, entities) update list \<Rightarrow> ('w, 'x, unit) sprog" where
  "applyPts D st us = andThen (deliver D us) (\<lambda>_. out (SetPts (storage D) (selfID D) st))"

definition applyQts :: "('w, 'x) deps \<Rightarrow> int \<Rightarrow> ('x UpdateClass, entities) update list \<Rightarrow> ('w, 'x, unit) sprog" where
  "applyQts D st us = andThen (deliver D us) (\<lambda>_.
     if st = 0 then ret () else out (SetQts (storage D) (selfID D) st))"

text \<open>A callback that does not look at the box it is called from.\<close>

definition callback :: "(int \<Rightarrow> ('v, 'e) update list \<Rightarrow> ('s, uerr, unit) prog) \<Rightarrow> ('v, 'e, 's, uerr) apply_fun" where
  "callback f st us = (\<lambda>(b, s). case f st us s of (r, s') \<Rightarrow> (r, (b, s')))"

text \<open>The callback of the seq box does: it runs on the state with the box in it.\<close>

definition seq_callback ::
  "(int \<Rightarrow> ('x UpdatesCombined, entities) update list \<Rightarrow> ('w, 'x, unit) sprog) \<Rightarrow>
   ('x UpdatesCombined, entities, ('w, 'x) internalState, uerr) apply_fun" where
  "seq_callback f st us = (\<lambda>(b, s). case f st us (s\<lparr>seq := b\<rparr>) of (r, s') \<Rightarrow> (r, (seq s', s')))"

section \<open>Handlers of single updates\<close>

definition handlePts :: "('w, 'x) deps \<Rightarrow> int \<Rightarrow> int \<Rightarrow> 'x UpdateClass \<Rightarrow> entities \<Rightarrow> ('w, 'x, unit) sprog" where
  "handlePts D p ptsCount u ents =
     (if \<not> validatePts p ptsCount then ret ()
      else on_pts (Handle (callback (applyPts D)) \<lparr>Value = u, State = p, Count = ptsCount, Entities = ents\<rparr>))"

definition handleQts :: "('w, 'x) deps \<Rightarrow> int \<Rightarrow> 'x UpdateClass \<Rightarrow> entities \<Rightarrow> ('w, 'x, unit) sprog" where
  "handleQts D q u ents =
     (if \<not> validateQts q then ret ()
      else on_qts (Handle (callback (applyQts D)) \<lparr>Value = u, State = q, Count = 1, Entities = ents\<rparr>))"

definition createAndRunChannelState :: "int \<Rightarrow> int \<Rightarrow> int \<Rightarrow> ('w, 'x) internalState \<Rightarrow> ('w, 'x) internalState" where
  "createAndRunChannelState cid accessHash initialPts s =
     s\<lparr>chans := (chans s)(cid \<mapsto> \<lparr>refHash = accessHash, refInitialPts = initialPts, refQueue = [], refStopped = False\<rparr>)\<rparr>"

text \<open>\<open>Push\<close> on a channel state: dropped when its context has ended.\<close>

definition pushChannel :: "int \<Rightarrow> 'x channelUpdate \<Rightarrow> ('w, 'x, unit) sprog" where
  "pushChannel cid cu s = (case chans s cid of
     None \<Rightarrow> (Inr (), s)
   | Some c \<Rightarrow> (Inr (), if refStopped c then s
       else s\<lparr>chans := (chans s)(cid \<mapsto> c\<lparr>refQueue := refQueue c @ [cu]\<rparr>)\<rparr>))"

text \<open>What the entities of an update say about its channel: the first entry with its id.\<close>

datatype membership = Gone | Forbidden | Present | Unknown

fun membership_of :: "int \<Rightarrow> ChatClass list \<Rightarrow> membership" where
  "membership_of cid [] = Unknown"
| "membership_of cid (ent # ents) =
     (if chat_id ent = cid then
        (case ent of Channel _ _ _ left \<Rightarrow> if left then Gone else Present
         | ChannelForbidden _ _ \<Rightarrow> Forbidden | _ \<Rightarrow> Present)
      else membership_of cid ents)"

definition is_channel_entity :: "int \<Rightarrow> ChatClass list \<Rightarrow> bool" where
  "is_channel_entity cid ents = (case find (\<lambda>e. chat_id e = cid) ents of
     Some (Channel _ _ _ _) \<Rightarrow> True | _ \<Rightarrow> False)"

definition openChannel :: "nat \<Rightarrow> ('w, 'x) deps \<Rightarrow> int \<Rightarrow> int \<Rightarrow> int \<Rightarrow> int \<Rightarrow> ('w, 'x, bool) sprog" where
  "openChannel n D cid d p ptsCount s =
     (let (h, s) = (case out (GetChannelAccessHash (hasher D) (selfID D) cid) s of
            (Inl _, s') \<Rightarrow> (None, s') | (Inr h, s') \<Rightarrow> (h, s'));
          (r, s) = (case h of
            Some hash \<Rightarrow> (Inr (Some hash), s)
          | None \<Rightarrow> restoreChannelAccessHash n D cid (if d = 0 then date s - 30 else d - 1) s)
      in case r of
        Inl e \<Rightarrow> (Inl e, s)
      | Inr None \<Rightarrow> (Inr False, s)
      | Inr (Some hash) \<Rightarrow>
          (let (found, s) = (case out (GetChannelPts (storage D) (selfID D) cid) s of
                 (Inl _, s') \<Rightarrow> (None, s') | (Inr l, s') \<Rightarrow> (if l = Some (-1) then None else l, s'));
               (localPts, s) = (case found of
                 Some l \<Rightarrow> (l, s)
               | None \<Rightarrow> (p - ptsCount,
                   snd (out (SetChannelPts (storage D) (selfID D) cid (p - ptsCount)) s)))
           in (Inr True, createAndRunChannelState cid hash localPts s)))"

definition handleChannel ::
  "nat \<Rightarrow> ('w, 'x) deps \<Rightarrow> int \<Rightarrow> int \<Rightarrow> int \<Rightarrow> int \<Rightarrow> 'x channelUpdate \<Rightarrow> ('w, 'x, unit) sprog" where
  "handleChannel n D cid d p ptsCount cu s =
     (if \<not> validatePts p ptsCount then (Inr (), s)
      else
        let m = membership_of cid (Chats (chEntities cu));
            left = recentlyLeftChannels s;
            s = (if m = Gone then s\<lparr>recentlyLeftChannels := insert cid left\<rparr>
                 else if m = Present \<and> is_channel_entity cid (Chats (chEntities cu))
                 then s\<lparr>recentlyLeftChannels := left - {cid}\<rparr> else s)
        in if m = Gone \<or> m = Forbidden \<or> m = Unknown \<and> cid \<in> left then (Inr (), s)
           else if chans s cid \<noteq> None then pushChannel cid cu s
           else andThen (openChannel n D cid d p ptsCount)
             (\<lambda>opened. if opened then pushChannel cid cu else ret ()) s)"

section \<open>Containers\<close>

text \<open>The loop of \<open>applyCombined\<close>; it returns the updates that are not for channels and whether
  an \<open>UpdatePtsChanged\<close> was among them.\<close>

fun combined_loop ::
  "nat \<Rightarrow> ('w, 'x) deps \<Rightarrow> int \<Rightarrow> entities \<Rightarrow> 'x UpdateClass list \<Rightarrow> 'x UpdateClass list \<Rightarrow> bool \<Rightarrow>
   ('w, 'x, 'x UpdateClass list \<times> bool) sprog" where
  "combined_loop n D d ents [] nonChannel ptsChanged = ret (nonChannel, ptsChanged)"
| "combined_loop n D d ents (u # us) nonChannel ptsChanged =
     (case u of
        UpdatePtsChanged \<Rightarrow> combined_loop n D d ents us nonChannel True
      | UpdateChannelTooLong cid _ \<Rightarrow>
          andThen (pushChannel cid \<lparr>chUpdate = u, chEntities = ents\<rparr>)
            (\<lambda>_. combined_loop n D d ents us nonChannel ptsChanged)
      | _ \<Rightarrow>
          andThen (case IsPtsUpdate u of Some (p, c) \<Rightarrow> handlePts D p c u ents | None \<Rightarrow> ret ()) (\<lambda>_.
            case IsChannelPtsUpdate u of
              Some (None, _, _) \<Rightarrow> combined_loop n D d ents us nonChannel ptsChanged
            | Some (Some cid, p, c) \<Rightarrow>
                andThen (handleChannel n D cid d p c \<lparr>chUpdate = u, chEntities = ents\<rparr>)
                  (\<lambda>_. combined_loop n D d ents us nonChannel ptsChanged)
            | None \<Rightarrow>
                andThen (case IsQtsUpdate u of Some q \<Rightarrow> handleQts D q u ents | None \<Rightarrow> ret ())
                  (\<lambda>_. combined_loop n D d ents us (nonChannel @ [u]) ptsChanged)))"

definition seq_SetState :: "int \<Rightarrow> ('w, 'x) internalState \<Rightarrow> ('w, 'x) internalState" where
  "seq_SetState q s = s\<lparr>seq := SetState q (seq s)\<rparr>"

text \<open>The date and seq of a container are recorded after its updates have been handled.\<close>

definition recordDateSeq :: "('w, 'x) deps \<Rightarrow> 'x UpdatesCombined \<Rightarrow> ('w, 'x, unit) sprog" where
  "recordDateSeq D comb s =
     (let setDate = CDate comb > date s; setSeq = CSeq comb > 0 in
      if setDate \<and> setSeq then
        andThen (out (SetDateSeq (storage D) (selfID D) (CDate comb) (CSeq comb)))
          (\<lambda>_. modify (\<lambda>s. seq_SetState (CSeq comb) (s\<lparr>date := CDate comb\<rparr>))) s
      else if setDate then
        andThen (out (SetDate (storage D) (selfID D) (CDate comb)))
          (\<lambda>_. modify (\<lambda>s. s\<lparr>date := CDate comb\<rparr>)) s
      else if setSeq then
        andThen (out (SetSeq (storage D) (selfID D) (CSeq comb)))
          (\<lambda>_. modify (seq_SetState (CSeq comb))) s
      else ret () s)"

definition applyCombined :: "nat \<Rightarrow> ('w, 'x) deps \<Rightarrow> 'x UpdatesCombined \<Rightarrow> ('w, 'x, bool) sprog" where
  "applyCombined n D comb =
     (let ents = \<lparr>Users = CUsers comb, Chats = CChats comb\<rparr> in
      andThen (combined_loop n D (CDate comb) ents (sortUpdatesByPts (CUpdates comb)) [] False) (\<lambda>(nonChannel, ptsChanged).
      andThen (out (handler_Handle D \<lparr>Upds = nonChannel, UUsers = Users ents, UChats = Chats ents\<rparr>)) (\<lambda>_.
      andThen (recordDateSeq D comb) (\<lambda>_. ret ptsChanged))))"

text \<open>\<open>applyCombined\<close> over the updates of a batch; some has changed the pts.\<close>

primrec apply_batch :: "nat \<Rightarrow> ('w, 'x) deps \<Rightarrow> ('x UpdatesCombined, entities) update list \<Rightarrow> ('w, 'x, bool) sprog" where
  "apply_batch n D [] = ret False"
| "apply_batch n D (u # us) = andThen (applyCombined n D (Value u)) (\<lambda>changed.
     andThen (apply_batch n D us) (\<lambda>rest. ret (changed \<or> rest)))"

definition clear_gaps :: "('w, 'x) internalState \<Rightarrow> ('w, 'x) internalState" where
  "clear_gaps s = s\<lparr>pts := (pts s)\<lparr>gaps := Clear (gaps (pts s))\<rparr>, qts := (qts s)\<lparr>gaps := Clear (gaps (qts s))\<rparr>,
     seq := (seq s)\<lparr>gaps := Clear (gaps (seq s))\<rparr>\<rparr>"

definition setRemoteState :: "('w, 'x) deps \<Rightarrow> UpdatesState \<Rightarrow> ('w, 'x, unit) sprog" where
  "setRemoteState D st = andThen (logged (out (PutState (storage D) (selfID D) (fromRemote st))))
     (\<lambda>_ s. (Inr (), s\<lparr>pts := SetState (rPts st) (pts s), qts := SetState (rQts st) (qts s),
        seq := SetState (rSeq st) (seq s), date := rDate st\<rparr>))"

text \<open>The new messages of a difference go to the handler.\<close>

definition deliverMessages :: "('w, 'x) deps \<Rightarrow> 'x diff_body \<Rightarrow> ('w, 'x, unit) sprog" where
  "deliverMessages D b =
     (if NewMessages b \<noteq> [] \<or> NewEncryptedMessages b \<noteq> [] then
        out (handler_Handle D \<lparr>Upds = msgsToUpdates (NewMessages b) False @ encryptedMsgsToUpdates (NewEncryptedMessages b),
          UUsers = DUsers b, UChats = DChats b\<rparr>)
      else ret ())"

definition combined_of :: "'x diff_body \<Rightarrow> int \<Rightarrow> 'x UpdatesCombined" where
  "combined_of b d = \<lparr>CUpdates = OtherUpdates b, CUsers = DUsers b, CChats = DChats b, CDate = d, CSeq = 0, CSeqStart = 0\<rparr>"

fun handleUpdates :: "('w, 'x) deps \<Rightarrow> nat \<Rightarrow> 'x UpdatesClass \<Rightarrow> ('w, 'x, unit) sprog"
and handleSeq :: "('w, 'x) deps \<Rightarrow> nat \<Rightarrow> 'x UpdatesCombined \<Rightarrow> ('w, 'x, unit) sprog"
and applySeq :: "('w, 'x) deps \<Rightarrow> nat \<Rightarrow> int \<Rightarrow> ('x UpdatesCombined, entities) update list \<Rightarrow> ('w, 'x, unit) sprog"
and getDifference :: "('w, 'x) deps \<Rightarrow> nat \<Rightarrow> ('w, 'x, unit) sprog" where
  "handleUpdates D 0 u = fail OutOfFuel"
| "handleUpdates D (Suc n) u = (case u of
     TgUpdates us users chats d q \<Rightarrow>
       andThen (saveUserHashes D users) (\<lambda>_. andThen (saveChannelHashes D chats) (\<lambda>_.
         handleSeq D n \<lparr>CUpdates = us, CUsers = users, CChats = chats, CDate = d, CSeq = q, CSeqStart = q\<rparr>))
   | TgUpdatesCombined c \<Rightarrow>
       andThen (saveUserHashes D (CUsers c)) (\<lambda>_. andThen (saveChannelHashes D (CChats c)) (\<lambda>_. handleSeq D n c))
   | UpdateShort x d \<Rightarrow>
       handleUpdates D n (TgUpdatesCombined \<lparr>CUpdates = [x], CUsers = [], CChats = [], CDate = d, CSeq = 0, CSeqStart = 0\<rparr>)
   | UpdateShortMessage m \<Rightarrow>
       (let (x, d) = convertShortMessage (selfID D) m in
        andThen (out (GetUserAccessHash (hasher D) (selfID D) (sUserID m))) (\<lambda>h.
          if h = None then andThen (handleDifference n D (sDate m)) (\<lambda>(cs, us). handleUpdates D n
            (TgUpdatesCombined \<lparr>CUpdates = [x], CUsers = us, CChats = cs, CDate = sDate m, CSeq = 0, CSeqStart = 0\<rparr>))
          else handleUpdates D n (UpdateShort x d)))
   | UpdateShortChatMessage m \<Rightarrow>
       (let (x, d) = convertShortChatMessage m in
        andThen (out (GetUserAccessHash (hasher D) (selfID D) (sUserID m))) (\<lambda>h.
          if h = None then andThen (handleDifference n D (sDate m)) (\<lambda>(cs, us). handleUpdates D n
            (TgUpdatesCombined \<lparr>CUpdates = [x], CUsers = us, CChats = cs, CDate = sDate m, CSeq = 0, CSeqStart = 0\<rparr>))
          else handleUpdates D n (UpdateShort x d)))
   | UpdateShortSentMessage m \<Rightarrow> (let (x, d) = convertShortSentMessage m in handleUpdates D n (UpdateShort x d))
   | UpdatesTooLong \<Rightarrow> getDifference D n)"
| "handleSeq D 0 u = fail OutOfFuel"
| "handleSeq D (Suc n) u =
     (if \<not> validateSeq (CSeq u) (CSeqStart u) then ret ()
      else if CSeq u = 0 then
        andThen (applyCombined n D u) (\<lambda>ptsChanged. if ptsChanged then getDifference D n else ret ())
      else on_seq (Handle (seq_callback (applySeq D n))
        \<lparr>Value = u, State = CSeq u, Count = CSeq u - CSeqStart u + 1, Entities = no_entities\<rparr>))"
| "applySeq D 0 st us = fail OutOfFuel"
| "applySeq D (Suc n) st us =
     andThen (apply_batch n D us) (\<lambda>recoverState.
     andThen (out (SetSeq (storage D) (selfID D) st)) (\<lambda>_.
       if recoverState then getDifference D n else ret ()))"
| "getDifference D 0 = fail OutOfFuel"
| "getDifference D (Suc n) =
     andThen (modify clear_gaps) (\<lambda>_. andThen (\<lambda>s. getDifferenceWithRetry n D (date s) s) (\<lambda>diff. case diff of
       UpdatesDifference b st \<Rightarrow>
         andThen (if OtherUpdates b \<noteq> [] then handleUpdates D n (TgUpdatesCombined (combined_of b 0)) else ret ()) (\<lambda>_.
         andThen (deliverMessages D b) (\<lambda>_. setRemoteState D st))
     | UpdatesDifferenceEmpty d q \<Rightarrow>
         andThen (logged (out (SetDateSeq (storage D) (selfID D) d q)))
           (\<lambda>_ s. (Inr (), seq_SetState q (s\<lparr>date := d\<rparr>)))
     | UpdatesDifferenceSlice b st \<Rightarrow>
         andThen (if OtherUpdates b \<noteq> [] then handleUpdates D n (TgUpdatesCombined (combined_of b (rDate st))) else ret ()) (\<lambda>_.
         andThen (deliverMessages D b) (\<lambda>_.
         andThen (setRemoteState D st) (\<lambda>_. getDifference D n)))
     | UpdatesDifferenceTooLong p \<Rightarrow>
         andThen (logged (out (SetPts (storage D) (selfID D) p))) (\<lambda>_.
         andThen (modify (\<lambda>s. s\<lparr>pts := SetState p (pts s)\<rparr>)) (\<lambda>_. getDifference D n))))"

declare handleUpdates.simps [simp del] handleSeq.simps [simp del] applySeq.simps [simp del] getDifference.simps [simp del]
  getDifferenceWithRetry.simps [simp del]

definition getDifferenceLogger :: "('w, 'x) deps \<Rightarrow> nat \<Rightarrow> ('w, 'x, unit) sprog" where
  "getDifferenceLogger D n s = (case getDifference D n s of
     (Inl err, s') \<Rightarrow> if isFatalError err \<or> err = OutOfFuel then (Inl err, s') else (Inr (), s')
   | (Inr _, s') \<Rightarrow> (Inr (), s'))"

definition RemoveChannel :: "int \<Rightarrow> ('w, 'x) internalState \<Rightarrow> ('w, 'x) internalState" where
  "RemoveChannel cid s =
     (let s = s\<lparr>recentlyLeftChannels := insert cid (recentlyLeftChannels s)\<rparr> in
      case chans s cid of None \<Rightarrow> s
      | Some c \<Rightarrow> s\<lparr>chans := (chans s)(cid \<mapsto> c\<lparr>refStopped := True\<rparr>)\<rparr>)"

text \<open>\<open>newState\<close>: channels without a position are not started.\<close>

definition newState ::
  "State \<Rightarrow> (int \<times> int \<times> int) list \<Rightarrow> int list \<Rightarrow> 'w \<Rightarrow> ('w, 'x) internalState" where
  "newState st chs leftChannels w =
     foldl (\<lambda>s (i, p, hash). if p = -1 then s else createAndRunChannelState i hash p s)
       \<lparr>pts = newSequenceBox (Pts st), qts = newSequenceBox (Qts st), seq = newSequenceBox (Seq st), date = Date st,
        chans = (\<lambda>_. None), recentlyLeftChannels = set leftChannels, savedCommunities = {}, env = w\<rparr> chs"

text \<open>The loop of \<open>Run\<close>, driven by the events its \<open>select\<close> takes.  A timer that fires is no longer
  armed.\<close>

datatype 'x event =
  ExternalQueue "'x UpdatesClass" | InternalQueue "'x UpdatesClass" | PtsTimeout | QtsTimeout | SeqTimeout | IdleTimeout

definition run_event :: "('w, 'x) deps \<Rightarrow> nat \<Rightarrow> 'x event \<Rightarrow> ('w, 'x, unit) sprog" where
  "run_event D n ev = (case ev of
     ExternalQueue u \<Rightarrow> handleUpdates D n u
   | InternalQueue u \<Rightarrow> handleUpdates D n u
   | PtsTimeout \<Rightarrow> andThen (modify (\<lambda>s. s\<lparr>pts := (pts s)\<lparr>armed := False\<rparr>\<rparr>)) (\<lambda>_. getDifferenceLogger D n)
   | QtsTimeout \<Rightarrow> andThen (modify (\<lambda>s. s\<lparr>qts := (qts s)\<lparr>armed := False\<rparr>\<rparr>)) (\<lambda>_. getDifferenceLogger D n)
   | SeqTimeout \<Rightarrow> andThen (modify (\<lambda>s. s\<lparr>seq := (seq s)\<lparr>armed := False\<rparr>\<rparr>)) (\<lambda>_. getDifferenceLogger D n)
   | IdleTimeout \<Rightarrow> getDifferenceLogger D n)"

definition Run :: "('w, 'x) deps \<Rightarrow> nat \<Rightarrow> 'x event list \<Rightarrow> ('w, 'x, unit) sprog" where
  "Run D n evs = andThen (getDifferenceLogger D n) (\<lambda>_. each (run_event D n) evs)"

section \<open>The boxes of a running state\<close>

text \<open>The contract of the surroundings under which nothing is lost: while \<open>ready\<close>, the handler
  accepts what it is given and the positions can be stored.\<close>

locale update_env =
  fixes D :: "('w, 'x) deps"
    and log :: "'w \<Rightarrow> 'x Updates list"
    and ready :: "'w \<Rightarrow> bool"
  assumes handles: "ready w \<Longrightarrow> \<exists>w'. handler_Handle D u w = (Inr (), w') \<and> ready w' \<and> log w' = log w @ [u]"
    and stores_pts: "ready w \<Longrightarrow> \<exists>w'. SetPts (storage D) (selfID D) p w = (Inr (), w') \<and> ready w' \<and> log w' = log w"
    and stores_qts: "ready w \<Longrightarrow> \<exists>w'. SetQts (storage D) (selfID D) p w = (Inr (), w') \<and> ready w' \<and> log w' = log w"

text \<open>The updates handed to the handler so far.\<close>

definition delivered :: "('w \<Rightarrow> 'x Updates list) \<Rightarrow> ('w, 'x) internalState \<Rightarrow> 'x UpdateClass list" where
  "delivered log s = concat (map Upds (log (env s)))"

context update_env
begin

lemma deliver_ok:
  assumes "ready (env s)"
  shows "\<exists>w'. deliver D us s = (Inr (), s\<lparr>env := w'\<rparr>) \<and> ready w' \<and> concat (map Upds (log w')) = delivered log s @ map Value us"
  using handles[OF assms, of "\<lparr>Upds = map Value us, UUsers = Users (merge_all (map Entities us)),
    UChats = Chats (merge_all (map Entities us))\<rparr>"]
  by (auto simp: deliver_def out_def Let_def delivered_def)

lemma applyPts_ok:
  assumes "ready (env s)"
  shows "\<exists>w'. applyPts D st us s = (Inr (), s\<lparr>env := w'\<rparr>) \<and> ready w' \<and>
    concat (map Upds (log w')) = delivered log s @ map Value us"
proof -
  obtain w1 where 1: "deliver D us s = (Inr (), s\<lparr>env := w1\<rparr>)" "ready w1"
    "concat (map Upds (log w1)) = delivered log s @ map Value us" using deliver_ok[OF assms] by blast
  with stores_pts[OF 1(2), of st] show ?thesis by (auto simp: applyPts_def out_def)
qed

lemma applyQts_ok:
  assumes "ready (env s)"
  shows "\<exists>w'. applyQts D st us s = (Inr (), s\<lparr>env := w'\<rparr>) \<and> ready w' \<and>
    concat (map Upds (log w')) = delivered log s @ map Value us"
proof -
  obtain w1 where 1: "deliver D us s = (Inr (), s\<lparr>env := w1\<rparr>)" "ready w1"
    "concat (map Upds (log w1)) = delivered log s @ map Value us" using deliver_ok[OF assms] by blast
  with stores_qts[OF 1(2), of st] show ?thesis by (auto simp: applyQts_def out_def ret_def)
qed

end

sublocale update_env \<subseteq> pts: box_sink "callback (applyPts D)" "delivered log" "\<lambda>s. ready (env s)"
proof unfold_locales
  show "callback (applyPts D) st us (b, w) = (r, (b', w')) \<Longrightarrow> b' = b" for st us b w r b' w'
    by (auto simp: callback_def split: prod.splits)
  show "ready (env w) \<Longrightarrow> callback (applyPts D) st us (b, w) = (Inr x, (b', w')) \<Longrightarrow>
      delivered log w' = delivered log w @ map Value us \<and> ready (env w')" for st us b w x b' w'
    using applyPts_ok[of w st us] by (auto simp: callback_def delivered_def)
  show "ready (env w) \<Longrightarrow> \<exists>w'. callback (applyPts D) st us (b, w) = (Inr (), (b, w'))" for st us b w
    using applyPts_ok[of w st us] by (auto simp: callback_def)
qed

context update_env
begin

lemma pts_any_order_box:
  assumes "feed p us t" "set vs = set us" "ready (env s)"
  shows "\<exists>b s'. handle_all (callback (applyPts D)) vs (newSequenceBox p, s) = (Inr (), (b, s')) \<and>
    state b = t \<and> gaps b = [] \<and> pending b = [] \<and> delivered log s' = delivered log s @ map Value us"
  by (rule pts.any_order) (use assms in simp_all)

end

sublocale update_env \<subseteq> qts: box_sink "callback (applyQts D)" "delivered log" "\<lambda>s. ready (env s)"
proof unfold_locales
  show "callback (applyQts D) st us (b, w) = (r, (b', w')) \<Longrightarrow> b' = b" for st us b w r b' w'
    by (auto simp: callback_def split: prod.splits)
  show "ready (env w) \<Longrightarrow> callback (applyQts D) st us (b, w) = (Inr x, (b', w')) \<Longrightarrow>
      delivered log w' = delivered log w @ map Value us \<and> ready (env w')" for st us b w x b' w'
    using applyQts_ok[of w st us] by (auto simp: callback_def delivered_def)
  show "ready (env w) \<Longrightarrow> \<exists>w'. callback (applyQts D) st us (b, w) = (Inr (), (b, w'))" for st us b w
    using applyQts_ok[of w st us] by (auto simp: callback_def)
qed

section \<open>A concrete environment\<close>

text \<open>The in-memory stores, a handler that keeps what it is given, and a server that answers from
  a script.\<close>

record 'x world =
  store :: mem
  known_hashes :: hashes
  handled :: "'x Updates list"
  script :: "'x UpdatesDifferenceClass list"

definition at_store :: "(mem, uerr, 'a) prog \<Rightarrow> (('x, 'z) world_scheme, uerr, 'a) prog" where
  "at_store m w = (case m (store w) of (r, st) \<Rightarrow> (r, w\<lparr>store := st\<rparr>))"

definition at_hashes :: "(hashes, uerr, 'a) prog \<Rightarrow> (('x, 'z) world_scheme, uerr, 'a) prog" where
  "at_hashes m w = (case m (known_hashes w) of (r, h) \<Rightarrow> (r, w\<lparr>known_hashes := h\<rparr>))"

text \<open>A callback over the storage runs on the surroundings.\<close>

definition at_each :: "int \<Rightarrow> (int \<Rightarrow> int \<Rightarrow> (('x, 'z) world_scheme, uerr, unit) prog) \<Rightarrow> (('x, 'z) world_scheme, uerr, unit) prog" where
  "at_each u f w =
     (if mutex (store w) then (Inl Blocked, w)
      else case channels (store w) u of
        None \<Rightarrow> (Inl StateNotFound, w)
      | Some cs \<Rightarrow>
          (case each (\<lambda>(i, p). f i p) cs (w\<lparr>store := (store w)\<lparr>mutex := True\<rparr>\<rparr>) of
             (r, w') \<Rightarrow> (r, w'\<lparr>store := (store w')\<lparr>mutex := False\<rparr>\<rparr>)))"

definition memDeps :: "int \<Rightarrow> (('x, 'z) world_scheme, 'x) deps" where
  "memDeps self = \<lparr>
     handler_Handle = (\<lambda>u w. (Inr (), w\<lparr>handled := handled w @ [u]\<rparr>)),
     storage = \<lparr>GetState = \<lambda>u. at_store (mem_GetState u), PutState = \<lambda>u st. at_store (mem_SetState u st),
       SetPts = \<lambda>u p. at_store (mem_SetPts u p), SetQts = \<lambda>u p. at_store (mem_SetQts u p),
       SetDate = \<lambda>u p. at_store (mem_SetDate u p), SetSeq = \<lambda>u p. at_store (mem_SetSeq u p),
       SetDateSeq = \<lambda>u d p. at_store (mem_SetDateSeq u d p),
       GetChannelPts = \<lambda>u c. at_store (mem_GetChannelPts u c),
       SetChannelPts = \<lambda>u c p. at_store (mem_SetChannelPts u c p), ForEachChannels = at_each\<rparr>,
     hasher = \<lparr>SetChannelAccessHash = \<lambda>u i h. at_hashes (mem_SetChannelAccessHash u i h),
       GetChannelAccessHash = \<lambda>u i. at_hashes (mem_GetChannelAccessHash u i),
       SetUserAccessHash = \<lambda>u i h. at_hashes (mem_SetUserAccessHash u i h),
       GetUserAccessHash = \<lambda>u i. at_hashes (mem_GetUserAccessHash u i)\<rparr>,
     UpdatesGetDifference = (\<lambda>_ _ _ w. case script w of
         [] \<Rightarrow> (Inl (Rpc (New 401 ''AUTH_KEY_UNREGISTERED'')), w)
       | d # ds \<Rightarrow> (Inr d, w\<lparr>script := ds\<rparr>)),
     sleep = (\<lambda>_ w. (Inr (), w)),
     selfID = self\<rparr>"

definition mem_ready :: "int \<Rightarrow> ('x, 'z) world_scheme \<Rightarrow> bool" where
  "mem_ready self w \<longleftrightarrow> mem_ok (store w) \<and> states (store w) self \<noteq> None"

lemma at_store_write:
  assumes "mem_ready self w" "setter mem_ok states mem_chan op f"
  shows "\<exists>w'. at_store (op self) w = (Inr (), w') \<and> mem_ready self w' \<and> handled w' = handled w"
proof -
  obtain st where st: "states (store w) self = Some st" using assms(1) by (auto simp: mem_ready_def)
  have "case states (store w) self of None \<Rightarrow> \<exists>e. op self (store w) = (Inl e, store w)
    | Some st \<Rightarrow> \<exists>w'. op self (store w) = (Inr (), w') \<and> mem_ok w' \<and> states w' = (states (store w))(self \<mapsto> f st) \<and> mem_chan w' = mem_chan (store w)"
    using assms unfolding setter_def mem_ready_def by blast
  with st show ?thesis by (auto simp: at_store_def mem_ready_def)
qed

interpretation mem_env: update_env "memDeps self" handled "mem_ready self" for self :: int
proof unfold_locales
  fix w :: "('a, 'b) world_scheme" and u p
  assume r: "mem_ready self w"
  show "\<exists>w'. handler_Handle (memDeps self) u w = (Inr (), w') \<and> mem_ready self w' \<and> handled w' = handled w @ [u]"
    using r by (simp add: memDeps_def mem_ready_def)
  have "SetPts memStorage = mem_SetPts" "SetQts memStorage = mem_SetQts" by (simp_all add: memStorage_def)
  then show "\<exists>w'. SetPts (storage (memDeps self)) (selfID (memDeps self)) p w = (Inr (), w') \<and> mem_ready self w' \<and> handled w' = handled w"
    "\<exists>w'. SetQts (storage (memDeps self)) (selfID (memDeps self)) p w = (Inr (), w') \<and> mem_ready self w' \<and> handled w' = handled w"
    using at_store_write[OF r mem_storage.set_pts[of p]] at_store_write[OF r mem_storage.set_qts[of p]]
    by (simp_all add: memDeps_def)
qed

section \<open>A run of pts updates on the state\<close>

text \<open>The callback sees the state only through its surroundings.\<close>

lemma applyPts_env: "applyPts D st us (s\<lparr>pts := b\<rparr>) = (case applyPts D st us s of (r, s') \<Rightarrow> (r, s'\<lparr>pts := b\<rparr>))"
  by (auto simp: applyPts_def deliver_def out_def Let_def andThen_def split: prod.splits sum.splits)

lemma applyQts_env: "applyQts D st us (s\<lparr>qts := b\<rparr>) = (case applyQts D st us s of (r, s') \<Rightarrow> (r, s'\<lparr>qts := b\<rparr>))"
  by (auto simp: applyQts_def deliver_def out_def ret_def Let_def andThen_def split: prod.splits sum.splits)

lemma handle_all_pts_natural:
  "handle_all (callback (applyPts D)) us (b, s\<lparr>pts := c\<rparr>) =
    map_world (\<lambda>s. s\<lparr>pts := c\<rparr>) (handle_all (callback (applyPts D)) us (b, s))"
  by (rule handle_all_natural) (simp add: callback_def applyPts_env split: prod.splits)

lemma handle_all_qts_natural:
  "handle_all (callback (applyQts D)) us (b, s\<lparr>qts := c\<rparr>) =
    map_world (\<lambda>s. s\<lparr>qts := c\<rparr>) (handle_all (callback (applyQts D)) us (b, s))"
  by (rule handle_all_natural) (simp add: callback_def applyQts_env split: prod.splits)

text \<open>A run of updates of one kind on the state is the run on its box.\<close>

definition handlePts_update where
  "handlePts_update D u = handlePts D (State u) (Count u) (Value u) (Entities u)"

definition handleQts_update where
  "handleQts_update D u = handleQts D (State u) (Value u) (Entities u)"

lemma each_handlePts:
  assumes "\<forall>u \<in> set us. validatePts (State u) (Count u)"
    and "handle_all (callback (applyPts D)) us (pts s, s) = (Inr (), (b, s'))"
  shows "each (handlePts_update D) us s = (Inr (), s'\<lparr>pts := b\<rparr>)"
  using assms
proof (induction us arbitrary: s s')
  case Nil
  then show ?case by (cases s) (auto simp: ret_def)
next
  case (Cons u us)
  from Cons.prems(2) obtain b1 s1 where
    1: "Handle (callback (applyPts D)) u (pts s, s) = (Inr (), (b1, s1))"
      "handle_all (callback (applyPts D)) us (b1, s1) = (Inr (), (b, s'))"
    by (auto simp: andThen_eq_Inr_iff)
  obtain v st c e where u: "u = \<lparr>Value = v, State = st, Count = c, Entities = e\<rparr>" by (cases u) auto
  then have "handlePts_update D u s = (Inr (), s1\<lparr>pts := b1\<rparr>)"
    using 1(1) Cons.prems(1) by (simp add: handlePts_update_def handlePts_def on_pts_def box_result_def)
  moreover have "handle_all (callback (applyPts D)) us (pts (s1\<lparr>pts := b1\<rparr>), s1\<lparr>pts := b1\<rparr>) = (Inr (), (b, s'\<lparr>pts := b1\<rparr>))"
    using 1(2) by (simp add: handle_all_pts_natural)
  ultimately show ?case using Cons.IH[of "s1\<lparr>pts := b1\<rparr>"] Cons.prems(1) by simp
qed

lemma each_handleQts:
  assumes "\<forall>u \<in> set us. validateQts (State u) \<and> Count u = 1"
    and "handle_all (callback (applyQts D)) us (qts s, s) = (Inr (), (b, s'))"
  shows "each (handleQts_update D) us s = (Inr (), s'\<lparr>qts := b\<rparr>)"
  using assms
proof (induction us arbitrary: s s')
  case Nil
  then show ?case by (cases s) (auto simp: ret_def)
next
  case (Cons u us)
  from Cons.prems(2) obtain b1 s1 where
    1: "Handle (callback (applyQts D)) u (qts s, s) = (Inr (), (b1, s1))"
      "handle_all (callback (applyQts D)) us (b1, s1) = (Inr (), (b, s'))"
    by (auto simp: andThen_eq_Inr_iff)
  obtain v st c e where "u = \<lparr>Value = v, State = st, Count = c, Entities = e\<rparr>" by (cases u) auto
  then have "handleQts_update D u s = (Inr (), s1\<lparr>qts := b1\<rparr>)"
    using 1(1) Cons.prems(1) by (simp add: handleQts_update_def handleQts_def on_qts_def box_result_def)
  moreover have "handle_all (callback (applyQts D)) us (qts (s1\<lparr>qts := b1\<rparr>), s1\<lparr>qts := b1\<rparr>) = (Inr (), (b, s'\<lparr>qts := b1\<rparr>))"
    using 1(2) by (simp add: handle_all_qts_natural)
  ultimately show ?case using Cons.IH[of "s1\<lparr>qts := b1\<rparr>"] Cons.prems(1) by simp
qed

lemma feed_states: "feed p us t \<Longrightarrow> u \<in> set us \<Longrightarrow> 0 < State u \<and> 0 < Count u"
  using chain_mono(2)[of p us t u] by (auto simp: feed_def uend_def)

text \<open>C1: pts updates are delivered exactly once and in order, whatever order the network brings
  them in and however often it repeats them.  When the server has published the contiguous run
  \<open>us\<close> after position \<open>p\<close>, and the account receives all of them in any order with any
  repetitions, its handler is given exactly \<open>us\<close>, in order; the position ends at the end of the
  run, and no gap and no postponed update is left.\<close>

theorem pts_any_order:
  assumes "\<And>w u. ready w \<Longrightarrow> \<exists>w'. handler_Handle D u w = (Inr (), w') \<and> ready w' \<and> log w' = log w @ [u]"
    and "\<And>w q. ready w \<Longrightarrow> \<exists>w'. SetPts (storage D) (selfID D) q w = (Inr (), w') \<and> ready w' \<and> log w' = log w"
    and "\<And>w q. ready w \<Longrightarrow> \<exists>w'. SetQts (storage D) (selfID D) q w = (Inr (), w') \<and> ready w' \<and> log w' = log w"
    and "feed p us t" "set vs = set us" "pts s = newSequenceBox p" "ready (env s)"
  shows "\<exists>s'. each (handlePts_update D) vs s = (Inr (), s') \<and> delivered log s' = delivered log s @ map Value us \<and>
    state (pts s') = t \<and> gaps (pts s') = [] \<and> pending (pts s') = []"
proof -
  have E: "update_env D log ready" by unfold_locales (use assms(1-3) in blast)+
  from update_env.pts_any_order_box[OF E assms(4,5,7)] obtain b s' where
    1: "handle_all (callback (applyPts D)) vs (pts s, s) = (Inr (), (b, s'))" "state b = t" "gaps b = []"
      "pending b = []" "delivered log s' = delivered log s @ map Value us" by (auto simp: assms(6))
  have "\<forall>u \<in> set vs. validatePts (State u) (Count u)"
    using feed_states[OF assms(4)] assms(5) by (fastforce simp: validatePts_def)
  from each_handlePts[OF this 1(1)] 1(2-5) show ?thesis by (simp add: delivered_def)
qed

definition upd :: "int \<Rightarrow> int \<Rightarrow> (nat UpdateClass, entities) update" where
  "upd st n = \<lparr>Value = CommonPts (nat st) st n, State = st, Count = n, Entities = no_entities\<rparr>"

definition world0 :: "int \<Rightarrow> State \<Rightarrow> 'x world" where
  "world0 self st = \<lparr>store = \<lparr>states = [self \<mapsto> st], channels = [self \<mapsto> []], mutex = False\<rparr>,
     known_hashes = newMemAccessHasher, handled = [], script = []\<rparr>"

lemma world0_ready: "mem_ready self (world0 self st)"
  by (simp add: mem_ready_def world0_def mem_ok_def)

definition state0 :: "State" where "state0 = \<lparr>Pts = 10, Qts = 3, Date = 100, Seq = 1\<rparr>"

theorem pts_any_order_witness:
  "\<exists>s'. each (handlePts_update (memDeps 7)) [upd 14 1, upd 11 1, upd 14 1, upd 13 2] (newState state0 [] [] (world0 7 state0)) = (Inr (), s') \<and>
    delivered handled s' = map Value [upd 11 1, upd 13 2, upd 14 1] \<and> state (pts s') = 14"
proof -
  have f: "feed 10 [upd 11 1, upd 13 2, upd 14 1] 14"
    by (simp add: feed_def upd_def ustart_def uend_def)
  let ?s = "newState state0 [] [] (world0 7 state0) :: (nat world, nat) internalState"
  have r: "mem_ready 7 (env ?s)" by (simp add: newState_def world0_ready)
  have p: "pts ?s = newSequenceBox 10" by (simp add: newState_def state0_def)
  have v: "set [upd 14 1, upd 11 1, upd 14 1, upd 13 2] = set [upd 11 1, upd 13 2, upd 14 1]" by auto
  have d: "delivered handled ?s = []" by (simp add: delivered_def newState_def world0_def)
  from pts_any_order[where D = "memDeps 7" and log = handled, OF mem_env.handles mem_env.stores_pts mem_env.stores_qts f v p r]
  show ?thesis unfolding d by auto
qed

section \<open>Failures\<close>

text \<open>A weaker contract, for surroundings that may fail at any time: what the handler has accepted
  is in the log.\<close>

locale handler_env =
  fixes D :: "('w, 'x) deps" and log :: "'w \<Rightarrow> 'x Updates list"
  assumes accepted: "handler_Handle D u w = (Inr x, w') \<Longrightarrow> log w' = log w @ [u]"
    and pts_no_log: "SetPts (storage D) (selfID D) p w = (r, w') \<Longrightarrow> log w' = log w"

sublocale handler_env \<subseteq> failing: box_client "callback (applyPts D)" "delivered log" "\<lambda>_. True"
proof unfold_locales
  show "callback (applyPts D) st us (b, w) = (r, (b', w')) \<Longrightarrow> b' = b" for st us b w r b' w'
    by (auto simp: callback_def split: prod.splits)
  show "callback (applyPts D) st us (b, w) = (Inr x, (b', w')) \<Longrightarrow>
      delivered log w' = delivered log w @ map Value us \<and> True" for st us b w x b' w'
    by (auto simp: callback_def applyPts_def andThen_eq_Inr_iff deliver_def out_def Let_def delivered_def
        dest!: accepted pts_no_log split: prod.splits)
qed

context handler_env
begin

lemma pts_error:
  "Handle (callback (applyPts D)) u (b, s) = (Inl e, (b', s')) \<Longrightarrow> state b' = state b"
  by (rule failing.Handle_error_state)

lemma pts_chain:
  assumes "Handle (callback (applyPts D)) u (b, s) = (Inr x, (b', s'))" "numbered b" "State u \<noteq> 0"
  shows "\<exists>us :: ('x UpdateClass, entities) update list. chain (state b) us (state b') \<and> delivered log s' = delivered log s @ map Value us"
  using failing.Handle_chain[OF assms(1) TrueI assms(2,3)] by blast

end

interpretation mem_handler: handler_env "memDeps self" handled for self :: int
  by unfold_locales (auto simp: memDeps_def at_store_def split: prod.splits)

text \<open>C24: the pts position never runs ahead of the handler.  Whatever the handler and the storage
  do, a call of \<open>handlePts\<close> with a numbered update either fails and leaves the position where it
  was, or succeeds having given the handler, in order, a contiguous run of updates that leads
  exactly from the old position to the new one.\<close>

theorem pts_never_ahead:
  assumes "\<And>w (u :: 'x Updates) x w'. handler_Handle D u w = (Inr x, w') \<Longrightarrow> log w' = log w @ [u]"
    and "\<And>w q r w'. SetPts (storage D) (selfID D) q w = (r, w') \<Longrightarrow> log w' = log w"
    and "handlePts D p c u ents s = (r, s')" "p \<noteq> 0" "numbered (pts s)"
  shows "case r of
      Inl _ \<Rightarrow> state (pts s') = state (pts s)
    | Inr _ \<Rightarrow> (\<exists>us :: ('x UpdateClass, entities) update list. chain (state (pts s)) us (state (pts s')) \<and> delivered log s' = delivered log s @ map Value us)"
proof -
  have E: "handler_env D log" by unfold_locales (use assms(1,2) in blast)+
  show ?thesis
  proof (cases "validatePts p c")
    case False
    then show ?thesis using assms(3) by (auto simp: handlePts_def ret_def intro: exI[of _ "[]"])
  next
    case True
    let ?u = "\<lparr>Value = u, State = p, Count = c, Entities = ents\<rparr>"
    obtain r1 b1 s1 where h: "Handle (callback (applyPts D)) ?u (pts s, s) = (r1, (b1, s1))"
      by (cases "Handle (callback (applyPts D)) ?u (pts s, s)") auto
    have res: "r = box_result r1" "s' = s1\<lparr>pts := b1\<rparr>" using assms(3) True h by (auto simp: handlePts_def on_pts_def)
    show ?thesis
    proof (cases r1)
      case (Inl e)
      then show ?thesis using handler_env.pts_error[OF E] h res
        by (cases e) (auto simp: box_result_def)
    next
      case (Inr x)
      then show ?thesis using handler_env.pts_chain[OF E, of ?u "pts s" s x b1 s1] h res assms(4,5)
        by (auto simp: box_result_def delivered_def)
    qed
  qed
qed

theorem pts_never_ahead_witness:
  "case handlePts (memDeps 7) 11 1 (OtherUpdate (5 :: nat)) no_entities (newState state0 [] [] (world0 7 state0)) of
     (r, s') \<Rightarrow> r = Inr () \<and> (\<exists>us :: (nat UpdateClass, entities) update list. chain 10 us 11 \<and> delivered handled s' = map Value us)"
proof -
  let ?s = "newState state0 [] [] (world0 7 state0) :: (nat world, nat) internalState"
  obtain r s' where h: "handlePts (memDeps 7) 11 1 (OtherUpdate (5 :: nat)) no_entities ?s = (r, s')"
    by (cases "handlePts (memDeps 7) 11 1 (OtherUpdate (5 :: nat)) no_entities ?s") auto
  have p: "pts ?s = newSequenceBox 10" by (simp add: newState_def state0_def)
  have n: "numbered (pts ?s)" by (simp add: p numbered_def newSequenceBox_def)
  have "r = Inr () \<and> state (pts s') = 11"
    using h by (auto simp: handlePts_def validatePts_def on_pts_def p newSequenceBox_def Handle_def checkGap_def
        Has_def callback_def applyPts_def deliver_def out_def Let_def memDeps_def andThen_def at_store_def mem_SetPts_def
        withLock_def newState_def world0_def state0_def box_result_def setState_def trimStale_def)
  moreover have "delivered handled ?s = []" by (simp add: delivered_def newState_def world0_def)
  ultimately show ?thesis
    using pts_never_ahead[where D = "memDeps 7" and log = handled, OF mem_handler.accepted mem_handler.pts_no_log h _ n] h p by (simp add: newSequenceBox_def)
qed

lemma SetState_fields [simp]: "state (SetState q b) = q" "gaps (SetState q b) = gaps b" "armed (SetState q b) = armed b"
  by (simp_all add: SetState_def setState_def trimStale_def)

lemma clear_gaps_env [simp]: "env (clear_gaps s) = env s" "gaps (pts (clear_gaps s)) = []" "gaps (qts (clear_gaps s)) = []"
  "gaps (seq (clear_gaps s)) = []"
  by (simp_all add: clear_gaps_def Clear_def)

section \<open>No gap without a timer\<close>

definition keeps :: "('s \<Rightarrow> bool) \<Rightarrow> ('s, 'e, 'a) prog \<Rightarrow> bool" where
  "keeps P m \<longleftrightarrow> (\<forall>s. P s \<longrightarrow> P (snd (m s)))"

named_theorems keeps_intros \<open>rules for invariants of programs\<close>

lemma keeps_ret [keeps_intros]: "keeps P (ret a)"
  by (simp add: keeps_def ret_def)

lemma keeps_fail [keeps_intros]: "keeps P (fail e)"
  by (simp add: keeps_def fail_def)

lemma keeps_andThen [keeps_intros]: "keeps P m \<Longrightarrow> (\<And>a. keeps P (f a)) \<Longrightarrow> keeps P (andThen m f)"
  by (fastforce simp: keeps_def andThen_def split: prod.splits sum.splits)

lemma keeps_each [keeps_intros]: "(\<And>x. keeps P (f x)) \<Longrightarrow> keeps P (each f xs)"
  by (induction xs) (auto intro: keeps_intros)

lemma keeps_logged [keeps_intros]: "keeps P m \<Longrightarrow> keeps P (logged m)"
  by (fastforce simp: keeps_def logged_def split: prod.splits)

lemma keeps_modify [keeps_intros]: "(\<And>s. P s \<Longrightarrow> P (f s)) \<Longrightarrow> keeps P (modify f)"
  by (simp add: keeps_def modify_def)

lemma keeps_if [keeps_intros]: "(b \<Longrightarrow> keeps P m) \<Longrightarrow> (\<not> b \<Longrightarrow> keeps P m') \<Longrightarrow> keeps P (if b then m else m')"
  by simp

lemma keeps_fun: "(\<And>s. P s \<Longrightarrow> P (snd (m s))) \<Longrightarrow> keeps P m"
  by (simp add: keeps_def)

lemma keepsD: "keeps P m \<Longrightarrow> P s \<Longrightarrow> m s = (r, s') \<Longrightarrow> P s'"
  by (fastforce simp: keeps_def)

text \<open>The pts and qts boxes are timed, and the seq box is as \<open>C\<close> says.\<close>

definition timers :: "(('x UpdatesCombined, entities) sbox \<Rightarrow> bool) \<Rightarrow> ('w, 'x) internalState \<Rightarrow> bool" where
  "timers C s \<longleftrightarrow> timed (pts s) \<and> timed (qts s) \<and> C (seq s)"

text \<open>Predicates on the seq box that survive what is done to it outside of its own \<open>Handle\<close>.\<close>

definition stable :: "(('x UpdatesCombined, entities) sbox \<Rightarrow> bool) \<Rightarrow> bool" where
  "stable C \<longleftrightarrow> (\<forall>b q. C b \<longrightarrow> C (SetState q b) \<and> C (b\<lparr>gaps := []\<rparr>))"

definition gapless :: "('v, 'e) sbox \<Rightarrow> bool" where
  "gapless b \<longleftrightarrow> gaps b = []"

lemma stable_timed: "stable timed" "stable gapless"
  by (simp_all add: stable_def timed_def gapless_def)

lemma timers_cong:
  "pts s' = pts s \<Longrightarrow> qts s' = qts s \<Longrightarrow> seq s' = seq s \<Longrightarrow> timers C s' = timers C s"
  by (simp add: timers_def)

lemma keeps_out [keeps_intros]: "keeps (timers C) (out m)"
  by (rule keeps_fun) (simp add: out_def timers_def split: prod.splits)

lemma keeps_save [keeps_intros]:
  "keeps (timers C) (saveChannelHashes D cs)" "keeps (timers C) (saveUserHashes D us)"
proof -
  have "keeps (timers C) (saveChannelHash D c)" for c
  proof (rule keeps_fun)
    fix s :: "('a, 'b) internalState" assume "timers C s"
    then show "timers C (snd (saveChannelHash D c s))"
      by (cases c) (auto simp: saveChannelHash_def logged_def out_def timers_def Let_def split: prod.splits option.splits sum.splits)
  qed
  then show "keeps (timers C) (saveChannelHashes D cs)" unfolding saveChannelHashes_def by (rule keeps_each)
  have "keeps (timers C) (saveUserHash D u)" for u
    by (cases u) (auto simp: saveUserHash_def intro!: keeps_intros split: option.splits)
  then show "keeps (timers C) (saveUserHashes D us)" unfolding saveUserHashes_def by (rule keeps_each)
qed

lemma keeps_retry [keeps_intros]: "keeps (timers C) (getDifferenceWithRetry n D d)"
proof (induction n)
  case 0
  then show ?case by (simp add: getDifferenceWithRetry.simps keeps_fail)
next
  case (Suc n)
  show ?case
  proof (rule keeps_fun)
    fix s :: "('a, 'b) internalState" assume s: "timers C s"
    obtain r s1 where o: "out (UpdatesGetDifference D (state (pts s)) (state (qts s)) d) s = (r, s1)" by fastforce
    then have s1: "timers C s1" using keepsD[OF keeps_out s] by blast
    have "keeps (timers C) (andThen (out (sleep D (retry_delay err))) (\<lambda>_. getDifferenceWithRetry n D d))" for err
      by (intro keeps_intros Suc)
    then show "timers C (snd (getDifferenceWithRetry (Suc n) D d s))"
      using o s1 by (cases r) (auto simp: getDifferenceWithRetry.simps keeps_def)
  qed
qed

lemma keeps_retry_date [keeps_intros]: "keeps (timers C) (\<lambda>s. getDifferenceWithRetry n D (date s) s)"
  using keeps_retry by (fastforce simp: keeps_def)

lemma keeps_handleDifference [keeps_intros]: "keeps (timers C) (handleDifference n D d)"
  by (auto simp: handleDifference_def Let_def split_beta intro!: keeps_intros)

lemma keeps_restore [keeps_intros]: "keeps (timers C) (restoreChannelAccessHash n D cid d)"
proof (rule keeps_fun)
  fix s :: "('a, 'b) internalState" assume s: "timers C s"
  obtain r s1 where h: "handleDifference n D d s = (r, s1)" by fastforce
  then have "timers C s1" using keepsD[OF keeps_handleDifference s] by blast
  then show "timers C (snd (restoreChannelAccessHash n D cid d s))"
    using h by (auto simp: restoreChannelAccessHash_def split: sum.splits prod.splits)
qed

lemma applyPts_boxes:
  "applyPts D st us s = (r, s') \<Longrightarrow> pts s' = pts s \<and> qts s' = qts s \<and> seq s' = seq s"
  "applyQts D st us s = (r, s') \<Longrightarrow> pts s' = pts s \<and> qts s' = qts s \<and> seq s' = seq s"
  by (auto simp: applyPts_def applyQts_def deliver_def out_def ret_def Let_def andThen_def split: prod.splits sum.splits if_splits)

lemma keeps_handlePts [keeps_intros]: "keeps (timers C) (handlePts D p c u ents)"
proof (rule keeps_fun)
  fix s :: "('a, 'b) internalState" assume s: "timers C s"
  let ?u = "\<lparr>Value = u, State = p, Count = c, Entities = ents\<rparr>" and ?W = "\<lambda>s. timed (qts s) \<and> C (seq s)"
  obtain r b' s' where h: "Handle (callback (applyPts D)) ?u (pts s, s) = (r, (b', s'))"
    by (cases "Handle (callback (applyPts D)) ?u (pts s, s)") auto
  have ap: "gaps b' = [] \<and> ?W w'" if "callback (applyPts D) st us (b, w) = (r, (b', w'))" "gaps b = []" "?W w"
    for st us b w r b' w'
    using that by (auto simp: callback_def split: prod.splits dest!: applyPts_boxes)
  have "timed b' \<and> ?W s'"
    using Handle_timed[of "callback (applyPts D)" ?W, OF ap h] s by (simp add: timers_def)
  then show "timers C (snd (handlePts D p c u ents s))"
    using s h by (auto simp: handlePts_def ret_def on_pts_def timers_def)
qed

lemma keeps_handleQts [keeps_intros]: "keeps (timers C) (handleQts D q u ents)"
proof (rule keeps_fun)
  fix s :: "('a, 'b) internalState" assume s: "timers C s"
  let ?u = "\<lparr>Value = u, State = q, Count = 1, Entities = ents\<rparr>" and ?W = "\<lambda>s. timed (pts s) \<and> C (seq s)"
  obtain r b' s' where h: "Handle (callback (applyQts D)) ?u (qts s, s) = (r, (b', s'))"
    by (cases "Handle (callback (applyQts D)) ?u (qts s, s)") auto
  have ap: "gaps b' = [] \<and> ?W w'" if "callback (applyQts D) st us (b, w) = (r, (b', w'))" "gaps b = []" "?W w"
    for st us b w r b' w'
    using that by (auto simp: callback_def split: prod.splits dest!: applyPts_boxes)
  have "timed b' \<and> ?W s'"
    using Handle_timed[of "callback (applyQts D)" ?W, OF ap h] s by (simp add: timers_def)
  then show "timers C (snd (handleQts D q u ents s))"
    using s h by (auto simp: handleQts_def ret_def on_qts_def timers_def)
qed

lemma keeps_push [keeps_intros]: "keeps (timers C) (pushChannel cid cu)"
  by (rule keeps_fun) (simp add: pushChannel_def timers_def split: option.splits)

lemma keeps_openChannel [keeps_intros]: "keeps (timers C) (openChannel n D cid d p c)"
proof (rule keeps_fun)
  fix s :: "('a, 'b) internalState" assume s: "timers C s"
  obtain r1 s1 where 1: "out (GetChannelAccessHash (hasher D) (selfID D) cid) s = (r1, s1)" by fastforce
  have s1: "timers C s1" using keepsD[OF keeps_out s 1] .
  have fin: "timers C (snd (let (found, s) = (case out (GetChannelPts (storage D) (selfID D) cid) s2 of
                 (Inl _, s') \<Rightarrow> (None, s') | (Inr l, s') \<Rightarrow> (if l = Some (-1) then None else l, s'));
               (localPts, s) = (case found of
                 Some l \<Rightarrow> (l, s)
               | None \<Rightarrow> (p - c, snd (out (SetChannelPts (storage D) (selfID D) cid (p - c)) s)))
           in (Inr True :: uerr + bool, createAndRunChannelState cid hash localPts s)))" if "timers C s2" for s2 hash
    using that by (auto simp: out_def createAndRunChannelState_def timers_def Let_def split: prod.splits sum.splits option.splits)
  obtain r2 s2 where 2: "restoreChannelAccessHash n D cid (if d = 0 then date s1 - 30 else d - 1) s1 = (r2, s2)" by fastforce
  have s2: "timers C s2" using keepsD[OF keeps_restore s1 2] .
  show "timers C (snd (openChannel n D cid d p c s))"
    using 1 2 s1 s2 fin[OF s1] fin[OF s2]
    by (auto simp: openChannel_def simp del: split_paired_All split: sum.split option.split)
qed

lemma keeps_handleChannel [keeps_intros]: "keeps (timers C) (handleChannel n D cid d p c cu)"
proof (rule keeps_fun)
  fix s :: "('a, 'b) internalState" assume s: "timers C s"
  have t: "timers C (s\<lparr>recentlyLeftChannels := l\<rparr>)" for l using s by (simp add: timers_def)
  have "keeps (timers C) (andThen (openChannel n D cid d p c) (\<lambda>opened. if opened then pushChannel cid cu else ret ()))"
    by (intro keeps_intros)
  then show "timers C (snd (handleChannel n D cid d p c cu s))"
    using s t keeps_push[of C cid cu] by (auto simp: handleChannel_def Let_def keeps_def)
qed

lemma keeps_combined_loop [keeps_intros]: "keeps (timers C) (combined_loop n D d ents us nonch ch)"
proof (induction us arbitrary: nonch ch)
  case (Cons u us)
  then show ?case
    by (cases u) (auto intro!: keeps_intros split: option.splits)
qed (simp add: keeps_ret)

lemma stableD: "stable C \<Longrightarrow> timers C s \<Longrightarrow> timers C (seq_SetState q s)"
  "stable C \<Longrightarrow> timers C s \<Longrightarrow> timers C (s\<lparr>seq := SetState q (seq s), date := d\<rparr>)"
  by (simp_all add: stable_def timers_def seq_SetState_def)

lemma timers_date [simp]: "timers C (s\<lparr>date := d\<rparr>) = timers C s"
  by (simp add: timers_def)

lemma keeps_recordDateSeq [keeps_intros]:
  assumes "stable C"
  shows "keeps (timers C) (recordDateSeq D comb)"
proof -
  have "keeps (timers C) (andThen (out m) (\<lambda>_. modify f))" if "\<And>s. timers C s \<Longrightarrow> timers C (f s)" for m f
    using that by (intro keeps_intros)
  note k = this[unfolded keeps_def, rule_format]
  show ?thesis
    by (rule keeps_fun) (auto simp: recordDateSeq_def Let_def ret_def intro!: k stableD[OF assms])
qed

lemma keeps_applyCombined [keeps_intros]: "stable C \<Longrightarrow> keeps (timers C) (applyCombined n D comb)"
  by (auto simp: applyCombined_def Let_def split_beta intro!: keeps_intros)

lemma keeps_apply_batch [keeps_intros]: "stable C \<Longrightarrow> keeps (timers C) (apply_batch n D us)"
  by (induction us) (auto intro!: keeps_intros)

lemma keeps_setRemoteState [keeps_intros]: "stable C \<Longrightarrow> keeps (timers C) (setRemoteState D st)"
  unfolding setRemoteState_def
  by (intro keeps_andThen keeps_logged keeps_out) (auto simp: keeps_def timers_def timed_def stable_def)

lemma keeps_deliverMessages [keeps_intros]: "keeps (timers C) (deliverMessages D b)"
  by (auto simp: deliverMessages_def intro!: keeps_intros)

lemma keeps_clear_gaps [keeps_intros]: "stable C \<Longrightarrow> keeps (timers C) (modify clear_gaps)"
  by (rule keeps_modify) (auto simp: clear_gaps_def Clear_def timers_def timed_def stable_def)

lemma keeps_pts_SetState [keeps_intros]: "keeps (timers C) (modify (\<lambda>s. s\<lparr>pts := SetState p (pts s)\<rparr>))"
  by (rule keeps_modify) (simp add: timers_def timed_def)

lemma keeps_seq_set [keeps_intros]: "stable C \<Longrightarrow> keeps (timers C) (\<lambda>s. (Inr (), seq_SetState q (s\<lparr>date := d\<rparr>)))"
  using stableD(1)[of C "s\<lparr>date := d\<rparr>" q for s] by (auto simp: keeps_def)

lemma keeps_getDifference_step:
  assumes C: "stable C" and u: "\<And>c. CSeq c = 0 \<Longrightarrow> keeps (timers C) (handleUpdates D n (TgUpdatesCombined c))"
    and g: "keeps (timers C) (getDifference D n)"
  shows "keeps (timers C) (getDifference D (Suc n))"
proof -
  show ?thesis unfolding getDifference.simps
  proof (intro keeps_andThen keeps_clear_gaps keeps_retry_date C)
    fix diff
    show "keeps (timers C) (case diff of
       UpdatesDifference b st \<Rightarrow>
         andThen (if OtherUpdates b \<noteq> [] then handleUpdates D n (TgUpdatesCombined (combined_of b 0)) else ret ()) (\<lambda>_.
         andThen (deliverMessages D b) (\<lambda>_. setRemoteState D st))
     | UpdatesDifferenceEmpty d q \<Rightarrow>
         andThen (logged (out (SetDateSeq (storage D) (selfID D) d q)))
           (\<lambda>_ s. (Inr (), seq_SetState q (s\<lparr>date := d\<rparr>)))
     | UpdatesDifferenceSlice b st \<Rightarrow>
         andThen (if OtherUpdates b \<noteq> [] then handleUpdates D n (TgUpdatesCombined (combined_of b (rDate st))) else ret ()) (\<lambda>_.
         andThen (deliverMessages D b) (\<lambda>_.
         andThen (setRemoteState D st) (\<lambda>_. getDifference D n)))
     | UpdatesDifferenceTooLong p \<Rightarrow>
         andThen (logged (out (SetPts (storage D) (selfID D) p))) (\<lambda>_.
         andThen (modify (\<lambda>s. s\<lparr>pts := SetState p (pts s)\<rparr>)) (\<lambda>_. getDifference D n)))"
      using C g by (cases diff) (auto intro!: keeps_intros u simp: combined_of_def)
  qed
qed

lemma keeps_handleSeq_zero:
  assumes "stable C" "CSeq u = 0" "\<And>m. n = Suc m \<Longrightarrow> keeps (timers C) (getDifference D m)"
  shows "keeps (timers C) (handleSeq D n u)"
  using assms by (cases n) (auto simp: handleSeq.simps intro!: keeps_intros)

lemma keeps_getDifference [keeps_intros]:
  assumes "stable C"
  shows "keeps (timers C) (getDifference D n)"
proof (induction n rule: less_induct)
  case (less n)
  show ?case
  proof (cases n)
    case (Suc m)
    have u: "keeps (timers C) (handleUpdates D m (TgUpdatesCombined c))" if "CSeq c = 0" for c
    proof (cases m)
      case m: (Suc k)
      have "keeps (timers C) (handleSeq D k c)"
        by (rule keeps_handleSeq_zero[OF assms that]) (use less.IH Suc m in simp)
      then show ?thesis using m by (auto simp: handleUpdates.simps intro!: keeps_intros)
    qed (simp add: handleUpdates.simps keeps_fail)
    show ?thesis unfolding Suc
      by (rule keeps_getDifference_step[OF assms u]) (use less.IH Suc in simp_all)
  qed (simp add: getDifference.simps keeps_fail)
qed

lemma keeps_applySeq: "stable C \<Longrightarrow> keeps (timers C) (applySeq D n st us)"
  by (cases n) (auto simp: applySeq.simps intro!: keeps_intros)

lemma keeps_handleSeq [keeps_intros]: "keeps (timers timed) (handleSeq D n u)"
proof (cases n)
  case (Suc m)
  let ?u = "\<lparr>Value = u, State = CSeq u, Count = CSeq u - CSeqStart u + 1, Entities = no_entities\<rparr>"
  let ?W = "\<lambda>s :: ('a, 'b) internalState. timed (pts s) \<and> timed (qts s)"
  have ap: "gaps b' = [] \<and> ?W s'" if "seq_callback (applySeq D m) st us (b, s) = (r, (b', s'))" "gaps b = []" "?W s"
    for st us b s r b' s'
    using keepsD[OF keeps_applySeq[OF stable_timed(2)], of "s\<lparr>seq := b\<rparr>" D m st us r s'] that
    by (auto simp: seq_callback_def timers_def gapless_def split: prod.splits)
  have box: "keeps (timers timed) (on_seq (Handle (seq_callback (applySeq D m)) ?u))"
  proof (rule keeps_fun)
    fix s :: "('a, 'b) internalState" assume s: "timers timed s"
    obtain r b' s' where h: "Handle (seq_callback (applySeq D m)) ?u (seq s, s) = (r, (b', s'))"
      by (cases "Handle (seq_callback (applySeq D m)) ?u (seq s, s)") auto
    have "timed b' \<and> ?W s'"
      using Handle_timed[of "seq_callback (applySeq D m)" ?W, OF ap h] s by (simp add: timers_def)
    then show "timers timed (snd (on_seq (Handle (seq_callback (applySeq D m)) ?u) s))"
      using h by (simp add: on_seq_def timers_def)
  qed
  show ?thesis unfolding Suc handleSeq.simps
    by (intro keeps_if keeps_ret keeps_andThen keeps_applyCombined keeps_getDifference stable_timed box)
qed (simp add: handleSeq.simps keeps_fail)

lemma keeps_handleUpdates [keeps_intros]: "keeps (timers timed) (handleUpdates D n u)"
proof (induction n arbitrary: u)
  case (Suc n)
  then show ?case
    by (cases u) (auto simp: handleUpdates.simps Let_def split_beta intro!: keeps_intros stable_timed)
qed (simp add: handleUpdates.simps keeps_fail)

lemma clear_gaps_timed: "timers timed (clear_gaps s)"
  by (simp add: clear_gaps_def Clear_def timers_def timed_def)

lemma clear_gaps_idem: "clear_gaps (clear_gaps s) = clear_gaps s"
  by (simp add: clear_gaps_def Clear_def)

lemma getDifference_clear: "getDifference D (Suc n) s = getDifference D (Suc n) (clear_gaps s)"
  by (simp add: getDifference.simps andThen_def modify_def clear_gaps_idem)

text \<open>Whatever it starts from, \<open>getDifference\<close> ends with every box timed.\<close>

lemma logger_timed: "timers timed (snd (getDifferenceLogger D (Suc n) s))"
proof -
  obtain r s' where g: "getDifference D (Suc n) s = (r, s')" by fastforce
  then have "getDifference D (Suc n) (clear_gaps s) = (r, s')" using getDifference_clear[of D n s] by simp
  then have "timers timed s'" by (rule keepsD[OF keeps_getDifference[OF stable_timed(1)] clear_gaps_timed])
  then show ?thesis using g by (auto simp: getDifferenceLogger_def split: sum.split)
qed

lemma keeps_run_event: "keeps (timers timed) (run_event D (Suc n) ev)"
proof (cases ev)
  case PtsTimeout
  then show ?thesis by (simp add: run_event_def keeps_def andThen_def modify_def logger_timed)
next
  case QtsTimeout
  then show ?thesis by (simp add: run_event_def keeps_def andThen_def modify_def logger_timed)
next
  case SeqTimeout
  then show ?thesis by (simp add: run_event_def keeps_def andThen_def modify_def logger_timed)
next
  case IdleTimeout
  then show ?thesis by (simp add: run_event_def keeps_def logger_timed)
qed (simp_all add: run_event_def keeps_handleUpdates)

text \<open>C5: a running account never waits forever for a missing update.  Started from any stored
  state, after any sequence of events the loop of \<open>Run\<close> handles (updates from outside or from
  the channels, and timers, with whatever the handler, the storage and the server do), every box
  that has a gap has its timer running: the pts, the qts and the seq box.\<close>

theorem gaps_are_timed:
  "timers timed (snd (Run D (Suc n) evs (newState st chs left w)))"
proof -
  obtain r s where l: "getDifferenceLogger D (Suc n) (newState st chs left w) = (r, s)" by fastforce
  then have "timers timed s" using logger_timed[of D n "newState st chs left w"] by simp
  moreover have "keeps (timers timed) (each (run_event D (Suc n)) evs)"
    by (rule keeps_each) (rule keeps_run_event)
  ultimately show ?thesis using l by (cases r) (simp_all add: Run_def andThen_def keeps_def)
qed

section \<open>Further properties\<close>

lemma sort_single: "sortUpdatesByPts [u] = [u]"
  by (simp add: sortUpdatesByPts_def sort_Stable_def)

context update_env
begin

lemma handlePts_in_order:
  assumes "ready (env s)" "validatePts p c" "p \<noteq> 0" "state (pts s) = p - c" "gaps (pts s) = []" "pending (pts s) = []"
  shows "\<exists>w. handlePts D p c u ents s = (Inr (), s\<lparr>env := w, pts := (pts s)\<lparr>state := p\<rparr>\<rparr>) \<and> ready w \<and>
    concat (map Upds (log w)) = delivered log s @ [u]"
proof -
  let ?u = "\<lparr>Value = u, State = p, Count = c, Entities = ents\<rparr>"
  obtain w where a: "applyPts D p [?u] s = (Inr (), s\<lparr>env := w\<rparr>)" "ready w"
    "concat (map Upds (log w)) = delivered log s @ map Value [?u]"
    using applyPts_ok[OF assms(1)] by blast
  have "Handle (callback (applyPts D)) ?u (pts s, s) = (Inr (), (setState p (pts s), s\<lparr>env := w\<rparr>))"
    using assms a(1) by (simp add: Handle_def checkGap_def Has_def callback_def)
  moreover have "setState p (pts s) = (pts s)\<lparr>state := p\<rparr>"
    using assms(6) by (cases "pts s") (simp add: setState_def trimStale_def)
  ultimately show ?thesis using assms(2) a
    by (intro exI[of _ w]) (simp add: handlePts_def on_pts_def box_result_def)
qed

lemma short_update_twice:
  assumes "IsPtsUpdate u = Some (p, c)" "ready (env s)" "validatePts p c" "p \<noteq> 0" "state (pts s) = p - c"
    and "gaps (pts s) = []" "pending (pts s) = []" "d \<le> date s"
  shows "\<exists>s'. handleUpdates D (Suc (Suc (Suc n))) (UpdateShort u d) s = (Inr (), s') \<and> state (pts s') = p \<and>
    delivered log s' = delivered log s @ [u, u]"
proof -
  obtain w where 1: "handlePts D p c u \<lparr>Users = [], Chats = []\<rparr> s =
      (Inr (), s\<lparr>env := w, pts := (pts s)\<lparr>state := p\<rparr>\<rparr>)" "ready w"
    "concat (map Upds (log w)) = delivered log s @ [u]"
    using handlePts_in_order[OF assms(2-7)] by blast
  obtain w' where 2: "handler_Handle D \<lparr>Upds = [u], UUsers = [], UChats = []\<rparr> w = (Inr (), w')"
    "log w' = log w @ [\<lparr>Upds = [u], UUsers = [], UChats = []\<rparr>]" using handles[OF 1(2)] by blast
  have loop: "combined_loop n D d \<lparr>Users = [], Chats = []\<rparr> [u] [] False s =
      (Inr ([u], False), s\<lparr>env := w, pts := (pts s)\<lparr>state := p\<rparr>\<rparr>)"
    using assms(1) 1(1) by (cases u) (simp_all add: andThen_def ret_def)
  show ?thesis using 1(3) 2 loop assms(8)
    by (simp add: handleUpdates.simps saveUserHashes_def saveChannelHashes_def handleSeq.simps validateSeq_def
        applyCombined_def sort_single Let_def andThen_def ret_def out_def recordDateSeq_def delivered_def)
qed

end

text \<open>C40: an account update that arrives in order is delivered twice.  \<open>applyCombined\<close> hands an
  update with a pts to its box, which gives it to the handler, and then gives it to the handler
  again with the updates that have no position.\<close>

theorem in_order_update_delivered_twice:
  assumes "IsPtsUpdate u = Some (p, c)" "mem_ready self (env s)" "0 < p" "0 \<le> c" "state (pts s) = p - c"
    and "gaps (pts s) = []" "pending (pts s) = []" "d \<le> date s"
  shows "\<exists>s'. handleUpdates (memDeps self) (Suc (Suc (Suc n))) (UpdateShort u d) s = (Inr (), s') \<and>
    state (pts s') = p \<and> delivered handled s' = delivered handled s @ [u, u]"
  by (rule mem_env.short_update_twice) (use assms in \<open>simp_all add: validatePts_def\<close>)

theorem in_order_update_delivered_twice_witness:
  "\<exists>s'. handleUpdates (memDeps 7) 3 (UpdateShort (CommonPts (8 :: nat) 11 1) 0) (newState state0 [] [] (world0 7 state0)) = (Inr (), s') \<and>
    delivered handled s' = [CommonPts 8 11 1, CommonPts 8 11 1]"
proof -
  let ?s = "newState state0 [] [] (world0 7 state0) :: (nat world, nat) internalState"
  have d: "delivered handled ?s = []" by (simp add: delivered_def newState_def world0_def)
  have s: "state (pts ?s) = 11 - 1" "gaps (pts ?s) = []" "pending (pts ?s) = []" "0 \<le> date ?s" "mem_ready 7 (env ?s)"
    by (simp_all add: newState_def newSequenceBox_def state0_def world0_ready[unfolded state0_def])
  have "IsPtsUpdate (CommonPts (8 :: nat) 11 1) = Some (11, 1)" by simp
  from in_order_update_delivered_twice[OF this s(5) _ _ s(1-4), of 0] show ?thesis
    unfolding d numeral_3_eq_3 by auto
qed

text \<open>a qts update numbered 0, which the server sends for updates outside the sequence, throws
  the local qts position back to 0 although the stored position is kept: after it the next
  regular update looks like a gap of the whole sequence.\<close>

theorem zero_qts_rewinds_position:
  assumes "mem_ready self (env s)" "gaps (qts s) = []" "pending (qts s) = []"
  shows "\<exists>s'. handleQts (memDeps self) 0 u ents s = (Inr (), s') \<and> state (qts s') = 0 \<and>
    store (env s') = store (env s) \<and> delivered handled s' = delivered handled s @ [u] \<and>
    (\<forall>q > 1. checkGap (state (qts s')) q 1 = gapRefetch)"
proof -
  let ?u = "\<lparr>Value = u, State = 0, Count = 1, Entities = ents\<rparr>"
  have "applyQts (memDeps self) 0 [?u] s = (Inr (), s\<lparr>env := (env s)\<lparr>handled := handled (env s) @
      [\<lparr>Upds = [u], UUsers = Users (merge_all [ents]), UChats = Chats (merge_all [ents])\<rparr>]\<rparr>\<rparr>)"
    by (simp add: applyQts_def deliver_def out_def memDeps_def andThen_def ret_def Let_def)
  then show ?thesis
    using assms by (simp add: handleQts_def validateQts_def on_qts_def Handle_def checkGap_def Has_def callback_def
        box_result_def delivered_def setState_def trimStale_def)
qed

theorem zero_qts_rewinds_position_witness:
  "\<exists>s'. handleQts (memDeps 7) 0 (CommonQts (1 :: nat) 0) no_entities (newState state0 [] [] (world0 7 state0)) = (Inr (), s') \<and>
    state (qts s') = 0 \<and> states (store (env s')) 7 = Some state0 \<and> checkGap (state (qts s')) 4 1 = gapRefetch"
proof -
  let ?s = "newState state0 [] [] (world0 7 state0) :: (nat world, nat) internalState"
  have s: "mem_ready 7 (env ?s)" "gaps (qts ?s) = []" "pending (qts ?s) = []"
    by (simp_all add: newState_def newSequenceBox_def world0_ready)
  have "states (store (env ?s)) 7 = Some state0" by (simp add: newState_def world0_def)
  then show ?thesis using zero_qts_rewinds_position[OF s, of "CommonQts (1 :: nat) 0" no_entities] by auto
qed

text \<open>once the account has left a channel, updates for it are ignored.  After an update whose
  entities say so (or after \<open>RemoveChannel\<close>), no update without a fresh entity for the channel
  changes anything: no channel state is opened and nothing is queued, until an update says that
  the account is a member again.\<close>

theorem left_channel_ignored:
  assumes "membership_of cid (Chats (chEntities gone)) = Gone" "validatePts p c"
    and "membership_of cid (Chats (chEntities cu)) = Unknown"
  shows "\<exists>s'. handleChannel n D cid d p c gone s = (Inr (), s') \<and> chans s' = chans s \<and> env s' = env s \<and>
    handleChannel m D cid e q k cu s' = (Inr (), s') \<and>
    handleChannel m D cid e q k cu (RemoveChannel cid s) = (Inr (), RemoveChannel cid s)"
  using assms by (auto simp: handleChannel_def Let_def RemoveChannel_def split: option.splits)

theorem left_channel_ignored_witness:
  "\<exists>s'. handleChannel 1 (memDeps 7) 55 0 20 1
      \<lparr>chUpdate = ChannelPts (0 :: nat) 55 20 1, chEntities = \<lparr>Users = [], Chats = [OtherChat 3, Channel 55 None False True]\<rparr>\<rparr>
      (newState state0 [] [] (world0 7 state0)) = (Inr (), s') \<and>
    handleChannel 1 (memDeps 7) 55 0 21 1 \<lparr>chUpdate = ChannelPts 0 55 21 1, chEntities = no_entities\<rparr> s' = (Inr (), s')"
proof -
  let ?gone = "\<lparr>chUpdate = ChannelPts (0 :: nat) 55 20 1, chEntities = \<lparr>Users = [], Chats = [OtherChat 3, Channel 55 None False True]\<rparr>\<rparr>"
  let ?cu = "\<lparr>chUpdate = ChannelPts (0 :: nat) 55 21 1, chEntities = no_entities\<rparr>"
  have "membership_of 55 (Chats (chEntities ?gone)) = Gone" "validatePts 20 1"
    "membership_of 55 (Chats (chEntities ?cu)) = Unknown"
    by (simp_all add: validatePts_def no_entities_def)
  from left_channel_ignored[OF this] show ?thesis by blast
qed

end
