(* ===== verification/UpdChannel.thy ===== *)
theory UpdChannel
  imports UpdState
begin

text \<open>
  The update state of one channel, \<open>pkg/gotd/telegram/updates/state_channel.go\<close>: a goroutine with
  its own pts box, fed through a queue by \<open>internalState\<close>, that fetches channel differences and
  sends what does not belong to the channel back.  \<open>runQueue\<close> is the queue, \<open>sent\<close> what has been
  pushed to the account's internal queue.  Logging, tracing and the idle timer are left out.
\<close>

section \<open>The state and its surroundings\<close>

record ('w, 'x) channelState =
  chanPts :: "('x UpdateClass, entities) sbox"
  runQueue :: "'x channelUpdate list"
  sent :: "'x UpdatesClass list"
  diffTimeout :: int
  stopped :: bool
  world :: 'w

datatype 'x ChannelDifferenceClass =
    ChannelDifference "'x diff_body" int "int option" bool
  | ChannelDifferenceEmpty int "int option"
  | ChannelDifferenceTooLong DialogClass "int option"

text \<open>Beside the operations of the account: the RPC, the callback of the configuration, the clock,
  and the wait between two differences, which returns how many queued updates it has discarded.\<close>

record ('w, 'x) channelDeps = "('w, 'x) deps" +
  UpdatesGetChannelDifference :: "int \<Rightarrow> int \<Rightarrow> int \<Rightarrow> int \<Rightarrow> ('w, uerr, 'x ChannelDifferenceClass) prog"
  onTooLong :: "int \<Rightarrow> ('w, uerr, unit) prog"
  clock_Now :: "('w, uerr, int) prog"
  diffWait :: "int \<Rightarrow> ('w, uerr, nat) prog"
  channelID :: int
  accessHash :: int
  diffLim :: int

type_synonym ('w, 'x, 'a) cprog = "(('w, 'x) channelState, uerr, 'a) prog"

definition at_world :: "('w, uerr, 'a) prog \<Rightarrow> ('w, 'x, 'a) cprog" where
  "at_world m s = (case m (world s) of (r, w) \<Rightarrow> (r, s\<lparr>world := w\<rparr>))"

definition on_chanPts where
  "on_chanPts m s = (case m (chanPts s, s) of (r, (b, s')) \<Rightarrow> (box_result r, s'\<lparr>chanPts := b\<rparr>))"

definition newChannelState :: "int \<Rightarrow> 'w \<Rightarrow> ('w, 'x) channelState" where
  "newChannelState initialPts w = \<lparr>chanPts = newSequenceBox initialPts, runQueue = [], sent = [], diffTimeout = 0,
     stopped = False, world = w\<rparr>"

definition Push :: "'x channelUpdate \<Rightarrow> ('w, 'x, unit) cprog" where
  "Push u s = (Inr (), if stopped s then s else s\<lparr>runQueue := runQueue s @ [u]\<rparr>)"

section \<open>The operations\<close>

text \<open>An error of the handler is logged and hidden from the box, but the position is not stored.\<close>

definition chan_applyPts ::
  "('w, 'x) channelDeps \<Rightarrow> int \<Rightarrow> ('x UpdateClass, entities) update list \<Rightarrow> ('w, 'x, unit) cprog" where
  "chan_applyPts D st us s =
     (let ents = merge_all (map Entities us) in
      case at_world (handler_Handle D \<lparr>Upds = map Value us, UUsers = Users ents, UChats = Chats ents\<rparr>) s of
        (Inl _, s') \<Rightarrow> (Inr (), s')
      | (Inr _, s') \<Rightarrow> logged (at_world (SetChannelPts (storage D) (selfID D) (channelID D) st)) s')"

definition chan_setTimeout :: "('w, 'x) channelDeps \<Rightarrow> int option \<Rightarrow> ('w, 'x, unit) cprog" where
  "chan_setTimeout D timeout = (case timeout of
     None \<Rightarrow> ret ()
   | Some seconds \<Rightarrow> andThen (at_world (clock_Now D)) (\<lambda>now. modify (\<lambda>s. s\<lparr>diffTimeout := now + seconds\<rparr>)))"

definition chan_store :: "('w, 'x) channelDeps \<Rightarrow> int \<Rightarrow> ('w, 'x, unit) cprog" where
  "chan_store D p = andThen (logged (at_world (SetChannelPts (storage D) (selfID D) (channelID D) p)))
     (\<lambda>_. modify (\<lambda>s. s\<lparr>chanPts := SetState p (chanPts s)\<rparr>))"

text \<open>The wait until the server allows the next difference; the updates that arrive meanwhile are
  read from the queue and dropped.\<close>

definition chan_wait :: "('w, 'x) channelDeps \<Rightarrow> ('w, 'x, unit) cprog" where
  "chan_wait D = andThen (at_world (clock_Now D)) (\<lambda>now s.
     if now < diffTimeout s then
       andThen (at_world (diffWait D (diffTimeout s - now))) (\<lambda>k. modify (\<lambda>s. s\<lparr>runQueue := drop k (runQueue s)\<rparr>)) s
     else (Inr (), s))"

definition chan_fetch :: "('w, 'x) channelDeps \<Rightarrow> ('w, 'x, 'x ChannelDifferenceClass) cprog" where
  "chan_fetch D s =
     (case at_world (UpdatesGetChannelDifference D (channelID D) (accessHash D) (state (chanPts s)) (diffLim D)) s of
        (Inr diff, s') \<Rightarrow> (Inr diff, s')
      | (Inl err, s') \<Rightarrow>
          (if IsOneOf (case err of Rpc e \<Rightarrow> Some e | _ \<Rightarrow> None) [''CHANNEL_PRIVATE'', ''CHANNEL_INVALID'']
           then (Inl err, (snd (logged (at_world (SetChannelPts (storage D) (selfID D) (channelID D) (-1))) s'))\<lparr>stopped := True\<rparr>)
           else (Inl err, s')))"

fun chan_getDifference :: "('w, 'x) channelDeps \<Rightarrow> nat \<Rightarrow> ('w, 'x, unit) cprog" where
  "chan_getDifference D 0 = fail OutOfFuel"
| "chan_getDifference D (Suc n) =
     andThen (modify (\<lambda>s. s\<lparr>chanPts := (chanPts s)\<lparr>gaps := Clear (gaps (chanPts s))\<rparr>\<rparr>)) (\<lambda>_.
     andThen (chan_wait D) (\<lambda>_.
     andThen (chan_fetch D) (\<lambda>diff. case diff of
       ChannelDifference b p timeout final \<Rightarrow>
         andThen (modify (\<lambda>s. if OtherUpdates b \<noteq> []
             then s\<lparr>sent := sent s @ [TgUpdates (OtherUpdates b) (DUsers b) (DChats b) 0 0]\<rparr> else s)) (\<lambda>_.
         andThen (if NewMessages b \<noteq> [] then at_world (handler_Handle D
             \<lparr>Upds = msgsToUpdates (NewMessages b) True, UUsers = DUsers b, UChats = DChats b\<rparr>) else ret ()) (\<lambda>_.
         andThen (chan_store D p) (\<lambda>_.
         andThen (chan_setTimeout D timeout) (\<lambda>_.
           if \<not> final then chan_getDifference D n else ret ()))))
     | ChannelDifferenceEmpty p timeout \<Rightarrow>
         andThen (chan_store D p) (\<lambda>_. chan_setTimeout D timeout)
     | ChannelDifferenceTooLong dialog timeout \<Rightarrow>
         andThen (chan_setTimeout D timeout) (\<lambda>_.
         andThen (case getDialogPts dialog of None \<Rightarrow> ret () | Some remotePts \<Rightarrow> chan_store D remotePts) (\<lambda>_.
           at_world (onTooLong D (channelID D)))))))"

declare chan_getDifference.simps [simp del]

definition chan_handleTooLong :: "('w, 'x) channelDeps \<Rightarrow> nat \<Rightarrow> int option \<Rightarrow> ('w, 'x, unit) cprog" where
  "chan_handleTooLong D n remote s = (case remote of
     None \<Rightarrow> chan_getDifference D n s
   | Some remotePts \<Rightarrow>
       if remotePts - state (chanPts s) > diffLim D then at_world (onTooLong D (channelID D)) s
       else chan_getDifference D n s)"

text \<open>\<open>Unexpected\<close> 1, 2 and 3 are the errors for an invalid, a non-channel and a foreign update.\<close>

definition chan_handleUpdate :: "('w, 'x) channelDeps \<Rightarrow> nat \<Rightarrow> 'x UpdateClass \<Rightarrow> entities \<Rightarrow> ('w, 'x, unit) cprog" where
  "chan_handleUpdate D n u ents = (case u of
     UpdateChannelTooLong _ remote \<Rightarrow> chan_handleTooLong D n remote
   | _ \<Rightarrow> (case IsChannelPtsUpdate u of
       Some (None, _, _) \<Rightarrow> fail (Unexpected 1)
     | None \<Rightarrow> fail (Unexpected 2)
     | Some (Some cid, p, ptsCount) \<Rightarrow>
         if cid \<noteq> channelID D then fail (Unexpected 3)
         else on_chanPts (Handle (callback (chan_applyPts D)) \<lparr>Value = u, State = p, Count = ptsCount, Entities = ents\<rparr>)))"

text \<open>The loop of \<open>Run\<close>: errors (but not missing fuel) are logged; when the context has ended it
  returns.  An event
  \<open>QueueItem\<close> takes the head of the queue.\<close>

datatype chan_event = QueueItem | GapTimeout | ChanIdleTimeout

definition chan_logged :: "('w, 'x, unit) cprog \<Rightarrow> ('w, 'x, unit) cprog" where
  "chan_logged m s = (case m s of (r, s') \<Rightarrow> (if r = Inl OutOfFuel then Inl OutOfFuel else Inr (), s'))"

definition chan_event :: "('w, 'x) channelDeps \<Rightarrow> nat \<Rightarrow> chan_event \<Rightarrow> ('w, 'x, unit) cprog" where
  "chan_event D n ev s =
     (if stopped s then (Inr (), s)
      else case ev of
        QueueItem \<Rightarrow> (case runQueue s of
          [] \<Rightarrow> (Inr (), s)
        | cu # rest \<Rightarrow> chan_logged (chan_handleUpdate D n (chUpdate cu) (chEntities cu)) (s\<lparr>runQueue := rest\<rparr>))
      | GapTimeout \<Rightarrow> chan_logged (chan_getDifference D n) (s\<lparr>chanPts := (chanPts s)\<lparr>armed := False\<rparr>\<rparr>)
      | ChanIdleTimeout \<Rightarrow> chan_logged (chan_getDifference D n) s)"

definition chan_Run :: "('w, 'x) channelDeps \<Rightarrow> nat \<Rightarrow> chan_event list \<Rightarrow> ('w, 'x, unit) cprog" where
  "chan_Run D n evs = andThen (chan_logged (chan_getDifference D n)) (\<lambda>_. each (chan_event D n) evs)"

section \<open>The box of a channel\<close>

text \<open>Surroundings in which nothing is lost: the handler accepts what it is given.  Errors of the
  storage are only logged.\<close>

locale channel_env =
  fixes D :: "('w, 'x) channelDeps"
    and log :: "'w \<Rightarrow> 'x Updates list"
    and ready :: "'w \<Rightarrow> bool"
  assumes chan_handles: "ready w \<Longrightarrow> \<exists>w'. handler_Handle D u w = (Inr (), w') \<and> ready w' \<and> log w' = log w @ [u]"
    and chan_stores: "ready w \<Longrightarrow> SetChannelPts (storage D) (selfID D) c p w = (r, w') \<Longrightarrow> ready w' \<and> log w' = log w"

definition chan_delivered :: "('w \<Rightarrow> 'x Updates list) \<Rightarrow> ('w, 'x) channelState \<Rightarrow> 'x UpdateClass list" where
  "chan_delivered log s = concat (map Upds (log (world s)))"

context channel_env
begin

lemma chan_applyPts_ok:
  assumes "ready (world s)"
  shows "\<exists>w'. chan_applyPts D st us s = (Inr (), s\<lparr>world := w'\<rparr>) \<and> ready w' \<and>
    concat (map Upds (log w')) = chan_delivered log s @ map Value us"
proof -
  obtain w1 where 1: "handler_Handle D \<lparr>Upds = map Value us, UUsers = Users (merge_all (map Entities us)),
      UChats = Chats (merge_all (map Entities us))\<rparr> (world s) = (Inr (), w1)" "ready w1"
    "log w1 = log (world s) @ [\<lparr>Upds = map Value us, UUsers = Users (merge_all (map Entities us)),
      UChats = Chats (merge_all (map Entities us))\<rparr>]"
    using chan_handles[OF assms] by blast
  obtain r w2 where 2: "SetChannelPts (storage D) (selfID D) (channelID D) st w1 = (r, w2)" by fastforce
  show ?thesis using 1 2 chan_stores[OF 1(2) 2]
    by (intro exI[of _ w2]) (simp add: chan_applyPts_def at_world_def logged_def chan_delivered_def Let_def)
qed

end

sublocale channel_env \<subseteq> chan: box_sink "callback (chan_applyPts D)" "chan_delivered log" "\<lambda>s. ready (world s)"
proof unfold_locales
  show "callback (chan_applyPts D) st us (b, w) = (r, (b', w')) \<Longrightarrow> b' = b" for st us b w r b' w'
    by (auto simp: callback_def split: prod.splits)
  show "ready (world w) \<Longrightarrow> callback (chan_applyPts D) st us (b, w) = (Inr x, (b', w')) \<Longrightarrow>
      chan_delivered log w' = chan_delivered log w @ map Value us \<and> ready (world w')" for st us b w x b' w'
    using chan_applyPts_ok[of w st us] by (auto simp: callback_def chan_delivered_def)
  show "ready (world w) \<Longrightarrow> \<exists>w'. callback (chan_applyPts D) st us (b, w) = (Inr (), (b, w'))" for st us b w
    using chan_applyPts_ok[of w st us] by (auto simp: callback_def)
qed

context channel_env
begin

lemma channel_any_order_box:
  assumes "feed p us t" "set vs = set us" "ready (world s)"
  shows "\<exists>b s'. handle_all (callback (chan_applyPts D)) vs (newSequenceBox p, s) = (Inr (), (b, s')) \<and>
    state b = t \<and> gaps b = [] \<and> pending b = [] \<and> chan_delivered log s' = chan_delivered log s @ map Value us"
  by (rule chan.any_order) (use assms in simp_all)

end

section \<open>A concrete environment\<close>

record 'x chanWorld = "'x world" +
  chanScript :: "(uerr + 'x ChannelDifferenceClass) list"
  tooLong :: "int list"

definition memChan :: "int \<Rightarrow> int \<Rightarrow> int \<Rightarrow> int \<Rightarrow> ('x chanWorld, 'x) channelDeps" where
  "memChan self cid hash lim = deps.extend (memDeps self) \<lparr>
     UpdatesGetChannelDifference = (\<lambda>_ _ _ _ w. case chanScript w of
         [] \<Rightarrow> (Inl ContextCanceled, w)
       | Inl e # ds \<Rightarrow> (Inl e, w\<lparr>chanScript := ds\<rparr>)
       | Inr d # ds \<Rightarrow> (Inr d, w\<lparr>chanScript := ds\<rparr>)),
     onTooLong = (\<lambda>c w. (Inr (), w\<lparr>tooLong := tooLong w @ [c]\<rparr>)),
     clock_Now = (\<lambda>w. (Inr 0, w)),
     diffWait = (\<lambda>_ w. (Inr 0, w)),
     channelID = cid, accessHash = hash, diffLim = lim\<rparr>"

lemma memChan_simps [simp]:
  "handler_Handle (memChan self cid hash lim) = handler_Handle (memDeps self)"
  "storage (memChan self cid hash lim) = storage (memDeps self)"
  "selfID (memChan self cid hash lim) = self"
  "channelID (memChan self cid hash lim) = cid"
  "diffLim (memChan self cid hash lim) = lim"
  "clock_Now (memChan self cid hash lim) = (\<lambda>w. (Inr 0, w))"
  "diffWait (memChan self cid hash lim) = (\<lambda>_ w. (Inr 0, w))"
  "onTooLong (memChan self cid hash lim) = (\<lambda>c w. (Inr (), w\<lparr>tooLong := tooLong w @ [c]\<rparr>))"
  by (simp_all add: memChan_def deps.defs memDeps_def)

lemma set_channel_mem:
  assumes "mem_ready self w"
  shows "\<exists>w'. SetChannelPts (storage (memDeps self)) self c p w = (Inr (), w') \<and> mem_ready self w' \<and> handled w' = handled w \<and>
    mem_chan (store w') self c = Some p \<and> world.more w' = world.more w"
proof -
  have m: "SetChannelPts memStorage = mem_SetChannelPts" by (simp add: memStorage_def)
  obtain st where "mem_SetChannelPts self c p (store w) = (Inr (), st)" "mem_ok st" "states st = states (store w)"
    "mem_chan st = (mem_chan (store w))(self := (mem_chan (store w) self)(c \<mapsto> p))"
    using mem_storage.set_channel[of "store w" self c p] assms by (auto simp: mem_ready_def m)
  then show ?thesis using assms by (simp add: memDeps_def at_store_def mem_ready_def)
qed

interpretation mem_channel: channel_env "memChan self cid hash lim" handled "mem_ready self" for self cid hash lim :: int
proof unfold_locales
  fix w :: "'a chanWorld" and u c p r w'
  assume r: "mem_ready self w"
  show "\<exists>w'. handler_Handle (memChan self cid hash lim) u w = (Inr (), w') \<and> mem_ready self w' \<and> handled w' = handled w @ [u]"
    using mem_env.handles[OF r] by simp
  assume "SetChannelPts (storage (memChan self cid hash lim)) (selfID (memChan self cid hash lim)) c p w = (r, w')"
  then show "mem_ready self w' \<and> handled w' = handled w" using set_channel_mem[OF r, of c p] by auto
qed

section \<open>Properties\<close>

lemma chan_applyPts_box: "chan_applyPts D st us (s\<lparr>chanPts := b\<rparr>) = (case chan_applyPts D st us s of (r, s') \<Rightarrow> (r, s'\<lparr>chanPts := b\<rparr>))"
  by (auto simp: chan_applyPts_def at_world_def logged_def Let_def split: prod.splits sum.splits)

lemma handle_all_chan_natural:
  "handle_all (callback (chan_applyPts D)) us (b, s\<lparr>chanPts := c\<rparr>) =
    map_world (\<lambda>s. s\<lparr>chanPts := c\<rparr>) (handle_all (callback (chan_applyPts D)) us (b, s))"
  by (rule handle_all_natural) (simp add: callback_def chan_applyPts_box split: prod.splits)

text \<open>An update record that belongs to the channel.\<close>

definition for_channel :: "int \<Rightarrow> ('x UpdateClass, entities) update \<Rightarrow> bool" where
  "for_channel cid u \<longleftrightarrow> IsChannelPtsUpdate (Value u) = Some (Some cid, State u, Count u) \<and>
     (\<forall>c p. Value u \<noteq> UpdateChannelTooLong c p)"

definition handle_update where
  "handle_update D n u = chan_handleUpdate D n (Value u) (Entities u)"

lemma each_handle_update:
  assumes "\<forall>u \<in> set us. for_channel (channelID D) u"
    and "handle_all (callback (chan_applyPts D)) us (chanPts s, s) = (Inr (), (b, s'))"
  shows "each (handle_update D n) us s = (Inr (), s'\<lparr>chanPts := b\<rparr>)"
  using assms
proof (induction us arbitrary: s s')
  case Nil
  then show ?case by (cases s) (auto simp: ret_def)
next
  case (Cons u us)
  from Cons.prems(2) obtain b1 s1 where
    1: "Handle (callback (chan_applyPts D)) u (chanPts s, s) = (Inr (), (b1, s1))"
      "handle_all (callback (chan_applyPts D)) us (b1, s1) = (Inr (), (b, s'))"
    by (auto simp: andThen_eq_Inr_iff)
  obtain v st c e where u: "u = \<lparr>Value = v, State = st, Count = c, Entities = e\<rparr>" by (cases u) auto
  have "for_channel (channelID D) u" using Cons.prems(1) by simp
  then have "handle_update D n u s = (Inr (), s1\<lparr>chanPts := b1\<rparr>)"
    using 1(1) u by (cases v) (auto simp: handle_update_def chan_handleUpdate_def for_channel_def on_chanPts_def box_result_def)
  moreover have "handle_all (callback (chan_applyPts D)) us (chanPts (s1\<lparr>chanPts := b1\<rparr>), s1\<lparr>chanPts := b1\<rparr>) = (Inr (), (b, s'\<lparr>chanPts := b1\<rparr>))"
    using 1(2) by (simp add: handle_all_chan_natural)
  ultimately show ?case using Cons.IH[of "s1\<lparr>chanPts := b1\<rparr>"] Cons.prems(1) by simp
qed

text \<open>C10: the updates of a channel are delivered exactly once and in order, whatever order and
  repetitions they arrive in, even when the storage fails.\<close>

theorem channel_any_order:
  assumes "\<And>w u. ready w \<Longrightarrow> \<exists>w'. handler_Handle D u w = (Inr (), w') \<and> ready w' \<and> log w' = log w @ [u]"
    and "\<And>w c q r w'. ready w \<Longrightarrow> SetChannelPts (storage D) (selfID D) c q w = (r, w') \<Longrightarrow> ready w' \<and> log w' = log w"
    and "feed p us t" "set vs = set us" "chanPts s = newSequenceBox p" "ready (world s)"
    and "\<forall>u \<in> set us. for_channel (channelID D) u"
  shows "\<exists>s'. each (handle_update D n) vs s = (Inr (), s') \<and>
    chan_delivered log s' = chan_delivered log s @ map Value us \<and>
    state (chanPts s') = t \<and> gaps (chanPts s') = [] \<and> pending (chanPts s') = []"
proof -
  have E: "channel_env D log ready" by unfold_locales (use assms(1,2) in blast)+
  from channel_env.channel_any_order_box[OF E assms(3,4,6)] obtain b s' where
    1: "handle_all (callback (chan_applyPts D)) vs (chanPts s, s) = (Inr (), (b, s'))" "state b = t" "gaps b = []"
      "pending b = []" "chan_delivered log s' = chan_delivered log s @ map Value us" by (auto simp: assms(5))
  have "\<forall>u \<in> set vs. for_channel (channelID D) u" using assms(4,7) by simp
  from each_handle_update[OF this 1(1)] 1(2-5) show ?thesis by (simp add: chan_delivered_def)
qed

definition cupd :: "int \<Rightarrow> int \<Rightarrow> (nat UpdateClass, entities) update" where
  "cupd st n = \<lparr>Value = ChannelPts (nat st) 55 st n, State = st, Count = n, Entities = no_entities\<rparr>"

definition chanWorld0 :: "'x chanWorld" where
  "chanWorld0 = world.extend (world0 7 state0) \<lparr>chanScript = [], tooLong = []\<rparr>"

lemma chanWorld0_ready: "mem_ready 7 chanWorld0" "handled chanWorld0 = []"
  by (simp_all add: chanWorld0_def world.defs world0_def mem_ready_def mem_ok_def)

theorem channel_any_order_witness:
  "\<exists>s'. each (handle_update (memChan 7 55 1 100) 1) [cupd 14 1, cupd 11 1, cupd 14 1, cupd 13 2]
      (newChannelState 10 chanWorld0) = (Inr (), s') \<and>
    chan_delivered handled s' = map Value [cupd 11 1, cupd 13 2, cupd 14 1] \<and> state (chanPts s') = 14"
proof -
  have f: "feed 10 [cupd 11 1, cupd 13 2, cupd 14 1] 14"
    by (simp add: feed_def cupd_def ustart_def uend_def)
  let ?s = "newChannelState 10 chanWorld0 :: (nat chanWorld, nat) channelState"
  have r: "mem_ready 7 (world ?s)" by (simp add: newChannelState_def chanWorld0_ready)
  have p: "chanPts ?s = newSequenceBox 10" by (simp add: newChannelState_def)
  have v: "set [cupd 14 1, cupd 11 1, cupd 14 1, cupd 13 2] = set [cupd 11 1, cupd 13 2, cupd 14 1]" by auto
  have d: "chan_delivered handled ?s = []" by (simp add: chan_delivered_def newChannelState_def chanWorld0_ready)
  have c: "\<forall>u \<in> set [cupd 11 1, cupd 13 2, cupd 14 1]. for_channel (channelID (memChan 7 55 1 100)) u"
    by (simp add: cupd_def for_channel_def)
  have st: "mem_ready 7 w' \<and> handled w' = handled w" if "mem_ready 7 w"
    "SetChannelPts (storage (memChan 7 55 1 100)) (selfID (memChan 7 55 1 100)) c q w = (r, w')"
    for w w' :: "nat chanWorld" and c q r
    using mem_channel.chan_stores[of 7 w 55 1 100 c q r w'] that by simp
  have "\<exists>s'. each (handle_update (memChan 7 55 1 100) 1) [cupd 14 1, cupd 11 1, cupd 14 1, cupd 13 2] ?s = (Inr (), s') \<and>
      chan_delivered handled s' = chan_delivered handled ?s @ map Value [cupd 11 1, cupd 13 2, cupd 14 1] \<and>
      state (chanPts s') = 14 \<and> gaps (chanPts s') = [] \<and> pending (chanPts s') = []"
    by (rule channel_any_order[where ready = "mem_ready 7", OF _ _ f v p r c]) (erule mem_channel.chan_handles, erule (1) st)
  then show ?thesis unfolding d by auto
qed

lemma chan_store_mem:
  assumes "mem_ready self (world s)"
  shows "\<exists>w. chan_store (memChan self cid hash lim) p s = (Inr (), s\<lparr>world := w, chanPts := SetState p (chanPts s)\<rparr>) \<and>
    mem_ready self w \<and> handled w = handled (world s) \<and> mem_chan (store w) self cid = Some p \<and>
    chanScript w = chanScript (world s) \<and> tooLong w = tooLong (world s)"
proof -
  obtain w where w: "SetChannelPts (storage (memDeps self)) self cid p (world s) = (Inr (), w)" "mem_ready self w"
    "handled w = handled (world s)" "mem_chan (store w) self cid = Some p" "world.more w = world.more (world s)"
    using set_channel_mem[OF assms, of cid p] by blast
  have "chanScript w = chanScript (world s)" "tooLong w = tooLong (world s)"
    using w(5) by (cases w; cases "world s"; simp)+
  with w(1-4) show ?thesis
    by (intro exI[of _ w]) (simp add: chan_store_def logged_def at_world_def andThen_def modify_def)
qed

lemma chan_setTimeout_mem:
  "\<exists>t. chan_setTimeout (memChan self cid hash lim) timeout s = (Inr (), s\<lparr>diffTimeout := t\<rparr>)"
  by (cases timeout; cases s) (auto simp: chan_setTimeout_def ret_def at_world_def andThen_def modify_def)

lemma chan_wait_mem: "chan_wait (memChan self cid hash lim) s = (Inr (), s)"
  by (simp add: chan_wait_def at_world_def andThen_def modify_def)

text \<open>a channel the account can no longer see is given up: when the server answers
  \<open>CHANNEL_PRIVATE\<close> or \<open>CHANNEL_INVALID\<close>, the difference fails, the channel state stops, its
  stored position becomes -1, every later event and update leaves it alone, and an account state
  started from that storage does not open the channel.\<close>

theorem lost_channel_is_given_up:
  assumes "mem_ready self (world s)" "chanScript (world s) = Inl (Rpc e) # ds"
    and "Type e = ''CHANNEL_PRIVATE'' \<or> Type e = ''CHANNEL_INVALID''"
  shows "\<exists>s'. chan_getDifference (memChan self cid hash lim) (Suc n) s = (Inl (Rpc e), s') \<and> stopped s' \<and>
    mem_chan (store (world s')) self cid = Some (-1) \<and>
    (\<forall>ev m. chan_event (memChan self cid hash lim) m ev s' = (Inr (), s')) \<and> (\<forall>u. Push u s' = (Inr (), s')) \<and>
    chans (newState st [(cid, -1, h)] left w) cid = None"
proof -
  let ?D = "memChan self cid hash lim"
  let ?s0 = "s\<lparr>chanPts := (chanPts s)\<lparr>gaps := []\<rparr>\<rparr>"
  let ?w = "(world s)\<lparr>chanScript := ds\<rparr>"
  have "mem_ready self ?w" using assms(1) by (simp add: mem_ready_def)
  from set_channel_mem[OF this, of cid "-1"] obtain w' where
    w': "SetChannelPts (storage (memDeps self)) self cid (-1) ?w = (Inr (), w')" "mem_chan (store w') self cid = Some (-1)"
    by blast
  have f: "chan_fetch ?D ?s0 = (Inl (Rpc e), (?s0\<lparr>world := w'\<rparr>)\<lparr>stopped := True\<rparr>)"
  proof -
    have "UpdatesGetChannelDifference ?D c h q l (world s) = (Inl (Rpc e), ?w)" for c h q l
      using assms(2) by (simp add: memChan_def deps.defs)
    moreover have "IsOneOf (Some e) [''CHANNEL_PRIVATE'', ''CHANNEL_INVALID'']"
      using assms(3) by (auto simp: IsOneOf_def IsType_def)
    ultimately show ?thesis
      using w'(1) by (simp add: chan_fetch_def at_world_def logged_def)
  qed
  have "chan_getDifference ?D (Suc n) s = (Inl (Rpc e), (?s0\<lparr>world := w'\<rparr>)\<lparr>stopped := True\<rparr>)"
    using f by (simp add: chan_getDifference.simps andThen_def modify_def Clear_def chan_wait_mem)
  then show ?thesis using w'(2) by (simp add: chan_event_def Push_def newState_def)
qed

theorem lost_channel_is_given_up_witness:
  "\<exists>s'. chan_getDifference (memChan 7 55 1 100) 1 (newChannelState 10 (chanWorld0\<lparr>chanScript :=
      [Inl (Rpc \<lparr>Code = 400, Message = ''CHANNEL_PRIVATE'', Type = ''CHANNEL_PRIVATE'', Argument = 0\<rparr>)]\<rparr>)) =
      (Inl (Rpc \<lparr>Code = 400, Message = ''CHANNEL_PRIVATE'', Type = ''CHANNEL_PRIVATE'', Argument = 0\<rparr>), s' :: (nat chanWorld, nat) channelState) \<and>
    stopped s'"
proof -
  let ?e = "\<lparr>Code = 400, Message = ''CHANNEL_PRIVATE'', Type = ''CHANNEL_PRIVATE'', Argument = 0\<rparr>"
  let ?s = "newChannelState 10 (chanWorld0\<lparr>chanScript := [Inl (Rpc ?e)]\<rparr>) :: (nat chanWorld, nat) channelState"
  have r: "mem_ready 7 (world ?s)" using chanWorld0_ready by (simp add: newChannelState_def mem_ready_def)
  have c: "chanScript (world ?s) = Inl (Rpc ?e) # []" by (simp add: newChannelState_def)
  have t: "Type ?e = ''CHANNEL_PRIVATE'' \<or> Type ?e = ''CHANNEL_INVALID''" by simp
  show ?thesis using lost_channel_is_given_up[OF r c t, where cid = 55 and hash = 1 and lim = 100 and n = 0 and st = state0 and h = 0 and left = "[]" and w = "()"]
    unfolding One_nat_def by (elim exE conjE) (intro exI conjI)
qed

text \<open>unlike the account, a channel hides a failing handler from its box: an in-order update the
  handler refuses moves the position past it, so it is not offered again while the process
  runs; only the stored position stays behind, because the storage is not called.\<close>

theorem channel_skips_refused_update:
  assumes "for_channel (channelID D) u" "State u \<noteq> 0" "ustart u = state (chanPts s)" "gaps (chanPts s) = []"
    and "pending (chanPts s) = []" "\<And>v w. handler_Handle D v w = (Inl e, f w)"
  shows "handle_update D n u s = (Inr (), s\<lparr>world := f (world s), chanPts := (chanPts s)\<lparr>state := State u\<rparr>\<rparr>)"
proof -
  obtain v st c en where u: "u = \<lparr>Value = v, State = st, Count = c, Entities = en\<rparr>" by (cases u) auto
  have g: "checkGap (state (chanPts s)) st c = gapApply"
    using assms(3) u by (simp add: checkGap_def ustart_def)
  have "Handle (callback (chan_applyPts D)) u (chanPts s, s) =
      (Inr (), (setState st (chanPts s), s\<lparr>world := f (world s)\<rparr>))"
    using assms(4-6) g u by (simp add: Handle_def Has_def callback_def chan_applyPts_def at_world_def Let_def)
  moreover have "setState st (chanPts s) = (chanPts s)\<lparr>state := st\<rparr>"
    using assms(5) by (cases "chanPts s") (simp add: setState_def trimStale_def)
  ultimately show ?thesis using assms(1) u
    by (cases v) (auto simp: handle_update_def chan_handleUpdate_def for_channel_def on_chanPts_def box_result_def)
qed

theorem channel_skips_refused_update_witness:
  "fst (handle_update ((memChan 7 55 1 100)\<lparr>handler_Handle := \<lambda>_ w. (Inl (HandlerError 1), w)\<rparr>) 1 (cupd 11 1)
      (newChannelState 10 chanWorld0)) = Inr () \<and>
   state (chanPts (snd (handle_update ((memChan 7 55 1 100)\<lparr>handler_Handle := \<lambda>_ w. (Inl (HandlerError 1), w)\<rparr>) 1 (cupd 11 1)
      (newChannelState 10 chanWorld0)))) = 11"
proof -
  let ?D = "(memChan 7 55 1 100)\<lparr>handler_Handle := \<lambda>_ w. (Inl (HandlerError 1), w)\<rparr> :: (nat chanWorld, nat) channelDeps"
  have "for_channel (channelID ?D) (cupd 11 1)" by (simp add: for_channel_def cupd_def)
  then show ?thesis
    using channel_skips_refused_update[of ?D "cupd 11 1" "newChannelState 10 chanWorld0" "HandlerError 1" "\<lambda>w. w" 1]
    by (simp add: newChannelState_def newSequenceBox_def cupd_def ustart_def)
qed

end
