(* ===== verification/UpdCatch.thy ===== *)
theory UpdCatch
  imports UpdChannel
begin

text \<open>
  What the two loops \<open>getDifference\<close> of \<open>pkg/gotd/telegram/updates\<close>, that of an account in \<open>state.go\<close> and
  that of a channel in \<open>state_channel.go\<close>, reach with a server that answers by the position it is asked from.
\<close>

section \<open>An account\<close>

definition messages :: "'x diff_body \<Rightarrow> 'x UpdateClass list" where
  "messages b = msgsToUpdates (NewMessages b) False @ encryptedMsgsToUpdates (NewEncryptedMessages b)"

text \<open>The position of an account, and what an answer of the server does to it.\<close>

definition position :: "('w, 'x) internalState \<Rightarrow> State" where
  "position s = \<lparr>Pts = state (pts s), Qts = state (qts s), Date = date s, Seq = state (seq s)\<rparr>"

primrec moved :: "'x UpdatesDifferenceClass \<Rightarrow> State \<Rightarrow> State" where
  "moved (UpdatesDifference b st) p = fromRemote st"
| "moved (UpdatesDifferenceEmpty d q) p = p\<lparr>Date := d, Seq := q\<rparr>"
| "moved (UpdatesDifferenceSlice b st) p = fromRemote st"
| "moved (UpdatesDifferenceTooLong q) p = p\<lparr>Pts := q\<rparr>"

primrec is_last :: "'x UpdatesDifferenceClass \<Rightarrow> bool" where
  "is_last (UpdatesDifference b st) = True"
| "is_last (UpdatesDifferenceEmpty d q) = True"
| "is_last (UpdatesDifferenceSlice b st) = False"
| "is_last (UpdatesDifferenceTooLong q) = False"

primrec answer_body :: "'x UpdatesDifferenceClass \<Rightarrow> 'x diff_body option" where
  "answer_body (UpdatesDifference b st) = Some b"
| "answer_body (UpdatesDifferenceEmpty d q) = None"
| "answer_body (UpdatesDifferenceSlice b st) = Some b"
| "answer_body (UpdatesDifferenceTooLong q) = None"

definition answer_messages :: "'x UpdatesDifferenceClass \<Rightarrow> 'x UpdateClass list" where
  "answer_messages x = (case answer_body x of None \<Rightarrow> [] | Some b \<Rightarrow> messages b)"

text \<open>What the handler is given of an answer, and the error with which it refuses it, if it does.\<close>

definition batch :: "'x diff_body \<Rightarrow> 'x Updates" where
  "batch b = \<lparr>Upds = messages b, UUsers = DUsers b, UChats = DChats b\<rparr>"

definition refused :: "('x Updates \<Rightarrow> uerr option) \<Rightarrow> 'x UpdatesDifferenceClass \<Rightarrow> uerr option" where
  "refused refusal x = (case answer_body x of None \<Rightarrow> None | Some b \<Rightarrow> if messages b = [] then None else refusal (batch b))"

definition no_others :: "'x UpdatesDifferenceClass \<Rightarrow> bool" where
  "no_others x \<longleftrightarrow> (case answer_body x of None \<Rightarrow> True | Some b \<Rightarrow> OtherUpdates b = [])"

text \<open>The server answers a request by the position in it.  \<open>answers ans refusal p xs r\<close>: asked from position \<open>p\<close>
  and then from wherever each answer leads, it gives \<open>xs\<close>, without other updates, none of which the handler
  refuses; and then there is nothing more to ask, or it refuses for good, or its next answer is one that
  the handler refuses.\<close>

fun answers :: "(int \<Rightarrow> int \<Rightarrow> int \<Rightarrow> uerr + 'x UpdatesDifferenceClass) \<Rightarrow> ('x Updates \<Rightarrow> uerr option) \<Rightarrow> State \<Rightarrow>
    'x UpdatesDifferenceClass list \<Rightarrow> uerr + unit \<Rightarrow> bool" where
  "answers ans refusal p [] r \<longleftrightarrow> (case ans (Pts p) (Qts p) (Date p) of
     Inl e \<Rightarrow> isFatalError e \<and> r = Inl e
   | Inr x \<Rightarrow> no_others x \<and> (case refused refusal x of None \<Rightarrow> False | Some e \<Rightarrow> r = Inl e))"
| "answers ans refusal p (x # xs) r \<longleftrightarrow> ans (Pts p) (Qts p) (Date p) = Inr x \<and> no_others x \<and> refused refusal x = None \<and>
     (if is_last x then xs = [] \<and> r = Inr () else answers ans refusal (moved x p) xs r)"

text \<open>The contract: the handler takes what it is given or refuses it with an error, the storage stores, and the
  server answers by \<open>ans\<close>, after at most \<open>fails w\<close> failures that are not fatal.\<close>

locale diff_env =
  fixes D :: "('w, 'x) deps"
    and log :: "'w \<Rightarrow> 'x Updates list"
    and ready :: "'w \<Rightarrow> bool"
    and stored :: "'w \<Rightarrow> State"
    and fails :: "'w \<Rightarrow> nat"
    and ans :: "int \<Rightarrow> int \<Rightarrow> int \<Rightarrow> uerr + 'x UpdatesDifferenceClass"
    and refusal :: "'x Updates \<Rightarrow> uerr option"
  assumes handles: "ready w \<Longrightarrow> \<exists>w'. handler_Handle D u w = (case refusal u of None \<Rightarrow> Inr () | Some e \<Rightarrow> Inl e, w') \<and>
      ready w' \<and> log w' = (if refusal u = None then log w @ [u] else log w) \<and> stored w' = stored w \<and> fails w' = fails w"
    and stores: "ready w \<Longrightarrow> \<exists>w'. PutState (storage D) (selfID D) st w = (Inr (), w') \<and> ready w' \<and> log w' = log w \<and>
      stored w' = st \<and> fails w' = fails w"
    and stores_pts: "ready w \<Longrightarrow> \<exists>w'. SetPts (storage D) (selfID D) q w = (Inr (), w') \<and> ready w' \<and> log w' = log w \<and>
      stored w' = (stored w)\<lparr>Pts := q\<rparr> \<and> fails w' = fails w"
    and stores_date: "ready w \<Longrightarrow> \<exists>w'. SetDateSeq (storage D) (selfID D) d q w = (Inr (), w') \<and> ready w' \<and> log w' = log w \<and>
      stored w' = (stored w)\<lparr>Date := d, Seq := q\<rparr> \<and> fails w' = fails w"
    and serves: "ready w \<Longrightarrow> \<exists>r w'. UpdatesGetDifference D p q d w = (r, w') \<and> ready w' \<and> log w' = log w \<and> stored w' = stored w \<and>
      (r = ans p q d \<and> fails w' = fails w \<or> (\<exists>e. r = Inl e \<and> \<not> isFatalError e) \<and> fails w' < fails w)"
    and sleeps: "ready w \<Longrightarrow> \<exists>w'. sleep D t w = (Inr (), w') \<and> ready w' \<and> log w' = log w \<and> stored w' = stored w \<and> fails w' = fails w"

text \<open>What one call leaves behind: only the surroundings differ.\<close>

definition same_but :: "('w \<Rightarrow> bool) \<Rightarrow> ('w \<Rightarrow> State) \<Rightarrow> ('w, 'x) internalState \<Rightarrow> ('w, 'x) internalState \<Rightarrow> bool" where
  "same_but ready stored s s' \<longleftrightarrow> s' = s\<lparr>env := env s'\<rparr> \<and> ready (env s') \<and> stored (env s') = stored (env s)"

text \<open>All gaps of an account are closed.\<close>

definition no_gaps :: "('w, 'x) internalState \<Rightarrow> bool" where
  "no_gaps s \<longleftrightarrow> gaps (pts s) = [] \<and> gaps (qts s) = [] \<and> gaps (seq s) = []"

lemma same_but_same:
  assumes "same_but ready stored s s'"
  shows "ready (env s')" "stored (env s') = stored (env s)" "position s' = position s" "no_gaps s' = no_gaps s"
proof -
  obtain w where w: "s' = s\<lparr>env := w\<rparr>" "ready w" "stored w = stored (env s)" using assms unfolding same_but_def by blast
  show "ready (env s')" "stored (env s') = stored (env s)" "position s' = position s" "no_gaps s' = no_gaps s"
    using w(2,3) by (simp_all add: w(1) position_def no_gaps_def)
qed

lemma clear_gaps_position [simp]: "position (clear_gaps s) = position s" "date (clear_gaps s) = date s" "no_gaps (clear_gaps s)"
  by (simp_all add: clear_gaps_def Clear_def position_def no_gaps_def)

context diff_env
begin

lemma retry_ok:
  assumes "ready (env s)" "fails (env s) < n"
    and "\<forall>e. ans (state (pts s)) (state (qts s)) t = Inl e \<longrightarrow> isFatalError e"
  shows "\<exists>s'. getDifferenceWithRetry n D t s = (ans (state (pts s)) (state (qts s)) t, s') \<and> same_but ready stored s s' \<and>
    log (env s') = log (env s) \<and> fails (env s') \<le> fails (env s)"
  using assms
proof (induction n arbitrary: s)
  case (Suc n)
  let ?a = "ans (state (pts s)) (state (qts s)) t"
  obtain r w where w: "UpdatesGetDifference D (state (pts s)) (state (qts s)) t (env s) = (r, w)" "ready w" "log w = log (env s)"
    "stored w = stored (env s)" "r = ?a \<and> fails w = fails (env s) \<or> (\<exists>e. r = Inl e \<and> \<not> isFatalError e) \<and> fails w < fails (env s)"
    using serves[OF Suc.prems(1)] by blast
  show ?case
  proof (cases "r = ?a \<and> fails w = fails (env s)")
    case True
    then show ?thesis
      using w(1-4) Suc.prems(3) by (cases ?a) (auto simp: getDifferenceWithRetry.simps out_def same_but_def)
  next
    case False
    then obtain e where e: "r = Inl e" "\<not> isFatalError e" "fails w < fails (env s)" using w(5) by blast
    obtain w' where w': "sleep D (retry_delay e) w = (Inr (), w')" "ready w'" "log w' = log w" "stored w' = stored w" "fails w' = fails w"
      using sleeps[OF w(2)] by blast
    have "ready (env (s\<lparr>env := w'\<rparr>))" "fails (env (s\<lparr>env := w'\<rparr>)) < n" using w' e(3) Suc.prems(2) by simp_all
    from Suc.IH[OF this] Suc.prems(3) obtain s' where
      "getDifferenceWithRetry n D t (s\<lparr>env := w'\<rparr>) = (?a, s')" "same_but ready stored (s\<lparr>env := w'\<rparr>) s'" "log (env s') = log w'" "fails (env s') \<le> fails w'"
      by auto
    then show ?thesis
      using w w' e by (intro exI[of _ s']) (simp add: getDifferenceWithRetry.simps out_def andThen_def same_but_def)
  qed
qed simp

lemma deliverMessages_eq:
  "deliverMessages D b = (if messages b = [] then ret () else out (handler_Handle D (batch b)))"
  by (simp add: deliverMessages_def messages_def batch_def msgsToUpdates_def encryptedMsgsToUpdates_def)

lemma deliverMessages_ok:
  assumes "ready (env s)" "messages b \<noteq> [] \<longrightarrow> refusal (batch b) = None"
  shows "\<exists>s'. deliverMessages D b s = (Inr (), s') \<and> same_but ready stored s s' \<and> fails (env s') = fails (env s) \<and>
    delivered log s' = delivered log s @ messages b"
proof (cases "messages b = []")
  case False
  then show ?thesis
    using handles[OF assms(1), of "batch b"] assms(2)
    by (auto simp: deliverMessages_eq out_def delivered_def same_but_def) (simp add: batch_def)
next
  case True
  then show ?thesis
    using assms by (intro exI[of _ s]) (simp add: deliverMessages_eq ret_def same_but_def)
qed

lemma deliverMessages_refused:
  assumes "ready (env s)" "messages b \<noteq> []" "refusal (batch b) = Some e"
  shows "\<exists>s'. deliverMessages D b s = (Inl e, s') \<and> same_but ready stored s s' \<and> delivered log s' = delivered log s"
  using handles[OF assms(1), of "batch b"] assms(2,3)
  by (auto simp: deliverMessages_eq out_def delivered_def same_but_def)

lemma setRemoteState_ok:
  assumes "ready (env s)"
  shows "\<exists>s'. setRemoteState D st s = (Inr (), s') \<and> ready (env s') \<and> position s' = fromRemote st \<and> stored (env s') = fromRemote st \<and>
    fails (env s') = fails (env s) \<and> log (env s') = log (env s) \<and>
    gaps (pts s') = gaps (pts s) \<and> gaps (qts s') = gaps (qts s) \<and> gaps (seq s') = gaps (seq s)"
  using stores[OF assms, of "fromRemote st"]
  by (auto simp: setRemoteState_def logged_def out_def andThen_def position_def fromRemote_def)

end

context diff_env
begin

text \<open>One answer of the server.\<close>

lemma answer_step:
  assumes "ready (env s)" "fails (env s) < n" "ans (Pts (position s)) (Qts (position s)) (Date (position s)) = Inr x"
    and "no_others x" "refused refusal x = None"
  shows "\<exists>s'. getDifference D (Suc n) s = (if is_last x then (Inr (), s') else getDifference D n s') \<and>
    ready (env s') \<and> fails (env s') \<le> fails (env s) \<and> position s' = moved x (position s) \<and> stored (env s') = moved x (stored (env s)) \<and>
    no_gaps s' \<and> delivered log s' = delivered log s @ answer_messages x"
proof -
  let ?c = "clear_gaps s"
  have "ans (state (pts ?c)) (state (qts ?c)) (date ?c) = Inr x" using assms(3) by (simp add: position_def clear_gaps_def)
  with retry_ok[of ?c n "date ?c"] assms(1,2) obtain s1 where
    1: "getDifferenceWithRetry n D (date s) ?c = (Inr x, s1)" "same_but ready stored ?c s1" "log (env s1) = log (env s)"
      "fails (env s1) \<le> fails (env s)"
    by auto
  note s1 = same_but_same[OF 1(2), simplified]
  have d1: "delivered log s1 = delivered log s" using 1(3) by (simp add: delivered_def)
  have said: "\<exists>s3. andThen (deliverMessages D b) (\<lambda>_. setRemoteState D st) s1 = (Inr (), s3) \<and> ready (env s3) \<and>
      fails (env s3) \<le> fails (env s) \<and> position s3 = fromRemote st \<and> stored (env s3) = fromRemote st \<and> no_gaps s3 \<and>
      delivered log s3 = delivered log s @ messages b" if body: "answer_body x = Some b" for b st
  proof -
    have "messages b \<noteq> [] \<longrightarrow> refusal (batch b) = None" using assms(5) body by (auto simp: refused_def)
    note takes = this
    obtain s2 where 2: "deliverMessages D b s1 = (Inr (), s2)" "same_but ready stored s1 s2" "fails (env s2) = fails (env s1)"
      "delivered log s2 = delivered log s1 @ messages b" using deliverMessages_ok[OF s1(1) takes] by blast
    note s2 = same_but_same[OF 2(2)]
    obtain s3 where 3: "setRemoteState D st s2 = (Inr (), s3)" "ready (env s3)" "position s3 = fromRemote st"
      "stored (env s3) = fromRemote st" "fails (env s3) = fails (env s2)" "log (env s3) = log (env s2)"
      "gaps (pts s3) = gaps (pts s2)" "gaps (qts s3) = gaps (qts s2)" "gaps (seq s3) = gaps (seq s2)"
      using setRemoteState_ok[OF s2(1)] by blast
    then show ?thesis using 1(4) 2 d1 s1(4) s2(4) by (simp add: delivered_def no_gaps_def)
  qed
  have step: "getDifference D (Suc n) s = (case x of
       UpdatesDifference b st \<Rightarrow> andThen (deliverMessages D b) (\<lambda>_. setRemoteState D st) s1
     | UpdatesDifferenceSlice b st \<Rightarrow>
         andThen (andThen (deliverMessages D b) (\<lambda>_. setRemoteState D st)) (\<lambda>_. getDifference D n) s1
     | UpdatesDifferenceEmpty d q \<Rightarrow> andThen (logged (out (SetDateSeq (storage D) (selfID D) d q)))
           (\<lambda>_ s. (Inr (), seq_SetState q (s\<lparr>date := d\<rparr>))) s1
     | UpdatesDifferenceTooLong p \<Rightarrow> andThen (logged (out (SetPts (storage D) (selfID D) p))) (\<lambda>_.
         andThen (modify (\<lambda>s. s\<lparr>pts := SetState p (pts s)\<rparr>)) (\<lambda>_. getDifference D n)) s1)"
    using 1(1) assms(4) by (cases x) (simp_all add: no_others_def getDifference.simps(2) andThen_def modify_def ret_def split: prod.split sum.split)
  show ?thesis
  proof (cases x)
    case (UpdatesDifference b st)
    then show ?thesis using said[of b st] step by (auto simp: answer_messages_def)
  next
    case (UpdatesDifferenceEmpty d q)
    then show ?thesis
      using step 1(4) s1 d1 stores_date[OF s1(1), of d q]
      by (auto simp: andThen_def logged_def out_def seq_SetState_def answer_messages_def delivered_def position_def no_gaps_def)
  next
    case (UpdatesDifferenceSlice b st)
    obtain s3 where s3: "andThen (deliverMessages D b) (\<lambda>_. setRemoteState D st) s1 = (Inr (), s3)" "ready (env s3)"
      "fails (env s3) \<le> fails (env s)" "position s3 = fromRemote st" "stored (env s3) = fromRemote st" "no_gaps s3"
      "delivered log s3 = delivered log s @ messages b" using said[of b st] UpdatesDifferenceSlice by auto
    with step show ?thesis by (intro exI[of _ s3]) (simp add: UpdatesDifferenceSlice answer_messages_def)
  next
    case (UpdatesDifferenceTooLong p)
    obtain w where w: "SetPts (storage D) (selfID D) p (env s1) = (Inr (), w)" "ready w" "log w = log (env s1)"
      "stored w = (stored (env s1))\<lparr>Pts := p\<rparr>" "fails w = fails (env s1)" using stores_pts[OF s1(1)] by blast
    show ?thesis
      using step w 1(4) s1 d1
      by (intro exI[of _ "s1\<lparr>env := w, pts := SetState p (pts s1)\<rparr>"])
        (simp add: UpdatesDifferenceTooLong andThen_def logged_def out_def modify_def answer_messages_def delivered_def
          position_def no_gaps_def)
  qed
qed

text \<open>The request, whatever comes of it, and the two refusals: by the server and by the handler.\<close>

lemma asked:
  assumes "ready (env s)" "fails (env s) < n" "ans (Pts (position s)) (Qts (position s)) (Date (position s)) = a"
    and "\<forall>e. a = Inl e \<longrightarrow> isFatalError e"
  shows "\<exists>s1. getDifferenceWithRetry n D (date s) (clear_gaps s) = (a, s1) \<and> ready (env s1) \<and> position s1 = position s \<and>
    stored (env s1) = stored (env s) \<and> no_gaps s1 \<and> delivered log s1 = delivered log s"
proof -
  let ?c = "clear_gaps s"
  have "ans (state (pts ?c)) (state (qts ?c)) (date ?c) = a" using assms(3) by (simp add: position_def clear_gaps_def)
  with retry_ok[of ?c n "date ?c"] assms(1,2,4) obtain s1 where
    1: "getDifferenceWithRetry n D (date s) ?c = (a, s1)" "same_but ready stored ?c s1" "log (env s1) = log (env s)"
    by auto
  show ?thesis using 1(1,3) same_but_same[OF 1(2), simplified] by (simp add: delivered_def)
qed

lemma refusal_step:
  assumes "ready (env s)" "fails (env s) < n" "ans (Pts (position s)) (Qts (position s)) (Date (position s)) = a"
    and "(a = Inl e \<and> isFatalError e) \<or> (\<exists>x. a = Inr x \<and> no_others x \<and> refused refusal x = Some e)"
  shows "\<exists>s'. getDifference D (Suc n) s = (Inl e, s') \<and> position s' = position s \<and> stored (env s') = stored (env s) \<and>
    no_gaps s' \<and> delivered log s' = delivered log s"
proof -
  from assms obtain s1 where 1: "getDifferenceWithRetry n D (date s) (clear_gaps s) = (a, s1)" "ready (env s1)"
    "position s1 = position s" "stored (env s1) = stored (env s)" "no_gaps s1" "delivered log s1 = delivered log s"
    using asked[OF assms(1-3)] by auto
  from assms(4) show ?thesis
  proof (elim disjE exE conjE)
    assume "a = Inl e"
    then show ?thesis using 1 by (intro exI[of _ s1]) (simp add: getDifference.simps(2) andThen_def modify_def)
  next
    fix x assume x: "a = Inr x" "no_others x" "refused refusal x = Some e"
    then obtain b where b: "answer_body x = Some b" "messages b \<noteq> []" "refusal (batch b) = Some e" "OtherUpdates b = []"
      by (auto simp: refused_def no_others_def split: option.splits if_splits)
    obtain s2 where 2: "deliverMessages D b s1 = (Inl e, s2)" "same_but ready stored s1 s2" "delivered log s2 = delivered log s1"
      using deliverMessages_refused[OF 1(2) b(2,3)] by blast
    have "getDifference D (Suc n) s = (Inl e, s2)"
      using b 1(1) x(1) 2(1) by (cases x) (simp_all add: getDifference.simps(2) andThen_def modify_def ret_def)
    then show ?thesis using 1 2(3) same_but_same[OF 2(2)] by auto
  qed
qed

lemma catches_up:
  "answers ans refusal (position s) xs r \<Longrightarrow> ready (env s) \<Longrightarrow> length xs + fails (env s) + 2 \<le> n \<Longrightarrow>
   \<exists>s'. getDifference D n s = (r, s') \<and> position s' = fold moved xs (position s) \<and> stored (env s') = fold moved xs (stored (env s)) \<and>
    no_gaps s' \<and> delivered log s' = delivered log s @ concat (map answer_messages xs)"
proof (induction xs arbitrary: s n)
  case Nil
  then obtain m where n: "n = Suc m" "fails (env s) < m" by (cases n) auto
  from Nil.prems(1) obtain e where "r = Inl e" "let a = ans (Pts (position s)) (Qts (position s)) (Date (position s)) in
      (a = Inl e \<and> isFatalError e) \<or> (\<exists>x. a = Inr x \<and> no_others x \<and> refused refusal x = Some e)"
    by (auto simp: Let_def split: sum.splits option.splits)
  then show ?case using refusal_step[OF Nil.prems(2) n(2) refl, of e] n(1) by (auto simp: Let_def)
next
  case (Cons x xs)
  from Cons.prems(3) obtain m where n: "n = Suc m" "fails (env s) < m" by (cases n) auto
  have a: "ans (Pts (position s)) (Qts (position s)) (Date (position s)) = Inr x"
    "no_others x" "refused refusal x = None" using Cons.prems(1) by auto
  obtain s1 where 1: "getDifference D (Suc m) s = (if is_last x then (Inr (), s1) else getDifference D m s1)" "ready (env s1)"
    "fails (env s1) \<le> fails (env s)" "position s1 = moved x (position s)" "stored (env s1) = moved x (stored (env s))"
    "no_gaps s1" "delivered log s1 = delivered log s @ answer_messages x"
    using answer_step[OF Cons.prems(2) n(2) a] by blast
  show ?case
  proof (cases "is_last x")
    case True
    then show ?thesis using 1 n Cons.prems(1) by (intro exI[of _ s1]) simp
  next
    case False
    then have "answers ans refusal (position s1) xs r" "length xs + fails (env s1) + 2 \<le> m" using 1(3,4) n Cons.prems(1,3) by auto
    from Cons.IH[OF this(1) 1(2) this(2)] show ?thesis using False 1 n by auto
  qed
qed

end

text \<open>The example: the in-memory stores, a server that fails while \<open>script\<close> has entries left and then
  answers by the position, and a handler that refuses what \<open>refusal\<close> says.\<close>

definition flood0 :: Error where
  "flood0 = \<lparr>Code = 420, Message = ''FLOOD_WAIT_3'', Type = ''FLOOD_WAIT'', Argument = 3\<rparr>"

definition asking :: "(int \<Rightarrow> int \<Rightarrow> int \<Rightarrow> uerr + 'x UpdatesDifferenceClass) \<Rightarrow> ('x Updates \<Rightarrow> uerr option) \<Rightarrow>
    ('x world, 'x) deps \<Rightarrow> ('x world, 'x) deps" where
  "asking ans refusal D = D\<lparr>handler_Handle := \<lambda>u w. case refusal u of None \<Rightarrow> handler_Handle D u w | Some e \<Rightarrow> (Inl e, w),
   UpdatesGetDifference := \<lambda>p q d w. case script w of
     [] \<Rightarrow> (ans p q d, w)
   | _ # rest \<Rightarrow> (Inl (Rpc flood0), w\<lparr>script := rest\<rparr>)\<rparr>"

lemma flood_not_fatal: "\<not> isFatalError (Rpc flood0)"
  by (simp add: isFatalError_def flood0_def IsOneOf_def IsType_def IsCodeOneOf_def IsCode_def)

definition mem_state :: "int \<Rightarrow> 'x world \<Rightarrow> State" where "mem_state self w = the (states (store w) self)"

lemma mem_ready_setter:
  assumes "mem_ready self w" "setter mem_ok states mem_chan op f"
  shows "\<exists>w'. at_store (op self) w = (Inr (), w') \<and> mem_ready self w' \<and> handled w' = handled w \<and>
    mem_state self w' = f (mem_state self w) \<and> script w' = script (w :: 'x world)"
proof -
  obtain st where st: "states (store w) self = Some st" "mem_ok (store w)" using assms(1) by (auto simp: mem_ready_def)
  from assms(2) have "case states (store w) self of None \<Rightarrow> \<exists>e. op self (store w) = (Inl e, store w)
    | Some st \<Rightarrow> \<exists>w'. op self (store w) = (Inr (), w') \<and> mem_ok w' \<and> states w' = (states (store w))(self \<mapsto> f st) \<and> mem_chan w' = mem_chan (store w)"
    using st(2) unfolding setter_def by blast
  with st show ?thesis by (auto simp: at_store_def mem_ready_def mem_state_def)
qed

interpretation mem_diff: diff_env "asking ans refusal (memDeps self)" handled "mem_ready self" "mem_state self" "\<lambda>w. length (script w)" ans refusal
  for ans refusal and self :: int
proof unfold_locales
  fix w :: "'a world" and u st q d p t
  let ?D = "asking ans refusal (memDeps self)"
  have m: "SetPts memStorage = mem_SetPts" "SetDateSeq memStorage = mem_SetDateSeq" by (simp_all add: memStorage_def)
  assume r: "mem_ready self w"
  show "\<exists>w'. handler_Handle ?D u w = (case refusal u of None \<Rightarrow> Inr () | Some e \<Rightarrow> Inl e, w') \<and> mem_ready self w' \<and>
      handled w' = (if refusal u = None then handled w @ [u] else handled w) \<and>
      mem_state self w' = mem_state self w \<and> length (script w') = length (script w)"
    using r by (cases "refusal u") (simp_all add: asking_def memDeps_def mem_ready_def mem_state_def)
  show "\<exists>w'. PutState (storage ?D) (selfID ?D) st w = (Inr (), w') \<and> mem_ready self w' \<and> handled w' = handled w \<and>
      mem_state self w' = st \<and> length (script w') = length (script w)"
    using r by (auto simp: asking_def memDeps_def at_store_def mem_SetState_def withLock_def mem_ready_def mem_ok_def mem_state_def)
  show "\<exists>w'. SetPts (storage ?D) (selfID ?D) q w = (Inr (), w') \<and> mem_ready self w' \<and> handled w' = handled w \<and>
      mem_state self w' = (mem_state self w)\<lparr>Pts := q\<rparr> \<and> length (script w') = length (script w)"
    using mem_ready_setter[OF r mem_storage.set_pts[of q]] by (fastforce simp: asking_def memDeps_def m)
  show "\<exists>w'. SetDateSeq (storage ?D) (selfID ?D) d q w = (Inr (), w') \<and> mem_ready self w' \<and> handled w' = handled w \<and>
      mem_state self w' = (mem_state self w)\<lparr>Date := d, Seq := q\<rparr> \<and> length (script w') = length (script w)"
    using mem_ready_setter[OF r mem_storage.set_date_seq[of d q]] by (fastforce simp: asking_def memDeps_def m)
  show "\<exists>r' w'. UpdatesGetDifference ?D p q d w = (r', w') \<and> mem_ready self w' \<and> handled w' = handled w \<and> mem_state self w' = mem_state self w \<and>
      (r' = ans p q d \<and> length (script w') = length (script w) \<or> (\<exists>e. r' = Inl e \<and> \<not> isFatalError e) \<and> length (script w') < length (script w))"
    using r flood_not_fatal by (cases "script w") (auto simp: asking_def mem_ready_def mem_state_def)
  show "\<exists>w'. sleep ?D t w = (Inr (), w') \<and> mem_ready self w' \<and> handled w' = handled w \<and> mem_state self w' = mem_state self w \<and>
      length (script w') = length (script w)"
    using r by (simp add: asking_def memDeps_def)
qed

text \<open>C2: \<open>getDifference\<close> catches up.  Let the server answer each request by the position in it, with new
  messages but without other updates: asked from the position of the account and then from where each
  answer leads, it gives the answers \<open>xs\<close>, which the handler takes; and then the last of them ends, or the server
  refuses for good, or the handler refuses the messages of the next answer.  Let the server fail a number of times in
  between, and the storage store.  Given fuel for the answers and the failures, \<open>getDifference\<close>
  returns, or fails with that refusal; the handler has taken the new messages of the answers in order, and of no
  other, the position in memory and the stored one are where these answers led, so that the next call asks
  for what was refused, and no gap is left.\<close>

theorem getDifference_catches_up:
  assumes "diff_env D log ready stored fails ans refusal" "answers ans refusal (position s) xs r" "ready (env s)"
    and "length xs + fails (env s) + 2 \<le> n"
  shows "\<exists>s'. getDifference D n s = (r, s') \<and> delivered log s' = delivered log s @ concat (map answer_messages xs) \<and>
    position s' = fold moved xs (position s) \<and> stored (env s') = fold moved xs (stored (env s)) \<and> no_gaps s'"
  using diff_env.catches_up[OF assms] by blast

definition diff_body0 :: "nat MessageClass list \<Rightarrow> nat list \<Rightarrow> nat diff_body" where
  "diff_body0 ms es = \<lparr>NewMessages = ms, NewEncryptedMessages = es, OtherUpdates = [], DChats = [], DUsers = []\<rparr>"

definition ans0 :: "int \<Rightarrow> int \<Rightarrow> int \<Rightarrow> uerr + nat UpdatesDifferenceClass" where
  "ans0 p q d =
     (if p = 10 then Inr (UpdatesDifferenceTooLong 15)
      else if p = 15 then Inr (UpdatesDifferenceSlice (diff_body0 [MessageEmpty 1 None] []) \<lparr>rPts = 20, rQts = 4, rDate = 200, rSeq = 2\<rparr>)
      else if p = 20 \<and> q = 4 \<and> d = 200 then Inr (UpdatesDifference (diff_body0 [] [8]) \<lparr>rPts = 21, rQts = 5, rDate = 201, rSeq = 2\<rparr>)
      else Inl ErrKeyFingerprintNotFound)"

text \<open>A handler that refuses whatever has a message of the secret chats.\<close>

definition refusal0 :: "nat Updates \<Rightarrow> uerr option" where
  "refusal0 u = (if Upds u = [UpdateNewEncryptedMessage 8 (-1)] then Some ContextCanceled else None)"

theorem getDifference_catches_up_witness:
  "(\<exists>s'. getDifference (asking ans0 (\<lambda>_. None) (memDeps 7)) 7 ((newState state0 [] [] (world0 7 state0))\<lparr>env := (world0 7 state0)\<lparr>script :=
      [UpdatesDifferenceTooLong 0, UpdatesDifferenceTooLong 0]\<rparr>\<rparr>) = (Inr (), s') \<and>
    position s' = \<lparr>Pts = 21, Qts = 5, Date = 201, Seq = 2\<rparr> \<and> mem_state 7 (env s') = position s' \<and>
    delivered handled s' = [UpdateNewMessage (MessageEmpty 1 None) (-1) (-1), UpdateNewEncryptedMessage 8 (-1)]) \<and>
   (\<exists>s'. getDifference (asking ans0 refusal0 (memDeps 7)) 6 ((newState state0 [] [] (world0 7 state0))\<lparr>env := (world0 7 state0)\<lparr>script :=
      [UpdatesDifferenceTooLong 0, UpdatesDifferenceTooLong 0]\<rparr>\<rparr>) = (Inl ContextCanceled, s') \<and>
    position s' = \<lparr>Pts = 20, Qts = 4, Date = 200, Seq = 2\<rparr> \<and> mem_state 7 (env s') = position s' \<and>
    delivered handled s' = [UpdateNewMessage (MessageEmpty 1 None) (-1) (-1)])"
proof -
  let ?s = "(newState state0 [] [] (world0 7 state0))\<lparr>env := (world0 7 state0)\<lparr>script :=
      [UpdatesDifferenceTooLong 0, UpdatesDifferenceTooLong 0]\<rparr>\<rparr> :: (nat world, nat) internalState"
  let ?xs = "[UpdatesDifferenceTooLong 15, UpdatesDifferenceSlice (diff_body0 [MessageEmpty 1 None] []) \<lparr>rPts = 20, rQts = 4, rDate = 200, rSeq = 2\<rparr>]"
  let ?ys = "?xs @ [UpdatesDifference (diff_body0 [] [8]) \<lparr>rPts = 21, rQts = 5, rDate = 201, rSeq = 2\<rparr>]"
  have p: "position ?s = \<lparr>Pts = 10, Qts = 3, Date = 100, Seq = 1\<rparr>"
    by (simp add: position_def newState_def state0_def newSequenceBox_def)
  note unfold = p ans0_def fromRemote_def diff_body0_def no_others_def refused_def messages_def msgsToUpdates_def
    encryptedMsgsToUpdates_def batch_def refusal0_def
  have a: "answers ans0 (\<lambda>_. None) (position ?s) ?ys (Inr ())" "answers ans0 refusal0 (position ?s) ?xs (Inl ContextCanceled)"
    by (simp_all add: unfold)
  have r: "mem_ready 7 (env ?s)" by (simp add: mem_ready_def mem_ok_def world0_def)
  have d: "delivered handled ?s = []" by (simp add: delivered_def world0_def)
  note read = answer_messages_def messages_def msgsToUpdates_def encryptedMsgsToUpdates_def diff_body0_def fromRemote_def
  from getDifference_catches_up[OF mem_diff.diff_env_axioms a(1) r, of 7] have
    "\<exists>s'. getDifference (asking ans0 (\<lambda>_. None) (memDeps 7)) 7 ?s = (Inr (), s') \<and>
      position s' = \<lparr>Pts = 21, Qts = 5, Date = 201, Seq = 2\<rparr> \<and> mem_state 7 (env s') = position s' \<and>
      delivered handled s' = [UpdateNewMessage (MessageEmpty 1 None) (-1) (-1), UpdateNewEncryptedMessage 8 (-1)]"
    unfolding d p by (auto simp: read)
  moreover from getDifference_catches_up[OF mem_diff.diff_env_axioms a(2) r, of 6] have
    "\<exists>s'. getDifference (asking ans0 refusal0 (memDeps 7)) 6 ?s = (Inl ContextCanceled, s') \<and>
      position s' = \<lparr>Pts = 20, Qts = 4, Date = 200, Seq = 2\<rparr> \<and> mem_state 7 (env s') = position s' \<and>
      delivered handled s' = [UpdateNewMessage (MessageEmpty 1 None) (-1) (-1)]"
    unfolding d p by (auto simp: read)
  ultimately show ?thesis by blast
qed

section \<open>A channel\<close>

definition chan_messages :: "'x diff_body \<Rightarrow> 'x UpdateClass list" where
  "chan_messages b = msgsToUpdates (NewMessages b) True"

definition chan_others :: "'x diff_body \<Rightarrow> 'x UpdatesClass list" where
  "chan_others b = (if OtherUpdates b \<noteq> [] then [TgUpdates (OtherUpdates b) (DUsers b) (DChats b) 0 0] else [])"

text \<open>Where an answer moves the position to, whether it is the last, and its new messages and other updates.\<close>

primrec chan_moved :: "'x ChannelDifferenceClass \<Rightarrow> int \<Rightarrow> int" where
  "chan_moved (ChannelDifference b p t final) q = p"
| "chan_moved (ChannelDifferenceEmpty p t) q = p"
| "chan_moved (ChannelDifferenceTooLong dialog t) q = (case getDialogPts dialog of None \<Rightarrow> q | Some p \<Rightarrow> p)"

primrec chan_last :: "'x ChannelDifferenceClass \<Rightarrow> bool" where
  "chan_last (ChannelDifference b p t final) = final"
| "chan_last (ChannelDifferenceEmpty p t) = True"
| "chan_last (ChannelDifferenceTooLong dialog t) = True"

primrec chan_answer_messages :: "'x ChannelDifferenceClass \<Rightarrow> 'x UpdateClass list" where
  "chan_answer_messages (ChannelDifference b p t final) = chan_messages b"
| "chan_answer_messages (ChannelDifferenceEmpty p t) = []"
| "chan_answer_messages (ChannelDifferenceTooLong dialog t) = []"

primrec chan_answer_others :: "'x ChannelDifferenceClass \<Rightarrow> 'x UpdatesClass list" where
  "chan_answer_others (ChannelDifference b p t final) = chan_others b"
| "chan_answer_others (ChannelDifferenceEmpty p t) = []"
| "chan_answer_others (ChannelDifferenceTooLong dialog t) = []"

text \<open>An error that does not mean that the channel is lost.\<close>

definition still_visible :: "uerr \<Rightarrow> bool" where
  "still_visible e \<longleftrightarrow> \<not> IsOneOf (case e of Rpc e \<Rightarrow> Some e | _ \<Rightarrow> None) [''CHANNEL_PRIVATE'', ''CHANNEL_INVALID'']"

text \<open>What the handler is given of an answer, and the error with which it refuses it, if it does.\<close>

definition chan_batch :: "'x diff_body \<Rightarrow> 'x Updates" where
  "chan_batch b = \<lparr>Upds = msgsToUpdates (NewMessages b) True, UUsers = DUsers b, UChats = DChats b\<rparr>"

fun chan_refused :: "('x Updates \<Rightarrow> uerr option) \<Rightarrow> 'x ChannelDifferenceClass \<Rightarrow> uerr option" where
  "chan_refused refusal (ChannelDifference b p t final) = (if NewMessages b = [] then None else refusal (chan_batch b))"
| "chan_refused refusal _ = None"

text \<open>\<open>chan_answers ans refusal p xs r us\<close>: from position \<open>p\<close> on the server gives \<open>xs\<close>, none of which the handler
  refuses; then the last of them ends, or the server fails, or its next answer is one that the handler
  refuses, whose other updates are \<open>us\<close>.\<close>

fun chan_answers :: "(int \<Rightarrow> uerr + 'x ChannelDifferenceClass) \<Rightarrow> ('x Updates \<Rightarrow> uerr option) \<Rightarrow> int \<Rightarrow>
    'x ChannelDifferenceClass list \<Rightarrow> uerr + unit \<Rightarrow> 'x UpdatesClass list \<Rightarrow> bool" where
  "chan_answers ans refusal p [] r us \<longleftrightarrow> (case ans p of
     Inl e \<Rightarrow> still_visible e \<and> r = Inl e \<and> us = []
   | Inr x \<Rightarrow> us = chan_answer_others x \<and> (case chan_refused refusal x of None \<Rightarrow> False | Some e \<Rightarrow> r = Inl e))"
| "chan_answers ans refusal p (x # xs) r us \<longleftrightarrow> ans p = Inr x \<and> chan_refused refusal x = None \<and>
     (if chan_last x then xs = [] \<and> r = Inr () \<and> us = [] else chan_answers ans refusal (chan_moved x p) xs r us)"

text \<open>The contract: the handler takes what it is given or refuses it with an error, the callback accepts, the
  storage stores, the clock may go as it likes and the wait ends, and the server answers by \<open>ans\<close>.\<close>

locale chan_diff_env =
  fixes D :: "('w, 'x) channelDeps"
    and log :: "'w \<Rightarrow> 'x Updates list"
    and ready :: "'w \<Rightarrow> bool"
    and stored :: "'w \<Rightarrow> int"
    and ans :: "int \<Rightarrow> uerr + 'x ChannelDifferenceClass"
    and refusal :: "'x Updates \<Rightarrow> uerr option"
  assumes handles: "ready w \<Longrightarrow> \<exists>w'. handler_Handle D u w = (case refusal u of None \<Rightarrow> Inr () | Some e \<Rightarrow> Inl e, w') \<and>
      ready w' \<and> log w' = (if refusal u = None then log w @ [u] else log w) \<and> stored w' = stored w"
    and stores: "ready w \<Longrightarrow> \<exists>w'. SetChannelPts (storage D) (selfID D) (channelID D) p w = (Inr (), w') \<and> ready w' \<and> log w' = log w \<and> stored w' = p"
    and serves: "ready w \<Longrightarrow> \<exists>w'. UpdatesGetChannelDifference D (channelID D) (accessHash D) p (diffLim D) w = (ans p, w') \<and>
      ready w' \<and> log w' = log w \<and> stored w' = stored w"
    and ticks: "ready w \<Longrightarrow> \<exists>t w'. clock_Now D w = (Inr t, w') \<and> ready w' \<and> log w' = log w \<and> stored w' = stored w"
    and waits: "ready w \<Longrightarrow> \<exists>k w'. diffWait D t w = (Inr k, w') \<and> ready w' \<and> log w' = log w \<and> stored w' = stored w"
    and tells: "ready w \<Longrightarrow> \<exists>w'. onTooLong D (channelID D) w = (Inr (), w') \<and> ready w' \<and> log w' = log w \<and> stored w' = stored w"

text \<open>What a wait or a clock reading keeps.\<close>

definition chan_same :: "('w \<Rightarrow> 'x Updates list) \<Rightarrow> ('w \<Rightarrow> bool) \<Rightarrow> ('w \<Rightarrow> int) \<Rightarrow> ('w, 'x) channelState \<Rightarrow> ('w, 'x) channelState \<Rightarrow> bool" where
  "chan_same log ready stored s s' \<longleftrightarrow> ready (world s') \<and> log (world s') = log (world s) \<and> stored (world s') = stored (world s) \<and>
     chanPts s' = chanPts s \<and> sent s' = sent s"

context chan_diff_env
begin

lemma wait_ok:
  assumes "ready (world s)"
  shows "\<exists>s'. chan_wait D s = (Inr (), s') \<and> chan_same log ready stored s s'"
proof -
  obtain t w1 where 1: "clock_Now D (world s) = (Inr t, w1)" "ready w1" "log w1 = log (world s)" "stored w1 = stored (world s)"
    using ticks[OF assms] by blast
  obtain k w2 where 2: "diffWait D (diffTimeout s - t) w1 = (Inr k, w2)" "ready w2" "log w2 = log w1" "stored w2 = stored w1"
    using waits[OF 1(2)] by blast
  show ?thesis
    using 1 2 by (cases "t < diffTimeout s") (simp_all add: chan_wait_def at_world_def andThen_def modify_def chan_same_def)
qed

lemma timeout_ok:
  assumes "ready (world s)"
  shows "\<exists>s'. chan_setTimeout D t s = (Inr (), s') \<and> chan_same log ready stored s s'"
  using ticks[OF assms] assms
  by (cases t) (auto simp: chan_setTimeout_def ret_def at_world_def andThen_def modify_def chan_same_def)

lemma store_ok:
  assumes "ready (world s)"
  shows "\<exists>w. chan_store D p s = (Inr (), s\<lparr>world := w, chanPts := SetState p (chanPts s)\<rparr>) \<and> ready w \<and> log w = log (world s) \<and> stored w = p"
  using stores[OF assms, of p] by (auto simp: chan_store_def logged_def at_world_def andThen_def modify_def)

lemma fetch_ok:
  assumes "ready (world s)"
  shows "\<exists>s'. chan_same log ready stored s s' \<and>
    (case ans (state (chanPts s)) of Inr x \<Rightarrow> chan_fetch D s = (Inr x, s') | Inl e \<Rightarrow> still_visible e \<longrightarrow> chan_fetch D s = (Inl e, s'))"
proof -
  obtain w where w: "UpdatesGetChannelDifference D (channelID D) (accessHash D) (state (chanPts s)) (diffLim D) (world s) =
      (ans (state (chanPts s)), w)" "ready w" "log w = log (world s)" "stored w = stored (world s)"
    using serves[OF assms] by blast
  then show ?thesis
    by (intro exI[of _ "s\<lparr>world := w\<rparr>"])
      (auto simp: chan_fetch_def at_world_def chan_same_def still_visible_def split: sum.split)
qed

definition chan_deliver :: "'x diff_body \<Rightarrow> ('w, 'x, unit) cprog" where
  "chan_deliver b = (if NewMessages b \<noteq> [] then at_world (handler_Handle D
     \<lparr>Upds = msgsToUpdates (NewMessages b) True, UUsers = DUsers b, UChats = DChats b\<rparr>) else ret ())"

lemma deliver_ok:
  assumes "ready (world s)" "NewMessages b \<noteq> [] \<longrightarrow> refusal (chan_batch b) = None"
  shows "\<exists>w. chan_deliver b s = (Inr (), s\<lparr>world := w\<rparr>) \<and> ready w \<and> stored w = stored (world s) \<and>
    concat (map Upds (log w)) = chan_delivered log s @ chan_messages b"
proof (cases "NewMessages b = []")
  case True
  then show ?thesis
    using assms by (intro exI[of _ "world s"]) (simp add: chan_deliver_def ret_def chan_delivered_def chan_messages_def msgsToUpdates_def)
next
  case False
  then show ?thesis
    using handles[OF assms(1), of "chan_batch b"] assms(2)
    by (auto simp: chan_deliver_def chan_batch_def at_world_def chan_delivered_def chan_messages_def)
qed

lemma deliver_refused:
  assumes "ready (world s)" "NewMessages b \<noteq> []" "refusal (chan_batch b) = Some e"
  shows "\<exists>w. chan_deliver b s = (Inl e, s\<lparr>world := w\<rparr>) \<and> stored w = stored (world s) \<and> log w = log (world s)"
  using handles[OF assms(1), of "chan_batch b"] assms(2,3)
  by (auto simp: chan_deliver_def chan_batch_def at_world_def)

text \<open>The request: gaps closed, the wait for the last timeout over.\<close>

lemma request_ok:
  assumes "ready (world s)"
  shows "\<exists>s'. ready (world s') \<and> chan_delivered log s' = chan_delivered log s \<and> stored (world s') = stored (world s) \<and>
    state (chanPts s') = state (chanPts s) \<and> gaps (chanPts s') = [] \<and> sent s' = sent s \<and>
    (\<forall>rest :: 'x ChannelDifferenceClass \<Rightarrow> ('w, 'x, unit) cprog. case ans (state (chanPts s)) of
      Inr x \<Rightarrow> andThen (modify (\<lambda>s. s\<lparr>chanPts := (chanPts s)\<lparr>gaps := Clear (gaps (chanPts s))\<rparr>\<rparr>)) (\<lambda>_.
          andThen (chan_wait D) (\<lambda>_. andThen (chan_fetch D) rest)) s = rest x s'
    | Inl e \<Rightarrow> still_visible e \<longrightarrow> andThen (modify (\<lambda>s. s\<lparr>chanPts := (chanPts s)\<lparr>gaps := Clear (gaps (chanPts s))\<rparr>\<rparr>)) (\<lambda>_.
          andThen (chan_wait D) (\<lambda>_. andThen (chan_fetch D) rest)) s = (Inl e, s'))"
proof -
  let ?c = "s\<lparr>chanPts := (chanPts s)\<lparr>gaps := []\<rparr>\<rparr>"
  obtain s1 where 1: "chan_wait D ?c = (Inr (), s1)" "chan_same log ready stored ?c s1" using wait_ok[of ?c] assms by auto
  then have "ready (world s1)" by (simp add: chan_same_def)
  from fetch_ok[OF this] obtain s2 where 2: "chan_same log ready stored s1 s2"
    "case ans (state (chanPts s1)) of Inr x \<Rightarrow> chan_fetch D s1 = (Inr x, s2) | Inl e \<Rightarrow> still_visible e \<longrightarrow> chan_fetch D s1 = (Inl e, s2)"
    by blast
  have "state (chanPts s1) = state (chanPts s)" using 1(2) by (simp add: chan_same_def)
  then show ?thesis
    using 1 2 by (intro exI[of _ s2])
      (auto simp: chan_same_def chan_delivered_def andThen_def modify_def Clear_def split: sum.splits)
qed

text \<open>A difference, up to whether more are asked for.\<close>

lemma difference_ok:
  assumes "ready (world s)" "NewMessages b \<noteq> [] \<longrightarrow> refusal (chan_batch b) = None"
  shows "\<exists>s'. ready (world s') \<and> chan_delivered log s' = chan_delivered log s @ chan_messages b \<and> stored (world s') = p \<and>
    state (chanPts s') = p \<and> gaps (chanPts s') = gaps (chanPts s) \<and> sent s' = sent s @ chan_others b \<and>
    (\<forall>rest :: unit \<Rightarrow> ('w, 'x, unit) cprog. andThen (modify (\<lambda>s. if OtherUpdates b \<noteq> []
             then s\<lparr>sent := sent s @ [TgUpdates (OtherUpdates b) (DUsers b) (DChats b) 0 0]\<rparr> else s)) (\<lambda>_.
         andThen (chan_deliver b) (\<lambda>_.
         andThen (chan_store D p) (\<lambda>_. andThen (chan_setTimeout D t) rest))) s = rest () s')"
proof -
  let ?s1 = "s\<lparr>sent := sent s @ chan_others b\<rparr>"
  obtain w where w: "chan_deliver b ?s1 = (Inr (), ?s1\<lparr>world := w\<rparr>)" "ready w" "concat (map Upds (log w)) = chan_delivered log s @ chan_messages b"
    using deliver_ok[of ?s1 b, OF _ assms(2)] assms(1) by (auto simp: chan_delivered_def)
  obtain w' where w': "chan_store D p (?s1\<lparr>world := w\<rparr>) = (Inr (), ?s1\<lparr>world := w', chanPts := SetState p (chanPts s)\<rparr>)" "ready w'"
    "log w' = log w" "stored w' = p"
    using store_ok[of "?s1\<lparr>world := w\<rparr>" p] w(2) by auto
  obtain s2 where s2: "chan_setTimeout D t (?s1\<lparr>world := w', chanPts := SetState p (chanPts s)\<rparr>) = (Inr (), s2)"
    "chan_same log ready stored (?s1\<lparr>world := w', chanPts := SetState p (chanPts s)\<rparr>) s2"
    using timeout_ok[of "?s1\<lparr>world := w', chanPts := SetState p (chanPts s)\<rparr>" t] w'(2) by auto
  have "modify (\<lambda>s. if OtherUpdates b \<noteq> []
       then s\<lparr>sent := sent s @ [TgUpdates (OtherUpdates b) (DUsers b) (DChats b) 0 0]\<rparr> else s) s = (Inr (), ?s1)"
    by (simp add: modify_def chan_others_def)
  note run = this w(1) w'(1) s2(1)
  show ?thesis
    using w(3) w'(2-4) s2(2) by (intro exI[of _ s2]) (simp only: andThen_Inr run, simp add: chan_same_def chan_delivered_def)
qed

lemma chan_step:
  assumes "ready (world s)" "ans (state (chanPts s)) = Inr x" "chan_refused refusal x = None"
  shows "\<exists>s'. chan_getDifference D (Suc n) s = (if chan_last x then (Inr (), s') else chan_getDifference D n s') \<and>
    ready (world s') \<and> state (chanPts s') = chan_moved x (state (chanPts s)) \<and> stored (world s') = chan_moved x (stored (world s)) \<and>
    gaps (chanPts s') = [] \<and> chan_delivered log s' = chan_delivered log s @ chan_answer_messages x \<and>
    sent s' = sent s @ chan_answer_others x"
proof -
  obtain s1 where 1: "ready (world s1)" "chan_delivered log s1 = chan_delivered log s" "stored (world s1) = stored (world s)"
    "state (chanPts s1) = state (chanPts s)" "gaps (chanPts s1) = []" "sent s1 = sent s"
    "\<And>rest :: 'x ChannelDifferenceClass \<Rightarrow> ('w, 'x, unit) cprog. andThen (modify (\<lambda>s. s\<lparr>chanPts := (chanPts s)\<lparr>gaps := Clear (gaps (chanPts s))\<rparr>\<rparr>)) (\<lambda>_.
          andThen (chan_wait D) (\<lambda>_. andThen (chan_fetch D) rest)) s = rest x s1"
    using request_ok[OF assms(1)] unfolding assms(2) sum.case by blast
  show ?thesis
  proof (cases x)
    case (ChannelDifference b p t final)
    have takes: "NewMessages b \<noteq> [] \<longrightarrow> refusal (chan_batch b) = None" using assms(3) ChannelDifference by auto
    from difference_ok[OF 1(1) takes, of p t] obtain s2 where "ready (world s2)"
      "chan_delivered log s2 = chan_delivered log s1 @ chan_messages b" "stored (world s2) = p" "state (chanPts s2) = p"
      "gaps (chanPts s2) = gaps (chanPts s1)" "sent s2 = sent s1 @ chan_others b"
      "\<And>rest :: unit \<Rightarrow> ('w, 'x, unit) cprog. andThen (modify (\<lambda>s. if OtherUpdates b \<noteq> []
             then s\<lparr>sent := sent s @ [TgUpdates (OtherUpdates b) (DUsers b) (DChats b) 0 0]\<rparr> else s)) (\<lambda>_.
         andThen (chan_deliver b) (\<lambda>_.
         andThen (chan_store D p) (\<lambda>_. andThen (chan_setTimeout D t) rest))) s1 = rest () s2" by blast
    moreover have "chan_getDifference D (Suc n) s = (if \<not> final then chan_getDifference D n else ret ()) s2"
      unfolding chan_getDifference.simps(2) 1(7) ChannelDifference ChannelDifferenceClass.case chan_deliver_def[symmetric]
      using calculation(7) by blast
    ultimately show ?thesis using 1(1-6) by (intro exI[of _ s2]) (simp add: ChannelDifference ret_def)
  next
    case (ChannelDifferenceEmpty p t)
    obtain w where w: "chan_store D p s1 = (Inr (), s1\<lparr>world := w, chanPts := SetState p (chanPts s1)\<rparr>)" "ready w"
      "log w = log (world s1)" "stored w = p" using store_ok[OF 1(1)] by blast
    obtain s2 where "chan_setTimeout D t (s1\<lparr>world := w, chanPts := SetState p (chanPts s1)\<rparr>) = (Inr (), s2)"
      "chan_same log ready stored (s1\<lparr>world := w, chanPts := SetState p (chanPts s1)\<rparr>) s2"
      using timeout_ok[of "s1\<lparr>world := w, chanPts := SetState p (chanPts s1)\<rparr>" t] w(2) by auto
    with w 1(1-6) show ?thesis
      by (intro exI[of _ s2]) (unfold chan_getDifference.simps(2) 1(7), simp add: ChannelDifferenceEmpty chan_same_def chan_delivered_def)
  next
    case (ChannelDifferenceTooLong dialog t)
    obtain s2 where 2: "chan_setTimeout D t s1 = (Inr (), s2)" "chan_same log ready stored s1 s2" using timeout_ok[OF 1(1)] by blast
    have r2: "ready (world s2)" using 2(2) by (simp add: chan_same_def)
    have "\<exists>s3. (case getDialogPts dialog of None \<Rightarrow> ret () | Some q \<Rightarrow> chan_store D q) s2 = (Inr (), s3) \<and> ready (world s3) \<and>
      log (world s3) = log (world s2) \<and> stored (world s3) = chan_moved x (stored (world s2)) \<and>
      state (chanPts s3) = chan_moved x (state (chanPts s2)) \<and> gaps (chanPts s3) = gaps (chanPts s2) \<and> sent s3 = sent s2"
      using r2 store_ok[OF r2] by (cases "getDialogPts dialog") (fastforce simp: ChannelDifferenceTooLong ret_def)+
    then obtain s3 where 3: "(case getDialogPts dialog of None \<Rightarrow> ret () | Some q \<Rightarrow> chan_store D q) s2 = (Inr (), s3)" "ready (world s3)"
      "log (world s3) = log (world s2)" "stored (world s3) = chan_moved x (stored (world s2))"
      "state (chanPts s3) = chan_moved x (state (chanPts s2))" "gaps (chanPts s3) = gaps (chanPts s2)" "sent s3 = sent s2"
      by blast
    obtain w where w: "onTooLong D (channelID D) (world s3) = (Inr (), w)" "ready w" "log w = log (world s3)" "stored w = stored (world s3)"
      using tells[OF 3(2)] by blast
    show ?thesis
      using 1(1-6) 2 3 w by (intro exI[of _ "s3\<lparr>world := w\<rparr>"])
        (unfold chan_getDifference.simps(2) 1(7), simp add: ChannelDifferenceTooLong chan_same_def chan_delivered_def at_world_def)
  qed
qed

text \<open>The two refusals: by the server, and by the handler, which has then sent on the other updates of the answer.\<close>

lemma chan_refusal_step:
  assumes "ready (world s)" "chan_answers ans refusal (state (chanPts s)) [] r us"
  shows "\<exists>s'. chan_getDifference D (Suc n) s = (r, s') \<and> state (chanPts s') = state (chanPts s) \<and>
    stored (world s') = stored (world s) \<and> gaps (chanPts s') = [] \<and> chan_delivered log s' = chan_delivered log s \<and> sent s' = sent s @ us"
proof (cases "ans (state (chanPts s))")
  case (Inl e)
  then have e: "still_visible e" "r = Inl e" "us = []" using assms(2) by auto
  from request_ok[OF assms(1)] e(1) obtain s1 where "chan_delivered log s1 = chan_delivered log s" "stored (world s1) = stored (world s)"
    "state (chanPts s1) = state (chanPts s)" "gaps (chanPts s1) = []" "sent s1 = sent s"
    "\<And>rest :: 'x ChannelDifferenceClass \<Rightarrow> ('w, 'x, unit) cprog. andThen (modify (\<lambda>s. s\<lparr>chanPts := (chanPts s)\<lparr>gaps := Clear (gaps (chanPts s))\<rparr>\<rparr>)) (\<lambda>_.
          andThen (chan_wait D) (\<lambda>_. andThen (chan_fetch D) rest)) s = (Inl e, s1)"
    unfolding Inl sum.case by blast
  then show ?thesis unfolding e(2,3) chan_getDifference.simps(2) by (intro exI[of _ s1]) simp
next
  case (Inr x)
  then obtain e b p t final where x: "x = ChannelDifference b p t final" "NewMessages b \<noteq> []" "refusal (chan_batch b) = Some e"
      "r = Inl e" "us = chan_others b"
    using assms(2) by (cases x) (auto split: if_splits option.splits)
  obtain s1 where 1: "ready (world s1)" "chan_delivered log s1 = chan_delivered log s" "stored (world s1) = stored (world s)"
    "state (chanPts s1) = state (chanPts s)" "gaps (chanPts s1) = []" "sent s1 = sent s"
    "\<And>rest :: 'x ChannelDifferenceClass \<Rightarrow> ('w, 'x, unit) cprog. andThen (modify (\<lambda>s. s\<lparr>chanPts := (chanPts s)\<lparr>gaps := Clear (gaps (chanPts s))\<rparr>\<rparr>)) (\<lambda>_.
          andThen (chan_wait D) (\<lambda>_. andThen (chan_fetch D) rest)) s = rest x s1"
    using request_ok[OF assms(1)] unfolding Inr sum.case by blast
  let ?s1 = "s1\<lparr>sent := sent s1 @ chan_others b\<rparr>"
  obtain w where w: "chan_deliver b ?s1 = (Inl e, ?s1\<lparr>world := w\<rparr>)" "stored w = stored (world s1)" "log w = log (world s1)"
    using deliver_refused[of ?s1 b e] 1(1) x(2,3) by auto
  have m: "modify (\<lambda>s. if OtherUpdates b \<noteq> []
       then s\<lparr>sent := sent s @ [TgUpdates (OtherUpdates b) (DUsers b) (DChats b) 0 0]\<rparr> else s) s1 = (Inr (), ?s1)"
    by (simp add: modify_def chan_others_def)
  have "chan_getDifference D (Suc n) s = (Inl e, ?s1\<lparr>world := w\<rparr>)"
    unfolding chan_getDifference.simps(2) 1(7) x(1) ChannelDifferenceClass.case chan_deliver_def[symmetric]
    by (simp only: andThen_Inr m) (simp add: andThen_def w(1))
  then show ?thesis using 1 w(2,3) x(4,5) by (simp add: chan_delivered_def)
qed

lemma chan_catches_up:
  "chan_answers ans refusal (state (chanPts s)) xs r us \<Longrightarrow> ready (world s) \<Longrightarrow> length xs < n \<Longrightarrow>
   \<exists>s'. chan_getDifference D n s = (r, s') \<and> chan_delivered log s' = chan_delivered log s @ concat (map chan_answer_messages xs) \<and>
    sent s' = sent s @ concat (map chan_answer_others xs) @ us \<and> state (chanPts s') = fold chan_moved xs (state (chanPts s)) \<and>
    stored (world s') = fold chan_moved xs (stored (world s)) \<and> gaps (chanPts s') = []"
proof (induction xs arbitrary: s n)
  case Nil
  then obtain m where n: "n = Suc m" by (cases n) auto
  show ?case using chan_refusal_step[OF Nil.prems(2,1), of m] by (auto simp: n)
next
  case (Cons x xs)
  then obtain m where n: "n = Suc m" "length xs < m" by (cases n) auto
  have a: "ans (state (chanPts s)) = Inr x" "chan_refused refusal x = None" using Cons.prems(1) by simp_all
  obtain s1 where 1: "chan_getDifference D (Suc m) s = (if chan_last x then (Inr (), s1) else chan_getDifference D m s1)"
    "ready (world s1)" "state (chanPts s1) = chan_moved x (state (chanPts s))" "stored (world s1) = chan_moved x (stored (world s))"
    "gaps (chanPts s1) = []" "chan_delivered log s1 = chan_delivered log s @ chan_answer_messages x" "sent s1 = sent s @ chan_answer_others x"
    using chan_step[OF Cons.prems(2) a] by blast
  show ?case
  proof (cases "chan_last x")
    case True
    then show ?thesis using 1 n Cons.prems(1) by (intro exI[of _ s1]) simp
  next
    case False
    then have "chan_answers ans refusal (state (chanPts s1)) xs r us" using 1(3) Cons.prems(1) by auto
    from Cons.IH[OF this 1(2) n(2)] show ?thesis using False 1 n by auto
  qed
qed

end

text \<open>The example: the in-memory stores, a clock that counts what the handler has been given, a server that
  answers by the position, and a handler that refuses what \<open>refusal\<close> says.\<close>

definition chan_asking :: "(int \<Rightarrow> uerr + 'x ChannelDifferenceClass) \<Rightarrow> ('x Updates \<Rightarrow> uerr option) \<Rightarrow>
    ('x chanWorld, 'x) channelDeps \<Rightarrow> ('x chanWorld, 'x) channelDeps" where
  "chan_asking ans refusal D = D\<lparr>handler_Handle := \<lambda>u w. case refusal u of None \<Rightarrow> handler_Handle D u w | Some e \<Rightarrow> (Inl e, w),
     UpdatesGetChannelDifference := \<lambda>_ _ p _ w. (ans p, w),
     clock_Now := \<lambda>w. (Inr (int (length (handled w))), w)\<rparr>"

definition mem_chan_pts :: "int \<Rightarrow> int \<Rightarrow> 'x chanWorld \<Rightarrow> int" where
  "mem_chan_pts self cid w = (case mem_chan (store w) self cid of None \<Rightarrow> 0 | Some p \<Rightarrow> p)"

interpretation mem_chan_diff: chan_diff_env "chan_asking ans refusal (memChan self cid hash lim)" handled "mem_ready self"
    "mem_chan_pts self cid" ans refusal
  for ans refusal and self cid hash lim :: int
proof unfold_locales
  fix w :: "'a chanWorld" and u p t
  let ?D = "chan_asking ans refusal (memChan self cid hash lim)"
  assume r: "mem_ready self w"
  show "\<exists>w'. handler_Handle ?D u w = (case refusal u of None \<Rightarrow> Inr () | Some e \<Rightarrow> Inl e, w') \<and> mem_ready self w' \<and>
      handled w' = (if refusal u = None then handled w @ [u] else handled w) \<and> mem_chan_pts self cid w' = mem_chan_pts self cid w"
    using r by (cases "refusal u") (simp_all add: chan_asking_def memDeps_def mem_ready_def mem_chan_pts_def)
  show "\<exists>w'. SetChannelPts (storage ?D) (selfID ?D) (channelID ?D) p w = (Inr (), w') \<and> mem_ready self w' \<and> handled w' = handled w \<and>
      mem_chan_pts self cid w' = p"
    using set_channel_mem[OF r, of cid p] by (auto simp: chan_asking_def mem_chan_pts_def)
  show "\<exists>w'. UpdatesGetChannelDifference ?D (channelID ?D) (accessHash ?D) p (diffLim ?D) w = (ans p, w') \<and> mem_ready self w' \<and>
      handled w' = handled w \<and> mem_chan_pts self cid w' = mem_chan_pts self cid w"
    using r by (simp add: chan_asking_def)
  show "\<exists>t w'. clock_Now ?D w = (Inr t, w') \<and> mem_ready self w' \<and> handled w' = handled w \<and> mem_chan_pts self cid w' = mem_chan_pts self cid w"
    using r by (simp add: chan_asking_def)
  show "\<exists>k w'. diffWait ?D t w = (Inr k, w') \<and> mem_ready self w' \<and> handled w' = handled w \<and> mem_chan_pts self cid w' = mem_chan_pts self cid w"
    using r by (simp add: chan_asking_def)
  show "\<exists>w'. onTooLong ?D (channelID ?D) w = (Inr (), w') \<and> mem_ready self w' \<and> handled w' = handled w \<and>
      mem_chan_pts self cid w' = mem_chan_pts self cid w"
    using r by (simp add: chan_asking_def mem_ready_def mem_chan_pts_def)
qed

text \<open>C25: \<open>getDifference\<close> of a channel follows the server.  Let the server answer each request by the
  position in it: asked from the position of the channel and then from where each answer leads, it gives the
  answers \<open>xs\<close>, which the handler takes; and then the last of them ends, or the server fails with an error that does
  not mean that the channel is lost, or the handler refuses the messages of the next answer.  Let the
  storage store; the clock may go as it likes.  Given fuel for the answers, \<open>getDifference\<close> returns, or fails with
  that error; the handler has taken all new messages of the answers in order, and of no other, their other updates have been
  sent to the queue of the account in order, and those of the refused answer after them, no gap is left,
  and the position is where the answers led, in memory and, after each answer, in the storage.\<close>

theorem channel_difference_catches_up:
  assumes "chan_diff_env D log ready stored ans refusal" "chan_answers ans refusal (state (chanPts s)) xs r us"
    and "ready (world s)" "length xs < n"
  shows "\<exists>s'. chan_getDifference D n s = (r, s') \<and>
    chan_delivered log s' = chan_delivered log s @ concat (map chan_answer_messages xs) \<and>
    sent s' = sent s @ concat (map chan_answer_others xs) @ us \<and>
    state (chanPts s') = fold chan_moved xs (state (chanPts s)) \<and> stored (world s') = fold chan_moved xs (stored (world s)) \<and>
    gaps (chanPts s') = []"
  using chan_diff_env.chan_catches_up[OF assms] by blast

definition body0 :: "nat MessageClass list \<Rightarrow> nat UpdateClass list \<Rightarrow> nat diff_body" where
  "body0 ms us = \<lparr>NewMessages = ms, NewEncryptedMessages = [], OtherUpdates = us, DChats = [], DUsers = []\<rparr>"

definition chan_ans0 :: "int \<Rightarrow> uerr + nat ChannelDifferenceClass" where
  "chan_ans0 p =
     (if p = 10 then Inr (ChannelDifference (body0 [MessageEmpty 1 None] [OtherUpdate 4]) 20 (Some 3) False)
      else if p = 20 then Inr (ChannelDifference (body0 [MessageEmpty 2 None] [OtherUpdate 5]) 21 (Some 3) False)
      else Inl ContextCanceled)"

text \<open>A handler that refuses one message.\<close>

definition chan_refusal0 :: "nat Updates \<Rightarrow> uerr option" where
  "chan_refusal0 u = (if Upds u = [UpdateNewChannelMessage (MessageEmpty 2 None) (-1) (-1)] then Some (Unexpected 9) else None)"

theorem channel_difference_catches_up_witness:
  "(\<exists>s'. chan_getDifference (chan_asking chan_ans0 (\<lambda>_. None) (memChan 7 55 1 100)) 3 (newChannelState 10 chanWorld0) =
      (Inl ContextCanceled, s') \<and>
    chan_delivered handled s' = [UpdateNewChannelMessage (MessageEmpty 1 None) (-1) (-1),
      UpdateNewChannelMessage (MessageEmpty 2 None) (-1) (-1)] \<and> state (chanPts s') = 21 \<and> mem_chan_pts 7 55 (world s') = 21 \<and>
    sent s' = [TgUpdates [OtherUpdate 4] [] [] 0 0, TgUpdates [OtherUpdate 5] [] [] 0 0]) \<and>
   (\<exists>s'. chan_getDifference (chan_asking chan_ans0 chan_refusal0 (memChan 7 55 1 100)) 2 (newChannelState 10 chanWorld0) =
      (Inl (Unexpected 9), s') \<and>
    chan_delivered handled s' = [UpdateNewChannelMessage (MessageEmpty 1 None) (-1) (-1)] \<and>
    state (chanPts s') = 20 \<and> mem_chan_pts 7 55 (world s') = 20 \<and>
    sent s' = [TgUpdates [OtherUpdate 4] [] [] 0 0, TgUpdates [OtherUpdate 5] [] [] 0 0])"
proof -
  let ?s = "newChannelState 10 chanWorld0 :: (nat chanWorld, nat) channelState"
  let ?xs = "[ChannelDifference (body0 [MessageEmpty 1 None] [OtherUpdate 4]) 20 (Some 3) False]"
  let ?ys = "?xs @ [ChannelDifference (body0 [MessageEmpty 2 None] [OtherUpdate 5]) 21 (Some 3) False]"
  have s: "state (chanPts ?s) = 10" "sent ?s = []" "chan_delivered handled ?s = []"
    by (simp_all add: newChannelState_def newSequenceBox_def chan_delivered_def chanWorld0_ready)
  have r: "mem_ready 7 (world ?s)" by (simp add: newChannelState_def chanWorld0_ready)
  note unfold = s chan_ans0_def still_visible_def IsOneOf_def chan_batch_def body0_def msgsToUpdates_def chan_refusal0_def chan_others_def
  have a: "chan_answers chan_ans0 (\<lambda>_. None) (state (chanPts ?s)) ?ys (Inl ContextCanceled) []"
    "chan_answers chan_ans0 chan_refusal0 (state (chanPts ?s)) ?xs (Inl (Unexpected 9)) [TgUpdates [OtherUpdate 5] [] [] 0 0]"
    by (simp_all add: unfold)
  note read = chan_messages_def chan_others_def msgsToUpdates_def body0_def
  from channel_difference_catches_up[OF mem_chan_diff.chan_diff_env_axioms a(1) r, of 3 55 1 100] have
    "\<exists>s'. chan_getDifference (chan_asking chan_ans0 (\<lambda>_. None) (memChan 7 55 1 100)) 3 ?s = (Inl ContextCanceled, s') \<and>
      chan_delivered handled s' = [UpdateNewChannelMessage (MessageEmpty 1 None) (-1) (-1),
        UpdateNewChannelMessage (MessageEmpty 2 None) (-1) (-1)] \<and> state (chanPts s') = 21 \<and> mem_chan_pts 7 55 (world s') = 21 \<and>
      sent s' = [TgUpdates [OtherUpdate 4] [] [] 0 0, TgUpdates [OtherUpdate 5] [] [] 0 0]"
    unfolding s by (auto simp: read)
  moreover from channel_difference_catches_up[OF mem_chan_diff.chan_diff_env_axioms a(2) r, of 2 55 1 100] have
    "\<exists>s'. chan_getDifference (chan_asking chan_ans0 chan_refusal0 (memChan 7 55 1 100)) 2 ?s = (Inl (Unexpected 9), s') \<and>
      chan_delivered handled s' = [UpdateNewChannelMessage (MessageEmpty 1 None) (-1) (-1)] \<and>
      state (chanPts s') = 20 \<and> mem_chan_pts 7 55 (world s') = 20 \<and>
      sent s' = [TgUpdates [OtherUpdate 4] [] [] 0 0, TgUpdates [OtherUpdate 5] [] [] 0 0]"
    unfolding s by (auto simp: read)
  ultimately show ?thesis by blast
qed

end
