(* ===== verification/UpdManager.thy ===== *)
theory UpdManager
  imports UpdState
begin

text \<open>
  The entry points of the update manager, \<open>pkg/gotd/telegram/updates/manager.go\<close>: loading the
  state of an account, checking which channels it is still a member of, and starting the account
  state.  The local variables that the callback of \<open>Run\<close> captures lie next to the surroundings.
  The goroutines that \<open>Run\<close> starts are those of \<open>UpdState\<close> and \<open>UpdChannel\<close>.
\<close>

record 'w captured =
  outer :: 'w
  runChannels :: "(int \<times> int \<times> int) list"
  leftChannels :: "int list"

datatype Participant =
    ChannelParticipantLeft
  | ChannelParticipantBanned (banned_left: bool) (view_messages: bool)
  | OtherParticipant

text \<open>\<open>OnNotChannelMember\<close> has no default; \<open>None\<close> is a nil function.\<close>

record ('w, 'x) managerDeps = "('w captured, 'x) deps" +
  UpdatesGetState :: "('w captured, uerr, UpdatesState) prog"
  ChannelsGetParticipant :: "int \<Rightarrow> int \<Rightarrow> ('w captured, uerr, Participant) prog"
  OnNotChannelMember :: "(int \<Rightarrow> ('w captured, uerr, unit) prog) option"

type_synonym ('w, 'a) mprog = "('w captured, uerr, 'a) prog"

text \<open>Whether the answer to \<open>channels.getParticipant\<close> leaves the account a member; an unknown error
  counts as a yes.\<close>

definition is_member :: "uerr + Participant \<Rightarrow> bool" where
  "is_member r = (case r of
     Inl err \<Rightarrow> \<not> IsOneOf (case err of Rpc e \<Rightarrow> Some e | _ \<Rightarrow> None)
       [''CHANNEL_INVALID'', ''CHANNEL_PRIVATE'', ''USER_NOT_PARTICIPANT'']
   | Inr ChannelParticipantLeft \<Rightarrow> False
   | Inr (ChannelParticipantBanned left viewMessages) \<Rightarrow> \<not> left \<and> \<not> viewMessages
   | Inr OtherParticipant \<Rightarrow> True)"

definition checkParticipant :: "('w, 'x) managerDeps \<Rightarrow> int \<Rightarrow> int \<Rightarrow> int \<Rightarrow> ('w, bool) mprog" where
  "checkParticipant D userID cid hash w =
     (case ChannelsGetParticipant D cid hash w of (pcp, w) \<Rightarrow>
        if is_member pcp then (Inr True, w)
        else andThen (SetChannelPts (storage D) userID cid (-1)) (\<lambda>_.
             andThen (case OnNotChannelMember D of None \<Rightarrow> fail PanicNilFunction | Some f \<Rightarrow> f cid)
               (\<lambda>_. ret False)) w)"

definition loadState :: "('w, 'x) managerDeps \<Rightarrow> int \<Rightarrow> bool \<Rightarrow> ('w, State) mprog" where
  "loadState D userID forget =
     (let remote = andThen (UpdatesGetState D) (\<lambda>st.
            andThen (PutState (storage D) userID (fromRemote st)) (\<lambda>_. ret (fromRemote st)))
      in if forget then remote
         else andThen (GetState (storage D) userID) (\<lambda>st. case st of None \<Rightarrow> remote | Some st \<Rightarrow> ret st))"

text \<open>The callback that \<open>Run\<close> hands to \<open>ForEachChannels\<close>.\<close>

definition runChannel :: "('w, 'x) managerDeps \<Rightarrow> int \<Rightarrow> int \<Rightarrow> int \<Rightarrow> ('w, unit) mprog" where
  "runChannel D userID cid p =
     (if p = -1 then modify (\<lambda>w. w\<lparr>leftChannels := leftChannels w @ [cid]\<rparr>)
      else andThen (GetChannelAccessHash (hasher D) userID cid) (\<lambda>found. case found of
          None \<Rightarrow> ret ()
        | Some hash \<Rightarrow> andThen (checkParticipant D userID cid hash) (\<lambda>isMember.
            if \<not> isMember then modify (\<lambda>w. w\<lparr>leftChannels := leftChannels w @ [cid]\<rparr>)
            else modify (\<lambda>w. w\<lparr>runChannels := AList.update cid (p, hash) (runChannels w)\<rparr>))))"

type_synonym ('w, 'x) manager = "('w captured, 'x) internalState option"

text \<open>\<open>Unexpected 10\<close> is the error of a manager that already runs.\<close>

definition start ::
  "('w, 'x) managerDeps \<Rightarrow> int \<Rightarrow> bool \<Rightarrow> (('w, 'x) manager \<times> 'w captured, uerr, unit) prog" where
  "start D userID forget = (\<lambda>(m, w).
     if m \<noteq> None then (Inl (Unexpected 10), (m, w))
     else case andThen (loadState D userID forget) (\<lambda>st.
        andThen (modify (\<lambda>w. w\<lparr>runChannels := [], leftChannels := []\<rparr>)) (\<lambda>_.
        andThen (ForEachChannels (storage D) userID (runChannel D userID)) (\<lambda>_. ret st))) w of
       (Inl e, w') \<Rightarrow> (Inl e, (m, w'))
     | (Inr st, w') \<Rightarrow> (Inr (), (Some (newState st (runChannels w') (leftChannels w') w'), w')))"

definition Reset :: "('w, 'x) manager \<Rightarrow> ('w, 'x) manager" where
  "Reset m = None"

definition Manager_RemoveChannel :: "int \<Rightarrow> ('w, 'x) manager \<Rightarrow> ('w, 'x) manager" where
  "Manager_RemoveChannel cid m = (case m of None \<Rightarrow> None | Some s \<Rightarrow> Some (RemoveChannel cid s))"

text \<open>Without a running state the manager passes updates on as they are; with one they are queued.\<close>

definition Manager_Handle ::
  "('x UpdatesClass \<Rightarrow> ('v, uerr, unit) prog) \<Rightarrow> ('x UpdatesClass \<Rightarrow> ('v, uerr, unit) prog) \<Rightarrow> ('w, 'x) manager \<Rightarrow>
   'x UpdatesClass \<Rightarrow> ('v, uerr, unit) prog" where
  "Manager_Handle handle push m u = (case m of None \<Rightarrow> handle u | Some _ \<Rightarrow> push u)"

section \<open>Properties\<close>

text \<open>\<open>loadState\<close> resumes: it returns the stored state untouched when there is one and the
  caller does not ask to forget it; otherwise it returns the server's state, and only after that
  has been stored.\<close>

theorem loadState_resumes:
  assumes "\<And>w. GetState (storage D) u w = (Inr (user w), w)"
    and "UpdatesGetState D w = (Inr remote, w1)" "PutState (storage D) u (fromRemote remote) w1 = (r, w2)"
  shows "loadState D u forget w =
    (case (forget, user w) of
       (False, Some st) \<Rightarrow> (Inr st, w)
     | _ \<Rightarrow> (case r of Inl e \<Rightarrow> (Inl e, w2) | Inr _ \<Rightarrow> (Inr (fromRemote remote), w2)))"
  using assms
  by (cases forget; cases "user w"; cases r) (simp_all add: loadState_def andThen_def ret_def Let_def)

text \<open>The operations leave the captured variables alone.\<close>

definition captures_kept :: "('w, 'a) mprog \<Rightarrow> bool" where
  "captures_kept m \<longleftrightarrow> (\<forall>w. runChannels (snd (m w)) = runChannels w \<and> leftChannels (snd (m w)) = leftChannels w)"

definition keeping :: "('w, 'x) managerDeps \<Rightarrow> int \<Rightarrow> bool" where
  "keeping D u \<longleftrightarrow> (\<forall>c h. captures_kept (ChannelsGetParticipant D c h)) \<and>
     (\<forall>c p. captures_kept (SetChannelPts (storage D) u c p)) \<and>
     (\<forall>c. captures_kept (GetChannelAccessHash (hasher D) u c)) \<and>
     (\<forall>f c. OnNotChannelMember D = Some f \<longrightarrow> captures_kept (f c))"

lemma captures_kept_checkParticipant:
  assumes "keeping D u"
  shows "captures_kept (checkParticipant D u c h)"
  unfolding captures_kept_def
proof
  fix w
  obtain pcp w1 where 1: "ChannelsGetParticipant D c h w = (pcp, w1)" by fastforce
  obtain r w2 where 2: "SetChannelPts (storage D) u c (-1) w1 = (r, w2)" by fastforce
  have k: "runChannels w1 = runChannels w \<and> leftChannels w1 = leftChannels w"
    "runChannels w2 = runChannels w1 \<and> leftChannels w2 = leftChannels w1"
    using assms 1 2 unfolding keeping_def captures_kept_def by (metis snd_conv)+
  show "runChannels (snd (checkParticipant D u c h w)) = runChannels w \<and>
      leftChannels (snd (checkParticipant D u c h w)) = leftChannels w"
  proof (cases "OnNotChannelMember D")
    case None
    then show ?thesis using 1 2 k
      by (auto simp: checkParticipant_def andThen_def fail_def split: sum.splits)
  next
    case (Some f)
    obtain r3 w3 where 3: "f c w2 = (r3, w3)" by fastforce
    then have "runChannels w3 = runChannels w2 \<and> leftChannels w3 = leftChannels w2"
      using assms Some unfolding keeping_def captures_kept_def by (metis snd_conv)
    then show ?thesis using 1 2 3 k Some
      by (auto simp: checkParticipant_def andThen_def ret_def split: sum.splits)
  qed
qed

definition kept_channels :: "(int \<times> int) set \<Rightarrow> 'w captured \<Rightarrow> bool" where
  "kept_channels cs w \<longleftrightarrow> (\<forall>(cid, p, h) \<in> set (runChannels w). (cid, p) \<in> cs \<and> p \<noteq> -1)"

lemma runChannel_step:
  assumes "keeping D u"
    and "runChannel D u cid p w = (Inr x, w')"
  shows "set (leftChannels w) \<subseteq> set (leftChannels w')" "p = -1 \<Longrightarrow> cid \<in> set (leftChannels w')"
    "kept_channels cs w \<Longrightarrow> (cid, p) \<in> cs \<Longrightarrow> kept_channels cs w'"
proof -
  have "set (leftChannels w) \<subseteq> set (leftChannels w') \<and> (p = -1 \<longrightarrow> cid \<in> set (leftChannels w')) \<and>
    (kept_channels cs w \<and> (cid, p) \<in> cs \<longrightarrow> kept_channels cs w')"
  proof (cases "p = -1")
    case True
    then show ?thesis using assms(2) by (auto simp: runChannel_def modify_def kept_channels_def)
  next
    case False
    obtain f w1 where 1: "GetChannelAccessHash (hasher D) u cid w = (f, w1)" by fastforce
    then have k1: "runChannels w1 = runChannels w" "leftChannels w1 = leftChannels w"
      using assms(1) unfolding keeping_def captures_kept_def by (metis snd_conv)+
    show ?thesis
    proof (cases "\<exists>hash. f = Inr (Some hash)")
      case no: False
      then show ?thesis using assms(2) False 1 k1
        by (cases f) (auto simp: runChannel_def andThen_def ret_def kept_channels_def split: option.splits)
    next
      case True
      then obtain hash where f: "f = Inr (Some hash)" by blast
      obtain b w2 where 2: "checkParticipant D u cid hash w1 = (b, w2)" by fastforce
      then have k2: "runChannels w2 = runChannels w1" "leftChannels w2 = leftChannels w1"
        using captures_kept_checkParticipant[OF assms(1), of cid hash] unfolding captures_kept_def by (metis snd_conv)+
      have up: "set (AList.update cid (p, hash) xs) \<subseteq> insert (cid, p, hash) (set xs)" for xs :: "(int \<times> int \<times> int) list"
        by (induction xs) auto
      show ?thesis using assms(2) False 1 2 f k1 k2 up[of "runChannels w2"]
        by (cases b) (auto simp: runChannel_def andThen_def modify_def kept_channels_def split: if_splits)
    qed
  qed
  then show "set (leftChannels w) \<subseteq> set (leftChannels w')" "p = -1 \<Longrightarrow> cid \<in> set (leftChannels w')"
    "kept_channels cs w \<Longrightarrow> (cid, p) \<in> cs \<Longrightarrow> kept_channels cs w'" by blast+
qed

lemma newState_chans:
  fixes w :: 'w and st chs left cid
  defines "s \<equiv> newState st chs left w :: ('w, 'x) internalState"
  shows "chans s cid \<noteq> None \<Longrightarrow> \<exists>p h. (cid, p, h) \<in> set chs"
    "recentlyLeftChannels s = set left"
proof -
  let ?f = "\<lambda>s (i, p, hash). if p = -1 then s else createAndRunChannelState i hash p s"
  have "(chans (foldl ?f s chs) cid \<noteq> None \<longrightarrow> chans s cid \<noteq> None \<or> (\<exists>p h. (cid, p, h) \<in> set chs)) \<and>
    recentlyLeftChannels (foldl ?f s chs) = recentlyLeftChannels s" for s :: "('w, 'x) internalState"
  proof (induction chs arbitrary: s)
    case (Cons c chs)
    obtain i p h where c: "c = (i, p, h)" by (cases c)
    show ?case using Cons[of "?f s c"]
      by (auto simp: c createAndRunChannelState_def split: if_splits)
  qed simp
  note this[of "\<lparr>pts = newSequenceBox (Pts st), qts = newSequenceBox (Qts st), seq = newSequenceBox (Seq st), date = Date st,
        chans = (\<lambda>_. None), recentlyLeftChannels = set left, savedCommunities = {}, env = w\<rparr>"]
  then show "chans s cid \<noteq> None \<Longrightarrow> \<exists>p h. (cid, p, h) \<in> set chs"
    "recentlyLeftChannels s = set left" by (simp_all add: newState_def s_def)
qed

text \<open>C13: a started account opens only channels it knows and has not left: when \<open>Run\<close> has set the
  state up, every open channel is one the storage lists with a position other than -1, and every
  channel listed with -1 is remembered as left; and a manager that already runs is not started
  again.\<close>

theorem start_opens_known_channels:
  assumes "keeping D u"
    and "\<And>f w. ForEachChannels (storage D) u f w = each (\<lambda>(c, p). f c p) cs w"
  shows "(case start D u forget (None, w) of
      (Inr _, (Some s, _)) \<Rightarrow>
        (\<forall>cid. chans s cid \<noteq> None \<longrightarrow> (\<exists>p. (cid, p) \<in> set cs \<and> p \<noteq> -1)) \<and>
        (\<forall>cid. (cid, -1) \<in> set cs \<longrightarrow> cid \<in> recentlyLeftChannels s)
    | _ \<Rightarrow> True) \<and> start D u forget (Some s0, w) = (Inl (Unexpected 10), (Some s0, w))"
proof (intro conjI)
  have each: "set (leftChannels w) \<subseteq> set (leftChannels w') \<and> (\<forall>cid. (cid, -1) \<in> set ds \<longrightarrow> cid \<in> set (leftChannels w')) \<and>
      kept_channels (set cs) w'"
    if "each (\<lambda>(c, p). runChannel D u c p) ds w = (Inr x, w')" "kept_channels (set cs) w" "set ds \<subseteq> set cs"
    for ds w w' x using that
  proof (induction ds arbitrary: w)
    case Nil
    then show ?case by (simp add: ret_def)
  next
    case (Cons d ds)
    obtain c p where d: "d = (c, p)" by (cases d)
    from Cons.prems(1) obtain y w1 where
      1: "runChannel D u c p w = (Inr y, w1)" "each (\<lambda>(c, p). runChannel D u c p) ds w1 = (Inr x, w')"
      by (auto simp: d andThen_eq_Inr_iff)
    note step = runChannel_step[OF assms(1) 1(1)]
    have "kept_channels (set cs) w1" using step(3)[of "set cs"] Cons.prems(2,3) d by simp
    from Cons.IH[OF 1(2) this] Cons.prems(3) step(1,2) d show ?case by auto
  qed
  have main: "(\<forall>cid. chans s cid \<noteq> None \<longrightarrow> (\<exists>p. (cid, p) \<in> set cs \<and> p \<noteq> -1)) \<and>
      (\<forall>cid. (cid, -1) \<in> set cs \<longrightarrow> cid \<in> recentlyLeftChannels s)"
    if st: "start D u forget (None, w) = (Inr (), (Some s, w'))" for s w'
  proof -
  from st obtain sst w1 w2 where
    1: "each (\<lambda>(c, p). runChannel D u c p) cs (w1\<lparr>runChannels := [], leftChannels := []\<rparr>) = (Inr (), w2)"
      "s = newState sst (runChannels w2) (leftChannels w2) w2"
    by (auto simp: start_def andThen_def modify_def ret_def assms(2) split: prod.splits sum.splits)
  have "kept_channels (set cs) (w1\<lparr>runChannels := [], leftChannels := []\<rparr>)" by (simp add: kept_channels_def)
  from each[OF 1(1) this order_refl] newState_chans[where st = sst and chs = "runChannels w2" and left = "leftChannels w2" and w = w2]
  show ?thesis
    unfolding 1(2) kept_channels_def by fastforce
  qed
  show "case start D u forget (None, w) of
      (Inr _, (Some s, _)) \<Rightarrow>
        (\<forall>cid. chans s cid \<noteq> None \<longrightarrow> (\<exists>p. (cid, p) \<in> set cs \<and> p \<noteq> -1)) \<and>
        (\<forall>cid. (cid, -1) \<in> set cs \<longrightarrow> cid \<in> recentlyLeftChannels s)
    | _ \<Rightarrow> True"
    using main by (auto split: prod.split sum.split option.split)
  show "start D u forget (Some s0, w) = (Inl (Unexpected 10), (Some s0, w))" by (simp add: start_def)
qed

text \<open>A fixed environment: a stored state, one channel that was left, one that is known and one
  without an access hash.\<close>

definition sampleDeps :: "(unit, nat) managerDeps" where
  "sampleDeps = \<lparr>
     handler_Handle = \<lambda>_. ret (),
     storage = \<lparr>GetState = \<lambda>_. ret (Some state0), PutState = \<lambda>_ _. ret (), SetPts = \<lambda>_ _. ret (), SetQts = \<lambda>_ _. ret (),
       SetDate = \<lambda>_ _. ret (), SetSeq = \<lambda>_ _. ret (), SetDateSeq = \<lambda>_ _ _. ret (), GetChannelPts = \<lambda>_ _. ret None,
       SetChannelPts = \<lambda>_ _ _. ret (), ForEachChannels = \<lambda>_ f. each (\<lambda>(c, p). f c p) [(1, -1), (2, 30), (3, 40)]\<rparr>,
     hasher = \<lparr>SetChannelAccessHash = \<lambda>_ _ _. ret (), GetChannelAccessHash = \<lambda>_ c. ret (if c = 2 then Some 5 else None),
       SetUserAccessHash = \<lambda>_ _ _. ret (), GetUserAccessHash = \<lambda>_ _. ret None\<rparr>,
     UpdatesGetDifference = \<lambda>_ _ _. ret (UpdatesDifferenceEmpty 0 0),
     sleep = \<lambda>_. ret (),
     selfID = 7,
     UpdatesGetState = ret \<lparr>rPts = 1, rQts = 1, rDate = 1, rSeq = 1\<rparr>,
     ChannelsGetParticipant = \<lambda>_ _. ret OtherParticipant,
     OnNotChannelMember = None\<rparr>"

definition world1 :: "unit captured" where
  "world1 = \<lparr>outer = (), runChannels = [], leftChannels = []\<rparr>"

theorem loadState_resumes_witness:
  "loadState sampleDeps 7 False world1 = (Inr state0, world1) \<and>
   loadState sampleDeps 7 True world1 = (Inr \<lparr>Pts = 1, Qts = 1, Date = 1, Seq = 1\<rparr>, world1)"
proof -
  have r: "fromRemote \<lparr>rPts = 1, rQts = 1, rDate = 1, rSeq = 1\<rparr> = \<lparr>Pts = 1, Qts = 1, Date = 1, Seq = 1\<rparr>"
    by (simp add: fromRemote_def)
  show ?thesis
    using loadState_resumes[of sampleDeps 7 "\<lambda>_. Some state0" world1 "\<lparr>rPts = 1, rQts = 1, rDate = 1, rSeq = 1\<rparr>" world1 "Inr ()" world1 False]
      loadState_resumes[of sampleDeps 7 "\<lambda>_. Some state0" world1 "\<lparr>rPts = 1, rQts = 1, rDate = 1, rSeq = 1\<rparr>" world1 "Inr ()" world1 True]
    by (simp add: sampleDeps_def ret_def r)
qed

theorem start_opens_known_channels_witness:
  "case start sampleDeps 7 False (None, world1) of
      (Inr _, (Some s, _)) \<Rightarrow> chans s 1 = None \<and> 1 \<in> recentlyLeftChannels s \<and> chans s 2 \<noteq> None
    | _ \<Rightarrow> False"
proof -
  have k: "keeping sampleDeps 7" by (simp add: keeping_def captures_kept_def sampleDeps_def ret_def)
  have f: "ForEachChannels (storage sampleDeps) 7 g w = each (\<lambda>(c, p). g c p) [(1, -1), (2, 30), (3, 40)] w" for g w
    by (simp add: sampleDeps_def)
  obtain s w where s: "start sampleDeps 7 False (None, world1) = (Inr (), (Some s, w))" "chans s 2 \<noteq> None"
    by (simp add: start_def loadState_def sampleDeps_def world1_def ret_def andThen_def modify_def runChannel_def
        checkParticipant_def is_member_def newState_def createAndRunChannelState_def)
  have all: "\<forall>cid. chans s cid \<noteq> None \<longrightarrow> (\<exists>p. (cid, p) \<in> set [(1, -1), (2, 30), (3 :: int, 40 :: int)] \<and> p \<noteq> -1)"
    "\<forall>cid. (cid, -1) \<in> set [(1, -1), (2, 30), (3 :: int, 40 :: int)] \<longrightarrow> cid \<in> recentlyLeftChannels s"
    using start_opens_known_channels[OF k f, where forget = False and w = world1 and ?s0.0 = s] unfolding s(1) by simp_all
  have "chans s 1 = None" using all(1)[rule_format, of 1] by (cases "chans s 1") auto
  then show ?thesis using all(2) s by simp
qed

end
