(* ===== verification/MtTypes.thy ===== *)
theory MtTypes
  imports TLBuffer
begin

text \<open>
  The service messages of MTProto that the connection exchanges, \<open>pkg/gotd/mt\<close>: the records, their
  type identifiers and their four coders each, with and without the identifier in front.  The
  receivers are never nil.
\<close>

section \<open>Writers and readers on the wire\<close>

text \<open>What a writer appends, under a name of its own, so that a chain of writers rewrites to a
  concatenation and a chain of readers consumes it piece by piece.\<close>

named_theorems wire \<open>writers as concatenations, and what readers make of them\<close>

definition wID :: "32 word \<Rightarrow> bytes" where "wID v = PutID v []"
definition wInt :: "int \<Rightarrow> bytes" where "wInt v = PutInt v []"
definition wLong :: "int \<Rightarrow> bytes" where "wLong v = PutLong v []"
definition wString :: "bytes \<Rightarrow> bytes" where "wString v = PutString v []"

lemma wire_put [wire]:
  "PutID i b = b @ wID i" "PutInt n b = b @ wInt n" "PutInt32 n b = b @ wInt n" "PutLong v b = b @ wLong v"
  "PutString s b = b @ wString s" "Put raw b = b @ raw" "PutVectorHeader n b = b @ wID TypeVector @ wInt n"
  using tl_string.put_append[of s b]
  by (simp_all add: wID_def wInt_def wLong_def wString_def tl_defs)

lemma wire_get [wire]:
  "int32_range n \<Longrightarrow> Int_buf (wInt n @ rest) = (Inr n, rest)"
  "int32_range n \<Longrightarrow> Int32 (wInt n @ rest) = (Inr n, rest)"
  "int64_range v \<Longrightarrow> Long (wLong v @ rest) = (Inr v, rest)"
  "length s < 2 ^ 24 \<Longrightarrow> String (wString s @ rest) = (Inr s, rest)"
  "PeekID (wID i @ rest) = (Inr i, wID i @ rest)"
  "ConsumeID i (wID i @ rest) = (Inr (), rest)"
proof -
  have p: "PeekID (wID i @ rest) = (Inr i, wID i @ rest)" for i rest
    using typeid.get_put[of i rest] by (simp add: wID_def ID_def Uint32_eq andThen_def PeekID_eq split: if_splits)
  show "PeekID (wID i @ rest) = (Inr i, wID i @ rest)" by (rule p)
  have "length (wID i) = 4" by (simp add: wID_def tl_defs)
  then show "ConsumeID i (wID i @ rest) = (Inr (), rest)" by (simp add: ConsumeID_eq p)
qed (use tl_int.get_put[of n rest] int32.get_put[of n rest] long.get_put[of v rest] tl_string.get_put[of s rest]
     in \<open>simp_all add: wInt_def wLong_def wString_def PutInt_def\<close>)

lemma VectorHeader_wire [wire]:
  "0 \<le> n \<Longrightarrow> n < 2 ^ 31 \<Longrightarrow> VectorHeader (wID TypeVector @ wInt n @ rest) = (Inr n, rest)"
  by (simp add: VectorHeader_def wire ret_def)

text \<open>Readers that never panic.\<close>

definition no_panic :: "'a decoder \<Rightarrow> bool" where
  "no_panic get \<longleftrightarrow> (\<forall>b. fst (get b) \<noteq> Inl Panic)"

named_theorems panics \<open>readers that do not panic\<close>

lemma no_panic_prims [panics]:
  "no_panic Long" "no_panic Int_buf" "no_panic Int32" "no_panic String" "no_panic Bytes" "no_panic (ret a)"
  "no_panic PeekID" "no_panic (ConsumeID i)" "e \<noteq> Panic \<Longrightarrow> no_panic (fail e)"
proof -
  have safe: "\<And>b e b'. get b = (Inl e, b') \<Longrightarrow> e \<noteq> Panic \<and> b' = b \<Longrightarrow> True" for get :: "'a decoder" by simp
  show "no_panic PeekID" "no_panic (ret a)" "no_panic (ConsumeID i)" "e \<noteq> Panic \<Longrightarrow> no_panic (fail e)"
    by (auto simp: no_panic_def PeekID_eq ConsumeID_eq andThen_def ret_def fail_def)
  show "no_panic Long" "no_panic Int_buf" "no_panic Int32" "no_panic String" "no_panic Bytes"
    unfolding no_panic_def
    by (metis eq_fst_iff long.get_fail tl_int.get_fail int32.get_fail tl_string.get_fail tl_bytes.get_fail)+
qed

lemma no_panic_andThen [panics]:
  "no_panic m \<Longrightarrow> (\<And>a. no_panic (f a)) \<Longrightarrow> no_panic (andThen m f)"
  by (auto simp: no_panic_def andThen_def split: prod.split sum.split) (metis fst_conv)

lemma no_panic_loop [panics]: "no_panic get \<Longrightarrow> no_panic (get_loop n get)"
  by (induction n) (simp_all add: panics)

lemma no_panic_VectorHeader [panics]: "no_panic VectorHeader"
  by (auto simp: VectorHeader_def intro!: panics)

section \<open>The messages\<close>

record NewSessionCreated =
  nscFirstMsgID :: int
  nscUniqueID :: int
  nscServerSalt :: int

definition NewSessionCreatedTypeID :: "32 word" where "NewSessionCreatedTypeID = 0x9ec20908"

definition NewSessionCreated_EncodeBare :: "NewSessionCreated \<Rightarrow> bytes \<Rightarrow> bytes" where
  "NewSessionCreated_EncodeBare x b = PutLong (nscServerSalt x) (PutLong (nscUniqueID x) (PutLong (nscFirstMsgID x) b))"

definition NewSessionCreated_Encode :: "NewSessionCreated \<Rightarrow> bytes \<Rightarrow> bytes" where
  "NewSessionCreated_Encode x b = NewSessionCreated_EncodeBare x (PutID NewSessionCreatedTypeID b)"

definition NewSessionCreated_DecodeBare :: "NewSessionCreated decoder" where
  "NewSessionCreated_DecodeBare =
     andThen Long (\<lambda>v0. andThen Long (\<lambda>v1. andThen Long (\<lambda>v2. ret \<lparr>nscFirstMsgID = v0, nscUniqueID = v1, nscServerSalt = v2\<rparr>)))"

definition NewSessionCreated_Decode :: "NewSessionCreated decoder" where
  "NewSessionCreated_Decode = andThen (ConsumeID NewSessionCreatedTypeID) (\<lambda>_. NewSessionCreated_DecodeBare)"

record BadMsgNotification =
  bmnBadMsgID :: int
  bmnBadMsgSeqno :: int
  bmnErrorCode :: int

definition BadMsgNotificationTypeID :: "32 word" where "BadMsgNotificationTypeID = 0xa7eff811"

definition BadMsgNotification_EncodeBare :: "BadMsgNotification \<Rightarrow> bytes \<Rightarrow> bytes" where
  "BadMsgNotification_EncodeBare x b = PutInt (bmnErrorCode x) (PutInt (bmnBadMsgSeqno x) (PutLong (bmnBadMsgID x) b))"

definition BadMsgNotification_Encode :: "BadMsgNotification \<Rightarrow> bytes \<Rightarrow> bytes" where
  "BadMsgNotification_Encode x b = BadMsgNotification_EncodeBare x (PutID BadMsgNotificationTypeID b)"

definition BadMsgNotification_DecodeBare :: "BadMsgNotification decoder" where
  "BadMsgNotification_DecodeBare =
     andThen Long (\<lambda>v0. andThen Int_buf (\<lambda>v1. andThen Int_buf (\<lambda>v2. ret \<lparr>bmnBadMsgID = v0, bmnBadMsgSeqno = v1, bmnErrorCode = v2\<rparr>)))"

definition BadMsgNotification_Decode :: "BadMsgNotification decoder" where
  "BadMsgNotification_Decode = andThen (ConsumeID BadMsgNotificationTypeID) (\<lambda>_. BadMsgNotification_DecodeBare)"

record BadServerSalt =
  bssBadMsgID :: int
  bssBadMsgSeqno :: int
  bssErrorCode :: int
  bssNewServerSalt :: int

definition BadServerSaltTypeID :: "32 word" where "BadServerSaltTypeID = 0xedab447b"

definition BadServerSalt_EncodeBare :: "BadServerSalt \<Rightarrow> bytes \<Rightarrow> bytes" where
  "BadServerSalt_EncodeBare x b = PutLong (bssNewServerSalt x) (PutInt (bssErrorCode x) (PutInt (bssBadMsgSeqno x) (PutLong (bssBadMsgID x) b)))"

definition BadServerSalt_Encode :: "BadServerSalt \<Rightarrow> bytes \<Rightarrow> bytes" where
  "BadServerSalt_Encode x b = BadServerSalt_EncodeBare x (PutID BadServerSaltTypeID b)"

definition BadServerSalt_DecodeBare :: "BadServerSalt decoder" where
  "BadServerSalt_DecodeBare =
     andThen Long (\<lambda>v0. andThen Int_buf (\<lambda>v1. andThen Int_buf (\<lambda>v2. andThen Long (\<lambda>v3. ret \<lparr>bssBadMsgID = v0, bssBadMsgSeqno = v1, bssErrorCode = v2, bssNewServerSalt = v3\<rparr>))))"

definition BadServerSalt_Decode :: "BadServerSalt decoder" where
  "BadServerSalt_Decode = andThen (ConsumeID BadServerSaltTypeID) (\<lambda>_. BadServerSalt_DecodeBare)"

record FutureSalt =
  fsValidSince :: int
  fsValidUntil :: int
  fsSalt :: int

definition FutureSaltTypeID :: "32 word" where "FutureSaltTypeID = 0x0949d9dc"

definition FutureSalt_EncodeBare :: "FutureSalt \<Rightarrow> bytes \<Rightarrow> bytes" where
  "FutureSalt_EncodeBare x b = PutLong (fsSalt x) (PutInt (fsValidUntil x) (PutInt (fsValidSince x) b))"

definition FutureSalt_Encode :: "FutureSalt \<Rightarrow> bytes \<Rightarrow> bytes" where
  "FutureSalt_Encode x b = FutureSalt_EncodeBare x (PutID FutureSaltTypeID b)"

definition FutureSalt_DecodeBare :: "FutureSalt decoder" where
  "FutureSalt_DecodeBare =
     andThen Int_buf (\<lambda>v0. andThen Int_buf (\<lambda>v1. andThen Long (\<lambda>v2. ret \<lparr>fsValidSince = v0, fsValidUntil = v1, fsSalt = v2\<rparr>)))"

definition FutureSalt_Decode :: "FutureSalt decoder" where
  "FutureSalt_Decode = andThen (ConsumeID FutureSaltTypeID) (\<lambda>_. FutureSalt_DecodeBare)"

record FutureSalts =
  fssReqMsgID :: int
  fssNow :: int
  fssSalts :: "FutureSalt list"

definition FutureSaltsTypeID :: "32 word" where "FutureSaltsTypeID = 0xae500895"

definition FutureSalts_EncodeBare :: "FutureSalts \<Rightarrow> bytes \<Rightarrow> bytes" where
  "FutureSalts_EncodeBare f b =
     fold FutureSalt_EncodeBare (fssSalts f) (PutInt (int (length (fssSalts f))) (PutInt (fssNow f) (PutLong (fssReqMsgID f) b)))"

definition FutureSalts_Encode :: "FutureSalts \<Rightarrow> bytes \<Rightarrow> bytes" where
  "FutureSalts_Encode f b = FutureSalts_EncodeBare f (PutID FutureSaltsTypeID b)"

definition FutureSalts_DecodeBare :: "FutureSalts decoder" where
  "FutureSalts_DecodeBare = andThen Long (\<lambda>reqMsgID. andThen Int_buf (\<lambda>now. andThen Int_buf (\<lambda>headerLen.
     andThen (get_loop (nat headerLen) FutureSalt_DecodeBare) (\<lambda>salts.
       ret \<lparr>fssReqMsgID = reqMsgID, fssNow = now, fssSalts = salts\<rparr>))))"

definition FutureSalts_Decode :: "FutureSalts decoder" where
  "FutureSalts_Decode = andThen (ConsumeID FutureSaltsTypeID) (\<lambda>_. FutureSalts_DecodeBare)"

record MsgsAck =
  ackMsgIDs :: "int list"

definition MsgsAckTypeID :: "32 word" where "MsgsAckTypeID = 0x62d6b459"

definition MsgsAck_EncodeBare :: "MsgsAck \<Rightarrow> bytes \<Rightarrow> bytes" where
  "MsgsAck_EncodeBare m b = fold PutLong (ackMsgIDs m) (PutVectorHeader (int (length (ackMsgIDs m))) b)"

definition MsgsAck_Encode :: "MsgsAck \<Rightarrow> bytes \<Rightarrow> bytes" where
  "MsgsAck_Encode m b = MsgsAck_EncodeBare m (PutID MsgsAckTypeID b)"

definition MsgsAck_DecodeBare :: "MsgsAck decoder" where
  "MsgsAck_DecodeBare = andThen VectorHeader (\<lambda>headerLen.
     andThen (get_loop (nat headerLen) Long) (\<lambda>ids. ret \<lparr>ackMsgIDs = ids\<rparr>))"

definition MsgsAck_Decode :: "MsgsAck decoder" where
  "MsgsAck_Decode = andThen (ConsumeID MsgsAckTypeID) (\<lambda>_. MsgsAck_DecodeBare)"

record Pong =
  pongMsgID :: int
  pongPingID :: int

definition PongTypeID :: "32 word" where "PongTypeID = 0x347773c5"

definition Pong_EncodeBare :: "Pong \<Rightarrow> bytes \<Rightarrow> bytes" where
  "Pong_EncodeBare x b = PutLong (pongPingID x) (PutLong (pongMsgID x) b)"

definition Pong_Encode :: "Pong \<Rightarrow> bytes \<Rightarrow> bytes" where
  "Pong_Encode x b = Pong_EncodeBare x (PutID PongTypeID b)"

definition Pong_DecodeBare :: "Pong decoder" where
  "Pong_DecodeBare =
     andThen Long (\<lambda>v0. andThen Long (\<lambda>v1. ret \<lparr>pongMsgID = v0, pongPingID = v1\<rparr>))"

definition Pong_Decode :: "Pong decoder" where
  "Pong_Decode = andThen (ConsumeID PongTypeID) (\<lambda>_. Pong_DecodeBare)"

record RPCError =
  rpceErrorCode :: int
  rpceErrorMessage :: bytes

definition RPCErrorTypeID :: "32 word" where "RPCErrorTypeID = 0x2144ca19"

definition RPCError_EncodeBare :: "RPCError \<Rightarrow> bytes \<Rightarrow> bytes" where
  "RPCError_EncodeBare x b = PutString (rpceErrorMessage x) (PutInt (rpceErrorCode x) b)"

definition RPCError_Encode :: "RPCError \<Rightarrow> bytes \<Rightarrow> bytes" where
  "RPCError_Encode x b = RPCError_EncodeBare x (PutID RPCErrorTypeID b)"

definition RPCError_DecodeBare :: "RPCError decoder" where
  "RPCError_DecodeBare =
     andThen Int_buf (\<lambda>v0. andThen String (\<lambda>v1. ret \<lparr>rpceErrorCode = v0, rpceErrorMessage = v1\<rparr>))"

definition RPCError_Decode :: "RPCError decoder" where
  "RPCError_Decode = andThen (ConsumeID RPCErrorTypeID) (\<lambda>_. RPCError_DecodeBare)"

record PingRequest =
  pingPingID :: int

definition PingRequestTypeID :: "32 word" where "PingRequestTypeID = 0x7abe77ec"

definition PingRequest_EncodeBare :: "PingRequest \<Rightarrow> bytes \<Rightarrow> bytes" where
  "PingRequest_EncodeBare x b = PutLong (pingPingID x) b"

definition PingRequest_Encode :: "PingRequest \<Rightarrow> bytes \<Rightarrow> bytes" where
  "PingRequest_Encode x b = PingRequest_EncodeBare x (PutID PingRequestTypeID b)"

definition PingRequest_DecodeBare :: "PingRequest decoder" where
  "PingRequest_DecodeBare =
     andThen Long (\<lambda>v0. ret \<lparr>pingPingID = v0\<rparr>)"

definition PingRequest_Decode :: "PingRequest decoder" where
  "PingRequest_Decode = andThen (ConsumeID PingRequestTypeID) (\<lambda>_. PingRequest_DecodeBare)"

record PingDelayDisconnectRequest =
  pddPingID :: int
  pddDisconnectDelay :: int

definition PingDelayDisconnectRequestTypeID :: "32 word" where "PingDelayDisconnectRequestTypeID = 0xf3427b8c"

definition PingDelayDisconnectRequest_EncodeBare :: "PingDelayDisconnectRequest \<Rightarrow> bytes \<Rightarrow> bytes" where
  "PingDelayDisconnectRequest_EncodeBare x b = PutInt (pddDisconnectDelay x) (PutLong (pddPingID x) b)"

definition PingDelayDisconnectRequest_Encode :: "PingDelayDisconnectRequest \<Rightarrow> bytes \<Rightarrow> bytes" where
  "PingDelayDisconnectRequest_Encode x b = PingDelayDisconnectRequest_EncodeBare x (PutID PingDelayDisconnectRequestTypeID b)"

definition PingDelayDisconnectRequest_DecodeBare :: "PingDelayDisconnectRequest decoder" where
  "PingDelayDisconnectRequest_DecodeBare =
     andThen Long (\<lambda>v0. andThen Int_buf (\<lambda>v1. ret \<lparr>pddPingID = v0, pddDisconnectDelay = v1\<rparr>))"

definition PingDelayDisconnectRequest_Decode :: "PingDelayDisconnectRequest decoder" where
  "PingDelayDisconnectRequest_Decode = andThen (ConsumeID PingDelayDisconnectRequestTypeID) (\<lambda>_. PingDelayDisconnectRequest_DecodeBare)"

record GetFutureSaltsRequest =
  gfsNum :: int

definition GetFutureSaltsRequestTypeID :: "32 word" where "GetFutureSaltsRequestTypeID = 0xb921bd04"

definition GetFutureSaltsRequest_EncodeBare :: "GetFutureSaltsRequest \<Rightarrow> bytes \<Rightarrow> bytes" where
  "GetFutureSaltsRequest_EncodeBare x b = PutInt (gfsNum x) b"

definition GetFutureSaltsRequest_Encode :: "GetFutureSaltsRequest \<Rightarrow> bytes \<Rightarrow> bytes" where
  "GetFutureSaltsRequest_Encode x b = GetFutureSaltsRequest_EncodeBare x (PutID GetFutureSaltsRequestTypeID b)"

definition GetFutureSaltsRequest_DecodeBare :: "GetFutureSaltsRequest decoder" where
  "GetFutureSaltsRequest_DecodeBare =
     andThen Int_buf (\<lambda>v0. ret \<lparr>gfsNum = v0\<rparr>)"

definition GetFutureSaltsRequest_Decode :: "GetFutureSaltsRequest decoder" where
  "GetFutureSaltsRequest_Decode = andThen (ConsumeID GetFutureSaltsRequestTypeID) (\<lambda>_. GetFutureSaltsRequest_DecodeBare)"

lemmas mt_defs =
  NewSessionCreated_EncodeBare_def NewSessionCreated_Encode_def NewSessionCreated_DecodeBare_def NewSessionCreated_Decode_def
  BadMsgNotification_EncodeBare_def BadMsgNotification_Encode_def BadMsgNotification_DecodeBare_def BadMsgNotification_Decode_def
  BadServerSalt_EncodeBare_def BadServerSalt_Encode_def BadServerSalt_DecodeBare_def BadServerSalt_Decode_def
  FutureSalt_EncodeBare_def FutureSalt_Encode_def FutureSalt_DecodeBare_def FutureSalt_Decode_def
  Pong_EncodeBare_def Pong_Encode_def Pong_DecodeBare_def Pong_Decode_def
  RPCError_EncodeBare_def RPCError_Encode_def RPCError_DecodeBare_def RPCError_Decode_def
  PingRequest_EncodeBare_def PingRequest_Encode_def PingRequest_DecodeBare_def PingRequest_Decode_def
  PingDelayDisconnectRequest_EncodeBare_def PingDelayDisconnectRequest_Encode_def PingDelayDisconnectRequest_DecodeBare_def PingDelayDisconnectRequest_Decode_def
  GetFutureSaltsRequest_EncodeBare_def GetFutureSaltsRequest_Encode_def GetFutureSaltsRequest_DecodeBare_def GetFutureSaltsRequest_Decode_def
  FutureSalts_EncodeBare_def FutureSalts_Encode_def FutureSalts_DecodeBare_def FutureSalts_Decode_def
  MsgsAck_EncodeBare_def MsgsAck_Encode_def MsgsAck_DecodeBare_def MsgsAck_Decode_def

lemmas mt_ids =
  NewSessionCreatedTypeID_def
  BadMsgNotificationTypeID_def
  BadServerSaltTypeID_def
  FutureSaltTypeID_def
  PongTypeID_def
  RPCErrorTypeID_def
  PingRequestTypeID_def
  PingDelayDisconnectRequestTypeID_def
  GetFutureSaltsRequestTypeID_def
  FutureSaltsTypeID_def
  MsgsAckTypeID_def

section \<open>Round trips\<close>

definition NewSessionCreated_ok :: "NewSessionCreated \<Rightarrow> bool" where
  "NewSessionCreated_ok x \<longleftrightarrow> int64_range (nscFirstMsgID x) \<and> int64_range (nscUniqueID x) \<and> int64_range (nscServerSalt x)"

interpretation nsc: tl_type NewSessionCreated_Encode NewSessionCreated_Decode NewSessionCreated_ok
  by unfold_locales (simp_all add: mt_defs wire NewSessionCreated_ok_def ret_def)

definition BadMsgNotification_ok :: "BadMsgNotification \<Rightarrow> bool" where
  "BadMsgNotification_ok x \<longleftrightarrow> int64_range (bmnBadMsgID x) \<and> int32_range (bmnBadMsgSeqno x) \<and> int32_range (bmnErrorCode x)"

interpretation bmn: tl_type BadMsgNotification_Encode BadMsgNotification_Decode BadMsgNotification_ok
  by unfold_locales (simp_all add: mt_defs wire BadMsgNotification_ok_def ret_def)

definition BadServerSalt_ok :: "BadServerSalt \<Rightarrow> bool" where
  "BadServerSalt_ok x \<longleftrightarrow> int64_range (bssBadMsgID x) \<and> int32_range (bssBadMsgSeqno x) \<and> int32_range (bssErrorCode x) \<and> int64_range (bssNewServerSalt x)"

interpretation bss: tl_type BadServerSalt_Encode BadServerSalt_Decode BadServerSalt_ok
  by unfold_locales (simp_all add: mt_defs wire BadServerSalt_ok_def ret_def)

definition FutureSalt_ok :: "FutureSalt \<Rightarrow> bool" where
  "FutureSalt_ok x \<longleftrightarrow> int32_range (fsValidSince x) \<and> int32_range (fsValidUntil x) \<and> int64_range (fsSalt x)"

interpretation bare_fs: tl_type FutureSalt_EncodeBare FutureSalt_DecodeBare FutureSalt_ok
  by unfold_locales (simp_all add: mt_defs wire FutureSalt_ok_def ret_def)

interpretation fs: tl_type FutureSalt_Encode FutureSalt_Decode FutureSalt_ok
  by unfold_locales (simp_all add: mt_defs wire FutureSalt_ok_def ret_def)

definition Pong_ok :: "Pong \<Rightarrow> bool" where
  "Pong_ok x \<longleftrightarrow> int64_range (pongMsgID x) \<and> int64_range (pongPingID x)"

interpretation pong: tl_type Pong_Encode Pong_Decode Pong_ok
  by unfold_locales (simp_all add: mt_defs wire Pong_ok_def ret_def)

definition RPCError_ok :: "RPCError \<Rightarrow> bool" where
  "RPCError_ok x \<longleftrightarrow> int32_range (rpceErrorCode x) \<and> length (rpceErrorMessage x) < 2 ^ 24"

interpretation rpce: tl_type RPCError_Encode RPCError_Decode RPCError_ok
  by unfold_locales (simp_all add: mt_defs wire RPCError_ok_def ret_def)

definition PingRequest_ok :: "PingRequest \<Rightarrow> bool" where
  "PingRequest_ok x \<longleftrightarrow> int64_range (pingPingID x)"

interpretation ping: tl_type PingRequest_Encode PingRequest_Decode PingRequest_ok
  by unfold_locales (simp_all add: mt_defs wire PingRequest_ok_def ret_def)

definition PingDelayDisconnectRequest_ok :: "PingDelayDisconnectRequest \<Rightarrow> bool" where
  "PingDelayDisconnectRequest_ok x \<longleftrightarrow> int64_range (pddPingID x) \<and> int32_range (pddDisconnectDelay x)"

interpretation pdd: tl_type PingDelayDisconnectRequest_Encode PingDelayDisconnectRequest_Decode PingDelayDisconnectRequest_ok
  by unfold_locales (simp_all add: mt_defs wire PingDelayDisconnectRequest_ok_def ret_def)

definition GetFutureSaltsRequest_ok :: "GetFutureSaltsRequest \<Rightarrow> bool" where
  "GetFutureSaltsRequest_ok x \<longleftrightarrow> int32_range (gfsNum x)"

interpretation gfs: tl_type GetFutureSaltsRequest_Encode GetFutureSaltsRequest_Decode GetFutureSaltsRequest_ok
  by unfold_locales (simp_all add: mt_defs wire GetFutureSaltsRequest_ok_def ret_def)

definition FutureSalts_ok :: "FutureSalts \<Rightarrow> bool" where
  "FutureSalts_ok x \<longleftrightarrow> int64_range (fssReqMsgID x) \<and> int32_range (fssNow x) \<and> length (fssSalts x) < 2 ^ 31 \<and>
     (\<forall>s \<in> set (fssSalts x). FutureSalt_ok s)"

interpretation fss: tl_type FutureSalts_Encode FutureSalts_Decode FutureSalts_ok
proof
  show "FutureSalts_Encode x b = b @ FutureSalts_Encode x []" for x b
    by (simp add: FutureSalts_Encode_def FutureSalts_EncodeBare_def bare_fs.fold_put wire)
  show "FutureSalts_Decode (FutureSalts_Encode x [] @ rest) = (Inr x, rest)" if "FutureSalts_ok x" for x rest
    using that bare_fs.get_loop_fold_put[of "fssSalts x" rest]
    by (simp add: FutureSalts_Encode_def FutureSalts_EncodeBare_def FutureSalts_Decode_def FutureSalts_DecodeBare_def
        bare_fs.fold_put wire FutureSalts_ok_def ret_def)
qed

definition MsgsAck_ok :: "MsgsAck \<Rightarrow> bool" where
  "MsgsAck_ok x \<longleftrightarrow> length (ackMsgIDs x) < 2 ^ 31 \<and> (\<forall>v \<in> set (ackMsgIDs x). int64_range v)"

interpretation ack: tl_type MsgsAck_Encode MsgsAck_Decode MsgsAck_ok
proof
  show "MsgsAck_Encode x b = b @ MsgsAck_Encode x []" for x b
    by (simp add: MsgsAck_Encode_def MsgsAck_EncodeBare_def long.fold_put) (simp add: wire)
  show "MsgsAck_Decode (MsgsAck_Encode x [] @ rest) = (Inr x, rest)" if "MsgsAck_ok x" for x rest
    using that long.get_loop_fold_put[of "ackMsgIDs x" rest]
    by (simp add: MsgsAck_Encode_def MsgsAck_EncodeBare_def MsgsAck_Decode_def MsgsAck_DecodeBare_def
        long.fold_put MsgsAck_ok_def) (simp add: wire ret_def)
qed

text \<open>No reader panics, whatever the bytes.\<close>

lemma mt_no_panic [panics]:
  "no_panic NewSessionCreated_Decode"
  "no_panic BadMsgNotification_Decode"
  "no_panic BadServerSalt_Decode"
  "no_panic Pong_Decode"
  "no_panic RPCError_Decode"
  "no_panic PingRequest_Decode"
  "no_panic PingDelayDisconnectRequest_Decode"
  "no_panic GetFutureSaltsRequest_Decode"
  "no_panic FutureSalts_Decode"
  "no_panic FutureSalt_Decode"
  "no_panic MsgsAck_Decode"
  by (simp_all add: mt_defs panics)

lemma ConsumeID_other [wire]: "i \<noteq> j \<Longrightarrow> ConsumeID i (wID j @ rest) = (Inl (UnexpectedIDErr j), wID j @ rest)"
  by (simp add: ConsumeID_eq wire andThen_def)

lemma PeekID_service:
  "fst (PeekID (NewSessionCreated_Encode a [] @ rest)) = Inr NewSessionCreatedTypeID"
  "fst (PeekID (BadMsgNotification_Encode b [] @ rest)) = Inr BadMsgNotificationTypeID"
  "fst (PeekID (BadServerSalt_Encode c [] @ rest)) = Inr BadServerSaltTypeID"
  "fst (PeekID (Pong_Encode d [] @ rest)) = Inr PongTypeID"
  "fst (PeekID (RPCError_Encode e [] @ rest)) = Inr RPCErrorTypeID"
  "fst (PeekID (PingRequest_Encode f [] @ rest)) = Inr PingRequestTypeID"
  "fst (PeekID (PingDelayDisconnectRequest_Encode g [] @ rest)) = Inr PingDelayDisconnectRequestTypeID"
  "fst (PeekID (GetFutureSaltsRequest_Encode h [] @ rest)) = Inr GetFutureSaltsRequestTypeID"
  "fst (PeekID (FutureSalts_Encode i [] @ rest)) = Inr FutureSaltsTypeID"
  "fst (PeekID (FutureSalt_Encode j [] @ rest)) = Inr FutureSaltTypeID"
  "fst (PeekID (MsgsAck_Encode k [] @ rest)) = Inr MsgsAckTypeID"
  by (simp_all add: mt_defs bare_fs.fold_put long.fold_put wire)

lemma foreign_id:
  "i \<noteq> NewSessionCreatedTypeID \<Longrightarrow> fst (NewSessionCreated_Decode (wID i @ rest)) = Inl (UnexpectedIDErr i)"
  "i \<noteq> BadMsgNotificationTypeID \<Longrightarrow> fst (BadMsgNotification_Decode (wID i @ rest)) = Inl (UnexpectedIDErr i)"
  "i \<noteq> BadServerSaltTypeID \<Longrightarrow> fst (BadServerSalt_Decode (wID i @ rest)) = Inl (UnexpectedIDErr i)"
  "i \<noteq> PongTypeID \<Longrightarrow> fst (Pong_Decode (wID i @ rest)) = Inl (UnexpectedIDErr i)"
  "i \<noteq> RPCErrorTypeID \<Longrightarrow> fst (RPCError_Decode (wID i @ rest)) = Inl (UnexpectedIDErr i)"
  "i \<noteq> PingRequestTypeID \<Longrightarrow> fst (PingRequest_Decode (wID i @ rest)) = Inl (UnexpectedIDErr i)"
  "i \<noteq> PingDelayDisconnectRequestTypeID \<Longrightarrow> fst (PingDelayDisconnectRequest_Decode (wID i @ rest)) = Inl (UnexpectedIDErr i)"
  "i \<noteq> GetFutureSaltsRequestTypeID \<Longrightarrow> fst (GetFutureSaltsRequest_Decode (wID i @ rest)) = Inl (UnexpectedIDErr i)"
  "i \<noteq> FutureSaltsTypeID \<Longrightarrow> fst (FutureSalts_Decode (wID i @ rest)) = Inl (UnexpectedIDErr i)"
  "i \<noteq> FutureSaltTypeID \<Longrightarrow> fst (FutureSalt_Decode (wID i @ rest)) = Inl (UnexpectedIDErr i)"
  "i \<noteq> MsgsAckTypeID \<Longrightarrow> fst (MsgsAck_Decode (wID i @ rest)) = Inl (UnexpectedIDErr i)"
  by (simp_all add: mt_defs wire)

text \<open>A record carried under an identifier: what is written begins with it and is read back, leaving
  the bytes behind, and the reader refuses any other identifier.\<close>

definition carried :: "32 word \<Rightarrow> ('a \<Rightarrow> bytes \<Rightarrow> bytes) \<Rightarrow> 'a decoder \<Rightarrow> 'a \<Rightarrow> bytes \<Rightarrow> bool" where
  "carried i enc dec x rest \<longleftrightarrow> fst (PeekID (enc x [] @ rest)) = Inr i \<and> dec (enc x [] @ rest) = (Inr x, rest) \<and>
     (\<forall>j. j \<noteq> i \<longrightarrow> fst (dec (wID j @ rest)) = Inl (UnexpectedIDErr j))"

text \<open>C38: the service messages of the protocol survive the wire: each record whose fields are in
  range is written to bytes that begin with the identifier the protocol gives its type, and read
  back into it, with the bytes behind it left; its reader refuses any other
  identifier, and no two kinds share one.\<close>

theorem service_messages_roundtrip:
  assumes "NewSessionCreated_ok a"
    "BadMsgNotification_ok b"
    "BadServerSalt_ok c"
    "Pong_ok d"
    "RPCError_ok e"
    "PingRequest_ok f"
    "PingDelayDisconnectRequest_ok g"
    "GetFutureSaltsRequest_ok h"
    "FutureSalts_ok i"
    "FutureSalt_ok j"
    "MsgsAck_ok k"
  shows "carried 0x9ec20908 NewSessionCreated_Encode NewSessionCreated_Decode a rest \<and>
    carried 0xa7eff811 BadMsgNotification_Encode BadMsgNotification_Decode b rest \<and>
    carried 0xedab447b BadServerSalt_Encode BadServerSalt_Decode c rest \<and>
    carried 0x347773c5 Pong_Encode Pong_Decode d rest \<and>
    carried 0x2144ca19 RPCError_Encode RPCError_Decode e rest \<and>
    carried 0x7abe77ec PingRequest_Encode PingRequest_Decode f rest \<and>
    carried 0xf3427b8c PingDelayDisconnectRequest_Encode PingDelayDisconnectRequest_Decode g rest \<and>
    carried 0xb921bd04 GetFutureSaltsRequest_Encode GetFutureSaltsRequest_Decode h rest \<and>
    carried 0xae500895 FutureSalts_Encode FutureSalts_Decode i rest \<and>
    carried 0x0949d9dc FutureSalt_Encode FutureSalt_Decode j rest \<and>
    carried 0x62d6b459 MsgsAck_Encode MsgsAck_Decode k rest \<and>
    distinct [NewSessionCreatedTypeID, BadMsgNotificationTypeID, BadServerSaltTypeID, PongTypeID, RPCErrorTypeID, PingRequestTypeID, PingDelayDisconnectRequestTypeID, GetFutureSaltsRequestTypeID, FutureSaltsTypeID, FutureSaltTypeID, MsgsAckTypeID]"
  unfolding carried_def
  using assms PeekID_service foreign_id[of _ rest]
  by (simp add: nsc.get_put bmn.get_put bss.get_put pong.get_put rpce.get_put ping.get_put pdd.get_put gfs.get_put fss.get_put fs.get_put ack.get_put mt_ids)

theorem service_messages_roundtrip_witness:
  "MsgsAck_Decode (MsgsAck_Encode \<lparr>ackMsgIDs = [5, -6]\<rparr> [] @ [1]) = (Inr \<lparr>ackMsgIDs = [5, -6]\<rparr>, [1]) \<and>
   fst (PeekID (FutureSalt_Encode \<lparr>fsValidSince = 1, fsValidUntil = 2, fsSalt = 3\<rparr> [] @ [1])) = Inr 0x0949d9dc \<and>
   fst (Pong_Decode (wID 0x7abe77ec @ [1])) = Inl (UnexpectedIDErr 0x7abe77ec)"
  using service_messages_roundtrip[of "\<lparr>nscFirstMsgID = 1, nscUniqueID = 2, nscServerSalt = 3\<rparr>"
      "\<lparr>bmnBadMsgID = 1, bmnBadMsgSeqno = 2, bmnErrorCode = 16\<rparr>"
      "\<lparr>bssBadMsgID = 1, bssBadMsgSeqno = 2, bssErrorCode = 48, bssNewServerSalt = 4\<rparr>"
      "\<lparr>pongMsgID = 1, pongPingID = 2\<rparr>" "\<lparr>rpceErrorCode = 400, rpceErrorMessage = [65]\<rparr>" "\<lparr>pingPingID = 1\<rparr>"
      "\<lparr>pddPingID = 1, pddDisconnectDelay = 75\<rparr>" "\<lparr>gfsNum = 4\<rparr>"
      "\<lparr>fssReqMsgID = 1, fssNow = 2, fssSalts = [\<lparr>fsValidSince = 1, fsValidUntil = 2, fsSalt = 3\<rparr>]\<rparr>"
      "\<lparr>fsValidSince = 1, fsValidUntil = 2, fsSalt = 3\<rparr>" "\<lparr>ackMsgIDs = [5, -6]\<rparr>" "[1]"]
  by (simp add: carried_def NewSessionCreated_ok_def BadMsgNotification_ok_def BadServerSalt_ok_def Pong_ok_def RPCError_ok_def
      PingRequest_ok_def PingDelayDisconnectRequest_ok_def GetFutureSaltsRequest_ok_def FutureSalts_ok_def
      FutureSalt_ok_def MsgsAck_ok_def)

end
