(* ===== verification/ProtoMsg.thy ===== *)
theory ProtoMsg
  imports MtTypes
begin

text \<open>
  The wrappers of MTProto messages, \<open>pkg/gotd/proto\<close>: containers (\<open>container.go\<close>), results of
  requests (\<open>rpc_result.go\<close>), plaintext messages of the key exchange (\<open>unencrypted_message.go\<close>)
  and packed objects (\<open>gzip.go\<close>).  The compression itself comes from another module and is a
  parameter: what the reader of some compressed bytes yields, and whether it ends in an error.
\<close>

datatype proto_err =
    PBin bin_err
  | MessageLengthErr int
  | UnexpectedAuthKeyID int
  | GzipErr
  | DecompressionBombErr nat nat

type_synonym 'a pdecoder = "(bytes, proto_err, 'a) prog"

definition onTL :: "'a decoder \<Rightarrow> 'a pdecoder" where
  "onTL m b = (case m b of (Inl e, b') \<Rightarrow> (Inl (PBin e), b') | (Inr a, b') \<Rightarrow> (Inr a, b'))"

section \<open>Containers\<close>

definition MessageContainerTypeID :: "32 word" where "MessageContainerTypeID = 0x73f1f8dc"

record Message =
  msgID :: int
  msgSeqNo :: int
  msgBytes :: int
  msgBody :: bytes

definition Message_Encode :: "Message \<Rightarrow> (bytes, proto_err, unit) prog" where
  "Message_Encode m b =
     (if msgBytes m < 0 \<or> msgBytes m > 1024 * 1024 then (Inl (MessageLengthErr (msgBytes m)), b)
      else (Inr (), Put (msgBody m) (PutInt (msgBytes m) (PutInt (msgSeqNo m) (PutLong (msgID m) b)))))"

definition Message_Decode :: "Message pdecoder" where
  "Message_Decode = andThen (onTL Long) (\<lambda>i. andThen (onTL Int_buf) (\<lambda>seqNo. andThen (onTL Int_buf) (\<lambda>n.
     if n < 0 \<or> n > 1024 * 1024 then fail (MessageLengthErr n)
     else andThen (onTL (ConsumeN (replicate (nat n) 0) n)) (\<lambda>body.
       ret \<lparr>msgID = i, msgSeqNo = seqNo, msgBytes = n, msgBody = body\<rparr>))))"

primrec Messages_Encode :: "Message list \<Rightarrow> (bytes, proto_err, unit) prog" where
  "Messages_Encode [] = ret ()"
| "Messages_Encode (m # ms) = andThen (Message_Encode m) (\<lambda>_. Messages_Encode ms)"

definition MessageContainer_Encode :: "Message list \<Rightarrow> (bytes, proto_err, unit) prog" where
  "MessageContainer_Encode ms b = Messages_Encode ms (PutInt (int (length ms)) (PutID MessageContainerTypeID b))"

primrec Messages_Decode :: "nat \<Rightarrow> Message list pdecoder" where
  "Messages_Decode 0 = ret []"
| "Messages_Decode (Suc n) = andThen Message_Decode (\<lambda>m. andThen (Messages_Decode n) (\<lambda>ms. ret (m # ms)))"

definition MessageContainer_Decode :: "Message list pdecoder" where
  "MessageContainer_Decode = andThen (onTL (ConsumeID MessageContainerTypeID)) (\<lambda>_.
     andThen (onTL Int_buf) (\<lambda>n. Messages_Decode (nat n)))"

section \<open>Results\<close>

definition ResultTypeID :: "32 word" where "ResultTypeID = 0xf35c6d01"

record Result =
  RequestMessageID :: int
  resultBytes :: bytes

definition Result_Encode :: "Result \<Rightarrow> bytes \<Rightarrow> bytes" where
  "Result_Encode r b = Put (resultBytes r) (PutLong (RequestMessageID r) (PutID ResultTypeID b))"

definition Result_Decode :: "Result decoder" where
  "Result_Decode = andThen (ConsumeID ResultTypeID) (\<lambda>_. andThen Long (\<lambda>v b.
     andThen (Skip (int (length b))) (\<lambda>_. ret \<lparr>RequestMessageID = v, resultBytes = b\<rparr>) b))"

section \<open>Plaintext messages\<close>

record UnencryptedMessage =
  umMessageID :: int
  umData :: bytes

definition UnencryptedMessage_Encode :: "UnencryptedMessage \<Rightarrow> bytes \<Rightarrow> bytes" where
  "UnencryptedMessage_Encode u b =
     Put (umData u) (PutInt32 (int (length (umData u))) (PutLong (umMessageID u) (PutLong 0 b)))"

text \<open>\<open>make\<close> panics on the negative length it is not protected from.\<close>

definition UnencryptedMessage_Decode :: "UnencryptedMessage pdecoder" where
  "UnencryptedMessage_Decode = andThen (onTL Long) (\<lambda>i.
     if i \<noteq> 0 then fail (UnexpectedAuthKeyID i)
     else andThen (onTL Long) (\<lambda>v. andThen (onTL Int32) (\<lambda>dataLen.
       if dataLen < 0 then fail (PBin Panic)
       else andThen (onTL (ConsumeN (replicate (nat dataLen) 0) dataLen)) (\<lambda>d.
         ret \<lparr>umMessageID = v, umData = d\<rparr>))))"

section \<open>Packed objects\<close>

text \<open>\<open>gzReader\<close> is false when the header is bad; \<open>gzRead\<close> is what the reader yields and whether
  an error ends it; \<open>gzClose\<close> is false when closing reports an error.\<close>

record gzip_lib =
  gzCompress :: "bytes \<Rightarrow> bytes"
  gzReader :: "bytes \<Rightarrow> bool"
  gzRead :: "bytes \<Rightarrow> bytes \<times> bool"
  gzClose :: "bytes \<Rightarrow> bool"

definition GZIPTypeID :: "32 word" where "GZIPTypeID = 0x3072cfa1"
definition maxUncompressedSize :: nat where "maxUncompressedSize = 1024 * 1024 * 10"

definition GZIP_Encode :: "gzip_lib \<Rightarrow> bytes \<Rightarrow> bytes \<Rightarrow> bytes" where
  "GZIP_Encode G d b = PutBytes (gzCompress G d) (PutID GZIPTypeID b)"

definition GZIP_Decode :: "gzip_lib \<Rightarrow> bytes pdecoder" where
  "GZIP_Decode G = andThen (onTL (ConsumeID GZIPTypeID)) (\<lambda>_. andThen (onTL Bytes) (\<lambda>buf.
     if \<not> gzReader G buf then fail GzipErr
     else let (out, failed) = gzRead G buf; d = take maxUncompressedSize out in
       if length out < maxUncompressedSize \<and> failed then fail GzipErr
       else if length d \<ge> maxUncompressedSize then fail (DecompressionBombErr maxUncompressedSize (length d))
       else if \<not> gzClose G buf then fail GzipErr
       else ret d))"

section \<open>Round trips\<close>

lemma onTL_Inr [simp]: "m b = (Inr a, b') \<Longrightarrow> onTL m b = (Inr a, b')"
  by (simp add: onTL_def)

lemma onTL_eq_Inr: "onTL m b = (Inr a, b') \<longleftrightarrow> m b = (Inr a, b')"
  by (auto simp: onTL_def split: prod.splits sum.splits)

lemma onTL_eq_Inl: "onTL m b = (Inl e, b') \<longleftrightarrow> (\<exists>x. e = PBin x \<and> m b = (Inl x, b'))"
  by (auto simp: onTL_def split: prod.splits sum.splits)

lemma onTL_wire [wire]:
  "int32_range n \<Longrightarrow> onTL Int_buf (wInt n @ rest) = (Inr n, rest)"
  "int32_range n \<Longrightarrow> onTL Int32 (wInt n @ rest) = (Inr n, rest)"
  "int64_range v \<Longrightarrow> onTL Long (wLong v @ rest) = (Inr v, rest)"
  "onTL (ConsumeID i) (wID i @ rest) = (Inr (), rest)"
  "onTL (ConsumeN (replicate (length xs) 0) (int (length xs))) (xs @ rest) = (Inr xs, rest)"
  by (auto simp: wire ConsumeN_eq PeekN_eq andThen_def go_copy_def intro!: onTL_Inr)

definition Message_ok :: "Message \<Rightarrow> bool" where
  "Message_ok m \<longleftrightarrow> int64_range (msgID m) \<and> int32_range (msgSeqNo m) \<and> msgBytes m = int (length (msgBody m)) \<and>
     length (msgBody m) \<le> 1024 * 1024"

definition wMessage :: "Message \<Rightarrow> bytes" where
  "wMessage m = wLong (msgID m) @ wInt (msgSeqNo m) @ wInt (msgBytes m) @ msgBody m"

lemma Message_wire [wire]:
  "Message_ok m \<Longrightarrow> Message_Encode m b = (Inr (), b @ wMessage m)"
  "Message_ok m \<Longrightarrow> Message_Decode (wMessage m @ rest) = (Inr m, rest)"
  by (simp_all add: Message_ok_def Message_Encode_def Message_Decode_def wMessage_def wire ret_def)

lemma Messages_wire [wire]:
  "\<forall>m \<in> set ms. Message_ok m \<Longrightarrow> Messages_Encode ms b = (Inr (), b @ concat (map wMessage ms))"
  "\<forall>m \<in> set ms. Message_ok m \<Longrightarrow> Messages_Decode (length ms) (concat (map wMessage ms) @ rest) = (Inr ms, rest)"
  by (induction ms arbitrary: b) (simp_all add: wire ret_def)

lemma MessageContainer_wire:
  assumes "\<forall>m \<in> set ms. Message_ok m" "length ms < 2 ^ 31"
  shows "MessageContainer_Encode ms b =
      (Inr (), b @ wID MessageContainerTypeID @ wInt (int (length ms)) @ concat (map wMessage ms))"
    "MessageContainer_Decode (wID MessageContainerTypeID @ wInt (int (length ms)) @ concat (map wMessage ms) @ rest) = (Inr ms, rest)"
  using assms by (simp_all add: MessageContainer_Encode_def MessageContainer_Decode_def wire)

lemma Result_wire:
  "int64_range (RequestMessageID r) \<Longrightarrow> Result_Decode (Result_Encode r []) = (Inr r, [])"
  by (simp add: Result_Decode_def Result_Encode_def wire Skip_eq ret_def)

lemma UnencryptedMessage_wire:
  "int64_range (umMessageID u) \<Longrightarrow> length (umData u) < 2 ^ 31 \<Longrightarrow>
    UnencryptedMessage_Decode (UnencryptedMessage_Encode u [] @ rest) = (Inr u, rest)"
  by (simp add: UnencryptedMessage_Decode_def UnencryptedMessage_Encode_def wire ret_def)

lemma GZIP_wire:
  assumes "length (gzCompress G d) < 2 ^ 24" "gzReader G (gzCompress G d)" "gzRead G (gzCompress G d) = (d, False)"
    and "gzClose G (gzCompress G d)" "length d < maxUncompressedSize"
  shows "GZIP_Decode G (GZIP_Encode G d [] @ rest) = (Inr d, rest)"
proof -
  have "onTL Bytes (PutBytes (gzCompress G d) [] @ rest) = (Inr (gzCompress G d), rest)"
    using assms(1) by (intro onTL_Inr tl_bytes.get_put) simp
  then show ?thesis
    using assms(2-5) tl_bytes.put_append[of "gzCompress G d" "wID GZIPTypeID"]
    by (simp add: GZIP_Decode_def GZIP_Encode_def wire ret_def)
qed

section \<open>No panics\<close>

definition calm :: "'a pdecoder \<Rightarrow> bool" where
  "calm get \<longleftrightarrow> (\<forall>b. fst (get b) \<noteq> Inl (PBin Panic))"

named_theorems calms \<open>readers of wrapped messages that do not panic\<close>

lemma calm_rules [calms]:
  "no_panic m \<Longrightarrow> calm (onTL m)" "calm (ret a)" "e \<noteq> PBin Panic \<Longrightarrow> calm (fail e)"
  by (auto simp: calm_def no_panic_def onTL_def ret_def fail_def split: prod.split sum.split) (metis fst_conv)

lemma calm_andThen [calms]: "calm m \<Longrightarrow> (\<And>a. calm (f a)) \<Longrightarrow> calm (andThen m f)"
  by (auto simp: calm_def andThen_def split: prod.split sum.split) (metis fst_conv)

lemma no_panic_ConsumeN: "0 \<le> n \<Longrightarrow> no_panic (ConsumeN t n)"
  by (simp add: no_panic_def ConsumeN_eq andThen_def PeekN_eq)

lemma calm_Message [calms]: "calm Message_Decode"
  unfolding Message_Decode_def
  by (intro calms panics) (auto intro!: calms panics no_panic_ConsumeN)

lemma calm_Messages [calms]: "calm (Messages_Decode n)"
  by (induction n) (auto intro!: calms)

lemma calm_MessageContainer [calms]: "calm MessageContainer_Decode"
  unfolding MessageContainer_Decode_def by (intro calms panics)

lemma calm_GZIP [calms]: "calm (GZIP_Decode G)"
  unfolding GZIP_Decode_def
  by (intro calms panics) (auto simp: Let_def intro!: calms split: prod.split)

lemma no_panic_Result [panics]: "no_panic Result_Decode"
proof -
  have "no_panic (\<lambda>b. andThen (Skip (int (length b))) (\<lambda>_. ret \<lparr>RequestMessageID = v, resultBytes = b\<rparr>) b)" for v
    by (simp add: no_panic_def Skip_eq ret_def)
  then show ?thesis unfolding Result_Decode_def by (intro panics)
qed

end
