(* ===== verification/Hash.thy ===== *)
theory Hash
  imports Prelude
begin

text \<open>
  The two hash functions of the standard library that the client uses, SHA-256 and SHA-1, written
  out after FIPS 180-4 over lists of 32-bit words.
\<close>

text \<open>Big-endian words and numbers.\<close>

definition be :: "nat \<Rightarrow> nat \<Rightarrow> bytes" where "be k n = rev (le k n)"

fun words_of :: "bytes \<Rightarrow> 32 word list" where
  "words_of (a # b # c # d # bs) = word_of_nat (unle [d, c, b, a]) # words_of bs"
| "words_of _ = []"

definition bytes_of :: "32 word list \<Rightarrow> bytes" where
  "bytes_of ws = concat (map (\<lambda>w. be 4 (unat w)) ws)"

text \<open>The message followed by a one bit, zeros and its length in bits, a multiple of 64 bytes.\<close>

definition sha_pad :: "bytes \<Rightarrow> bytes" where
  "sha_pad m = m @ [0x80] @ replicate ((119 - length m mod 64) mod 64) 0 @ be 8 (8 * length m)"

fun blocks :: "nat \<Rightarrow> 'a list \<Rightarrow> 'a list list" where
  "blocks 0 xs = []"
| "blocks (Suc n) xs = (if xs = [] then [] else take 16 xs # blocks n (drop 16 xs))"

definition sha_blocks :: "bytes \<Rightarrow> 32 word list list" where
  "sha_blocks m = (let ws = words_of (sha_pad m) in blocks (length ws) ws)"

section \<open>SHA-256\<close>

text \<open>The constants are the first 32 bits of the fractions of the cube roots (of the square roots) of
  the first 64 (8) primes: \<open>frac_root k p\<close> finds the root digit by digit, scaled by 2^32, and the
  word drops what is above the fraction.\<close>

primrec root_digits :: "nat \<Rightarrow> nat \<Rightarrow> nat \<Rightarrow> nat \<Rightarrow> nat" where
  "root_digits k n 0 x = x"
| "root_digits k n (Suc i) x = root_digits k n i (if (x + 2 ^ i) ^ k \<le> n then x + 2 ^ i else x)"

definition frac_root :: "nat \<Rightarrow> nat \<Rightarrow> 32 word" where
  "frac_root k p = word_of_nat (root_digits k (p * 2 ^ (32 * k)) 37 0)"

definition primes_below :: "nat \<Rightarrow> nat list" where
  "primes_below n = filter (\<lambda>p. list_all (\<lambda>d. p mod d \<noteq> 0) [2..<p]) [2..<n]"

definition K256 :: "32 word list" where "K256 = map (frac_root 3) (primes_below 312)"

definition H256 :: "32 word list" where "H256 = map (frac_root 2) (primes_below 20)"

lemma length_H256: "length H256 = 8"
  by (simp add: H256_def primes_below_def upt_rec)

definition schedule256 :: "32 word list \<Rightarrow> 32 word list" where
  "schedule256 ws =
     (let n = length ws; a = ws ! (n - 2); b = ws ! (n - 15)
      in ws @ [(word_rotr 17 a XOR word_rotr 19 a XOR drop_bit 10 a) + ws ! (n - 7)
             + (word_rotr 7 b XOR word_rotr 18 b XOR drop_bit 3 b) + ws ! (n - 16)])"

fun round256 :: "32 word \<times> 32 word \<Rightarrow> 32 word list \<Rightarrow> 32 word list" where
  "round256 (k, w) [a, b, c, d, e, f, g, h] =
     (let t1 = h + (word_rotr 6 e XOR word_rotr 11 e XOR word_rotr 25 e) + ((e AND f) XOR (NOT e AND g)) + k + w;
          t2 = (word_rotr 2 a XOR word_rotr 13 a XOR word_rotr 22 a) + ((a AND b) XOR (a AND c) XOR (b AND c))
      in [t1 + t2, a, b, c, d + t1, e, f, g])"
| "round256 _ hs = hs"

definition block256 :: "32 word list \<Rightarrow> 32 word list \<Rightarrow> 32 word list" where
  "block256 ws hs = map2 (+) hs (fold round256 (zip K256 ((schedule256 ^^ 48) ws)) hs)"

definition SHA256 :: "bytes \<Rightarrow> bytes" where
  "SHA256 m = bytes_of (fold block256 (sha_blocks m) H256)"

section \<open>SHA-1\<close>

definition schedule1 :: "32 word list \<Rightarrow> 32 word list" where
  "schedule1 ws =
     (let n = length ws
      in ws @ [word_rotl 1 (ws ! (n - 3) XOR ws ! (n - 8) XOR ws ! (n - 14) XOR ws ! (n - 16))])"

fun round1 :: "nat \<times> 32 word \<Rightarrow> 32 word list \<Rightarrow> 32 word list" where
  "round1 (i, w) [a, b, c, d, e] =
     (let (f, k) = (if i < 20 then ((b AND c) OR (NOT b AND d), 0x5a827999)
                    else if i < 40 then (b XOR c XOR d, 0x6ed9eba1)
                    else if i < 60 then ((b AND c) OR (b AND d) OR (c AND d), 0x8f1bbcdc)
                    else (b XOR c XOR d, 0xca62c1d6))
      in [word_rotl 5 a + f + e + k + w, a, word_rotl 30 b, c, d])"
| "round1 _ hs = hs"

definition block1 :: "32 word list \<Rightarrow> 32 word list \<Rightarrow> 32 word list" where
  "block1 ws hs = map2 (+) hs (fold round1 (zip [0..<80] ((schedule1 ^^ 64) ws)) hs)"

definition SHA1 :: "bytes \<Rightarrow> bytes" where
  "SHA1 m = bytes_of (fold block1 (sha_blocks m) [0x67452301, 0xefcdab89, 0x98badcfe, 0x10325476, 0xc3d2e1f0])"

section \<open>The length of a digest\<close>

lemma length_bytes_of [simp]: "length (bytes_of ws) = 4 * length ws"
  by (induction ws) (simp_all add: bytes_of_def be_def)

lemma length_round256: "length (round256 kw hs) = length hs"
  by (cases "(kw, hs)" rule: round256.cases) (simp_all add: Let_def)

lemma length_round1: "length (round1 iw hs) = length hs"
  by (cases "(iw, hs)" rule: round1.cases) (simp_all add: Let_def)

lemma length_fold: "(\<And>x hs. length (f x hs) = length hs) \<Longrightarrow> length (fold f xs hs) = length hs"
  by (induction xs arbitrary: hs) auto

lemma length_SHA256 [simp]: "length (SHA256 m) = 32"
proof -
  have "length (fold block256 (sha_blocks m) H256) = 8"
    by (subst length_fold) (simp_all add: block256_def length_fold length_round256 length_H256)
  then show ?thesis by (simp add: SHA256_def)
qed

lemma length_SHA1 [simp]: "length (SHA1 m) = 20"
proof -
  have "length (fold block1 (sha_blocks m) [0x67452301, 0xefcdab89, 0x98badcfe, 0x10325476, 0xc3d2e1f0]) = 5"
    by (subst length_fold) (simp_all add: block1_def length_fold length_round1)
  then show ?thesis by (simp add: SHA1_def)
qed

end
