(* ===== verification/Cipher.thy ===== *)
theory Cipher
  imports TLBuffer Hash
begin

text \<open>
  Encryption of messages, \<open>pkg/gotd/crypto\<close>: authorization keys (\<open>key.go\<close>), the derivation of
  message keys and cipher keys (\<open>keys.go\<close>), the layout of encrypted messages
  (\<open>encrypted_message.go\<close>, \<open>encrypted_message_data.go\<close>) and both directions of the cipher
  (\<open>cipher_encrypt.go\<close>, \<open>cipher_decrypt.go\<close>).  AES in IGE mode comes from another module; it is a
  parameter, a record of the two directions on whole blocks.
\<close>

datatype cipher_err =
    CBin bin_err
  | InvalidMsgKey
  | UnknownAuthKeyID
  | InvalidDataPadding
  | MessageLengthInvalid int
  | PaddingTooBig int
  | DataLenTooBig int
  | RandError

type_synonym 'a cipher = "(bytes, cipher_err, 'a) prog"

definition onBin :: "(bytes, bin_err, 'a) prog \<Rightarrow> 'a cipher" where
  "onBin m b = (case m b of (Inl e, b') \<Rightarrow> (Inl (CBin e), b') | (Inr a, b') \<Rightarrow> (Inr a, b'))"

section \<open>Authorization keys\<close>

record AuthKey =
  akValue :: bytes
  akID :: bytes

definition Key_Zero :: "bytes \<Rightarrow> bool" where "Key_Zero k \<longleftrightarrow> k = replicate 256 0"
definition Key_ID :: "bytes \<Rightarrow> bytes" where "Key_ID k = take 8 (drop 12 (SHA1 k))"
definition Key_AuxHash :: "bytes \<Rightarrow> bytes" where "Key_AuxHash k = take 8 (SHA1 k)"
definition WithID :: "bytes \<Rightarrow> AuthKey" where "WithID k = \<lparr>akValue = k, akID = Key_ID k\<rparr>"
definition AuthKey_Zero :: "AuthKey \<Rightarrow> bool" where
  "AuthKey_Zero a \<longleftrightarrow> a = \<lparr>akValue = replicate 256 0, akID = replicate 8 0\<rparr>"
definition IntID :: "AuthKey \<Rightarrow> int" where
  "IntID a = sint (word_of_nat (unle (akID a)) :: 64 word)"
definition SetIntID :: "int \<Rightarrow> AuthKey \<Rightarrow> AuthKey" where
  "SetIntID v a = a\<lparr>akID := le 8 (unat (word_of_int v :: 64 word))\<rparr>"

section \<open>Key derivation\<close>

datatype Side = Client | Server

fun DecryptSide :: "Side \<Rightarrow> Side" where
  "DecryptSide Client = Server"
| "DecryptSide Server = Client"

fun getX :: "Side \<Rightarrow> nat" where
  "getX Client = 0"
| "getX Server = 8"

definition msgKeyLarge :: "bytes \<Rightarrow> bytes \<Rightarrow> Side \<Rightarrow> bytes" where
  "msgKeyLarge authKey plaintextPadded mode =
     SHA256 (take 32 (drop (88 + getX mode) authKey) @ plaintextPadded)"

definition messageKey :: "bytes \<Rightarrow> bytes" where
  "messageKey messageKeyLarge = take 16 (drop 8 messageKeyLarge)"

definition sha256a :: "bytes \<Rightarrow> bytes \<Rightarrow> nat \<Rightarrow> bytes" where
  "sha256a authKey msgKey x = SHA256 (msgKey @ take 36 (drop x authKey))"

definition sha256b :: "bytes \<Rightarrow> bytes \<Rightarrow> nat \<Rightarrow> bytes" where
  "sha256b authKey msgKey x = SHA256 (take 36 (drop (40 + x) authKey) @ msgKey)"

definition aesKey :: "bytes \<Rightarrow> bytes \<Rightarrow> bytes" where
  "aesKey a b = take 8 a @ take 16 (drop 8 b) @ take 8 (drop 24 a)"

definition aesIV :: "bytes \<Rightarrow> bytes \<Rightarrow> bytes" where
  "aesIV a b = aesKey b a"

definition Keys :: "bytes \<Rightarrow> bytes \<Rightarrow> Side \<Rightarrow> bytes \<times> bytes" where
  "Keys authKey msgKey mode =
     (let x = getX mode;
          a = sha256a authKey msgKey x;
          b = sha256b authKey msgKey x
      in (aesKey a b, aesIV a b))"

definition MessageKey :: "bytes \<Rightarrow> bytes \<Rightarrow> Side \<Rightarrow> bytes" where
  "MessageKey authKey plaintextPadded mode = messageKey (msgKeyLarge authKey plaintextPadded mode)"

section \<open>Layout of messages\<close>

record EncryptedMessage =
  emAuthKeyID :: bytes
  emMsgKey :: bytes
  emData :: bytes

definition EncryptedMessage_Encode :: "EncryptedMessage \<Rightarrow> bytes \<Rightarrow> bytes" where
  "EncryptedMessage_Encode e b = Put (emData e) (PutInt128 (emMsgKey e) (Put (emAuthKeyID e) b))"

definition EncryptedMessage_Decode :: "EncryptedMessage cipher" where
  "EncryptedMessage_Decode =
     andThen (onBin (ConsumeN (replicate 8 0) 8)) (\<lambda>authKeyID.
     andThen (onBin Int128) (\<lambda>msgKey b.
     andThen (onBin (ConsumeN (replicate (length b) 0) (int (length b)))) (\<lambda>d.
       ret \<lparr>emAuthKeyID = authKeyID, emMsgKey = msgKey, emData = d\<rparr>) b))"

text \<open>Without the copy the data stay in the buffer.\<close>

definition EncryptedMessage_DecodeWithoutCopy :: "EncryptedMessage cipher" where
  "EncryptedMessage_DecodeWithoutCopy =
     andThen (onBin (ConsumeN (replicate 8 0) 8)) (\<lambda>authKeyID.
     andThen (onBin Int128) (\<lambda>msgKey b.
       (Inr \<lparr>emAuthKeyID = authKeyID, emMsgKey = msgKey, emData = b\<rparr>, b)))"

record EncryptedMessageData =
  edSalt :: int
  edSessionID :: int
  edMessageID :: int
  edSeqNo :: int
  edDataLen :: int
  edData :: bytes
  edMessage :: "unit cipher option"

definition edHeader :: "EncryptedMessageData \<Rightarrow> bytes \<Rightarrow> bytes" where
  "edHeader e b = PutInt32 (edSeqNo e) (PutLong (edMessageID e) (PutLong (edSessionID e) (PutLong (edSalt e) b)))"

definition EncryptedMessageData_Encode :: "EncryptedMessageData \<Rightarrow> bytes \<Rightarrow> bytes" where
  "EncryptedMessageData_Encode e b = Put (edData e) (PutInt32 (edDataLen e) (edHeader e b))"

text \<open>The length is written over the four zero bytes in front of the encoded message.\<close>

definition EncodeWithoutCopy :: "EncryptedMessageData \<Rightarrow> unit cipher" where
  "EncodeWithoutCopy e b =
     (case edMessage e of
        None \<Rightarrow> (Inr (), EncryptedMessageData_Encode e b)
      | Some encode \<Rightarrow>
          (let b1 = edHeader e b;
               lengthOffset = length b1;
               b2 = PutInt32 0 b1;
               originalLength = length b2
           in andThen encode (\<lambda>_ b3.
                let msgLen = int (length b3) - int originalLength
                in (Inr (), take lengthOffset b3 @ PutInt msgLen [] @ drop (lengthOffset + Word) b3)) b2))"

definition edRead :: "EncryptedMessageData cipher" where
  "edRead =
     andThen (onBin Long) (\<lambda>salt. andThen (onBin Long) (\<lambda>sessionID. andThen (onBin Long) (\<lambda>messageID.
     andThen (onBin Int32) (\<lambda>seqNo. andThen (onBin Int32) (\<lambda>dataLen.
       ret \<lparr>edSalt = salt, edSessionID = sessionID, edMessageID = messageID, edSeqNo = seqNo,
            edDataLen = dataLen, edData = [], edMessage = None\<rparr>)))))"

definition edRest :: "EncryptedMessageData \<Rightarrow> EncryptedMessageData cipher" where
  "edRest e b =
     (let e = e\<lparr>edData := b\<rparr> in
      if edDataLen e > int (length (edData e)) then (Inl (DataLenTooBig (edDataLen e)), b)
      else (Inr e, b))"

definition EncryptedMessageData_Decode :: "EncryptedMessageData cipher" where
  "EncryptedMessageData_Decode = andThen edRead edRest"

definition EncryptedMessageData_DecodeWithoutCopy :: "EncryptedMessageData cipher" where
  "EncryptedMessageData_DecodeWithoutCopy = andThen edRead edRest"

text \<open>A slice expression: \<open>None\<close> is the panic for a length out of range.\<close>

definition Data :: "EncryptedMessageData \<Rightarrow> bytes option" where
  "Data e = (if 0 \<le> edDataLen e \<and> edDataLen e \<le> int (length (edData e))
     then Some (take (nat (edDataLen e)) (edData e)) else None)"

section \<open>The cipher\<close>

record aes_ige =
  EncryptBlocks :: "bytes \<Rightarrow> bytes \<Rightarrow> bytes \<Rightarrow> bytes"
  DecryptBlocks :: "bytes \<Rightarrow> bytes \<Rightarrow> bytes \<Rightarrow> bytes"

text \<open>What the properties that need the cipher to invert expect of it.\<close>

definition ige_law :: "aes_ige \<Rightarrow> bool" where
  "ige_law E \<longleftrightarrow> (\<forall>k iv q. length k = 32 \<and> length iv = 32 \<and> 16 dvd length q \<longrightarrow>
     length (EncryptBlocks E k iv q) = length q \<and> DecryptBlocks E k iv (EncryptBlocks E k iv q) = q)"

definition countPadding :: "nat \<Rightarrow> nat" where
  "countPadding l = 16 + (16 - l mod 16)"

text \<open>The buffer holds the plaintext and gets the padding, filled from the random source.\<close>

definition encryptMessage :: "aes_ige \<Rightarrow> Side \<Rightarrow> bytes \<Rightarrow> AuthKey \<Rightarrow> EncryptedMessage cipher" where
  "encryptMessage E side rand k plaintext =
     (let n = countPadding (length plaintext);
          padded = plaintext @ take n rand @ replicate (n - length rand) 0
      in if length rand < n then (Inl RandError, padded)
         else let msgKey = MessageKey (akValue k) padded side;
                  (key, iv) = Keys (akValue k) msgKey side
              in (Inr \<lparr>emAuthKeyID = akID k, emMsgKey = msgKey, emData = EncryptBlocks E key iv padded\<rparr>, padded))"

definition Encrypt :: "aes_ige \<Rightarrow> Side \<Rightarrow> bytes \<Rightarrow> AuthKey \<Rightarrow> EncryptedMessageData \<Rightarrow> unit cipher" where
  "Encrypt E side rand key d =
     andThen (modify Reset) (\<lambda>_.
     andThen (EncodeWithoutCopy d) (\<lambda>_.
     andThen (encryptMessage E side rand key) (\<lambda>msg.
     andThen (modify Reset) (\<lambda>_.
       modify (EncryptedMessage_Encode msg)))))"

definition decryptMessage :: "aes_ige \<Rightarrow> Side \<Rightarrow> AuthKey \<Rightarrow> EncryptedMessage \<Rightarrow> cipher_err + bytes" where
  "decryptMessage E side k encrypted =
     (if akID k \<noteq> emAuthKeyID encrypted then Inl UnknownAuthKeyID
      else if length (emData encrypted) mod 16 \<noteq> 0 then Inl InvalidDataPadding
      else let (key, iv) = Keys (akValue k) (emMsgKey encrypted) (DecryptSide side)
           in Inr (DecryptBlocks E key iv (emData encrypted)))"

definition DecryptRaw :: "aes_ige \<Rightarrow> Side \<Rightarrow> AuthKey \<Rightarrow> EncryptedMessage \<Rightarrow> cipher_err + bytes" where
  "DecryptRaw E side k encrypted =
     (case decryptMessage E side k encrypted of
        Inl e \<Rightarrow> Inl e
      | Inr plaintext \<Rightarrow>
          if MessageKey (akValue k) plaintext (DecryptSide side) \<noteq> emMsgKey encrypted then Inl InvalidMsgKey
          else Inr plaintext)"

definition maxPadding :: int where "maxPadding = 1024"

definition Decrypt :: "aes_ige \<Rightarrow> Side \<Rightarrow> AuthKey \<Rightarrow> EncryptedMessage \<Rightarrow> cipher_err + EncryptedMessageData" where
  "Decrypt E side k encrypted =
     (case DecryptRaw E side k encrypted of
        Inl e \<Rightarrow> Inl e
      | Inr plaintext \<Rightarrow>
          (case fst (EncryptedMessageData_DecodeWithoutCopy plaintext) of
             Inl e \<Rightarrow> Inl e
           | Inr msg \<Rightarrow>
               (let n = edDataLen msg;
                    paddingLen = int (length (edData msg)) - n
                in if n < 0 then Inl (MessageLengthInvalid n)
                   else if n mod 4 \<noteq> 0 then Inl (MessageLengthInvalid n)
                   else if paddingLen > maxPadding then Inl (PaddingTooBig paddingLen)
                   else Inr msg)))"

definition DecryptFromBuffer :: "aes_ige \<Rightarrow> Side \<Rightarrow> AuthKey \<Rightarrow> EncryptedMessageData cipher" where
  "DecryptFromBuffer E side k =
     andThen EncryptedMessage_DecodeWithoutCopy (\<lambda>msg b. (Decrypt E side k msg, b))"

section \<open>Lengths\<close>

lemma length_MessageKey [simp]: "length (MessageKey k p s) = 16"
  by (simp add: MessageKey_def messageKey_def msgKeyLarge_def)

lemma length_Keys: "Keys k m s = (key, iv) \<Longrightarrow> length key = 32 \<and> length iv = 32"
  by (auto simp: Keys_def Let_def aesKey_def aesIV_def sha256a_def sha256b_def)

lemma countPadding_aligns: "16 dvd l + countPadding l"
proof -
  have "l + countPadding l = 32 + 16 * (l div 16)"
    unfolding countPadding_def using mod_less_divisor[of 16 l] div_mult_mod_eq[of l 16] by arith
  then show ?thesis by simp
qed

lemma countPadding_bounds: "16 < countPadding l" "countPadding l \<le> 32"
  by (simp_all add: countPadding_def)

lemma DecryptSide_twice [simp]: "DecryptSide (DecryptSide s) = s"
  by (cases s) simp_all

section \<open>Layout round trips\<close>

lemma onBin_Inr [simp]: "m b = (Inr a, b') \<Longrightarrow> onBin m b = (Inr a, b')"
  by (simp add: onBin_def)

lemma onBin_eq_Inr: "onBin m b = (Inr a, b') \<longleftrightarrow> m b = (Inr a, b')"
  by (auto simp: onBin_def split: prod.splits sum.splits)

lemma onBin_eq_Inl: "onBin m b = (Inl e, b') \<longleftrightarrow> (\<exists>x. e = CBin x \<and> m b = (Inl x, b'))"
  by (auto simp: onBin_def split: prod.splits sum.splits)

lemma Long_PutLong: "int64_range v \<Longrightarrow> Long (PutLong v [] @ rest) = (Inr v, rest)"
  by (rule long.get_put)

lemma Int32_PutInt32: "int32_range v \<Longrightarrow> Int32 (PutInt32 v [] @ rest) = (Inr v, rest)"
  by (rule int32.get_put)

lemma ConsumeN_exact:
  "length xs = n \<Longrightarrow> ConsumeN (replicate n 0) (int n) (xs @ rest) = (Inr xs, rest)"
  by (simp add: ConsumeN_eq andThen_def PeekN_eq go_copy_def)

lemma EncryptedMessage_roundtrip:
  assumes "length (emAuthKeyID e) = 8" "length (emMsgKey e) = 16"
  shows "EncryptedMessage_DecodeWithoutCopy (EncryptedMessage_Encode e []) = (Inr e, emData e)"
    "EncryptedMessage_Decode (EncryptedMessage_Encode e []) = (Inr e, [])"
proof -
  have "onBin (ConsumeN (replicate 8 0) 8) (emAuthKeyID e @ rest) = (Inr (emAuthKeyID e), rest)" for rest
    using ConsumeN_exact[OF assms(1), of rest] by simp
  moreover have "onBin Int128 (emMsgKey e @ rest) = (Inr (emMsgKey e), rest)" for rest
    using assms(2) by (simp add: Int128_eq)
  moreover have "onBin (ConsumeN (replicate (length xs) 0) (int (length xs))) xs = (Inr xs, [])" for xs
    using ConsumeN_exact[of xs _ "[]"] by simp
  ultimately show "EncryptedMessage_DecodeWithoutCopy (EncryptedMessage_Encode e []) = (Inr e, emData e)"
    "EncryptedMessage_Decode (EncryptedMessage_Encode e []) = (Inr e, [])"
    by (simp_all add: EncryptedMessage_DecodeWithoutCopy_def EncryptedMessage_Decode_def
        EncryptedMessage_Encode_def tl_defs ret_def)
qed

definition fields_ok :: "EncryptedMessageData \<Rightarrow> bool" where
  "fields_ok d \<longleftrightarrow> int64_range (edSalt d) \<and> int64_range (edSessionID d) \<and> int64_range (edMessageID d) \<and> int32_range (edSeqNo d)"

lemma edRead_header:
  assumes "fields_ok d" "int32_range n"
  shows "edRead (edHeader d [] @ PutInt32 n [] @ rest) =
    (Inr (d\<lparr>edDataLen := n, edData := [], edMessage := None\<rparr>), rest)"
proof -
  have "edHeader d [] @ PutInt32 n [] @ rest =
      PutLong (edSalt d) [] @ PutLong (edSessionID d) [] @ PutLong (edMessageID d) [] @
      PutInt32 (edSeqNo d) [] @ PutInt32 n [] @ rest"
    by (simp add: edHeader_def tl_defs)
  then show ?thesis
    using assms by (simp add: edRead_def fields_ok_def Long_PutLong Int32_PutInt32 ret_def)
qed

text \<open>What a message carries: its encoded payload, or the data it was given.\<close>

definition carries :: "EncryptedMessageData \<Rightarrow> bytes \<Rightarrow> bool" where
  "carries d p \<longleftrightarrow> (case edMessage d of
     None \<Rightarrow> edData d = p \<and> edDataLen d = int (length p)
   | Some encode \<Rightarrow> \<forall>b. encode b = (Inr (), b @ p))"

lemma length_edHeader [simp]: "length (edHeader d b) = length b + 28"
  by (simp add: edHeader_def tl_defs)

lemma EncodeWithoutCopy_carries:
  assumes "carries d p"
  shows "EncodeWithoutCopy d [] = (Inr (), edHeader d [] @ PutInt32 (int (length p)) [] @ p)"
proof (cases "edMessage d")
  case None
  then show ?thesis using assms
    by (simp add: EncodeWithoutCopy_def carries_def EncryptedMessageData_Encode_def tl_defs)
next
  case (Some encode)
  then have "encode b = (Inr (), b @ p)" for b using assms by (simp add: carries_def)
  then show ?thesis using Some
    by (simp add: EncodeWithoutCopy_def Let_def PutInt_def PutInt32_def PutUint32_def)
qed

section \<open>Properties\<close>

lemma Decrypt_encrypted:
  assumes "\<And>k iv q. length k = 32 \<Longrightarrow> length iv = 32 \<Longrightarrow> 16 dvd length q \<Longrightarrow>
      length (EncryptBlocks E k iv q) = length q \<and> DecryptBlocks E k iv (EncryptBlocks E k iv q) = q"
    and "16 dvd length padded" "Keys (akValue k) (MessageKey (akValue k) padded side) side = (key, iv)"
  shows "DecryptRaw E (DecryptSide side) k
    \<lparr>emAuthKeyID = akID k, emMsgKey = MessageKey (akValue k) padded side, emData = EncryptBlocks E key iv padded\<rparr> = Inr padded"
  using assms(1)[of key iv padded] assms(2,3) length_Keys[OF assms(3)]
  by (simp add: DecryptRaw_def decryptMessage_def dvd_eq_mod_eq_0)

lemma Long_drop: "Long b = (Inr v, b') \<Longrightarrow> b' = drop 8 b"
  by (auto simp: Long_def Uint64_eq andThen_def ret_def split: if_splits)

lemma Int32_drop: "Int32 b = (Inr v, b') \<Longrightarrow> b' = drop 4 b"
  by (auto simp: Int32_def Uint32_eq PeekID_eq andThen_def ret_def split: if_splits)

lemma edRead_drop: "edRead b = (Inr m, b') \<Longrightarrow> b' = drop 32 b"
  by (auto simp: edRead_def andThen_eq_Inr_iff onBin_eq_Inr ret_def dest!: Long_drop Int32_drop)

lemma Encrypt_then_decrypt:
  assumes "\<And>k iv q. length k = 32 \<Longrightarrow> length iv = 32 \<Longrightarrow> 16 dvd length q \<Longrightarrow>
      length (EncryptBlocks E k iv q) = length q \<and> DecryptBlocks E k iv (EncryptBlocks E k iv q) = q"
    and "carries d p" "fields_ok d" "length p < 2 ^ 31" "length (akID k) = 8" "32 \<le> length rand"
  shows "\<exists>ct pad. Encrypt E side rand k d b = (Inr (), ct) \<and> DecryptFromBuffer E (DecryptSide side) k ct =
    (if 4 dvd length p then Inr (d\<lparr>edDataLen := int (length p), edData := p @ pad, edMessage := None\<rparr>)
     else Inl (MessageLengthInvalid (int (length p))), drop 24 ct)"
proof -
  define plain where "plain = edHeader d [] @ PutInt32 (int (length p)) [] @ p"
  define pad where "pad = take (countPadding (length plain)) rand"
  obtain key iv where keys: "Keys (akValue k) (MessageKey (akValue k) (plain @ pad) side) side = (key, iv)"
    by (cases "Keys (akValue k) (MessageKey (akValue k) (plain @ pad) side) side")
  define msg where "msg = \<lparr>emAuthKeyID = akID k, emMsgKey = MessageKey (akValue k) (plain @ pad) side,
    emData = EncryptBlocks E key iv (plain @ pad)\<rparr>"
  have rand: "countPadding (length plain) \<le> length rand" using countPadding_bounds(2) assms(6) by (rule order_trans)
  then have lpad: "length pad = countPadding (length plain)" by (simp add: pad_def)
  have enc: "Encrypt E side rand k d b = (Inr (), EncryptedMessage_Encode msg [])"
    using rand keys by (simp add: Encrypt_def modify_def Reset_def EncodeWithoutCopy_carries[OF assms(2)]
        encryptMessage_def Let_def msg_def pad_def flip: plain_def)
  have raw: "DecryptRaw E (DecryptSide side) k msg = Inr (plain @ pad)"
    unfolding msg_def by (rule Decrypt_encrypted[OF assms(1)]) (use keys lpad countPadding_aligns in simp_all)
  have read: "edRead (plain @ pad) = (Inr (d\<lparr>edDataLen := int (length p), edData := [], edMessage := None\<rparr>), p @ pad)"
    unfolding plain_def using edRead_header[OF assms(3), of "int (length p)" "p @ pad"] assms(4) by simp
  have small: "int (length pad) \<le> maxPadding"
    using lpad countPadding_bounds(2)[of "length plain"] by (simp add: maxPadding_def)
  have "fst (EncryptedMessageData_DecodeWithoutCopy (plain @ pad)) =
      Inr (d\<lparr>edDataLen := int (length p), edData := p @ pad, edMessage := None\<rparr>)"
    by (simp add: EncryptedMessageData_DecodeWithoutCopy_def read edRest_def)
  then have "Decrypt E (DecryptSide side) k msg = (if 4 dvd length p
      then Inr (d\<lparr>edDataLen := int (length p), edData := p @ pad, edMessage := None\<rparr>)
      else Inl (MessageLengthInvalid (int (length p))))"
    using small by (simp add: Decrypt_def raw Let_def) presburger
  moreover have "EncryptedMessage_DecodeWithoutCopy (EncryptedMessage_Encode msg []) = (Inr msg, emData msg)"
    by (rule EncryptedMessage_roundtrip) (simp_all add: msg_def assms(5))
  moreover have "drop 24 (EncryptedMessage_Encode msg []) = emData msg"
    using assms(5) by (simp add: EncryptedMessage_Encode_def tl_defs msg_def)
  ultimately show ?thesis by (simp add: enc DecryptFromBuffer_def) metis
qed

text \<open>C19: encryption is transparent.  What one side encrypts, the other side decrypts with the same
  key into the same salt, session, identifier, sequence number and payload, whether the payload
  was encoded in place or given as data, provided AES-IGE decrypts what it encrypts; a payload
  that is not a multiple of four bytes is refused by the receiver, though not by the sender.\<close>

theorem message_survives_encryption:
  assumes "\<And>k iv q. length k = 32 \<Longrightarrow> length iv = 32 \<Longrightarrow> 16 dvd length q \<Longrightarrow>
      length (EncryptBlocks E k iv q) = length q \<and> DecryptBlocks E k iv (EncryptBlocks E k iv q) = q"
    and "carries d p" "fields_ok d" "length p < 2 ^ 31" "length (akID k) = 8" "32 \<le> length rand"
  shows "\<exists>ct. Encrypt E side rand k d b = (Inr (), ct) \<and>
    (case fst (DecryptFromBuffer E (DecryptSide side) k ct) of
       Inl e \<Rightarrow> \<not> 4 dvd length p \<and> e = MessageLengthInvalid (int (length p))
     | Inr m \<Rightarrow> 4 dvd length p \<and> edSalt m = edSalt d \<and> edSessionID m = edSessionID d \<and>
         edMessageID m = edMessageID d \<and> edSeqNo m = edSeqNo d \<and> Data m = Some p)"
proof -
  obtain ct pad where "Encrypt E side rand k d b = (Inr (), ct)" "DecryptFromBuffer E (DecryptSide side) k ct =
      (if 4 dvd length p then Inr (d\<lparr>edDataLen := int (length p), edData := p @ pad, edMessage := None\<rparr>)
       else Inl (MessageLengthInvalid (int (length p))), drop 24 ct)"
    using Encrypt_then_decrypt[OF assms] by metis
  then show ?thesis by (simp add: Data_def)
qed

definition ige0 :: aes_ige where
  "ige0 = \<lparr>EncryptBlocks = \<lambda>_ _. rev, DecryptBlocks = \<lambda>_ _. rev\<rparr>"

definition key0 :: AuthKey where "key0 = WithID (replicate 256 1)"

definition data0 :: EncryptedMessageData where
  "data0 = \<lparr>edSalt = -5, edSessionID = 6, edMessageID = 7, edSeqNo = 1, edDataLen = 0, edData = [],
     edMessage = Some (\<lambda>b. (Inr (), b @ [1, 2, 3, 4]))\<rparr>"

lemma sample_ok: "carries data0 [1, 2, 3, 4]" "fields_ok data0" "length (akID key0) = 8"
  by (simp_all add: carries_def data0_def fields_ok_def key0_def WithID_def Key_ID_def)

lemma dvd_four [simp]: "(4 :: nat) dvd Suc (Suc (Suc (Suc 0)))"
  by (simp add: dvd_eq_mod_eq_0)

theorem message_survives_encryption_witness:
  "\<exists>ct m. Encrypt ige0 Client (replicate 32 7) key0 data0 [] = (Inr (), ct) \<and>
     fst (DecryptFromBuffer ige0 Server key0 ct) = Inr m \<and> Data m = Some [1, 2, 3, 4]"
proof -
  have "\<exists>ct. Encrypt ige0 Client (replicate 32 7) key0 data0 [] = (Inr (), ct) \<and>
    (case fst (DecryptFromBuffer ige0 (DecryptSide Client) key0 ct) of
       Inl e \<Rightarrow> \<not> 4 dvd length [1 :: byte, 2, 3, 4] \<and> e = MessageLengthInvalid (int (length [1 :: byte, 2, 3, 4]))
     | Inr m \<Rightarrow> 4 dvd length [1 :: byte, 2, 3, 4] \<and> edSalt m = edSalt data0 \<and> edSessionID m = edSessionID data0 \<and>
         edMessageID m = edMessageID data0 \<and> edSeqNo m = edSeqNo data0 \<and> Data m = Some [1, 2, 3, 4])"
    (is "\<exists>ct. ?both ct")
    by (rule message_survives_encryption) (simp_all add: ige0_def sample_ok)
  then obtain ct where "?both ct" by (rule exE)
  then show ?thesis by (cases "fst (DecryptFromBuffer ige0 Server key0 ct)") auto
qed

lemma DecryptFromBuffer_authentic:
  assumes "DecryptFromBuffer E side k b = (Inr m, b')"
  shows "\<exists>plain. take 8 b = akID k \<and>
    take 16 (drop 8 b) = MessageKey (akValue k) plain (DecryptSide side) \<and> 16 dvd length (drop 24 b) \<and>
    edData m = drop 32 plain \<and> 4 dvd edDataLen m \<and>
    Data m = Some (take (nat (edDataLen m)) (drop 32 plain)) \<and> int (length (drop 32 plain)) - edDataLen m \<le> 1024"
proof -
  obtain em where dec: "EncryptedMessage_DecodeWithoutCopy b = (Inr em, b')" and d: "Decrypt E side k em = Inr m"
    using assms by (auto simp: DecryptFromBuffer_def andThen_eq_Inr_iff)
  have em: "emAuthKeyID em = take 8 b" "emMsgKey em = take 16 (drop 8 b)" "emData em = drop 24 b"
    using dec by (auto simp: EncryptedMessage_DecodeWithoutCopy_def andThen_eq_Inr_iff onBin_eq_Inr
        ConsumeN_eq PeekN_eq go_copy_def Int128_eq min_def split: if_splits)
  obtain plain where raw: "DecryptRaw E side k em = Inr plain"
    and m: "fst (EncryptedMessageData_DecodeWithoutCopy plain) = Inr m"
    and n: "0 \<le> edDataLen m" "edDataLen m mod 4 = 0" "int (length (edData m)) - edDataLen m \<le> 1024"
    using d by (auto simp: Decrypt_def Let_def maxPadding_def split: sum.splits if_splits)
  have key: "take 8 b = akID k" "take 16 (drop 8 b) = MessageKey (akValue k) plain (DecryptSide side)"
      "16 dvd length (drop 24 b)"
    using raw by (auto simp: DecryptRaw_def decryptMessage_def em dvd_eq_mod_eq_0 split: sum.splits if_splits prod.splits)
  have "edData m = drop 32 plain \<and> edDataLen m \<le> int (length (edData m))"
    using m by (auto simp: EncryptedMessageData_DecodeWithoutCopy_def andThen_def edRest_def Let_def
        dest: edRead_drop split: prod.splits sum.splits if_splits)
  with key n show ?thesis by (auto simp: Data_def)
qed

text \<open>No bytes make it panic: the reads of the two headers check their lengths.\<close>

lemma DecryptFromBuffer_calm: "DecryptFromBuffer E side k b = (Inl e, b') \<Longrightarrow> e \<noteq> CBin Panic"
proof -
  have hdr: "fst (EncryptedMessage_DecodeWithoutCopy b) \<noteq> Inl (CBin Panic)" for b
    by (auto simp: EncryptedMessage_DecodeWithoutCopy_def andThen_def onBin_def ConsumeN_eq PeekN_eq Int128_eq
        split: prod.splits sum.splits if_splits)
  have data: "fst (EncryptedMessageData_DecodeWithoutCopy b) \<noteq> Inl (CBin Panic)" for b
    using long.get_fail int32.get_fail
    by (auto simp: EncryptedMessageData_DecodeWithoutCopy_def edRead_def edRest_def andThen_def onBin_def ret_def Let_def
        split: prod.splits sum.splits if_splits)
  have "Decrypt E side k em \<noteq> Inl (CBin Panic)" for em
    using data by (auto simp: Decrypt_def DecryptRaw_def decryptMessage_def Let_def split: prod.splits sum.splits if_splits)
  then show "DecryptFromBuffer E side k b = (Inl e, b') \<Longrightarrow> e \<noteq> CBin Panic"
    using hdr[of b] by (auto simp: DecryptFromBuffer_def andThen_def split: prod.splits sum.splits)
qed

text \<open>C32: only authentic messages come out of the cipher.  Whatever bytes a peer sends, a message
  that decryption returns names the key that was used, its message key is the hash of the
  decrypted bytes under that key, its length is a multiple of four that lies within the
  decrypted bytes, so that taking its data cannot panic, and at most 1024 bytes are padding.\<close>

theorem decrypted_is_authentic:
  assumes "DecryptFromBuffer E side k b = (Inr m, b')"
  shows "\<exists>plain. take 8 b = akID k \<and>
    take 16 (drop 8 b) = MessageKey (akValue k) plain (DecryptSide side) \<and> 16 dvd length (drop 24 b) \<and>
    edData m = drop 32 plain \<and> 4 dvd edDataLen m \<and>
    Data m = Some (take (nat (edDataLen m)) (drop 32 plain)) \<and> int (length (drop 32 plain)) - edDataLen m \<le> 1024"
  using DecryptFromBuffer_authentic[OF assms] .

theorem decrypted_is_authentic_witness:
  "\<exists>b m b'. DecryptFromBuffer ige0 Server key0 b = (Inr m, b') \<and> take 8 b = akID key0 \<and> 4 dvd edDataLen m"
proof -
  have "\<exists>ct pad. Encrypt ige0 Client (replicate 32 7) key0 data0 [] = (Inr (), ct) \<and>
      DecryptFromBuffer ige0 (DecryptSide Client) key0 ct =
      (if 4 dvd length [1 :: byte, 2, 3, 4] then
         Inr (data0\<lparr>edDataLen := int (length [1 :: byte, 2, 3, 4]), edData := [1, 2, 3, 4] @ pad, edMessage := None\<rparr>)
       else Inl (MessageLengthInvalid (int (length [1 :: byte, 2, 3, 4]))), drop 24 ct)" (is "\<exists>ct pad. ?enc ct \<and> ?dec ct pad")
    by (rule Encrypt_then_decrypt) (simp_all add: ige0_def sample_ok)
  then obtain ct m b' where "DecryptFromBuffer ige0 Server key0 ct = (Inr m, b')" by auto
  with decrypted_is_authentic[OF this] show ?thesis by blast
qed

end
