(* ===== verification/MsgId.thy ===== *)
theory MsgId
  imports TLBuffer "HOL-Library.Signed_Division"
begin

text \<open>
  Message identifiers, \<open>pkg/gotd/proto/message_id.go\<close>: how an identifier is made from a time
  and a kind, how kind and time are read back, the generator that a connection uses and the
  buffer that is to detect replayed messages.  An \<open>int64\<close> is an integer kept in range by
  \<open>wrap64\<close>; \<open>sdiv\<close> and \<open>smod\<close> are Go's division and remainder.  An instant is its distance from
  the Unix epoch in nanoseconds.
\<close>

section \<open>Identifiers\<close>

definition yieldClient :: int where "yieldClient = 0"
definition yieldServerResponse :: int where "yieldServerResponse = 1"
definition yieldFromServer :: int where "yieldFromServer = 3"
definition messageIDModulo :: int where "messageIDModulo = 4"

lemmas yields = yieldClient_def yieldServerResponse_def yieldFromServer_def messageIDModulo_def

definition newMessageID :: "int \<Rightarrow> int \<Rightarrow> int" where
  "newMessageID nowNano yield =
     (let nano = 1000000000;
          intPart = nowNano sdiv nano;
          fracPart = nowNano smod nano;
          fracPart = fracPart AND - messageIDModulo;
          fracPart = wrap64 (fracPart + yield)
      in wrap64 (push_bit 32 intPart) OR fracPart)"

datatype MessageType = MessageUnknown | MessageFromClient | MessageServerResponse | MessageFromServer

definition MessageID_Time :: "int \<Rightarrow> int" where
  "MessageID_Time i =
     (let intPart = drop_bit 32 i;
          fracPart = signed_take_bit 31 i
      in intPart * 1000000000 + fracPart)"

definition MessageID_Type :: "int \<Rightarrow> MessageType" where
  "MessageID_Type i =
     (let m = i smod messageIDModulo in
      if m = yieldClient then MessageFromClient
      else if m = yieldServerResponse then MessageServerResponse
      else if m = yieldFromServer then MessageFromServer
      else MessageUnknown)"

fun yield_of :: "MessageType \<Rightarrow> int" where
  "yield_of MessageFromClient = yieldClient"
| "yield_of MessageFromServer = yieldFromServer"
| "yield_of MessageServerResponse = yieldServerResponse"
| "yield_of MessageUnknown = yieldClient"

definition NewMessageIDNano :: "int \<Rightarrow> MessageType \<Rightarrow> int" where
  "NewMessageIDNano nano t = newMessageID nano (yield_of t)"

section \<open>The generator\<close>

record MessageIDGen =
  genNano :: int

definition NewMessageIDGen :: MessageIDGen where "NewMessageIDGen = \<lparr>genNano = 0\<rparr>"

definition minResolutionNanos :: int where "minResolutionNanos = 10"

text \<open>\<open>New\<close> at the clock reading \<open>now\<close>.\<close>

definition MessageIDGen_New :: "MessageType \<Rightarrow> int \<Rightarrow> MessageIDGen \<Rightarrow> int \<times> MessageIDGen" where
  "MessageIDGen_New t now g =
     (let g' = (if now > genNano g then g\<lparr>genNano := now\<rparr>
                else g\<lparr>genNano := wrap64 (genNano g + minResolutionNanos)\<rparr>)
      in (NewMessageIDNano (genNano g') t, g'))"

definition MessageIDGen_Reset :: "MessageIDGen \<Rightarrow> MessageIDGen" where
  "MessageIDGen_Reset g = g\<lparr>genNano := 0\<rparr>"

section \<open>The replay buffer\<close>

definition NewMessageIDBuf :: "nat \<Rightarrow> int list" where "NewMessageIDBuf n = replicate n 0"

text \<open>The loop of \<open>Consume\<close> from index \<open>i\<close> on: \<open>None\<close> when the identifier is found, otherwise the
  index and the value of the minimum so far.\<close>

fun consume_scan :: "int \<Rightarrow> nat \<Rightarrow> nat \<Rightarrow> int \<Rightarrow> int list \<Rightarrow> (nat \<times> int) option" where
  "consume_scan newID i minIDx minID [] = Some (minIDx, minID)"
| "consume_scan newID i minIDx minID (x # xs) =
     (if x = newID then None
      else if x < minID then consume_scan newID (Suc i) i x xs
      else consume_scan newID (Suc i) minIDx minID xs)"

definition MessageIDBuf_Consume :: "int \<Rightarrow> (int list, bin_err, bool) prog" where
  "MessageIDBuf_Consume newID buf =
     (case consume_scan newID 0 0 0 buf of
        None \<Rightarrow> (Inr False, buf)
      | Some (minIDx, minID) \<Rightarrow>
          if newID < minID then (Inr False, buf)
          else if minIDx < length buf then (Inr True, buf[minIDx := newID])
          else (Inl Panic, buf))"

section \<open>The value of an identifier\<close>

abbreviation second :: int where "second \<equiv> 1000000000"

text \<open>The time that identifiers can express: up to 2^31 seconds after the epoch.\<close>

definition clock_range :: "int \<Rightarrow> bool" where
  "clock_range n \<longleftrightarrow> 0 \<le> n \<and> n < 2 ^ 31 * second"

definition slot :: "int \<Rightarrow> int" where
  "slot n = 2 ^ 32 * (n div second) + n mod second"

lemma slot_mono_diff:
  assumes "m \<le> n"
  shows "slot m + (n - m) \<le> slot n"
proof -
  have "m div second \<le> n div second" using assms by (intro zdiv_mono1) auto
  moreover have "m = second * (m div second) + m mod second" "n = second * (n div second) + n mod second"
    by simp_all
  moreover have p: "(2 ^ 32 :: int) = 4294967296" by simp
  ultimately show ?thesis unfolding slot_def p by linarith
qed

lemma and_minus_4: "(x :: int) AND - 4 = x - x mod 4"
proof -
  have n: "(- 4 :: int) = NOT (mask 2)" by (simp flip: minus_exp_eq_not_mask)
  have "(x AND NOT (mask 2)) + (x AND mask 2) = x"
    by (subst disjunctive_add_eq_or) (auto simp: bit_eq_iff bit_simps)
  moreover have "x AND mask 2 = x mod 4" by (simp flip: take_bit_eq_mask) (simp add: take_bit_eq_mod)
  ultimately show ?thesis unfolding n by linarith
qed

lemma push_bit_32_or:
  assumes "0 \<le> b" "b < 2 ^ 32"
  shows "push_bit 32 a OR b = 2 ^ 32 * a + (b :: int)"
proof -
  have "push_bit 32 a OR take_bit 32 b = push_bit 32 a + take_bit 32 b"
    by (rule disjunctive_add_eq_or [symmetric]) (auto simp: bit_eq_iff bit_simps)
  then show ?thesis using assms by (simp add: push_bit_eq_mult take_bit_int_eq_self)
qed

lemma newMessageID_slot:
  assumes "clock_range n" "0 \<le> y" "y \<le> 3"
  shows "newMessageID n y = slot (n - n mod 4) + y"
proof -
  define q r where "q = n div second" "r = n mod second"
  have n: "n = second * q + r" "0 \<le> r" "r < second"
    by (simp_all add: q_r_def)
  have range: "0 \<le> n" "n < 2147483648 * second" using assms(1) by (simp_all add: clock_range_def)
  have q: "0 \<le> q" "q < 2147483648" using n range by linarith+
  have sd: "n sdiv second = q" "n smod second = r"
    using range(1) by (simp_all add: q_r_def signed_divide_int_def signed_modulo_int_def sgn_if)
  define s where "s = r - r mod 4"
  have "n mod 4 = (second * q + r) mod 4" by (simp only: n(1))
  also have "second * q + r = r + 4 * (250000000 * q)" by simp
  finally have m4: "n mod 4 = r mod 4" by (simp only: mod_mult_self2)
  have s: "0 \<le> s" "s < second" "r AND - 4 = s"
    using n(2,3) zmod_le_nonneg_dividend[of r 4] pos_mod_sign[of 4 r] by (simp_all add: s_def and_minus_4)
  have w: "wrap64 (push_bit 32 q) = push_bit 32 q" "wrap64 (s + y) = s + y"
    using q s(1,2) assms(2,3) by (simp_all add: push_bit_eq_mult wrap64_id)
  have "newMessageID n y = push_bit 32 q OR (s + y)"
    by (simp add: newMessageID_def Let_def sd messageIDModulo_def s(3) w)
  also have "\<dots> = 2 ^ 32 * q + (s + y)" using s assms(2,3) by (intro push_bit_32_or) auto
  also have "\<dots> = slot (n - n mod 4) + y"
  proof -
    have "n - n mod 4 = s + second * q" using n(1) m4 by (simp add: s_def)
    then show ?thesis using s(1,2) by (simp add: slot_def div_add1_eq mod_add_eq)
  qed
  finally show ?thesis .
qed

lemma yield_of_bounds: "0 \<le> yield_of t" "yield_of t \<le> 3"
  by (cases t; simp add: yields)+

lemma NewMessageIDNano_slot: "clock_range n \<Longrightarrow> NewMessageIDNano n t = slot (n - n mod 4) + yield_of t"
  by (simp add: NewMessageIDNano_def newMessageID_slot yield_of_bounds)

lemma NewMessageIDNano_less:
  assumes "clock_range m" "clock_range n" "m div 4 < n div 4"
  shows "NewMessageIDNano m t < NewMessageIDNano n u"
proof -
  have f: "x - x mod 4 = 4 * (x div 4)" for x :: int by (simp add: minus_mod_eq_mult_div)
  have le: "4 * (m div 4) + 4 \<le> 4 * (n div 4)" using assms(3) by linarith
  have "slot (4 * (m div 4)) + (4 * (n div 4) - 4 * (m div 4)) \<le> slot (4 * (n div 4))"
    by (rule slot_mono_diff) (use le in linarith)
  then show ?thesis
    using le yield_of_bounds(2)[of t] yield_of_bounds(1)[of u] assms(1,2)
    by (simp only: NewMessageIDNano_slot f)
qed

lemma slot_mod_4: "0 \<le> n \<Longrightarrow> slot (n - n mod 4) mod 4 = 0"
proof -
  have "(n - n mod 4) mod second mod 4 = (n - n mod 4) mod 4"
    by (rule mod_mod_cancel) simp
  then show ?thesis by (simp add: slot_def mod_add_eq[symmetric] mod_diff_eq)
qed

text \<open>An identifier tells its kind, and its time to within three nanoseconds.\<close>

lemma MessageID_reads_back:
  assumes "clock_range n"
  shows "MessageID_Type (NewMessageIDNano n t) = (if t = MessageUnknown then MessageFromClient else t) \<and>
    MessageID_Time (NewMessageIDNano n t) = n - n mod 4 + yield_of t"
proof -
  define k where "k = n - n mod 4"
  have k: "0 \<le> k" "k \<le> n"
    using assms pos_mod_sign[of 4 n] zmod_le_nonneg_dividend[of n 4] by (auto simp: k_def clock_range_def)
  have s0: "0 \<le> slot k" using k by (simp add: slot_def)
  have r: "k mod second \<le> second - 4"
  proof -
    have "k mod second mod 4 = 0" unfolding k_def by (subst mod_mod_cancel) simp_all
    then show ?thesis using pos_mod_bound[of second k] by presburger
  qed
  have i: "NewMessageIDNano n t = slot k + yield_of t" using assms by (simp add: NewMessageIDNano_slot k_def)
  have m: "(slot k + yield_of t) smod 4 = yield_of t"
  proof -
    have "(slot k + yield_of t) mod 4 = yield_of t"
      using slot_mod_4[of n] assms yield_of_bounds[of t] by (simp add: k_def clock_range_def flip: mod_add_left_eq)
    then show ?thesis using s0 yield_of_bounds(1)[of t] by (simp add: signed_modulo_int_def sgn_if)
  qed
  define y where "y = k mod second + yield_of t"
  have y: "0 \<le> y" "y < 2147483648" using r yield_of_bounds[of t] k by (simp_all add: y_def)
  have e: "slot k + yield_of t = 4294967296 * (k div second) + y" by (simp add: slot_def y_def)
  have "drop_bit 32 (slot k + yield_of t) = k div second"
    unfolding e using y by (simp add: drop_bit_eq_div)
  moreover have "signed_take_bit 31 (slot k + yield_of t) = y"
  proof -
    have "take_bit (Suc 31) (slot k + yield_of t) = take_bit (Suc 31) y"
      unfolding e by (simp add: take_bit_eq_mod)
    then have "signed_take_bit 31 (slot k + yield_of t) = signed_take_bit 31 y"
      by (simp only: signed_take_bit_eq_iff_take_bit_eq)
    then show ?thesis using y by (simp add: signed_take_bit_int_eq_self)
  qed
  ultimately have "MessageID_Time (slot k + yield_of t) = k + yield_of t"
    by (simp add: MessageID_Time_def y_def)
  with i m show ?thesis
    by (cases t) (simp_all add: MessageID_Type_def yields k_def)
qed

section \<open>The generator\<close>

text \<open>A run of the generator: clock readings and the kinds asked for, and the identifiers made.\<close>

fun gen_run :: "(int \<times> MessageType) list \<Rightarrow> MessageIDGen \<Rightarrow> int list" where
  "gen_run [] g = []"
| "gen_run ((now, t) # rs) g = (let (i, g') = MessageIDGen_New t now g in i # gen_run rs g')"

text \<open>Readings that do not advance by less than four nanoseconds, the resolution of an
  identifier, and the time that the generator may reach.\<close>

fun readings_ok :: "(int \<times> MessageType) list \<Rightarrow> MessageIDGen \<Rightarrow> bool" where
  "readings_ok [] g = True"
| "readings_ok ((now, t) # rs) g =
     ((now \<le> genNano g \<or> genNano g + 4 \<le> now) \<and> clock_range (genNano (snd (MessageIDGen_New t now g))) \<and>
      readings_ok rs (snd (MessageIDGen_New t now g)))"

lemma New_advances:
  assumes "now \<le> genNano g \<or> genNano g + 4 \<le> now" "clock_range (genNano g)"
  shows "genNano g div 4 < genNano (snd (MessageIDGen_New t now g)) div 4"
proof -
  have "wrap64 (genNano g + 10) = genNano g + 10"
    using assms(2) by (intro wrap64_id) (auto simp: clock_range_def)
  then show ?thesis using assms(1)
    by (auto simp: MessageIDGen_New_def Let_def minResolutionNanos_def)
qed

lemma gen_run_increases:
  assumes "readings_ok rs g" "clock_range (genNano g)"
  shows "sorted_wrt (<) (gen_run rs g) \<and> (\<forall>i \<in> set (gen_run rs g). NewMessageIDNano (genNano g) u < i)"
  using assms
proof (induction rs arbitrary: g u)
  case Nil
  then show ?case by simp
next
  case (Cons r rs)
  obtain now t where r: "r = (now, t)" by (cases r)
  define g' where "g' = snd (MessageIDGen_New t now g)"
  have new: "MessageIDGen_New t now g = (NewMessageIDNano (genNano g') t, g')"
    by (simp add: g'_def MessageIDGen_New_def Let_def)
  have prems: "clock_range (genNano g')" "readings_ok rs g'" "genNano g div 4 < genNano g' div 4"
    using Cons.prems New_advances[of now g t] by (simp_all add: r g'_def)
  have "NewMessageIDNano (genNano g) u < NewMessageIDNano (genNano g') t"
    using Cons.prems(2) prems by (intro NewMessageIDNano_less)
  with Cons.IH[OF prems(2,1), of t] show ?case
    by (auto simp: r new)
qed

lemma gen_run_kinds:
  assumes "readings_ok rs g"
  shows "map MessageID_Type (gen_run rs g) =
    map (\<lambda>(_, t). if t = MessageUnknown then MessageFromClient else t) rs"
  using assms
  by (induction rs g rule: readings_ok.induct)
     (auto simp: MessageIDGen_New_def Let_def MessageID_reads_back split: prod.splits)

text \<open>C37: the identifiers a connection gives to its messages are unique and increase, and tell
  the kind each was made for, whatever the clock does (it may stand still or go back), as long as
  it does not advance by one to three nanoseconds between two messages, before 2^31 seconds
  after the epoch.  The exception is real: the two lowest bits of the time are dropped, so two
  messages within one such step get the same identifier.\<close>

theorem message_ids_increase:
  assumes "readings_ok rs g" "clock_range (genNano g)"
  shows "sorted_wrt (<) (gen_run rs g) \<and> distinct (gen_run rs g) \<and>
    map MessageID_Type (gen_run rs g) =
      map (\<lambda>(_, t). if t = MessageUnknown then MessageFromClient else t) rs \<and>
    gen_run [(1000, t), (1001, t)] NewMessageIDGen = [1000 + yield_of t, 1000 + yield_of t]"
proof -
  have "gen_run [(1000, t), (1001, t)] NewMessageIDGen = [1000 + yield_of t, 1000 + yield_of t]"
    by (simp add: NewMessageIDGen_def MessageIDGen_New_def Let_def NewMessageIDNano_slot clock_range_def slot_def)
  moreover have "sorted_wrt (<) (gen_run rs g)" using gen_run_increases[OF assms] by simp
  moreover from this have "distinct (gen_run rs g)" by (simp add: strict_sorted_iff)
  ultimately show ?thesis using gen_run_kinds[OF assms(1)] by simp
qed

theorem message_ids_increase_witness:
  "sorted_wrt (<) (gen_run [(5000, MessageFromClient), (5000, MessageFromClient), (4000, MessageFromServer)] NewMessageIDGen)"
  using message_ids_increase[of "[(5000, MessageFromClient), (5000, MessageFromClient), (4000, MessageFromServer)]" NewMessageIDGen]
  by (simp add: NewMessageIDGen_def clock_range_def MessageIDGen_New_def minResolutionNanos_def wrap64_id)

section \<open>The replay buffer\<close>

lemma consume_scan_nonneg:
  "\<forall>x \<in> set xs. 0 \<le> x \<Longrightarrow> consume_scan newID i k 0 xs = (if newID \<in> set xs then None else Some (k, 0))"
  by (induction xs arbitrary: i) auto

lemma Consume_nonneg:
  assumes "\<forall>x \<in> set buf. 0 \<le> x" "buf \<noteq> []" "0 \<le> newID"
  shows "MessageIDBuf_Consume newID buf =
    (if newID \<in> set buf then (Inr False, buf) else (Inr True, buf[0 := newID]))"
  using assms by (simp add: MessageIDBuf_Consume_def consume_scan_nonneg)

primrec consume_all :: "int list \<Rightarrow> (int list, bin_err, bool list) prog" where
  "consume_all [] = ret []"
| "consume_all (x # xs) = andThen (MessageIDBuf_Consume x) (\<lambda>ok. andThen (consume_all xs) (\<lambda>oks. ret (ok # oks)))"

lemma consume_all_from:
  assumes "\<forall>x \<in> set xs. 0 < x" "distinct_adj (p # xs)" "0 \<le> p"
  shows "consume_all xs (p # replicate n 0) =
    (Inr (replicate (length xs) True), last (p # xs) # replicate n 0)"
  using assms
proof (induction xs arbitrary: p)
  case Nil
  then show ?case by (simp add: ret_def)
next
  case (Cons x xs)
  have "MessageIDBuf_Consume x (p # replicate n 0) = (Inr True, x # replicate n 0)"
    using Cons.prems by (subst Consume_nonneg) auto
  with Cons show ?case by (auto simp: ret_def)
qed

text \<open>C38: the replay buffer, of whatever size, remembers only the last identifier.  The minimum it
  replaces is searched from 0, which no identifier is below, so it is always the first slot: of
  messages from the server that do not repeat their predecessor all are accepted, replays of
  earlier ones included, and the buffer then holds just the last of them.\<close>

theorem replay_buffer_remembers_one:
  assumes "\<forall>x \<in> set ids. 0 < x" "distinct_adj ids" "ids \<noteq> []"
  shows "consume_all ids (NewMessageIDBuf (Suc n)) =
      (Inr (replicate (length ids) True), last ids # replicate n 0) \<and>
    (\<forall>x > 0. fst (MessageIDBuf_Consume x (last ids # replicate n 0)) = Inr (x \<noteq> last ids))"
proof -
  have "distinct_adj (0 # ids)" using assms by (cases ids) auto
  then have "consume_all ids (0 # replicate n 0) = (Inr (replicate (length ids) True), last ids # replicate n 0)"
    using consume_all_from[of ids 0 n] assms by simp
  moreover have "0 \<le> last ids" using assms last_in_set[of ids] by (simp add: less_imp_le)
  ultimately show ?thesis using Consume_nonneg[of "last ids # replicate n 0"]
    by (auto simp: NewMessageIDBuf_def)
qed

theorem replay_buffer_remembers_one_witness:
  "fst (consume_all [8, 12, 8] (NewMessageIDBuf 100)) = Inr [True, True, True]"
  using replay_buffer_remembers_one[of "[8, 12, 8]" 99] by (simp add: numeral_3_eq_3)

end
