(* ===== verification/Rpc.thy ===== *)
theory Rpc
  imports Main
begin

text \<open>
  The RPC engine, \<open>pkg/gotd/rpc\<close>: pending requests and acknowledgements as maps from message
  identifiers, the retries of an unacknowledged request, and the delivery of results.

  Every call of \<open>Do\<close> runs in a goroutine of its own beside those that notify, so the engine is a
  transition system.  A label is one atomic action: what the code does under the mutex, one
  choice of a \<open>select\<close>, or one call of the handler.  \<open>step\<close> says whether the action is possible
  and what it does.  A handler that \<open>NotifyResult\<close> or \<open>NotifyError\<close> has looked up is called after
  the mutex is released, so it waits in \<open>inflight\<close> until its own action.
\<close>

section \<open>State\<close>

datatype ctx_err = Canceled | DeadlineExceeded

datatype 'x rpc_err =
    ErrEngineClosed
  | SendErr
  | RetryLimitReachedErr nat
  | CtxErr ctx_err
  | ForciblyClosed
  | DecodeErr
  | RpcError 'x

datatype send_result = SendOK | SendCtx ctx_err | SendFailed

record 'p Request =
  reqMsgID :: int
  reqDecode :: "'p \<Rightarrow> bool"

text \<open>Where a call of \<open>Do\<close> is; the result of a call that has returned is its error, if any.\<close>

datatype 'x phase =
    Registering
  | Registered
  | Sending
  | Retrying nat
  | Selecting bool
  | Dropping ctx_err
  | Returned "'x rpc_err option"

text \<open>A call with its local variables.  \<open>userErr\<close> and \<open>retryErr\<close> are the errors of the caller's
  context and of \<open>retryCtx\<close>; \<open>reqOutput\<close> is what has been decoded into \<open>req.Output\<close>.\<close>

record ('p, 'x) doCall =
  request :: "'p Request"
  callPhase :: "'x phase"
  handlerCalled :: bool
  resultErr :: "'x rpc_err option"
  userErr :: "ctx_err option"
  retryErr :: "ctx_err option"
  ackChan :: nat
  sends :: nat
  reqOutput :: "'p option"

datatype callback = Handler nat | NopCallback

record ('p, 'x) Engine =
  rpc :: "int \<Rightarrow> callback option"
  ack :: "int \<Rightarrow> nat option"
  closedChans :: "nat set"
  nextChan :: nat
  reqClosed :: bool
  engineClosed :: bool
  calls :: "nat \<Rightarrow> ('p, 'x) doCall option"
  inflight :: "(callback \<times> ('x rpc_err + 'p)) list"

definition New :: "('p, 'x) Engine" where
  "New = \<lparr>rpc = \<lambda>_. None, ack = \<lambda>_. None, closedChans = {}, nextChan = 0, reqClosed = False,
     engineClosed = False, calls = \<lambda>_. None, inflight = []\<rparr>"

section \<open>Acknowledgements\<close>

definition notifyAckUnlocked :: "int \<Rightarrow> ('p, 'x) Engine \<Rightarrow> ('p, 'x) Engine" where
  "notifyAckUnlocked i e = (case ack e i of
     None \<Rightarrow> e
   | Some ch \<Rightarrow> e\<lparr>closedChans := insert ch (closedChans e), ack := (ack e)(i := None)\<rparr>)"

definition NotifyAcks :: "int list \<Rightarrow> ('p, 'x) Engine \<Rightarrow> ('p, 'x) Engine" where
  "NotifyAcks ids e = fold notifyAckUnlocked ids e"

definition waitAck :: "int \<Rightarrow> ('p, 'x) Engine \<Rightarrow> nat \<times> ('p, 'x) Engine" where
  "waitAck i e = (case ack e i of
     Some c \<Rightarrow> (c, e)
   | None \<Rightarrow> (nextChan e, e\<lparr>ack := (ack e)(i \<mapsto> nextChan e), nextChan := Suc (nextChan e)\<rparr>))"

definition removeAck :: "int \<Rightarrow> ('p, 'x) Engine \<Rightarrow> ('p, 'x) Engine" where
  "removeAck i e = e\<lparr>ack := (ack e)(i := None)\<rparr>"

section \<open>Calls\<close>

definition setCall :: "nat \<Rightarrow> ('p, 'x) doCall \<Rightarrow> ('p, 'x) Engine \<Rightarrow> ('p, 'x) Engine" where
  "setCall c d e = e\<lparr>calls := (calls e)(c \<mapsto> d)\<rparr>"

text \<open>\<open>Do\<close> returns: its deferred function deletes the callback.\<close>

definition returnDo :: "nat \<Rightarrow> ('p, 'x) doCall \<Rightarrow> 'x rpc_err option \<Rightarrow> ('p, 'x) Engine \<Rightarrow> ('p, 'x) Engine" where
  "returnDo c d r e = setCall c (d\<lparr>callPhase := Returned r\<rparr>)
     (e\<lparr>rpc := (rpc e)(reqMsgID (request d) := None)\<rparr>)"

text \<open>\<open>retryUntilAck\<close> returns \<open>sent\<close> and \<open>err\<close>, its deferred \<open>removeAck\<close> done; \<open>Do\<close> goes on to its
  last \<open>select\<close> or returns the error.\<close>

definition is_ctx :: "ctx_err option \<Rightarrow> ctx_err option \<Rightarrow> bool" where
  "is_ctx err retry \<longleftrightarrow> err \<noteq> None \<and> err = retry"

definition afterRetry :: "nat \<Rightarrow> ('p, 'x) doCall \<Rightarrow> bool \<Rightarrow> ('x rpc_err \<times> ctx_err option) option \<Rightarrow>
    ('p, 'x) Engine \<Rightarrow> ('p, 'x) Engine" where
  "afterRetry c d sent err e =
     (let e = removeAck (reqMsgID (request d)) e in
      case err of
        None \<Rightarrow> setCall c (d\<lparr>callPhase := Selecting sent\<rparr>) e
      | Some (x, ctx) \<Rightarrow>
          if is_ctx ctx (retryErr d) then setCall c (d\<lparr>callPhase := Selecting sent\<rparr>) e
          else returnDo c d (Some x) e)"

definition send_err :: "send_result \<Rightarrow> ('x rpc_err \<times> ctx_err option) option" where
  "send_err r = (case r of SendOK \<Rightarrow> None | SendCtx x \<Rightarrow> Some (SendErr, Some x) | SendFailed \<Rightarrow> Some (SendErr, None))"

text \<open>The handler of a call.  It does its work once.\<close>

definition callHandler :: "nat \<Rightarrow> ('x rpc_err + 'p) \<Rightarrow> ('p, 'x) Engine \<Rightarrow> ('p, 'x) Engine" where
  "callHandler c v e = (case calls e c of
     None \<Rightarrow> e
   | Some d \<Rightarrow>
       if handlerCalled d then e
       else let d = d\<lparr>handlerCalled := True,
                retryErr := (case retryErr d of None \<Rightarrow> Some Canceled | Some x \<Rightarrow> Some x)\<rparr> in
         setCall c (case v of
             Inl x \<Rightarrow> d\<lparr>resultErr := Some x\<rparr>
           | Inr p \<Rightarrow> d\<lparr>resultErr := (if reqDecode (request d) p then None else Some DecodeErr), reqOutput := Some p\<rparr>) e)"

section \<open>Steps\<close>

datatype ('p, 'x) label =
    Do nat "'p Request"
  | Register nat
  | WaitAck nat
  | Send nat send_result
  | RetryTick nat send_result
  | RetryAck nat
  | RetryCtx nat
  | RetryClosed nat
  | SelectCtx nat
  | SelectClosed nat
  | SelectDone nat
  | DropDone nat
  | UserCancel nat ctx_err
  | NotifyResult int 'p
  | NotifyError int 'x
  | Acks "int list"
  | CallHandler nat
  | ReqCancel
  | Close

text \<open>The lookup of \<open>NotifyResult\<close> and \<open>NotifyError\<close> under the mutex.\<close>

definition notify :: "int \<Rightarrow> ('x rpc_err + 'p) \<Rightarrow> ('p, 'x) Engine \<Rightarrow> ('p, 'x) Engine" where
  "notify i v e =
     (let e = notifyAckUnlocked i e in
      case rpc e i of None \<Rightarrow> e | Some fn \<Rightarrow> e\<lparr>inflight := inflight e @ [(fn, v)]\<rparr>)"

definition newCall :: "'p Request \<Rightarrow> ('p, 'x) doCall" where
  "newCall r = \<lparr>request = r, callPhase = Registering, handlerCalled = False, resultErr = None, userErr = None,
     retryErr = None, ackChan = 0, sends = 0, reqOutput = None\<rparr>"

text \<open>One step of a call, \<open>maxRetries\<close> being the limit of the engine.\<close>

fun callStep :: "nat \<Rightarrow> ('p, 'x) label \<Rightarrow> nat \<Rightarrow> ('p, 'x) doCall \<Rightarrow> ('p, 'x) Engine \<Rightarrow> ('p, 'x) Engine option" where
  "callStep maxRetries (Register _) c d e =
     (if callPhase d = Registering
      then Some (setCall c (d\<lparr>callPhase := Registered\<rparr>) (e\<lparr>rpc := (rpc e)(reqMsgID (request d) \<mapsto> Handler c)\<rparr>))
      else None)"
| "callStep maxRetries (WaitAck _) c d e =
     (if callPhase d = Registered
      then (let (ch, e) = waitAck (reqMsgID (request d)) e in Some (setCall c (d\<lparr>ackChan := ch, callPhase := Sending\<rparr>) e))
      else None)"
| "callStep maxRetries (Send _ r) c d e =
     (if callPhase d = Sending
      then (let d = d\<lparr>sends := Suc (sends d)\<rparr> in
        Some (if r = SendOK then setCall c (d\<lparr>callPhase := Retrying 0\<rparr>) e
              else afterRetry c d False (send_err r) e))
      else None)"
| "callStep maxRetries (RetryTick _ r) c d e =
     (case callPhase d of
        Retrying retries \<Rightarrow>
          (let d = d\<lparr>sends := Suc (sends d)\<rparr> in
           Some (if r = SendCtx Canceled then afterRetry c d True None e
                 else if r \<noteq> SendOK then afterRetry c d True (send_err r) e
                 else if Suc retries \<ge> maxRetries then afterRetry c d True (Some (RetryLimitReachedErr (Suc retries), None)) e
                 else setCall c (d\<lparr>callPhase := Retrying (Suc retries)\<rparr>) e))
      | _ \<Rightarrow> None)"
| "callStep maxRetries (RetryAck _) c d e =
     (case callPhase d of
        Retrying _ \<Rightarrow> if ackChan d \<in> closedChans e then Some (afterRetry c d True None e) else None
      | _ \<Rightarrow> None)"
| "callStep maxRetries (RetryCtx _) c d e =
     (case (callPhase d, retryErr d) of
        (Retrying _, Some x) \<Rightarrow> Some (afterRetry c d True (Some (CtxErr x, Some x)) e)
      | _ \<Rightarrow> None)"
| "callStep maxRetries (RetryClosed _) c d e =
     (case callPhase d of
        Retrying _ \<Rightarrow> if reqClosed e then Some (afterRetry c d True (Some (ForciblyClosed, Some Canceled)) e) else None
      | _ \<Rightarrow> None)"
| "callStep maxRetries (SelectCtx _) c d e =
     (case (callPhase d, userErr d) of
        (Selecting sent, Some x) \<Rightarrow>
          Some (if \<not> sent then returnDo c d (Some (CtxErr x)) e
            else setCall c (d\<lparr>callPhase := Dropping x\<rparr>) (e\<lparr>rpc := (rpc e)(reqMsgID (request d) \<mapsto> NopCallback)\<rparr>))
      | _ \<Rightarrow> None)"
| "callStep maxRetries (DropDone _) c d e =
     (case callPhase d of Dropping x \<Rightarrow> Some (returnDo c d (Some (CtxErr x)) e) | _ \<Rightarrow> None)"
| "callStep maxRetries (SelectClosed _) c d e =
     (case callPhase d of
        Selecting _ \<Rightarrow> if reqClosed e then Some (returnDo c d (Some ForciblyClosed) e) else None
      | _ \<Rightarrow> None)"
| "callStep maxRetries (SelectDone _) c d e =
     (case callPhase d of
        Selecting _ \<Rightarrow> if handlerCalled d then Some (returnDo c d (resultErr d) e) else None
      | _ \<Rightarrow> None)"
| "callStep maxRetries (UserCancel _ x) c d e =
     (if userErr d = None
      then Some (setCall c (d\<lparr>userErr := Some x,
        retryErr := (case retryErr d of None \<Rightarrow> Some x | Some y \<Rightarrow> Some y)\<rparr>) e)
      else None)"
| "callStep maxRetries _ c d e = None"

text \<open>The call a label is about.\<close>

fun call_of :: "('p, 'x) label \<Rightarrow> nat option" where
  "call_of (Register c) = Some c" | "call_of (WaitAck c) = Some c" | "call_of (Send c r) = Some c"
| "call_of (RetryTick c r) = Some c" | "call_of (RetryAck c) = Some c" | "call_of (RetryCtx c) = Some c"
| "call_of (RetryClosed c) = Some c" | "call_of (SelectCtx c) = Some c" | "call_of (SelectClosed c) = Some c"
| "call_of (SelectDone c) = Some c" | "call_of (DropDone c) = Some c" | "call_of (UserCancel c x) = Some c"
| "call_of l = None"

fun step :: "nat \<Rightarrow> ('p, 'x) label \<Rightarrow> ('p, 'x) Engine \<Rightarrow> ('p, 'x) Engine option" where
  "step maxRetries (Do c r) e =
     (if calls e c \<noteq> None then None
      else if engineClosed e then Some (setCall c ((newCall r)\<lparr>callPhase := Returned (Some ErrEngineClosed)\<rparr>) e)
      else Some (setCall c (newCall r) e))"
| "step maxRetries (NotifyResult i p) e = Some (notify i (Inr p) e)"
| "step maxRetries (NotifyError i x) e = Some (notify i (Inl (RpcError x)) e)"
| "step maxRetries (Acks ids) e = Some (NotifyAcks ids e)"
| "step maxRetries (CallHandler k) e =
     (if k < length (inflight e)
      then (let (fn, v) = inflight e ! k; e = e\<lparr>inflight := take k (inflight e) @ drop (Suc k) (inflight e)\<rparr> in
        Some (case fn of Handler c \<Rightarrow> callHandler c v e | NopCallback \<Rightarrow> e))
      else None)"
| "step maxRetries ReqCancel e = Some (e\<lparr>reqClosed := True\<rparr>)"
| "step maxRetries Close e = Some (e\<lparr>engineClosed := True\<rparr>)"
| "step maxRetries l e =
     (case call_of l of None \<Rightarrow> None
      | Some c \<Rightarrow> (case calls e c of None \<Rightarrow> None | Some d \<Rightarrow> callStep maxRetries l c d e))"

text \<open>The engine's states and what led to them.\<close>

inductive run :: "nat \<Rightarrow> ('p, 'x) label list \<Rightarrow> ('p, 'x) Engine \<Rightarrow> bool" for maxRetries where
  start: "run maxRetries [] New"
| next_step: "run maxRetries ls e \<Longrightarrow> step maxRetries l e = Some e' \<Longrightarrow> run maxRetries (ls @ [l]) e'"

section \<open>What the steps do to a call\<close>

named_theorems engine \<open>the effect of the engine's operations\<close>

lemma setCall_simps [engine]:
  "rpc (setCall c d e) = rpc e" "ack (setCall c d e) = ack e" "inflight (setCall c d e) = inflight e"
  "closedChans (setCall c d e) = closedChans e" "nextChan (setCall c d e) = nextChan e"
  "reqClosed (setCall c d e) = reqClosed e" "calls (setCall c d e) = (calls e)(c \<mapsto> d)"
  by (simp_all add: setCall_def)

lemma ack_simps [engine]:
  "rpc (notifyAckUnlocked i e) = rpc e" "calls (notifyAckUnlocked i e) = calls e"
  "inflight (notifyAckUnlocked i e) = inflight e" "ack (notifyAckUnlocked i e) = (ack e)(i := None)"
  by (auto simp: notifyAckUnlocked_def split: option.split)

lemma NotifyAcks_simps [engine]:
  "rpc (NotifyAcks ids e) = rpc e \<and> calls (NotifyAcks ids e) = calls e \<and> inflight (NotifyAcks ids e) = inflight e \<and>
   ack (NotifyAcks ids e) = (\<lambda>i. if i \<in> set ids then None else ack e i)"
  by (induction ids arbitrary: e) (auto simp: NotifyAcks_def engine)

lemma removeAck_simps [engine]:
  "rpc (removeAck i e) = rpc e" "calls (removeAck i e) = calls e" "inflight (removeAck i e) = inflight e"
  "ack (removeAck i e) = (ack e)(i := None)"
  by (simp_all add: removeAck_def)

text \<open>The phase after \<open>retryUntilAck\<close>.\<close>

definition retryPhase :: "('p, 'x) doCall \<Rightarrow> bool \<Rightarrow> ('x rpc_err \<times> ctx_err option) option \<Rightarrow> 'x phase" where
  "retryPhase d sent err = (case err of None \<Rightarrow> Selecting sent
     | Some (x, ctx) \<Rightarrow> if is_ctx ctx (retryErr d) then Selecting sent else Returned (Some x))"

lemma afterRetry_simps [engine]:
  "calls (afterRetry c d sent err e) = (calls e)(c \<mapsto> d\<lparr>callPhase := retryPhase d sent err\<rparr>)"
  "inflight (afterRetry c d sent err e) = inflight e"
  "ack (afterRetry c d sent err e) = (ack e)(reqMsgID (request d) := None)"
  "rpc (afterRetry c d sent err e) =
     (case retryPhase d sent err of Returned _ \<Rightarrow> (rpc e)(reqMsgID (request d) := None) | _ \<Rightarrow> rpc e)"
  by (auto simp: afterRetry_def retryPhase_def Let_def engine returnDo_def split: option.split prod.split)

lemma returnDo_simps [engine]:
  "calls (returnDo c d r e) = (calls e)(c \<mapsto> d\<lparr>callPhase := Returned r\<rparr>)"
  "inflight (returnDo c d r e) = inflight e" "ack (returnDo c d r e) = ack e"
  "rpc (returnDo c d r e) = (rpc e)(reqMsgID (request d) := None)"
  by (simp_all add: returnDo_def engine)

lemma waitAck_simps [engine]:
  "waitAck i e = (ch, e') \<Longrightarrow> rpc e' = rpc e \<and> calls e' = calls e \<and> inflight e' = inflight e \<and> ack e' = (ack e)(i \<mapsto> ch)"
  by (auto simp: waitAck_def split: option.splits)

lemma retryPhase_cases [engine]:
  "(retryPhase d sent err = Registering) = False" "(retryPhase d sent err = Registered) = False"
  "(retryPhase d sent err = Sending) = False" "(retryPhase d sent err = Retrying k) = False"
  "(retryPhase d sent err = Dropping x) = False" "(retryPhase d sent err = Returned None) = False"
  by (auto simp: retryPhase_def split: option.splits prod.splits if_splits)

lemma retryPhase_not_rpc [engine]:
  "\<forall>x ctx. err = Some (x, ctx) \<longrightarrow> x \<noteq> RpcError y \<Longrightarrow> (retryPhase d sent err = Returned (Some (RpcError y))) = False"
  by (auto simp: retryPhase_def split: option.splits prod.splits if_splits)

lemma send_err_not_rpc [engine]: "send_err r = Some (x, ctx) \<Longrightarrow> x = SendErr"
  by (cases r) (auto simp: send_err_def)

text \<open>A call's own invariant: how often it has sent, why its retry context may have ended, and
  where its result comes from.\<close>

definition sends_ok :: "nat \<Rightarrow> ('p, 'x) doCall \<Rightarrow> bool" where
  "sends_ok M d \<longleftrightarrow> sends d \<le> Suc (max 1 M) \<and>
     (case callPhase d of
        Retrying k \<Rightarrow> sends d = Suc k \<and> k < max 1 M
      | Registering \<Rightarrow> sends d = 0 | Registered \<Rightarrow> sends d = 0 | Sending \<Rightarrow> sends d = 0
      | _ \<Rightarrow> True)"

definition retry_ok :: "('p, 'x) doCall \<Rightarrow> bool" where
  "retry_ok d \<longleftrightarrow> (retryErr d \<noteq> None \<longrightarrow> userErr d \<noteq> None \<or> handlerCalled d)"

definition phase_ok :: "('p, 'x) doCall \<Rightarrow> bool" where
  "phase_ok d \<longleftrightarrow> (\<forall>r. callPhase d = Returned r \<longrightarrow> r = None \<or> (\<exists>x. r = Some (RpcError x)) \<longrightarrow>
     handlerCalled d \<and> resultErr d = r)"

definition result_ok :: "('p, 'x) label list \<Rightarrow> ('p, 'x) doCall \<Rightarrow> bool" where
  "result_ok ls d \<longleftrightarrow> (\<not> handlerCalled d \<longrightarrow> reqOutput d = None) \<and> (handlerCalled d \<longrightarrow> (case reqOutput d of
        Some p \<Rightarrow> NotifyResult (reqMsgID (request d)) p \<in> set ls \<and>
          resultErr d = (if reqDecode (request d) p then None else Some DecodeErr)
      | None \<Rightarrow> \<exists>x. resultErr d = Some (RpcError x) \<and> NotifyError (reqMsgID (request d)) x \<in> set ls))"

text \<open>Steps of one call touch that call only.\<close>

lemma callStep_frame:
  assumes "callStep M l c d e = Some e'"
  shows "\<exists>d'. calls e' = (calls e)(c \<mapsto> d') \<and> request d' = request d \<and> inflight e' = inflight e \<and>
    handlerCalled d' = handlerCalled d \<and> resultErr d' = resultErr d \<and> reqOutput d' = reqOutput d"
  using assms
  by (cases l) (auto simp: engine Let_def split: if_splits phase.splits option.splits prod.splits)

lemma callStep_sends:
  assumes "callStep M l c d e = Some e'" "sends_ok M d" "calls e' c = Some d'"
  shows "sends_ok M d'"
  using assms
  by (cases l) (auto simp: engine Let_def sends_ok_def split: if_splits phase.splits option.splits prod.splits)

lemma callStep_retry:
  assumes "callStep M l c d e = Some e'" "retry_ok d" "calls e' c = Some d'"
  shows "retry_ok d'"
  using assms unfolding retry_ok_def
  by (cases l) (auto simp: engine Let_def split: if_splits phase.splits option.splits prod.splits)

lemma retryPhase_send [engine]: "(retryPhase d sent (send_err r) = Returned (Some (RpcError y))) = False"
  by (rule retryPhase_not_rpc) (auto dest: send_err_not_rpc)

lemma callStep_phase:
  assumes "callStep M l c d e = Some e'" "phase_ok d" "calls e' c = Some d'"
  shows "phase_ok d'"
  using assms unfolding phase_ok_def
  by (cases l) (auto simp: engine Let_def split: if_splits phase.splits option.splits prod.splits)

text \<open>The maps: who is behind an entry.\<close>

fun live :: "'x phase \<Rightarrow> bool" where
  "live Registering = False" | "live (Returned r) = False" | "live _ = True"

fun awaiting :: "'x phase \<Rightarrow> bool" where
  "awaiting Sending = True" | "awaiting (Retrying k) = True" | "awaiting _ = False"

lemma live_retryPhase [engine]: "live (retryPhase d sent err) \<longleftrightarrow> (\<forall>r. retryPhase d sent err \<noteq> Returned r)"
  by (cases "retryPhase d sent err") (auto simp: engine)

lemma callStep_handlers:
  assumes "callStep M l c d e = Some e'" "calls e' c = Some d'" "rpc e' i = Some (Handler c')"
  shows "(c' = c \<and> i = reqMsgID (request d) \<and> live (callPhase d')) \<or>
    (rpc e i = Some (Handler c') \<and> (i = reqMsgID (request d) \<and> live (callPhase d) \<longrightarrow> live (callPhase d')))"
  using assms
  by (cases l) (auto simp: engine Let_def dest!: waitAck_simps split: if_splits phase.splits option.splits prod.splits)

lemma callStep_nops:
  assumes "callStep M l c d e = Some e'" "calls e' c = Some d'" "rpc e' i = Some NopCallback"
  shows "(i = reqMsgID (request d) \<and> (\<exists>x. callPhase d' = Dropping x)) \<or>
    (rpc e i = Some NopCallback \<and> (i = reqMsgID (request d) \<and> (\<exists>x. callPhase d = Dropping x) \<longrightarrow> (\<exists>x. callPhase d' = Dropping x)))"
  using assms
  by (cases l) (auto simp: engine Let_def dest!: waitAck_simps split: if_splits phase.splits option.splits prod.splits)

lemma callStep_acks:
  assumes "callStep M l c d e = Some e'" "calls e' c = Some d'" "ack e' i = Some ch"
  shows "(i = reqMsgID (request d) \<and> awaiting (callPhase d')) \<or>
    (ack e i = Some ch \<and> (i = reqMsgID (request d) \<and> awaiting (callPhase d) \<longrightarrow> awaiting (callPhase d')))"
  using assms
  by (cases l) (auto simp: engine Let_def dest!: waitAck_simps split: if_splits phase.splits option.splits prod.splits)

section \<open>Invariants of the engine\<close>

definition call_ok :: "nat \<Rightarrow> ('p, 'x) label list \<Rightarrow> ('p, 'x) doCall \<Rightarrow> bool" where
  "call_ok M ls d \<longleftrightarrow> sends_ok M d \<and> retry_ok d \<and> phase_ok d \<and> result_ok ls d"

definition calls_ok :: "nat \<Rightarrow> ('p, 'x) label list \<Rightarrow> ('p, 'x) Engine \<Rightarrow> bool" where
  "calls_ok M ls e \<longleftrightarrow> (\<forall>c d. calls e c = Some d \<longrightarrow> call_ok M ls d)"

fun notified :: "('p, 'x) label list \<Rightarrow> int \<Rightarrow> 'x rpc_err + 'p \<Rightarrow> bool" where
  "notified ls i (Inr p) = (NotifyResult i p \<in> set ls)"
| "notified ls i (Inl r) = (\<exists>x. r = RpcError x \<and> NotifyError i x \<in> set ls)"

definition inflight_ok :: "('p, 'x) label list \<Rightarrow> ('p, 'x) Engine \<Rightarrow> bool" where
  "inflight_ok ls e \<longleftrightarrow> (\<forall>c v. (Handler c, v) \<in> set (inflight e) \<longrightarrow>
     (\<exists>d. calls e c = Some d \<and> notified ls (reqMsgID (request d)) v))"

definition maps_ok :: "('p, 'x) Engine \<Rightarrow> bool" where
  "maps_ok e \<longleftrightarrow>
     (\<forall>i c. rpc e i = Some (Handler c) \<longrightarrow> (\<exists>d. calls e c = Some d \<and> reqMsgID (request d) = i \<and> live (callPhase d))) \<and>
     (\<forall>i. rpc e i = Some NopCallback \<longrightarrow>
       (\<exists>c d x. calls e c = Some d \<and> reqMsgID (request d) = i \<and> callPhase d = Dropping x)) \<and>
     (\<forall>i ch. ack e i = Some ch \<longrightarrow> (\<exists>c d. calls e c = Some d \<and> reqMsgID (request d) = i \<and> awaiting (callPhase d)))"

lemma step_call:
  assumes "step M l e = Some e'" "call_of l = Some c"
  obtains d where "calls e c = Some d" "callStep M l c d e = Some e'"
  using assms by (cases l) (auto split: option.splits)

lemma result_ok_mono: "result_ok ls d \<Longrightarrow> set ls \<subseteq> set ls' \<Longrightarrow> result_ok ls' d"
  by (auto simp: result_ok_def split: option.splits)

lemma notified_mono: "notified ls i v \<Longrightarrow> set ls \<subseteq> set ls' \<Longrightarrow> notified ls' i v"
  by (cases v) auto

lemma notify_simps [engine]:
  "rpc (notify i v e) = rpc e" "calls (notify i v e) = calls e" "ack (notify i v e) = (ack e)(i := None)"
  "inflight (notify i v e) = (case rpc e i of None \<Rightarrow> inflight e | Some fn \<Rightarrow> inflight e @ [(fn, v)])"
  by (auto simp: notify_def Let_def engine split: option.split)

lemma callHandler_simps [engine]:
  "rpc (callHandler c v e) = rpc e" "ack (callHandler c v e) = ack e" "inflight (callHandler c v e) = inflight e"
  by (auto simp: callHandler_def Let_def engine split: option.split)

text \<open>The call after its handler.\<close>

definition handled_call :: "'x rpc_err + 'p \<Rightarrow> ('p, 'x) doCall \<Rightarrow> ('p, 'x) doCall" where
  "handled_call v d = (if handlerCalled d then d
     else d\<lparr>handlerCalled := True, retryErr := (case retryErr d of None \<Rightarrow> Some Canceled | Some x \<Rightarrow> Some x),
       resultErr := (case v of Inl x \<Rightarrow> Some x | Inr p \<Rightarrow> if reqDecode (request d) p then None else Some DecodeErr),
       reqOutput := (case v of Inl x \<Rightarrow> reqOutput d | Inr p \<Rightarrow> Some p)\<rparr>)"

lemma callHandler_calls:
  "calls e c = Some d \<Longrightarrow> calls (callHandler c v e) = (calls e)(c \<mapsto> handled_call v d)"
  by (cases v) (auto simp: callHandler_def Let_def engine handled_call_def fun_upd_idem)

lemma handled_call_simps [simp]:
  "request (handled_call v d) = request d" "callPhase (handled_call v d) = callPhase d" "sends (handled_call v d) = sends d"
  by (simp_all add: handled_call_def)

lemma handled_call_ok:
  "sends_ok M d \<Longrightarrow> sends_ok M (handled_call v d)" "retry_ok d \<Longrightarrow> retry_ok (handled_call v d)"
  "phase_ok d \<Longrightarrow> phase_ok (handled_call v d)"
  by (simp add: sends_ok_def split: phase.split) (auto simp: handled_call_def retry_ok_def phase_ok_def)

lemma handled_call_result:
  "result_ok ls d \<Longrightarrow> notified ls (reqMsgID (request d)) v \<Longrightarrow> result_ok ls (handled_call v d)"
  by (cases v) (auto simp: handled_call_def result_ok_def)

lemma CallHandler_step:
  assumes "step M (CallHandler k) e = Some e'"
  shows "(\<exists>c v. (Handler c, v) \<in> set (inflight e) \<and> set (inflight e') \<subseteq> set (inflight e) \<and>
      rpc e' = rpc e \<and> ack e' = ack e \<and> e' = callHandler c v (e\<lparr>inflight := inflight e'\<rparr>)) \<or>
    (set (inflight e') \<subseteq> set (inflight e) \<and> rpc e' = rpc e \<and> ack e' = ack e \<and> calls e' = calls e)"
proof -
  have k: "k < length (inflight e)" using assms by (simp split: if_splits)
  obtain fn v where fv: "inflight e ! k = (fn, v)" by (cases "inflight e ! k")
  then have mem: "(fn, v) \<in> set (inflight e)" using k by (metis nth_mem)
  define rest where "rest = take k (inflight e) @ drop (Suc k) (inflight e)"
  have sub: "set rest \<subseteq> set (inflight e)"
    by (auto simp: rest_def dest: in_set_takeD in_set_dropD)
  have e': "e' = (case fn of Handler c \<Rightarrow> callHandler c v (e\<lparr>inflight := rest\<rparr>) | NopCallback \<Rightarrow> e\<lparr>inflight := rest\<rparr>)"
    unfolding rest_def using assms k fv by (cases fn) (simp_all add: Let_def)
  show ?thesis using mem sub by (cases fn) (auto simp: e' engine)
qed

lemma not_call_step:
  assumes "step M l e = Some e'" "call_of l = None" "\<And>k. l \<noteq> CallHandler k" "\<And>c r. l \<noteq> Do c r"
  shows "calls e' = calls e \<and> rpc e' = rpc e \<and> (\<forall>i ch. ack e' i = Some ch \<longrightarrow> ack e i = Some ch) \<and>
      (\<forall>c v. (Handler c, v) \<in> set (inflight e') \<longrightarrow> (Handler c, v) \<in> set (inflight e) \<or>
        (\<exists>i. rpc e i = Some (Handler c) \<and> notified [l] i v))"
  using assms
  by (cases l) (auto simp: engine split: if_splits option.splits)

lemma step_cases [consumes 1, case_names call start handler other]:
  assumes "step M l e = Some e'"
    and "\<And>c d. call_of l = Some c \<Longrightarrow> calls e c = Some d \<Longrightarrow> callStep M l c d e = Some e' \<Longrightarrow> P"
    and "\<And>c r. l = Do c r \<Longrightarrow> P" "\<And>k. l = CallHandler k \<Longrightarrow> P"
    and "call_of l = None \<Longrightarrow> (\<And>k. l \<noteq> CallHandler k) \<Longrightarrow> (\<And>c r. l \<noteq> Do c r) \<Longrightarrow> P"
  shows P
  using assms step_call[OF assms(1)] by (cases "call_of l") blast+

lemma Do_step:
  assumes "step M (Do c r) e = Some e'"
  shows "calls e c = None \<and> rpc e' = rpc e \<and> ack e' = ack e \<and> inflight e' = inflight e \<and>
    (\<exists>ph. (ph = Registering \<or> ph = Returned (Some ErrEngineClosed)) \<and> calls e' = (calls e)(c \<mapsto> (newCall r)\<lparr>callPhase := ph\<rparr>))"
  using assms by (auto simp: engine newCall_def split: if_splits)

lemma newCall_ok:
  assumes "ph = Registering \<or> ph = Returned (Some ErrEngineClosed)"
  shows "call_ok M ls ((newCall r)\<lparr>callPhase := ph\<rparr>)"
  using assms by (auto simp: call_ok_def newCall_def sends_ok_def retry_ok_def phase_ok_def result_ok_def)

lemma call_ok_mono: "call_ok M ls d \<Longrightarrow> call_ok M (ls @ [l]) d"
  by (auto simp: call_ok_def elim: result_ok_mono)

lemma callStep_ok:
  assumes "callStep M l c d e = Some e'" "call_ok M ls d" "calls e' c = Some d'"
  shows "call_ok M ls d'"
proof -
  have "result_ok ls d'"
    using callStep_frame[OF assms(1)] assms(2,3) by (auto simp: call_ok_def result_ok_def split: option.splits)
  then show ?thesis
    using assms(2,3) callStep_sends[OF assms(1)] callStep_retry[OF assms(1)] callStep_phase[OF assms(1)]
    by (simp add: call_ok_def)
qed

lemma handled_call_call_ok:
  "call_ok M ls d \<Longrightarrow> notified ls (reqMsgID (request d)) v \<Longrightarrow> call_ok M ls (handled_call v d)"
  by (simp add: call_ok_def handled_call_ok handled_call_result)

lemma calls_ok_upd:
  assumes "calls_ok M ls e" "calls e' = (calls e)(c \<mapsto> d)" "call_ok M ls d"
  shows "calls_ok M (ls @ [l]) e'"
  using assms by (auto simp: calls_ok_def intro: call_ok_mono)

lemma calls_ok_step:
  assumes "step M l e = Some e'" "calls_ok M ls e" "inflight_ok ls e"
  shows "calls_ok M (ls @ [l]) e'"
  using assms(1)
proof (cases rule: step_cases)
  case (call c d)
  obtain d' where d': "calls e' = (calls e)(c \<mapsto> d')" using callStep_frame[OF call(3)] by blast
  moreover have "call_ok M ls d'"
    by (rule callStep_ok[OF call(3)]) (use assms(2) call(2) d' in \<open>auto simp: calls_ok_def\<close>)
  ultimately show ?thesis by (rule calls_ok_upd[OF assms(2)])
next
  case (start c r)
  then obtain ph where ph: "ph = Registering \<or> ph = Returned (Some ErrEngineClosed)"
      "calls e' = (calls e)(c \<mapsto> (newCall r)\<lparr>callPhase := ph\<rparr>)"
    using Do_step[OF assms(1)[unfolded start]] by blast
  show ?thesis by (rule calls_ok_upd[OF assms(2) ph(2) newCall_ok[OF ph(1)]])
next
  case (handler k)
  from CallHandler_step[OF assms(1)[unfolded handler]] show ?thesis
  proof (elim disjE exE conjE)
    fix c v assume h: "(Handler c, v) \<in> set (inflight e)" "e' = callHandler c v (e\<lparr>inflight := inflight e'\<rparr>)"
    obtain d where d: "calls e c = Some d" "notified ls (reqMsgID (request d)) v"
      using h(1) assms(3) by (auto simp: inflight_ok_def)
    have "calls e' = (calls e)(c \<mapsto> handled_call v d)" by (subst h(2)) (simp add: callHandler_calls d)
    moreover have "call_ok M ls (handled_call v d)"
      using assms(2) d by (auto simp: calls_ok_def intro: handled_call_call_ok)
    ultimately show ?thesis by (rule calls_ok_upd[OF assms(2)])
  qed (use assms(2) in \<open>auto simp: calls_ok_def intro: call_ok_mono\<close>)
next
  case other
  note o = not_call_step[OF assms(1) other]
  show ?thesis using o assms(2) by (auto simp: calls_ok_def intro: call_ok_mono)
qed

lemma inflight_ok_upd:
  assumes "inflight_ok ls e" "calls e' = (calls e)(c \<mapsto> d')" "calls e c = None \<or> (\<exists>d. calls e c = Some d \<and> request d' = request d)"
    and "set (inflight e') \<subseteq> set (inflight e)"
  shows "inflight_ok (ls @ [l]) e'"
  unfolding inflight_ok_def
proof (intro allI impI)
  fix c' v assume "(Handler c', v) \<in> set (inflight e')"
  then obtain d where "calls e c' = Some d" "notified ls (reqMsgID (request d)) v"
    using assms(1,4) unfolding inflight_ok_def by blast
  moreover from this(2) have "notified (ls @ [l]) (reqMsgID (request d)) v" by (rule notified_mono) auto
  ultimately show "\<exists>d. calls e' c' = Some d \<and> notified (ls @ [l]) (reqMsgID (request d)) v"
    using assms(2,3) by (cases "c' = c") auto
qed

lemma inflight_ok_step:
  assumes "step M l e = Some e'" "inflight_ok ls e" "maps_ok e"
  shows "inflight_ok (ls @ [l]) e'"
  using assms(1)
proof (cases rule: step_cases)
  case (call c d)
  obtain d' where d': "calls e' = (calls e)(c \<mapsto> d')" "request d' = request d" "inflight e' = inflight e"
    using callStep_frame[OF call(3)] by blast
  show ?thesis by (rule inflight_ok_upd[OF assms(2) d'(1)]) (use call(2) d' in auto)
next
  case (start c r)
  then obtain d' where "calls e' = (calls e)(c \<mapsto> d')" "calls e c = None" "inflight e' = inflight e"
    using Do_step[OF assms(1)[unfolded start]] by blast
  then show ?thesis by (intro inflight_ok_upd[OF assms(2)]) auto
next
  case (handler k)
  from CallHandler_step[OF assms(1)[unfolded handler]] show ?thesis
  proof (elim disjE exE conjE)
    fix c v assume h: "(Handler c, v) \<in> set (inflight e)" "set (inflight e') \<subseteq> set (inflight e)"
      "e' = callHandler c v (e\<lparr>inflight := inflight e'\<rparr>)"
    obtain d where d: "calls e c = Some d" using h(1) assms(2) by (auto simp: inflight_ok_def)
    have "calls e' = (calls e)(c \<mapsto> handled_call v d)" by (subst h(3)) (simp add: callHandler_calls d)
    then show ?thesis by (rule inflight_ok_upd[OF assms(2)]) (use d h in auto)
  next
    assume "set (inflight e') \<subseteq> set (inflight e)" "calls e' = calls e"
    then show ?thesis using assms(2)
      by (fastforce simp: inflight_ok_def elim: notified_mono)
  qed
next
  case other
  note o = not_call_step[OF assms(1) other]
  show ?thesis unfolding inflight_ok_def
  proof (intro allI impI)
    fix c v assume "(Handler c, v) \<in> set (inflight e')"
    then consider "(Handler c, v) \<in> set (inflight e)" | i where "rpc e i = Some (Handler c)" "notified [l] i v"
      using o by blast
    then show "\<exists>d. calls e' c = Some d \<and> notified (ls @ [l]) (reqMsgID (request d)) v"
    proof cases
      case 1
      then obtain d where "calls e c = Some d" "notified ls (reqMsgID (request d)) v"
        using assms(2) by (auto simp: inflight_ok_def)
      with o show ?thesis by (auto elim: notified_mono)
    next
      case 2
      then obtain d where "calls e c = Some d" "reqMsgID (request d) = i" using assms(3) by (auto simp: maps_ok_def)
      with o 2 show ?thesis by (auto elim: notified_mono)
    qed
  qed
qed

text \<open>What stands behind an entry of a map, and that a step keeps it.\<close>

definition behind :: "('p, 'x) Engine \<Rightarrow> nat \<Rightarrow> int \<Rightarrow> ('x phase \<Rightarrow> bool) \<Rightarrow> bool" where
  "behind e c i Q \<longleftrightarrow> (\<exists>d. calls e c = Some d \<and> reqMsgID (request d) = i \<and> Q (callPhase d))"

definition dropping :: "'x phase \<Rightarrow> bool" where "dropping ph \<longleftrightarrow> (\<exists>x. ph = Dropping x)"

lemma maps_ok_behind:
  "maps_ok e \<longleftrightarrow>
     (\<forall>i c. rpc e i = Some (Handler c) \<longrightarrow> behind e c i live) \<and>
     (\<forall>i. rpc e i = Some NopCallback \<longrightarrow> (\<exists>c. behind e c i dropping)) \<and>
     (\<forall>i ch. ack e i = Some ch \<longrightarrow> (\<exists>c. behind e c i awaiting))"
  by (simp add: maps_ok_def behind_def dropping_def)

lemma behind_callStep:
  assumes "calls e c = Some d" "calls e' = (calls e)(c \<mapsto> d')" "request d' = request d" "behind e c' i Q"
    and "c' = c \<Longrightarrow> i = reqMsgID (request d) \<Longrightarrow> Q (callPhase d) \<Longrightarrow> Q (callPhase d')"
  shows "behind e' c' i Q"
  using assms by (auto simp: behind_def)

lemma maps_ok_callStep:
  assumes "callStep M l c d e = Some e'" "calls e c = Some d" "maps_ok e"
  shows "maps_ok e'"
proof -
  obtain d' where d': "calls e' = (calls e)(c \<mapsto> d')" "request d' = request d"
    using callStep_frame[OF assms(1)] by blast
  then have c: "calls e' c = Some d'" by simp
  have new: "behind e' c i Q" if "i = reqMsgID (request d)" "Q (callPhase d')" for i Q
    using that d' by (auto simp: behind_def)
  note keep = behind_callStep[OF assms(2) d']
  have old: "\<And>i c. rpc e i = Some (Handler c) \<Longrightarrow> behind e c i live"
    "\<And>i. rpc e i = Some NopCallback \<Longrightarrow> \<exists>c. behind e c i dropping"
    "\<And>i ch. ack e i = Some ch \<Longrightarrow> \<exists>c. behind e c i awaiting"
    using assms(3) by (simp_all add: maps_ok_behind)
  show ?thesis unfolding maps_ok_behind
  proof (intro conjI allI impI)
    fix i c' assume "rpc e' i = Some (Handler c')"
    from callStep_handlers[OF assms(1) c this] show "behind e' c' i live"
      using new[of i live] keep[of c' i live] old(1)[of i c'] by blast
  next
    fix i assume "rpc e' i = Some NopCallback"
    from callStep_nops[OF assms(1) c this] show "\<exists>c. behind e' c i dropping"
      using new[of i dropping] keep[of _ i dropping] old(2)[of i] unfolding dropping_def by metis
  next
    fix i ch assume "ack e' i = Some ch"
    from callStep_acks[OF assms(1) c this] show "\<exists>c. behind e' c i awaiting"
      using new[of i awaiting] keep[of _ i awaiting] old(3)[of i ch] by metis
  qed
qed

lemma maps_ok_same:
  assumes "maps_ok e" "rpc e' = rpc e" "\<And>i ch. ack e' i = Some ch \<Longrightarrow> ack e i = Some ch"
    and "\<And>c i Q. behind e c i Q \<Longrightarrow> behind e' c i Q"
  shows "maps_ok e'"
  using assms unfolding maps_ok_behind by metis

lemma maps_ok_step:
  assumes "step M l e = Some e'" "maps_ok e" "inflight_ok ls e"
  shows "maps_ok e'"
  using assms(1)
proof (cases rule: step_cases)
  case (call c d)
  show ?thesis by (rule maps_ok_callStep[OF call(3,2) assms(2)])
next
  case (start c r)
  show ?thesis using Do_step[OF assms(1)[unfolded start]]
    by (intro maps_ok_same[OF assms(2)]) (auto simp: behind_def)
next
  case (handler k)
  from CallHandler_step[OF assms(1)[unfolded handler]] show ?thesis
  proof (elim disjE exE conjE)
    fix c v assume h: "(Handler c, v) \<in> set (inflight e)" "rpc e' = rpc e" "ack e' = ack e"
      "e' = callHandler c v (e\<lparr>inflight := inflight e'\<rparr>)"
    obtain d where d: "calls e c = Some d" using h(1) assms(3) by (auto simp: inflight_ok_def)
    have "calls e' = (calls e)(c \<mapsto> handled_call v d)" by (subst h(4)) (simp add: callHandler_calls d)
    with d h show ?thesis by (intro maps_ok_same[OF assms(2)]) (auto simp: behind_def)
  next
    assume "rpc e' = rpc e" "ack e' = ack e" "calls e' = calls e"
    then show ?thesis by (intro maps_ok_same[OF assms(2)]) (auto simp: behind_def)
  qed
next
  case other
  note o = not_call_step[OF assms(1) other]
  show ?thesis using o
    by (intro maps_ok_same[OF assms(2)]) (auto simp: behind_def)
qed

lemma run_invariant: "run M ls e \<Longrightarrow> calls_ok M ls e \<and> inflight_ok ls e \<and> maps_ok e"
proof (induction rule: run.induct)
  case start
  show ?case by (simp add: New_def calls_ok_def inflight_ok_def maps_ok_def)
next
  case (next_step ls e l e')
  then show ?case using calls_ok_step inflight_ok_step maps_ok_step by blast
qed

section \<open>Properties\<close>

primrec steps :: "nat \<Rightarrow> ('p, 'x) label list \<Rightarrow> ('p, 'x) Engine \<Rightarrow> ('p, 'x) Engine option" where
  "steps M [] e = Some e"
| "steps M (l # ls) e = (case step M l e of None \<Rightarrow> None | Some e' \<Rightarrow> steps M ls e')"

lemma run_steps: "run M ls e \<Longrightarrow> steps M ls' e = Some e' \<Longrightarrow> run M (ls @ ls') e'"
proof (induction ls' arbitrary: ls e)
  case Nil
  then show ?case by simp
next
  case (Cons l ls')
  then obtain e1 where "step M l e = Some e1" "steps M ls' e1 = Some e'" by (auto split: option.splits)
  with Cons.IH[OF next_step[OF Cons.prems(1)]] show ?case by simp
qed

text \<open>A request, and a run in which it is answered.\<close>

definition sampleRequest :: "nat Request" where
  "sampleRequest = \<lparr>reqMsgID = 8, reqDecode = (\<lambda>p. 0 < p)\<rparr>"

definition sampleRun :: "(nat, nat) label list" where
  "sampleRun = [Do 0 sampleRequest, Register 0, WaitAck 0, Send 0 SendOK, NotifyResult 8 5, CallHandler 0,
     RetryAck 0, SelectDone 0]"

lemma sample_run:
  "\<exists>e d. run 3 sampleRun e \<and> calls e 0 = Some d \<and> request d = sampleRequest \<and> callPhase d = Returned None \<and>
     (\<forall>c d. calls e c = Some d \<longrightarrow> callPhase d = Returned None)"
proof -
  have "\<exists>e. steps 3 sampleRun New = Some e \<and> (\<exists>d. calls e 0 = Some d \<and> request d = sampleRequest \<and> callPhase d = Returned None \<and>
      (\<forall>c d'. calls e c = Some d' \<longrightarrow> callPhase d' = Returned None))"
    by (simp add: sampleRun_def New_def newCall_def sampleRequest_def setCall_def waitAck_def notify_def notifyAckUnlocked_def
        callHandler_def afterRetry_def returnDo_def removeAck_def)
  then obtain e d where e: "steps 3 sampleRun New = Some e" "calls e 0 = Some d" "request d = sampleRequest"
      "callPhase d = Returned None" "\<forall>c d'. calls e c = Some d' \<longrightarrow> callPhase d' = Returned None"
    by blast
  have "run 3 ([] @ sampleRun) e" using run_steps[OF run.start e(1)] .
  with e show ?thesis by auto
qed

text \<open>C7: a call returns its own answer.  Whatever the order of events, \<open>Do\<close> returns nil only when
  a result for its own message identifier has come and was decoded into its output, and an error
  of the server only when that error has come for its own identifier.\<close>

theorem do_returns_own_answer:
  assumes "run M ls e" "calls e c = Some d" "callPhase d = Returned r"
  shows "case r of
      None \<Rightarrow> \<exists>p. NotifyResult (reqMsgID (request d)) p \<in> set ls \<and> reqOutput d = Some p \<and> reqDecode (request d) p
    | Some x \<Rightarrow> (case x of RpcError y \<Rightarrow> NotifyError (reqMsgID (request d)) y \<in> set ls | _ \<Rightarrow> True)"
proof -
  have "phase_ok d" "result_ok ls d" using run_invariant[OF assms(1)] assms(2) by (auto simp: calls_ok_def call_ok_def)
  note ok = this
  show ?thesis
  proof (cases r)
    case None
    then have "handlerCalled d" "resultErr d = None" using ok(1) assms(3) by (auto simp: phase_ok_def)
    then show ?thesis using None ok(2) by (auto simp: result_ok_def split: option.splits if_splits)
  next
    case (Some x)
    have "NotifyError (reqMsgID (request d)) y \<in> set ls" if y: "x = RpcError y" for y
    proof -
      have "handlerCalled d" "resultErr d = Some (RpcError y)" using ok(1) assms(3) Some y by (auto simp: phase_ok_def)
      then show ?thesis using ok(2) by (auto simp: result_ok_def split: option.splits if_splits)
    qed
    then show ?thesis using Some by (cases x) auto
  qed
qed

theorem do_returns_own_answer_witness:
  "\<exists>e d p. run 3 sampleRun e \<and> calls e 0 = Some d \<and> request d = sampleRequest \<and> callPhase d = Returned None \<and>
     NotifyResult 8 p \<in> set sampleRun \<and> reqOutput d = Some p"
proof -
  obtain e d where r: "run 3 sampleRun e" "calls e 0 = Some d" "request d = sampleRequest" "callPhase d = Returned None"
    using sample_run by blast
  with do_returns_own_answer[OF r(1,2,4)] show ?thesis by (auto simp: sampleRequest_def)
qed

text \<open>C26: the engine keeps nothing of a call that has returned.  A callback stands for a call that
  has not returned, under its own identifier, and a channel for an acknowledgement belongs to a
  call that still waits for one; once every call has returned both maps are empty.\<close>

theorem engine_forgets_returned_calls:
  assumes "run M ls e"
  shows "(\<forall>i c. rpc e i = Some (Handler c) \<longrightarrow>
      (\<exists>d. calls e c = Some d \<and> reqMsgID (request d) = i \<and> (\<forall>r. callPhase d \<noteq> Returned r))) \<and>
    (\<forall>i ch. ack e i = Some ch \<longrightarrow>
      (\<exists>c d. calls e c = Some d \<and> reqMsgID (request d) = i \<and> (callPhase d = Sending \<or> (\<exists>k. callPhase d = Retrying k)))) \<and>
    ((\<forall>c d. calls e c = Some d \<longrightarrow> (\<exists>r. callPhase d = Returned r)) \<longrightarrow> rpc e = Map.empty \<and> ack e = Map.empty)"
proof -
  have m: "maps_ok e" using run_invariant[OF assms] by blast
  have l: "live ph \<Longrightarrow> ph \<noteq> Returned r" "awaiting ph \<Longrightarrow> ph = Sending \<or> (\<exists>k. ph = Retrying k)" for ph :: "'b phase" and r
    by (cases ph; simp)+
  have h: "\<exists>d. calls e c = Some d \<and> reqMsgID (request d) = i \<and> (\<forall>r. callPhase d \<noteq> Returned r)"
    if "rpc e i = Some (Handler c)" for i c
    using m that l(1) unfolding maps_ok_def by meson
  have n: "\<exists>c d. calls e c = Some d \<and> (\<forall>r. callPhase d \<noteq> Returned r)" if "rpc e i = Some NopCallback" for i
    using m that unfolding maps_ok_def by (metis phase.distinct)
  have a: "\<exists>c d. calls e c = Some d \<and> reqMsgID (request d) = i \<and> (callPhase d = Sending \<or> (\<exists>k. callPhase d = Retrying k))"
    if "ack e i = Some ch" for i ch
    using m that l(2) unfolding maps_ok_def by meson
  have "rpc e i = None \<and> ack e i = None"
    if r: "\<forall>c d. calls e c = Some d \<longrightarrow> (\<exists>r. callPhase d = Returned r)" for i
  proof -
    have "rpc e i \<noteq> Some fn" for fn
      using h[of i] n[of i] r by (cases fn) metis+
    moreover have "ack e i \<noteq> Some ch" for ch
      using a[of i ch] r by force
    ultimately show ?thesis by (meson not_Some_eq)
  qed
  with h a show ?thesis by (intro conjI allI impI ext) blast+
qed

theorem engine_forgets_returned_calls_witness:
  "\<exists>e :: (nat, nat) Engine. run 3 sampleRun e \<and> rpc e = Map.empty \<and> ack e = Map.empty"
proof -
  obtain e where e: "run 3 sampleRun e" "\<forall>c d. calls e c = Some d \<longrightarrow> callPhase d = Returned None"
    using sample_run by blast
  from engine_forgets_returned_calls[OF e(1)] e show ?thesis by blast
qed

lemma steps_retry:
  assumes "calls e c = Some d" "callPhase d = Retrying k" "k < m" "m = max 1 M"
  shows "\<exists>e' d'. steps M (replicate (m - k) (RetryTick c SendOK)) e = Some e' \<and> calls e' c = Some d' \<and>
    callPhase d' = Returned (Some (RetryLimitReachedErr m))"
  using assms(1-3)
proof (induction "m - k" arbitrary: k e d)
  case 0
  then show ?case by simp
next
  case (Suc n)
  define d1 where "d1 = d\<lparr>sends := Suc (sends d)\<rparr>"
  have rep: "replicate (m - k) (RetryTick c SendOK) = RetryTick c SendOK # replicate n (RetryTick c SendOK)"
    using Suc.hyps(2) by (metis replicate_Suc)
  show ?case
  proof (cases "Suc k = m")
    case True
    then have "n = 0" "Suc k \<ge> M" using Suc.hyps(2) assms(4) by auto
    then show ?thesis using Suc.prems(1,2) True unfolding rep
      by (simp add: engine retryPhase_def is_ctx_def)
  next
    case False
    then have k: "Suc k < m" "\<not> Suc k \<ge> M" using Suc.prems(3) assms(4) by auto
    define e1 where "e1 = setCall c (d1\<lparr>callPhase := Retrying (Suc k)\<rparr>) e"
    have "step M (RetryTick c SendOK) e = Some e1"
      using Suc.prems(1,2) k(2) by (simp add: e1_def d1_def)
    moreover have "m - Suc k = n" using Suc.hyps(2) by simp
    ultimately show ?thesis unfolding rep
      using Suc.hyps(1)[of "Suc k" e1 "d1\<lparr>callPhase := Retrying (Suc k)\<rparr>"] k(1)
      by (simp add: e1_def engine)
  qed
qed

text \<open>C27: an unanswered request is not sent forever.  A call sends its request at most once more
  than the engine's limit of retries, and a call that is retried and hears nothing returns the
  error of the limit after exactly the ticks that are left.\<close>

theorem retries_are_bounded:
  assumes "run M ls e" "calls e c = Some d"
  shows "sends d \<le> Suc (max 1 M) \<and>
    (\<forall>k. callPhase d = Retrying k \<longrightarrow>
      (\<exists>e' d'. steps M (replicate (max 1 M - k) (RetryTick c SendOK)) e = Some e' \<and> calls e' c = Some d' \<and>
        callPhase d' = Returned (Some (RetryLimitReachedErr (max 1 M)))))"
proof -
  have s: "sends_ok M d" using run_invariant[OF assms(1)] assms(2) by (auto simp: calls_ok_def call_ok_def)
  then show ?thesis using steps_retry[OF assms(2) _ _ refl] by (auto simp: sends_ok_def)
qed

text \<open>A run that is retried once and then hears nothing more.\<close>

definition retriedRun :: "(nat, nat) label list" where
  "retriedRun = [Do 0 sampleRequest, Register 0, WaitAck 0, Send 0 SendOK, RetryTick 0 SendOK]"

theorem retries_are_bounded_witness:
  "\<exists>e d e' d'. run 3 retriedRun e \<and> calls e 0 = Some d \<and> callPhase d = Retrying 1 \<and> sends d = 2 \<and>
     steps 3 [RetryTick 0 SendOK, RetryTick 0 SendOK] e = Some e' \<and> calls e' 0 = Some d' \<and> sends d' = 4 \<and>
     callPhase d' = Returned (Some (RetryLimitReachedErr 3))"
proof -
  have "\<exists>e d. steps 3 retriedRun New = Some e \<and> calls e 0 = Some d \<and> callPhase d = Retrying 1 \<and> sends d = 2 \<and>
      (\<exists>e' d'. steps 3 [RetryTick 0 SendOK, RetryTick 0 SendOK] e = Some e' \<and> calls e' 0 = Some d' \<and> sends d' = 4)"
    by (simp add: retriedRun_def New_def newCall_def sampleRequest_def setCall_def waitAck_def afterRetry_def retryPhase_def
        returnDo_def removeAck_def is_ctx_def)
  then obtain e d e' d' where r: "steps 3 retriedRun New = Some e" "calls e 0 = Some d" "callPhase d = Retrying 1" "sends d = 2"
      "steps 3 [RetryTick 0 SendOK, RetryTick 0 SendOK] e = Some e'" "calls e' 0 = Some d'" "sends d' = 4"
    by blast
  have run: "run 3 retriedRun e" using run_steps[OF run.start r(1)] by simp
  have ticks: "replicate (max 1 3 - 1) (RetryTick 0 SendOK) = [RetryTick 0 SendOK, RetryTick 0 SendOK :: (nat, nat) label]"
    by (simp add: numeral_2_eq_2)
  obtain e2 d2 where "steps 3 (replicate (max 1 3 - 1) (RetryTick 0 SendOK)) e = Some e2" "calls e2 0 = Some d2"
      "callPhase d2 = Returned (Some (RetryLimitReachedErr (max 1 3)))"
    using retries_are_bounded[OF run r(2)] r(3) by blast
  then have "callPhase d' = Returned (Some (RetryLimitReachedErr 3))" using r(5,6) unfolding ticks by simp
  with run r show ?thesis by blast
qed

text \<open>the callback of a call can run after the call has returned.  The deletion of the callback
  does not stop a notification that has looked it up before: there is a run in which the caller
  cancels, \<open>Do\<close> returns, and the answer is decoded into the caller's output afterwards.\<close>

theorem callback_runs_after_return:
  "\<exists>ls. \<exists>e :: ('p, 'x) Engine. \<exists>e' d d'. run M ls e \<and> calls e 0 = Some d \<and> request d = r \<and> callPhase d = Returned (Some (CtxErr Canceled)) \<and>
     reqOutput d = None \<and> step M (CallHandler 0) e = Some e' \<and> calls e' 0 = Some d' \<and> reqOutput d' = Some p"
proof -
  define ls :: "('p, 'x) label list" where "ls = [Do 0 r, Register 0, WaitAck 0, Send 0 SendOK, NotifyResult (reqMsgID r) p,
    UserCancel 0 Canceled, RetryCtx 0, SelectCtx 0, DropDone 0]"
  have "\<exists>e :: ('p, 'x) Engine. steps M ls New = Some e \<and> inflight e = [(Handler 0, Inr p)] \<and> (\<exists>d. calls e 0 = Some d \<and>
      request d = r \<and> callPhase d = Returned (Some (CtxErr Canceled)) \<and> reqOutput d = None \<and> \<not> handlerCalled d)"
    by (simp add: ls_def New_def newCall_def setCall_def waitAck_def notify_def notifyAckUnlocked_def
        afterRetry_def returnDo_def removeAck_def is_ctx_def)
  then obtain e :: "('p, 'x) Engine" and d where e: "steps M ls New = Some e" "inflight e = [(Handler 0, Inr p)]" "calls e 0 = Some d"
      "request d = r" "callPhase d = Returned (Some (CtxErr Canceled))" "reqOutput d = None" "\<not> handlerCalled d"
    by blast
  define e' where "e' = callHandler 0 (Inr p) (e\<lparr>inflight := []\<rparr>)"
  define d' where "d' = handled_call (Inr p) d"
  have "run M ls e" using run_steps[OF run.start e(1)] by simp
  moreover have "step M (CallHandler 0) e = Some e'" using e(2) by (simp add: e'_def)
  moreover have "calls e' 0 = Some d'" "reqOutput d' = Some p"
    using e(3,7) by (simp_all add: callHandler_calls e'_def d'_def handled_call_def)
  ultimately have "run M ls e \<and> calls e 0 = Some d \<and> request d = r \<and> callPhase d = Returned (Some (CtxErr Canceled)) \<and>
     reqOutput d = None \<and> step M (CallHandler 0) e = Some e' \<and> calls e' 0 = Some d' \<and> reqOutput d' = Some p"
    using e(3-6) by simp
  then show ?thesis by (intro exI)
qed

end
