(* ===== verification/Conn.thy ===== *)
theory Conn
  imports ProtoMsg Cipher MsgId Rpc TgErr
begin

text \<open>
  The MTProto connection, \<open>pkg/gotd/mtproto\<close>: its session and salts, the numbering of outgoing
  messages, encryption and sending, the checks of incoming messages, the dispatch of what they
  carry, acknowledgements, pings, and the retries of a request.  The transport, the random
  source, the compression, AES-IGE and the client's handler are parameters (\<open>connDeps\<close>); \<open>now\<close> is
  the clock's reading in nanoseconds while a message is handled.
\<close>

section \<open>State\<close>

datatype rpc_failure =
    BadMessage int int bool
  | TgError Error

datatype conn_err =
    ConnProto proto_err
  | ConnCipher cipher_err
  | Rejected
  | UnknownBadMsg "32 word"
  | HandlerFailed
  | HandlerAlreadyCalled
  | ResultNotDecoded
  | ConnRand
  | ConnSend
  | ConnExchange
  | NoFuel

text \<open>\<open>ackSent\<close> is what has gone into \<open>ackSendChan\<close> and not been taken by \<open>ackLoop\<close>, \<open>ackBuf\<close> the
  buffer of that loop; \<open>pongs\<close> are the pings whose channel has been closed.\<close>

record 'w conn =
  serverTimeOffset :: int
  salt :: int
  sessionID :: int
  authKey :: AuthKey
  futureSalts :: "FutureSalt list"
  messageIDs :: MessageIDGen
  messageIDBuf :: "int list"
  sentContentMessages :: int
  pings :: "int set"
  pongs :: "int set"
  gotSession :: bool
  ackSent :: "int list"
  ackBuf :: "int list"
  engine :: "(bytes, rpc_failure) Engine"
  world :: 'w

record Session =
  sID :: int
  sKey :: AuthKey
  sSalt :: int

record 'w connDeps =
  OnMessage :: "bytes \<Rightarrow> ('w, unit, unit) prog"
  OnSession :: "Session \<Rightarrow> ('w, unit, unit) prog"
  transportSend :: "bytes \<Rightarrow> ('w, unit, unit) prog"
  randRead :: "'w \<Rightarrow> bytes \<times> 'w"
  gzipLib :: gzip_lib
  aesIGE :: aes_ige
  compressThreshold :: int
  ackBatchSize :: nat

type_synonym ('w, 'a) cprog = "('w conn, conn_err, 'a) prog"

text \<open>Reading from a buffer of its own, and calls of the surroundings.\<close>

definition decode :: "'a pdecoder \<Rightarrow> bytes \<Rightarrow> ('w, 'a) cprog" where
  "decode get b c = (case fst (get b) of Inl e \<Rightarrow> (Inl (ConnProto e), c) | Inr a \<Rightarrow> (Inr a, c))"

definition outside :: "conn_err \<Rightarrow> ('w, unit, 'a) prog \<Rightarrow> ('w, 'a) cprog" where
  "outside err m c = (case m (world c) of
     (Inl _, w) \<Rightarrow> (Inl err, c\<lparr>world := w\<rparr>)
   | (Inr a, w) \<Rightarrow> (Inr a, c\<lparr>world := w\<rparr>))"

section \<open>Time and salts\<close>

definition hasServerTimeOffset :: "'w conn \<Rightarrow> bool" where
  "hasServerTimeOffset c \<longleftrightarrow> serverTimeOffset c \<noteq> 0"

definition setServerTimeOffset :: "int \<Rightarrow> 'w conn \<Rightarrow> 'w conn" where
  "setServerTimeOffset offset c = c\<lparr>serverTimeOffset := (if offset = 0 then 1 else offset)\<rparr>"

definition TimeWithOffset :: "int \<Rightarrow> 'w conn \<Rightarrow> int" where
  "TimeWithOffset now c = now + serverTimeOffset c"

text \<open>\<open>None\<close> is the zero time.\<close>

definition altTimeWithOffset :: "int \<Rightarrow> 'w conn \<Rightarrow> int option" where
  "altTimeWithOffset now c = (if serverTimeOffset c \<noteq> 0 then Some (now + serverTimeOffset c) else None)"

definition expired_out :: "int \<Rightarrow> FutureSalt list \<Rightarrow> FutureSalt list" where
  "expired_out date ss = filter (\<lambda>s. fsValidUntil s > date) ss"

text \<open>\<open>Get\<close>: the loop goes round again only after it has filtered the list.\<close>

function Salts_Get :: "int \<Rightarrow> FutureSalt list \<Rightarrow> int option \<times> FutureSalt list" where
  "Salts_Get deadline ss =
     (if ss = [] then (None, ss)
      else let date = deadline div second in
        if fsValidUntil (last ss) > date then (Some (fsSalt (last ss)), ss)
        else Salts_Get deadline (expired_out date ss))"
  by pat_completeness auto
termination
proof (relation "measure (\<lambda>(_, ss). length ss)")
  fix deadline :: int and ss :: "FutureSalt list" and date :: int
  assume "ss \<noteq> []" "date = deadline div second" "\<not> date < fsValidUntil (last ss)"
  then have "length (expired_out date ss) < length ss"
    unfolding expired_out_def by (intro length_filter_less[of "last ss"]) auto
  then show "((deadline, expired_out date ss), deadline, ss) \<in> measure (\<lambda>(_, ss). length ss)" by simp
qed simp

declare Salts_Get.simps [simp del]

fun dedup :: "int set \<Rightarrow> FutureSalt list \<Rightarrow> FutureSalt list" where
  "dedup seen [] = []"
| "dedup seen (s # ss) = (if fsSalt s \<in> seen then dedup seen ss else s # dedup (insert (fsSalt s) seen) ss)"

text \<open>\<open>sort.Sort\<close> leaves the order of salts that expire together open; the model keeps theirs.\<close>

definition Salts_Store :: "FutureSalt list \<Rightarrow> FutureSalt list \<Rightarrow> FutureSalt list" where
  "Salts_Store new ss = sort_key (\<lambda>s. - fsValidUntil s) (dedup {} (ss @ new))"

definition Salts_Reset :: "FutureSalt list \<Rightarrow> FutureSalt list" where "Salts_Reset ss = []"

definition storeSalt :: "int \<Rightarrow> 'w conn \<Rightarrow> 'w conn" where
  "storeSalt s c = c\<lparr>salt := s\<rparr>"

definition updateSalt :: "int \<Rightarrow> 'w conn \<Rightarrow> 'w conn" where
  "updateSalt now c =
     (case Salts_Get (TimeWithOffset now c + 5 * 60 * second) (futureSalts c) of
        (None, ss) \<Rightarrow> c\<lparr>futureSalts := ss\<rparr>
      | (Some s, ss) \<Rightarrow> storeSalt s (c\<lparr>futureSalts := ss\<rparr>))"

definition session :: "int \<Rightarrow> 'w conn \<Rightarrow> Session \<times> 'w conn" where
  "session now c = (let c = updateSalt now c in (\<lparr>sID = sessionID c, sKey = authKey c, sSalt = salt c\<rparr>, c))"

definition RandInt64 :: "'w connDeps \<Rightarrow> ('w, int) cprog" where
  "RandInt64 D c = (let (r, w) = randRead D (world c); c = c\<lparr>world := w\<rparr> in
     if length r < 8 then (Inl ConnRand, c) else (Inr (sint (word_of_nat (unle (take 8 r)) :: 64 word)), c))"

definition newSessionID :: "'w connDeps \<Rightarrow> ('w, unit) cprog" where
  "newSessionID D = andThen (RandInt64 D) (\<lambda>i. modify (\<lambda>c. c\<lparr>sessionID := i\<rparr>))"

section \<open>Sending\<close>

definition newMessageID_conn :: "int \<Rightarrow> 'w conn \<Rightarrow> int \<times> 'w conn" where
  "newMessageID_conn now c =
     (let (i, g) = MessageIDGen_New MessageFromClient (TimeWithOffset now c) (messageIDs c) in (i, c\<lparr>messageIDs := g\<rparr>))"

definition wrap32 :: "int \<Rightarrow> int" where "wrap32 = signed_take_bit 31"

definition nextMsgSeq :: "int \<Rightarrow> bool \<Rightarrow> 'w conn \<Rightarrow> (int \<times> int) \<times> 'w conn" where
  "nextMsgSeq now content c =
     (let (i, c) = newMessageID_conn now c;
          seqNo = wrap32 (sentContentMessages c * 2)
      in if content then ((i, wrap32 (seqNo + 1)), c\<lparr>sentContentMessages := wrap32 (sentContentMessages c + 1)\<rparr>)
         else ((i, seqNo), c))"

text \<open>The payload is given encoded.\<close>

definition messageData :: "'w connDeps \<Rightarrow> Session \<Rightarrow> int \<Rightarrow> int \<Rightarrow> bytes \<Rightarrow> EncryptedMessageData" where
  "messageData D s i seqNo payload =
     (let d = \<lparr>edSalt = sSalt s, edSessionID = sID s, edMessageID = i, edSeqNo = seqNo, edDataLen = 0, edData = [],
               edMessage = None\<rparr>
      in if compressThreshold D \<le> 0 then d\<lparr>edMessage := Some (\<lambda>b. (Inr (), b @ payload))\<rparr>
         else if int (length payload) > compressThreshold D
           then d\<lparr>edMessage := Some (\<lambda>b. (Inr (), GZIP_Encode (gzipLib D) payload b))\<rparr>
         else d\<lparr>edDataLen := int (length payload), edData := payload\<rparr>)"

definition newEncryptedMessage :: "'w connDeps \<Rightarrow> int \<Rightarrow> int \<Rightarrow> int \<Rightarrow> bytes \<Rightarrow> ('w, bytes) cprog" where
  "newEncryptedMessage D now i seqNo payload c =
     (let (s, c) = session now c;
          (r, w) = randRead D (world c);
          c = c\<lparr>world := w\<rparr>
      in case Encrypt (aesIGE D) Client r (sKey s) (messageData D s i seqNo payload) [] of
           (Inl e, _) \<Rightarrow> (Inl (ConnCipher e), c)
         | (Inr _, b) \<Rightarrow> (Inr b, c))"

definition write_conn :: "'w connDeps \<Rightarrow> int \<Rightarrow> int \<Rightarrow> int \<Rightarrow> bytes \<Rightarrow> ('w, unit) cprog" where
  "write_conn D now i seqNo payload =
     andThen (newEncryptedMessage D now i seqNo payload) (\<lambda>b. outside ConnSend (transportSend D b))"

definition writeContentMessage :: "'w connDeps \<Rightarrow> int \<Rightarrow> int \<Rightarrow> int \<Rightarrow> bytes \<Rightarrow> ('w, unit) cprog" where
  "writeContentMessage D now i seqNo payload = write_conn D now i seqNo payload"

definition writeServiceMessage :: "'w connDeps \<Rightarrow> int \<Rightarrow> bytes \<Rightarrow> ('w, unit) cprog" where
  "writeServiceMessage D now payload c =
     (let ((i, seqNo), c) = nextMsgSeq now False c in write_conn D now i seqNo payload c)"

definition getSalts :: "'w connDeps \<Rightarrow> int \<Rightarrow> ('w, unit) cprog" where
  "getSalts D now = writeServiceMessage D now (GetFutureSaltsRequest_Encode \<lparr>gfsNum = 4\<rparr> [])"

section \<open>Acknowledgements\<close>

text \<open>The local function \<open>send\<close> of \<open>ackLoop\<close>: the buffer is emptied whether or not the write works.\<close>

definition ack_send :: "'w connDeps \<Rightarrow> int \<Rightarrow> 'w conn \<Rightarrow> 'w conn" where
  "ack_send D now c = (snd (writeServiceMessage D now (MsgsAck_Encode \<lparr>ackMsgIDs = ackBuf c\<rparr> []) c))\<lparr>ackBuf := []\<rparr>"

definition ackLoop_tick :: "'w connDeps \<Rightarrow> int \<Rightarrow> 'w conn \<Rightarrow> 'w conn" where
  "ackLoop_tick D now c = (if ackBuf c \<noteq> [] then ack_send D now c else c)"

definition ackLoop_receive :: "'w connDeps \<Rightarrow> int \<Rightarrow> 'w conn \<Rightarrow> 'w conn" where
  "ackLoop_receive D now c = (case ackSent c of
     [] \<Rightarrow> c
   | i # rest \<Rightarrow>
       (let c = c\<lparr>ackSent := rest, ackBuf := ackBuf c @ [i]\<rparr> in
        if length (ackBuf c) \<ge> ackBatchSize D then ack_send D now c else c))"

section \<open>Pings\<close>

definition pong :: "int \<Rightarrow> 'w conn \<Rightarrow> 'w conn" where
  "pong i c = c\<lparr>pings := insert i (pings c), pongs := pongs c - {i}\<rparr>"

definition removePong :: "int \<Rightarrow> 'w conn \<Rightarrow> 'w conn" where
  "removePong i c = c\<lparr>pings := pings c - {i}\<rparr>"

text \<open>\<open>Ping\<close> and \<open>pingDelayDisconnect\<close> up to their wait; the identifier is kept for the wait.\<close>

definition startPing :: "'w connDeps \<Rightarrow> int \<Rightarrow> (int \<Rightarrow> bytes) \<Rightarrow> ('w, int) cprog" where
  "startPing D now req = andThen (RandInt64 D) (\<lambda>i. andThen (modify (pong i)) (\<lambda>_ c.
     case writeServiceMessage D now (req i) c of
       (Inl e, c) \<Rightarrow> (Inl e, removePong i c)
     | (Inr _, c) \<Rightarrow> (Inr i, c)))"

definition Ping :: "'w connDeps \<Rightarrow> int \<Rightarrow> ('w, int) cprog" where
  "Ping D now = startPing D now (\<lambda>i. PingRequest_Encode \<lparr>pingPingID = i\<rparr> [])"

definition pingDelayDisconnect :: "'w connDeps \<Rightarrow> int \<Rightarrow> int \<Rightarrow> ('w, int) cprog" where
  "pingDelayDisconnect D now delay =
     startPing D now (\<lambda>i. PingDelayDisconnectRequest_Encode \<lparr>pddPingID = i, pddDisconnectDelay = delay\<rparr> [])"

text \<open>The wait: over when the channel is closed or the context ends.\<close>

definition finishPing :: "int \<Rightarrow> bool \<Rightarrow> 'w conn \<Rightarrow> (bool \<times> 'w conn) option" where
  "finishPing i ctxDone c =
     (if i \<in> pongs c then Some (True, removePong i c)
      else if ctxDone then Some (False, removePong i c) else None)"

definition handlePong :: "bytes \<Rightarrow> ('w, unit) cprog" where
  "handlePong b = andThen (decode (onTL Pong_Decode) b) (\<lambda>p. modify (\<lambda>c.
     if pongPingID p \<in> pings c
     then c\<lparr>pings := pings c - {pongPingID p}, pongs := insert (pongPingID p) (pongs c)\<rparr> else c))"

section \<open>What incoming messages carry\<close>

text \<open>Notifications of the engine: the lookup, and the callback on this goroutine.  The result is the
  error the callback returns.\<close>

definition runCallback :: "int \<Rightarrow> (rpc_failure rpc_err + bytes) \<Rightarrow> (bytes, rpc_failure) Engine \<Rightarrow>
    conn_err option \<times> (bytes, rpc_failure) Engine" where
  "runCallback i v e =
     (let e1 = notifyAckUnlocked i e in
      case rpc e1 i of
        Some (Handler c) \<Rightarrow>
          (case calls e1 c of
             None \<Rightarrow> (None, e1)
           | Some d \<Rightarrow>
               if handlerCalled d then (Some HandlerAlreadyCalled, e1)
               else (case v of Inl _ \<Rightarrow> None | Inr p \<Rightarrow> if reqDecode (request d) p then None else Some ResultNotDecoded,
                     callHandler c v e1))
      | _ \<Rightarrow> (None, e1))"

definition notifyResult :: "int \<Rightarrow> bytes \<Rightarrow> ('w, unit) cprog" where
  "notifyResult i b c = (case runCallback i (Inr b) (engine c) of
     (None, e) \<Rightarrow> (Inr (), c\<lparr>engine := e\<rparr>)
   | (Some err, e) \<Rightarrow> (Inl err, c\<lparr>engine := e\<rparr>))"

definition notifyError :: "int \<Rightarrow> rpc_failure \<Rightarrow> 'w conn \<Rightarrow> 'w conn" where
  "notifyError i x c = c\<lparr>engine := snd (runCallback i (Inl (RpcError x)) (engine c))\<rparr>"

definition handleSessionCreated :: "'w connDeps \<Rightarrow> int \<Rightarrow> bytes \<Rightarrow> ('w, unit) cprog" where
  "handleSessionCreated D now b =
     andThen (decode (onTL NewSessionCreated_Decode) b) (\<lambda>s.
     andThen (modify (\<lambda>c. c\<lparr>gotSession := True\<rparr>)) (\<lambda>_.
     andThen (modify (\<lambda>c. if \<not> hasServerTimeOffset c
         then setServerTimeOffset (MessageID_Time (nscFirstMsgID s) - now) c else c)) (\<lambda>_.
     andThen (modify (storeSalt (nscServerSalt s))) (\<lambda>_ c.
       (let (ses, c) = session now c in outside HandlerFailed (OnSession D ses) c)))))"

definition codeMessageIDTooLow :: int where "codeMessageIDTooLow = 16"
definition codeMessageIDTooHigh :: int where "codeMessageIDTooHigh = 17"
definition codeIncorrectServerSalt :: int where "codeIncorrectServerSalt = 48"

definition resync :: "int \<Rightarrow> int \<Rightarrow> 'w conn \<Rightarrow> 'w conn" where
  "resync now msgId c =
     (let c = setServerTimeOffset (MessageID_Time msgId - now) c;
          c = c\<lparr>messageIDs := MessageIDGen_Reset (messageIDs c)\<rparr>
      in updateSalt now c)"

definition handleBadMsg :: "int \<Rightarrow> int \<Rightarrow> bytes \<Rightarrow> ('w, unit) cprog" where
  "handleBadMsg now msgId b =
     andThen (decode (onTL PeekID) b) (\<lambda>i.
     if i = BadMsgNotificationTypeID then
       andThen (decode (onTL BadMsgNotification_Decode) b) (\<lambda>bad c.
         (let resynced = (\<not> hasServerTimeOffset c \<and>
                (bmnErrorCode bad = codeMessageIDTooLow \<or> bmnErrorCode bad = codeMessageIDTooHigh));
              c = (if resynced then resync now msgId c else c)
          in (Inr (), notifyError (bmnBadMsgID bad) (BadMessage (bmnErrorCode bad) 0 resynced) c)))
     else if i = BadServerSaltTypeID then
       andThen (decode (onTL BadServerSalt_Decode) b) (\<lambda>bad.
         modify (notifyError (bssBadMsgID bad) (BadMessage (bssErrorCode bad) (bssNewServerSalt bad) False)))
     else fail (UnknownBadMsg i))"

definition handleFutureSalts :: "bytes \<Rightarrow> ('w, unit) cprog" where
  "handleFutureSalts b = andThen (decode (onTL FutureSalts_Decode) b) (\<lambda>res.
     modify (\<lambda>c. c\<lparr>futureSalts := Salts_Store (fssSalts res) (futureSalts c)\<rparr>))"

definition handleAck :: "bytes \<Rightarrow> ('w, unit) cprog" where
  "handleAck b = andThen (decode (onTL MsgsAck_Decode) b) (\<lambda>a.
     modify (\<lambda>c. c\<lparr>engine := NotifyAcks (ackMsgIDs a) (engine c)\<rparr>))"

definition to_string :: "bytes \<Rightarrow> string" where
  "to_string bs = map (\<lambda>b. char_of (unat b)) bs"

definition unzip_conn :: "'w connDeps \<Rightarrow> bytes \<Rightarrow> ('w, bytes) cprog" where
  "unzip_conn D b = decode (GZIP_Decode (gzipLib D)) b"

text \<open>The part of \<open>handleResult\<close> after the content has been unpacked.\<close>

definition deliverResult :: "int \<Rightarrow> 32 word \<Rightarrow> bytes \<Rightarrow> ('w, unit) cprog" where
  "deliverResult reqId i b =
     (if i = RPCErrorTypeID then
        andThen (decode (onTL RPCError_Decode) b) (\<lambda>e.
          modify (notifyError reqId (TgError (TgErr.New (rpceErrorCode e) (to_string (rpceErrorMessage e))))))
      else if i = PongTypeID then handlePong b
      else notifyResult reqId b)"

definition handleResult :: "'w connDeps \<Rightarrow> bytes \<Rightarrow> ('w, unit) cprog" where
  "handleResult D b =
     andThen (decode (onTL Result_Decode) b) (\<lambda>res.
     andThen (decode (onTL PeekID) (resultBytes res)) (\<lambda>i.
     if i = GZIPTypeID then
       andThen (unzip_conn D (resultBytes res)) (\<lambda>content.
       andThen (decode (onTL PeekID) content) (\<lambda>i. deliverResult (RequestMessageID res) i content))
     else deliverResult (RequestMessageID res) i (resultBytes res)))"

definition MsgDetailedInfoTypeID :: "32 word" where "MsgDetailedInfoTypeID = 0x276d3ec6"
definition MsgNewDetailedInfoTypeID :: "32 word" where "MsgNewDetailedInfoTypeID = 0x809db6df"

text \<open>\<open>forEach\<close> stops at the first error, as the loop of \<open>handleContainer\<close> does.\<close>

primrec forEach :: "('a \<Rightarrow> ('s, 'e, unit) prog) \<Rightarrow> 'a list \<Rightarrow> ('s, 'e, unit) prog" where
  "forEach f [] = ret ()"
| "forEach f (x # xs) = andThen (f x) (\<lambda>_. forEach f xs)"

lemma forEach_cong [fundef_cong]:
  "xs = ys \<Longrightarrow> (\<And>x. x \<in> set ys \<Longrightarrow> f x = g x) \<Longrightarrow> forEach f xs = forEach g ys"
  by (induction xs arbitrary: ys) auto

text \<open>Containers and packed objects nest without a limit in the code; the fuel is the depth.\<close>

fun handleMessage :: "'w connDeps \<Rightarrow> nat \<Rightarrow> int \<Rightarrow> int \<Rightarrow> bytes \<Rightarrow> ('w, unit) cprog" where
  "handleMessage D 0 now msgId b = fail NoFuel"
| "handleMessage D (Suc n) now msgId b =
     andThen (decode (onTL PeekID) b) (\<lambda>i.
     if i = NewSessionCreatedTypeID then handleSessionCreated D now b
     else if i = BadMsgNotificationTypeID \<or> i = BadServerSaltTypeID then handleBadMsg now msgId b
     else if i = FutureSaltsTypeID then handleFutureSalts b
     else if i = MessageContainerTypeID then
       andThen (decode MessageContainer_Decode b) (\<lambda>ms. forEach (\<lambda>m. handleMessage D n now msgId (msgBody m)) ms)
     else if i = ResultTypeID then handleResult D b
     else if i = PongTypeID then handlePong b
     else if i = MsgsAckTypeID then handleAck b
     else if i = GZIPTypeID then
       andThen (unzip_conn D b) (\<lambda>content. handleMessage D n now msgId content)
     else if i = MsgDetailedInfoTypeID \<or> i = MsgNewDetailedInfoTypeID then ret ()
     else outside HandlerFailed (OnMessage D b))"

declare handleMessage.simps [simp del]

section \<open>Incoming messages\<close>

definition maxPast :: int where "maxPast = second * 300"
definition maxFuture :: int where "maxFuture = second * 30"

definition checkMessageID :: "int option \<Rightarrow> int \<Rightarrow> bool" where
  "checkMessageID now rawID =
     (if MessageID_Type rawID \<notin> {MessageFromServer, MessageServerResponse} then False
      else case now of
        None \<Rightarrow> True
      | Some now \<Rightarrow>
          (let created = MessageID_Time rawID in
           if created < now \<and> now - created > maxPast then False
           else \<not> created - now > maxFuture))"

definition consumeID :: "int \<Rightarrow> ('w, bool) cprog" where
  "consumeID i c = (case MessageIDBuf_Consume i (messageIDBuf c) of
     (Inl e, buf) \<Rightarrow> (Inl (ConnProto (PBin e)), c\<lparr>messageIDBuf := buf\<rparr>)
   | (Inr ok, buf) \<Rightarrow> (Inr ok, c\<lparr>messageIDBuf := buf\<rparr>))"

definition decryptMessage_conn :: "'w connDeps \<Rightarrow> int \<Rightarrow> bytes \<Rightarrow> ('w, EncryptedMessageData) cprog" where
  "decryptMessage_conn D now b c =
     (let (ses, c) = session now c in
      case fst (DecryptFromBuffer (aesIGE D) Client (sKey ses) b) of
        Inl e \<Rightarrow> (Inl (ConnCipher e), c)
      | Inr msg \<Rightarrow>
          if edSessionID msg \<noteq> sID ses then (Inl Rejected, c)
          else if \<not> checkMessageID (altTimeWithOffset now c) (edMessageID msg) then (Inl Rejected, c)
          else andThen (consumeID (edMessageID msg)) (\<lambda>ok. if \<not> ok then fail Rejected else ret msg) c)"

text \<open>The rest of \<open>consumeMessage\<close>: an error of the handler is logged and the message acknowledged all
  the same, when its sequence number asks for it.\<close>

definition process :: "'w connDeps \<Rightarrow> nat \<Rightarrow> int \<Rightarrow> EncryptedMessageData \<Rightarrow> ('w, unit) cprog" where
  "process D n now msg c =
     (case Data msg of
        None \<Rightarrow> (Inl (ConnProto (PBin Panic)), c)
      | Some d \<Rightarrow>
          (case handleMessage D n now (edMessageID msg) d c of
             (Inl NoFuel, c) \<Rightarrow> (Inl NoFuel, c)
           | (_, c) \<Rightarrow> (Inr (), if edSeqNo msg AND 1 \<noteq> 0 then c\<lparr>ackSent := ackSent c @ [edMessageID msg]\<rparr> else c)))"

definition consumeMessage :: "'w connDeps \<Rightarrow> nat \<Rightarrow> int \<Rightarrow> bytes \<Rightarrow> ('w, unit) cprog" where
  "consumeMessage D n now b c =
     (case decryptMessage_conn D now b c of
        (Inl Rejected, c) \<Rightarrow> (Inr (), c)
      | (Inl e, c) \<Rightarrow> (Inl e, c)
      | (Inr msg, c) \<Rightarrow> process D n now msg c)"

section \<open>Requests\<close>

text \<open>\<open>Invoke\<close> over the engine's \<open>Do\<close>, which is given the identifier and sequence number of the request.\<close>

type_synonym 'w do_rpc = "int \<Rightarrow> int \<Rightarrow> 'w conn \<Rightarrow> rpc_failure rpc_err option \<times> 'w conn"

function Invoke_loop :: "'w do_rpc \<Rightarrow> int \<Rightarrow> nat \<Rightarrow> int \<Rightarrow> int \<Rightarrow> 'w conn \<Rightarrow> rpc_failure rpc_err option \<times> 'w conn" where
  "Invoke_loop doRPC now retries i seqNo c =
     (case doRPC i seqNo c of
        (err, c) \<Rightarrow>
          if retries \<ge> 2 then (err, c)
          else case err of
            Some (RpcError (BadMessage code newSalt timeResynced)) \<Rightarrow>
              if code = codeIncorrectServerSalt then
                (let c = storeSalt newSalt c; c = c\<lparr>futureSalts := Salts_Reset (futureSalts c)\<rparr>
                 in Invoke_loop doRPC now (Suc retries) i seqNo c)
              else if timeResynced then
                (let ((i, seqNo), c) = nextMsgSeq now True c in Invoke_loop doRPC now (Suc retries) i seqNo c)
              else (err, c)
          | _ \<Rightarrow> (err, c))"
  by pat_completeness auto
termination by (relation "measure (\<lambda>(_, _, retries, _). 2 - retries)") auto

declare Invoke_loop.simps [simp del]

definition Invoke :: "'w do_rpc \<Rightarrow> int \<Rightarrow> 'w conn \<Rightarrow> rpc_failure rpc_err option \<times> 'w conn" where
  "Invoke doRPC now c = (let ((i, seqNo), c) = nextMsgSeq now True c in Invoke_loop doRPC now 0 i seqNo c)"

section \<open>Connecting\<close>

text \<open>The outcome of a key exchange.\<close>

record exchangeResult =
  erTimeOffset :: int
  erAuthKey :: AuthKey
  erSessionID :: int
  erServerSalt :: int

definition createAuthKey :: "('w, unit, exchangeResult) prog \<Rightarrow> ('w, unit) cprog" where
  "createAuthKey exchange = andThen (outside ConnExchange exchange) (\<lambda>r. modify (\<lambda>c.
     c\<lparr>serverTimeOffset := (if erTimeOffset r = 0 then 1 else erTimeOffset r), authKey := erAuthKey r,
       sessionID := erSessionID r, salt := erServerSalt r\<rparr>))"

text \<open>\<open>connect\<close> once the transport is there.\<close>

definition connect :: "'w connDeps \<Rightarrow> ('w, unit, exchangeResult) prog \<Rightarrow> int \<Rightarrow> ('w, unit) cprog" where
  "connect D exchange now c =
     (let (ses, c) = session now c in
      if AuthKey_Zero (sKey ses) then createAuthKey exchange c
      else if sID ses = 0 then newSessionID D c else (Inr (), c))"

text \<open>One turn of \<open>readLoop\<close>: a packet, a timeout of the read, the protocol error that the server does
  not know the key, or another error.\<close>

datatype received = Packet bytes | NoUpdates | AuthKeyNotFound | ReadError

definition handleAuthKeyNotFound :: "('w, unit, exchangeResult) prog \<Rightarrow> int \<Rightarrow> ('w, unit) cprog" where
  "handleAuthKeyNotFound exchange now c = (let (ses, c) = session now c in createAuthKey exchange c)"

definition readLoop_turn :: "'w connDeps \<Rightarrow> ('w, unit, exchangeResult) prog \<Rightarrow> nat \<Rightarrow> int \<Rightarrow> received \<Rightarrow> ('w, unit) cprog" where
  "readLoop_turn D exchange n now r = (case r of
     Packet b \<Rightarrow> consumeMessage D n now b
   | NoUpdates \<Rightarrow> ret ()
   | AuthKeyNotFound \<Rightarrow> handleAuthKeyNotFound exchange now
   | ReadError \<Rightarrow> fail ConnSend)"

section \<open>Numbering\<close>

text \<open>A run of outgoing messages: clock readings and whether each has content.\<close>

fun numbered_run :: "(int \<times> bool) list \<Rightarrow> 'w conn \<Rightarrow> (int \<times> int) list" where
  "numbered_run [] c = []"
| "numbered_run ((now, content) # ms) c = (let (x, c) = nextMsgSeq now content c in x # numbered_run ms c)"

text \<open>The numbers the protocol asks for: twice the content messages before, and one more for content.\<close>

fun protocol_seqnos :: "int \<Rightarrow> bool list \<Rightarrow> int list" where
  "protocol_seqnos k [] = []"
| "protocol_seqnos k (content # ms) = (2 * k + of_bool content) # protocol_seqnos (k + of_bool content) ms"

definition clock_of :: "'w conn \<Rightarrow> (int \<times> bool) list \<Rightarrow> (int \<times> MessageType) list" where
  "clock_of c ms = map (\<lambda>(now, _). (now + serverTimeOffset c, MessageFromClient)) ms"

lemma wrap32_id: "- (2 ^ 31) \<le> x \<Longrightarrow> x < 2 ^ 31 \<Longrightarrow> wrap32 x = x"
  by (simp add: wrap32_def signed_take_bit_int_eq_self)

lemma numbered_run_ids: "map fst (numbered_run ms c) = gen_run (clock_of c ms) (messageIDs c)"
proof (induction ms arbitrary: c)
  case Nil
  then show ?case by (simp add: clock_of_def)
next
  case (Cons m ms)
  obtain now content where m: "m = (now, content)" by (cases m)
  show ?case
    by (simp add: m nextMsgSeq_def newMessageID_conn_def TimeWithOffset_def Let_def clock_of_def Cons.IH split: prod.split)
qed

lemma numbered_run_seqnos:
  assumes "0 \<le> sentContentMessages c" "sentContentMessages c + int (length ms) < 2 ^ 30"
  shows "map snd (numbered_run ms c) = protocol_seqnos (sentContentMessages c) (map snd ms)"
  using assms
proof (induction ms arbitrary: c)
  case Nil
  then show ?case by simp
next
  case (Cons m ms)
  obtain now content where m: "m = (now, content)" by (cases m)
  obtain i g where g: "MessageIDGen_New MessageFromClient (TimeWithOffset now c) (messageIDs c) = (i, g)" by force
  have w: "wrap32 (sentContentMessages c * 2) = 2 * sentContentMessages c"
    "wrap32 (2 * sentContentMessages c + 1) = 2 * sentContentMessages c + 1"
    "wrap32 (sentContentMessages c + 1) = sentContentMessages c + 1"
    using Cons.prems by (simp_all add: wrap32_id)
  show ?case
    using Cons.prems Cons.IH[of "c\<lparr>messageIDs := g, sentContentMessages := sentContentMessages c + 1\<rparr>"]
      Cons.IH[of "c\<lparr>messageIDs := g\<rparr>"]
    by (simp add: m nextMsgSeq_def newMessageID_conn_def g w)
qed

text \<open>outgoing messages are numbered as the protocol demands: over any run of content and service
  messages the identifiers increase, a content message has the next odd sequence number and a
  service message twice the number of content messages before it, for 2^30 messages.\<close>

theorem messages_are_numbered:
  assumes "readings_ok (clock_of c ms) (messageIDs c)" "clock_range (genNano (messageIDs c))"
    and "sentContentMessages c = 0" "length ms < 2 ^ 30"
  shows "sorted_wrt (<) (map fst (numbered_run ms c)) \<and> map snd (numbered_run ms c) = protocol_seqnos 0 (map snd ms)"
  using gen_run_increases[OF assms(1,2)] numbered_run_seqnos[of c ms] assms(3,4)
  by (simp add: numbered_run_ids)

definition conn0 :: "unit conn" where
  "conn0 = \<lparr>serverTimeOffset = 0, salt = 0, sessionID = 6, authKey = key0, futureSalts = [], messageIDs = NewMessageIDGen,
     messageIDBuf = NewMessageIDBuf 100, sentContentMessages = 0, pings = {}, pongs = {}, gotSession = False,
     ackSent = [], ackBuf = [], engine = Rpc.New, world = ()\<rparr>"

theorem messages_are_numbered_witness:
  "map snd (numbered_run [(1000, True), (2000, False), (3000, True)] conn0) = [1, 2, 3]"
  using messages_are_numbered[of conn0 "[(1000, True), (2000, False), (3000, True)]"]
  by (simp add: conn0_def clock_of_def NewMessageIDGen_def clock_range_def MessageIDGen_New_def)

section \<open>No panic\<close>

text \<open>What only the read loop itself changes: the buffer of identifiers and the key.\<close>

abbreviation kept :: "'w conn \<Rightarrow> int list \<times> AuthKey" where
  "kept c \<equiv> (messageIDBuf c, authKey c)"

definition tame :: "('w, 'a) cprog \<Rightarrow> bool" where
  "tame m \<longleftrightarrow> (\<forall>c. fst (m c) \<noteq> Inl (ConnProto (PBin Panic)) \<and> fst (m c) \<noteq> Inl NoFuel \<and>
     kept (snd (m c)) = kept c)"

named_theorems tames \<open>handlers that neither panic, nor run out of fuel, nor touch the replay buffer or the key\<close>

lemma tame_basic [tames]:
  "calm get \<Longrightarrow> (\<And>b. fst (get b) \<noteq> Inl (PBin Panic)) \<Longrightarrow> tame (decode get b)"
  "tame (ret a)" "(\<And>c. kept (f c) = kept c) \<Longrightarrow> tame (modify f)" "tame (fail (UnknownBadMsg i))"
  "err \<noteq> ConnProto (PBin Panic) \<Longrightarrow> err \<noteq> NoFuel \<Longrightarrow> tame (outside err m)"
  by (auto simp: tame_def decode_def calm_def ret_def modify_def fail_def outside_def split: sum.splits prod.splits)

lemma tame_upd: "(\<And>c. kept (f c) = kept c) \<Longrightarrow> tame (\<lambda>c. (Inr a, f c))"
  by (simp add: tame_def)

lemma tame_decode [tames]: "calm get \<Longrightarrow> tame (decode get b)"
  by (rule tame_basic(1)) (simp_all add: calm_def)

lemma tame_andThen [tames]: "tame m \<Longrightarrow> (\<And>a. tame (f a)) \<Longrightarrow> tame (andThen m f)"
  unfolding tame_def andThen_def
  by (auto split: prod.split sum.split) (metis fst_conv snd_conv)+

lemma updateSalt_simps [simp]:
  "sessionID (updateSalt now c) = sessionID c" "authKey (updateSalt now c) = authKey c"
  "serverTimeOffset (updateSalt now c) = serverTimeOffset c" "messageIDBuf (updateSalt now c) = messageIDBuf c"
  "engine (updateSalt now c) = engine c" "world (updateSalt now c) = world c"
  "pings (updateSalt now c) = pings c" "ackSent (updateSalt now c) = ackSent c"
  by (simp_all add: updateSalt_def storeSalt_def split: prod.split option.split)

lemma session_eq:
  "session now c = (\<lparr>sID = sessionID c, sKey = authKey c, sSalt = salt (updateSalt now c)\<rparr>, updateSalt now c)"
  by (simp add: session_def Let_def)

lemma buf_kept [simp]:
  "messageIDBuf (setServerTimeOffset t c) = messageIDBuf c" "messageIDBuf (storeSalt x c) = messageIDBuf c"
  "messageIDBuf (notifyError i e c) = messageIDBuf c" "messageIDBuf (resync now i c) = messageIDBuf c"
  "authKey (setServerTimeOffset t c) = authKey c" "authKey (storeSalt x c) = authKey c"
  "authKey (notifyError i e c) = authKey c" "authKey (resync now i c) = authKey c"
  by (simp_all add: setServerTimeOffset_def storeSalt_def notifyError_def resync_def)

lemma tame_notifyResult [tames]: "tame (notifyResult i b)"
  by (auto simp: tame_def notifyResult_def runCallback_def Let_def split: option.splits callback.splits prod.splits if_splits)

lemma tame_handlers [tames]:
  "tame (handleSessionCreated D now b)" "tame (handleBadMsg now i b)" "tame (handleFutureSalts b)"
  "tame (handlePong b)" "tame (handleAck b)" "tame (deliverResult i t b)" "tame (unzip_conn D b)"
proof -
  show pong: "tame (handlePong b)" for b unfolding handlePong_def by (intro tames calms panics) simp
  show "tame (handleFutureSalts b)" "tame (handleAck b)" "tame (unzip_conn D b)"
    unfolding handleFutureSalts_def handleAck_def unzip_conn_def by (auto intro!: tames calms panics)
  show "tame (deliverResult i t b)"
    unfolding deliverResult_def by (auto intro!: tames calms panics pong)
  have "tame (\<lambda>c. let (ses, c) = session now c in outside HandlerFailed (OnSession D ses) c)"
    using tame_basic(5)[of HandlerFailed] by (auto simp: tame_def session_eq)
  then show "tame (handleSessionCreated D now b)"
    unfolding handleSessionCreated_def by (auto intro!: tames calms panics)
  show "tame (handleBadMsg now i b)"
    unfolding handleBadMsg_def Let_def by (auto intro!: tame_upd tames calms panics)
qed

lemma tame_handleResult [tames]: "tame (handleResult D b)"
  unfolding handleResult_def by (auto intro!: tames calms panics)

lemma forEach_no_panic:
  assumes "\<And>x c. x \<in> set xs \<Longrightarrow> fst (f x c) \<noteq> Inl err"
  shows "fst (forEach f xs c) \<noteq> Inl err"
  using assms
proof (induction xs arbitrary: c)
  case Nil
  then show ?case by (simp add: ret_def)
next
  case (Cons x xs)
  obtain r c1 where fx: "f x c = (r, c1)" by force
  have "r \<noteq> Inl err" using Cons.prems[of x c] fx by simp
  with fx Cons show ?case by (cases r) (auto simp: andThen_def)
qed

lemma tame_D: "tame m \<Longrightarrow> fst (m c) \<noteq> Inl (ConnProto (PBin Panic)) \<and> fst (m c) \<noteq> Inl NoFuel \<and>
    kept (snd (m c)) = kept c"
  by (simp add: tame_def)

text \<open>A message by what it is.\<close>

lemma handleMessage_cases:
  obtains (tame) m where "tame m" "\<And>n. handleMessage D (Suc n) now i b = m"
  | (container) ms where "fst (MessageContainer_Decode b) = Inr ms"
      "\<And>n. handleMessage D (Suc n) now i b = forEach (\<lambda>m. handleMessage D n now i (msgBody m)) ms"
  | (gzip) content where "fst (GZIP_Decode (gzipLib D) b) = Inr content"
      "\<And>n. handleMessage D (Suc n) now i b = handleMessage D n now i content"
proof (cases "PeekID b")
  case (Pair r b')
  show thesis
  proof (cases r)
    case (Inl e)
    then have "tame (decode (onTL PeekID) b :: ('a, 32 word) cprog)" by (intro tames calms panics)
    moreover have "handleMessage D (Suc n) now i b = (\<lambda>c. (Inl (ConnProto (PBin e)), c))" for n
      using Pair Inl by (intro ext) (simp add: handleMessage.simps andThen_def decode_def onTL_def)
    moreover have "e \<noteq> Panic" using panics(7) Pair Inl unfolding no_panic_def by (metis fst_conv)
    ultimately show thesis by (intro tame[of "\<lambda>c. (Inl (ConnProto (PBin e)), c)"]) (simp_all add: tame_def)
  next
    case (Inr t)
    have p: "decode (onTL PeekID) b c = (Inr t, c)" for c :: "'a conn"
      using Pair Inr by (simp add: decode_def onTL_def)
    have unfold: "handleMessage D (Suc n) now i b c = (
        if t = NewSessionCreatedTypeID then handleSessionCreated D now b
        else if t = BadMsgNotificationTypeID \<or> t = BadServerSaltTypeID then handleBadMsg now i b
        else if t = FutureSaltsTypeID then handleFutureSalts b
        else if t = MessageContainerTypeID then
          andThen (decode MessageContainer_Decode b) (\<lambda>ms. forEach (\<lambda>m. handleMessage D n now i (msgBody m)) ms)
        else if t = ResultTypeID then handleResult D b
        else if t = PongTypeID then handlePong b
        else if t = MsgsAckTypeID then handleAck b
        else if t = GZIPTypeID then
          andThen (unzip_conn D b) (\<lambda>content. handleMessage D n now i content)
        else if t = MsgDetailedInfoTypeID \<or> t = MsgNewDetailedInfoTypeID then ret ()
        else outside HandlerFailed (OnMessage D b)) c" for n c
      by (simp add: handleMessage.simps andThen_def p)
    consider "t = MessageContainerTypeID" | "t = GZIPTypeID" | "t \<noteq> MessageContainerTypeID" "t \<noteq> GZIPTypeID" by blast
    then show thesis
    proof cases
      case 1
      then have u: "handleMessage D (Suc n) now i b =
          andThen (decode MessageContainer_Decode b) (\<lambda>ms. forEach (\<lambda>m. handleMessage D n now i (msgBody m)) ms)" for n
        by (intro ext) (simp add: unfold mt_ids MessageContainerTypeID_def)
      show thesis
      proof (cases "fst (MessageContainer_Decode b)")
        case (Inl e)
        then show thesis using u calm_MessageContainer
          by (intro tame[of "\<lambda>c. (Inl (ConnProto e), c)"]) (auto simp: tame_def calm_def andThen_def decode_def)
      qed (use u in \<open>auto intro!: container simp: andThen_def decode_def\<close>)
    next
      case 2
      then have u: "handleMessage D (Suc n) now i b =
          andThen (unzip_conn D b) (\<lambda>content. handleMessage D n now i content)" for n
        by (intro ext) (simp add: unfold mt_ids MessageContainerTypeID_def GZIPTypeID_def ResultTypeID_def)
      show thesis
      proof (cases "fst (GZIP_Decode (gzipLib D) b)")
        case (Inl e)
        then show thesis using u calm_GZIP[of "gzipLib D"]
          by (intro tame[of "\<lambda>c. (Inl (ConnProto e), c)"]) (auto simp: tame_def calm_def andThen_def decode_def unzip_conn_def)
      qed (use u in \<open>auto intro!: gzip simp: andThen_def decode_def unzip_conn_def\<close>)
    next
      case 3
      define m where "m = (
        if t = NewSessionCreatedTypeID then handleSessionCreated D now b
        else if t = BadMsgNotificationTypeID \<or> t = BadServerSaltTypeID then handleBadMsg now i b
        else if t = FutureSaltsTypeID then handleFutureSalts b
        else if t = ResultTypeID then handleResult D b
        else if t = PongTypeID then handlePong b
        else if t = MsgsAckTypeID then handleAck b
        else if t = MsgDetailedInfoTypeID \<or> t = MsgNewDetailedInfoTypeID then ret ()
        else outside HandlerFailed (OnMessage D b))"
      have "handleMessage D (Suc n) now i b = m" for n
        by (intro ext) (simp add: unfold m_def 3)
      moreover have "tame m" unfolding m_def by (auto intro!: tames)
      ultimately show thesis by (rule tame[rotated])
    qed
  qed
qed

lemma forEach_keeps:
  assumes "\<And>x c. x \<in> set xs \<Longrightarrow> kept (snd (f x c)) = kept c"
  shows "kept (snd (forEach f xs c)) = kept c"
  using assms
proof (induction xs arbitrary: c)
  case (Cons x xs)
  obtain r c1 where fx: "f x c = (r, c1)" by force
  then have "kept c1 = kept c" using Cons.prems[of x c] by simp
  with fx Cons show ?case by (cases r) (auto simp: andThen_def)
qed (simp add: ret_def)

lemma handleMessage_calm:
  "fst (handleMessage D n now i b c) \<noteq> Inl (ConnProto (PBin Panic)) \<and>
   kept (snd (handleMessage D n now i b c)) = kept c"
proof (induction n arbitrary: b c)
  case 0
  then show ?case by (simp add: handleMessage.simps fail_def)
next
  case (Suc n)
  show ?case
  proof (cases D now i b rule: handleMessage_cases)
    case (tame m)
    then show ?thesis by (simp add: tame_D)
  next
    case (container ms)
    have "fst (forEach (\<lambda>m. handleMessage D n now i (msgBody m)) ms c) \<noteq> Inl (ConnProto (PBin Panic))"
      by (rule forEach_no_panic) (use Suc in simp)
    moreover have "kept (snd (forEach (\<lambda>m. handleMessage D n now i (msgBody m)) ms c)) = kept c"
      by (rule forEach_keeps) (use Suc in simp)
    ultimately show ?thesis by (simp add: container(2))
  next
    case (gzip content)
    then show ?thesis using Suc by simp
  qed
qed

text \<open>Once the depth is enough, more of it changes nothing.\<close>

lemma forEach_settled:
  assumes "\<And>x c. x \<in> set xs \<Longrightarrow> fst (f x c) \<noteq> Inl err \<Longrightarrow> g x c = f x c" "fst (forEach f xs c) \<noteq> Inl err"
  shows "forEach g xs c = forEach f xs c"
  using assms
proof (induction xs arbitrary: c)
  case (Cons x xs)
  obtain r c1 where fx: "f x c = (r, c1)" by force
  then have "r \<noteq> Inl err" using Cons.prems(2) by (auto simp: andThen_def)
  then have "g x c = (r, c1)" using Cons.prems(1)[of x c] fx by simp
  with fx Cons show ?case by (cases r) (auto simp: andThen_def)
qed simp

lemma handleMessage_Suc:
  "fst (handleMessage D n now i b c) \<noteq> Inl NoFuel \<Longrightarrow> handleMessage D (Suc n) now i b c = handleMessage D n now i b c"
proof (induction n arbitrary: b c)
  case 0
  then show ?case by (simp add: handleMessage.simps fail_def)
next
  case (Suc n)
  show ?case
  proof (cases D now i b rule: handleMessage_cases)
    case (container ms)
    then show ?thesis using Suc forEach_settled[of ms "\<lambda>m. handleMessage D n now i (msgBody m)" NoFuel
        "\<lambda>m. handleMessage D (Suc n) now i (msgBody m)" c] by simp
  qed (use Suc in simp_all)
qed

lemma handleMessage_settled:
  assumes "fst (handleMessage D N now i b c) \<noteq> Inl NoFuel" "N \<le> n"
  shows "handleMessage D n now i b c = handleMessage D N now i b c"
  using assms(2)
proof (induction n rule: dec_induct)
  case (step n)
  then show ?case using handleMessage_Suc[of D n now i b c] assms(1) by simp
qed simp

section \<open>Nesting\<close>

text \<open>Bytes whose containers and packed objects nest finitely.\<close>

inductive nests :: "gzip_lib \<Rightarrow> bytes \<Rightarrow> bool" for G where
  nests: "(\<And>content. fst (GZIP_Decode G b) = Inr content \<Longrightarrow> nests G content) \<Longrightarrow>
    (\<And>ms m. fst (MessageContainer_Decode b) = Inr ms \<Longrightarrow> m \<in> set ms \<Longrightarrow> nests G (msgBody m)) \<Longrightarrow> nests G b"

definition returns :: "'w connDeps \<Rightarrow> bytes \<Rightarrow> nat \<Rightarrow> bool" where
  "returns D b n \<longleftrightarrow> (\<forall>k \<ge> n. \<forall>now i c. fst (handleMessage D k now i b c) \<noteq> Inl NoFuel)"

lemma returns_mono: "returns D b n \<Longrightarrow> n \<le> m \<Longrightarrow> returns D b m"
  by (auto simp: returns_def)

lemma returns_all:
  assumes "\<forall>m \<in> set ms. \<exists>n. returns D (msgBody m) n"
  shows "\<exists>n. \<forall>m \<in> set ms. returns D (msgBody m) n"
  using assms
proof (induction ms)
  case Nil
  then show ?case by simp
next
  case (Cons m ms)
  then obtain n1 n2 where "returns D (msgBody m) n1" "\<forall>m \<in> set ms. returns D (msgBody m) n2" by auto
  then have "\<forall>x \<in> set (m # ms). returns D (msgBody x) (max n1 n2)" by (auto intro: returns_mono)
  then show ?case by blast
qed

lemma nests_returns: "nests (gzipLib D) b \<Longrightarrow> \<exists>n. returns D b n"
proof (induction rule: nests.induct)
  case (nests b)
  obtain n1 where n1: "fst (GZIP_Decode (gzipLib D) b) = Inr content \<Longrightarrow> returns D content n1" for content
    using nests(3) by (cases "fst (GZIP_Decode (gzipLib D) b)") auto
  have "\<exists>n. \<forall>ms. fst (MessageContainer_Decode b) = Inr ms \<longrightarrow> (\<forall>m \<in> set ms. returns D (msgBody m) n)"
  proof (cases "fst (MessageContainer_Decode b)")
    case (Inr ms)
    then have "\<forall>m \<in> set ms. \<exists>n. returns D (msgBody m) n" using nests.IH by blast
    then show ?thesis using returns_all Inr by simp
  qed simp
  then obtain n2 where n2: "fst (MessageContainer_Decode b) = Inr ms \<Longrightarrow> \<forall>m \<in> set ms. returns D (msgBody m) n2" for ms
    by blast
  have "returns D b (Suc (max n1 n2))"
    unfolding returns_def
  proof (intro allI impI)
    fix k now i and c :: "'a conn"
    assume "Suc (max n1 n2) \<le> k"
    then obtain k' where k: "k = Suc k'" "n1 \<le> k'" "n2 \<le> k'" by (cases k) auto
    show "fst (handleMessage D k now i b c) \<noteq> Inl NoFuel"
    proof (cases D now i b rule: handleMessage_cases)
      case (tame m)
      then show ?thesis by (simp add: k tame_D)
    next
      case (container ms)
      have "fst (forEach (\<lambda>m. handleMessage D k' now i (msgBody m)) ms c) \<noteq> Inl NoFuel"
        using n2[OF container(1)] k(3) by (intro forEach_no_panic) (auto simp: returns_def)
      then show ?thesis by (simp add: k(1) container(2))
    next
      case (gzip content)
      then show ?thesis using n1[OF gzip(1)] k by (auto simp: returns_def)
    qed
  qed
  then show ?case ..
qed

lemma GZIP_Decode_id:
  assumes "fst (GZIP_Decode G q) = Inr r"
  shows "fst (PeekID q) = Inr GZIPTypeID"
  using assms unfolding GZIP_Decode_def
  by (auto simp: andThen_def onTL_def ConsumeID_eq split: prod.splits sum.splits if_splits)

definition deps0 :: "unit connDeps" where
  "deps0 = \<lparr>OnMessage = \<lambda>_. ret (), OnSession = \<lambda>_. ret (), transportSend = \<lambda>_. ret (), randRead = \<lambda>w. (replicate 32 7, w),
     gzipLib = \<lparr>gzCompress = \<lambda>b. b, gzReader = \<lambda>_. True, gzRead = \<lambda>b. (b, False), gzClose = \<lambda>_. True\<rparr>,
     aesIGE = ige0, compressThreshold = 8, ackBatchSize = 2\<rparr>"

lemma nests_plain: "nests (gzipLib deps0) [1, 2, 3, 4]"
  by (rule nests.intros)
    (simp_all add: GZIP_Decode_def MessageContainer_Decode_def onTL_def andThen_def ConsumeID_eq PeekID_eq
      GZIPTypeID_def MessageContainerTypeID_def)

text \<open>C29: handling a message ends exactly as far as its nesting is finite, which the code does not
  enforce.  When containers and packed objects in it nest finitely there is a depth from which
  the handlers return, whatever the state; a packed object that unpacks to itself keeps the
  client unpacking forever.\<close>

theorem handling_ends_with_nesting:
  "(nests (gzipLib D) b \<longrightarrow> (\<exists>n. \<forall>k \<ge> n. \<forall>now i c. fst (handleMessage D k now i b c) \<noteq> Inl NoFuel)) \<and>
   (fst (GZIP_Decode (gzipLib D) q) = Inr q \<longrightarrow> (\<forall>n now i c. fst (handleMessage D n now i q c) = Inl NoFuel))"
proof (intro conjI impI allI)
  assume "nests (gzipLib D) b"
  then show "\<exists>n. \<forall>k \<ge> n. \<forall>now i c. fst (handleMessage D k now i b c) \<noteq> Inl NoFuel"
    using nests_returns[of D b] by (simp add: returns_def)
next
  fix n now i c
  assume q: "fst (GZIP_Decode (gzipLib D) q) = Inr q"
  have p: "fst (PeekID q) = Inr GZIPTypeID" by (rule GZIP_Decode_id[OF q])
  show "fst (handleMessage D n now i q c) = Inl NoFuel"
  proof (induction n)
    case 0
    then show ?case by (simp add: handleMessage.simps fail_def)
  next
    case (Suc n)
    have "handleMessage D (Suc n) now i q c = handleMessage D n now i q c"
      using p q by (cases "PeekID q")
        (simp add: handleMessage.simps andThen_def decode_def onTL_def unzip_conn_def mt_ids
          MessageContainerTypeID_def GZIPTypeID_def ResultTypeID_def)
    then show ?case using Suc by simp
  qed
qed

text \<open>A compression whose every output is one packed object, the one that it is in.\<close>

definition quine :: bytes where "quine = PutBytes [] (PutID GZIPTypeID [])"

definition deps_quine :: "unit connDeps" where
  "deps_quine = deps0\<lparr>gzipLib := \<lparr>gzCompress = \<lambda>_. [], gzReader = \<lambda>_. True, gzRead = \<lambda>_. (quine, False), gzClose = \<lambda>_. True\<rparr>\<rparr>"

theorem handling_ends_with_nesting_witness:
  "(\<exists>n. fst (handleMessage deps0 n 0 0 [1, 2, 3, 4] conn0) \<noteq> Inl NoFuel) \<and>
   (\<forall>n. fst (handleMessage deps_quine n 0 0 quine conn0) = Inl NoFuel)"
proof
  have "nests (gzipLib deps0) [1, 2, 3, 4]" by (rule nests_plain)
  then show "\<exists>n. fst (handleMessage deps0 n 0 0 [1, 2, 3, 4] conn0) \<noteq> Inl NoFuel"
    using handling_ends_with_nesting[where D = deps0 and b = "[1, 2, 3, 4]"] by blast
  have "length quine = 8" by (simp add: quine_def PutBytes_def encodeBytes_def tl_defs nearestPaddedValueLength_def maxSmallStringLength_def)
  moreover have "onTL Bytes (PutBytes [] [] @ []) = (Inr [], [])"
    by (intro onTL_Inr tl_bytes.get_put) simp
  ultimately have "fst (GZIP_Decode (gzipLib deps_quine) quine) = Inr quine"
    using tl_bytes.put_append[of "[]" "wID GZIPTypeID"]
    by (simp add: GZIP_Decode_def quine_def wire deps_quine_def ret_def maxUncompressedSize_def)
  then show "\<forall>n. fst (handleMessage deps_quine n 0 0 quine conn0) = Inl NoFuel"
    using handling_ends_with_nesting[where D = deps_quine and q = quine] by blast
qed

end
