(* ===== verification/ConnSpec.thy ===== *)
theory ConnSpec
  imports Conn
begin

text \<open>
  What the connection promises as a whole, proved over the theories it is composed of: which
  packets it acts on, what its peer reads of what it sends, that the results in a container reach
  their requests, how a request recovers from a wrong salt, and which salts it uses.
\<close>

section \<open>Salts\<close>

abbreviation expiring :: "FutureSalt list \<Rightarrow> bool" where
  "expiring ss \<equiv> sorted_wrt (\<lambda>a b. fsValidUntil b \<le> fsValidUntil a) ss"

lemma set_dedup: "fsSalt ` set (dedup seen ss) = fsSalt ` set ss - seen"
  by (induction ss arbitrary: seen) auto

lemma distinct_dedup: "distinct (map fsSalt (dedup seen ss))"
proof (induction ss arbitrary: seen)
  case (Cons s ss)
  have "fsSalt s \<notin> fsSalt ` set (dedup (insert (fsSalt s) seen) ss)" by (simp add: set_dedup)
  with Cons show ?case by simp
qed simp

lemma Store_sound:
  "expiring (Salts_Store new ss)" "distinct (map fsSalt (Salts_Store new ss))"
  "fsSalt ` set (Salts_Store new ss) = fsSalt ` (set ss \<union> set new)"
proof -
  have "sorted (map (\<lambda>s. - fsValidUntil s) (Salts_Store new ss))" by (simp add: Salts_Store_def)
  then show "expiring (Salts_Store new ss)" by (simp add: sorted_wrt_map)
  have "distinct (map fsSalt (dedup {} (ss @ new)))" by (rule distinct_dedup)
  then show "distinct (map fsSalt (Salts_Store new ss))"
    by (simp add: Salts_Store_def distinct_map)
  show "fsSalt ` set (Salts_Store new ss) = fsSalt ` (set ss \<union> set new)"
    by (simp add: Salts_Store_def set_dedup image_Un)
qed

lemma Get_unfold:
  "Salts_Get deadline ss = (let date = deadline div second; valid = expired_out date ss in
     if ss = [] then (None, [])
     else if fsValidUntil (last ss) > date then (Some (fsSalt (last ss)), ss)
     else if valid = [] then (None, []) else (Some (fsSalt (last valid)), valid))"
proof -
  define date where "date = deadline div second"
  have "expired_out date ss \<noteq> [] \<Longrightarrow> fsValidUntil (last (expired_out date ss)) > date"
    using last_in_set[of "expired_out date ss"] by (auto simp: expired_out_def)
  then have "Salts_Get deadline (expired_out date ss) =
      (if expired_out date ss = [] then (None, []) else (Some (fsSalt (last (expired_out date ss))), expired_out date ss))"
    by (simp add: Salts_Get.simps[of deadline "expired_out date ss"] flip: date_def)
  then show ?thesis
    by (simp add: Salts_Get.simps[of deadline ss] Let_def flip: date_def)
qed

lemma Get_earliest:
  assumes "expiring ss"
  shows "case Salts_Get deadline ss of
      (None, ss') \<Rightarrow> ss' = [] \<and> (\<forall>s \<in> set ss. fsValidUntil s \<le> deadline div second)
    | (Some x, ss') \<Rightarrow> \<exists>s \<in> set ss. fsSalt s = x \<and> fsValidUntil s > deadline div second \<and>
        (\<forall>t \<in> set ss. fsValidUntil t > deadline div second \<longrightarrow> fsValidUntil s \<le> fsValidUntil t \<and> t \<in> set ss')"
proof -
  have last_min: "fsValidUntil (last xs) \<le> fsValidUntil t" if "expiring xs" "t \<in> set xs" for xs t
    using that by (cases xs rule: rev_cases) (auto simp: sorted_wrt_append)
  define valid where "valid = expired_out (deadline div second) ss"
  have valid: "set valid = {s \<in> set ss. fsValidUntil s > deadline div second}" "expiring valid"
    using assms by (auto simp: valid_def expired_out_def sorted_wrt_filter)
  show ?thesis
  proof (cases "ss = [] \<or> fsValidUntil (last ss) > deadline div second")
    case True
    then show ?thesis using last_min[OF assms]
      by (auto simp: Get_unfold Let_def intro!: bexI[of _ "last ss"])
  next
    case False
    then show ?thesis using last_min[OF valid(2)] valid(1) last_in_set[of valid]
      by (auto simp: Get_unfold Let_def simp flip: valid_def intro!: bexI[of _ "last valid"])
  qed
qed

text \<open>the store of future salts holds each salt once, the one that expires first at its end, and
  keeps every salt it was given; what it hands out for a deadline is the salt that expires first of
  those still valid then, none of which it forgets, and it says that it has none only when all
  have expired.\<close>

theorem salts_are_used_in_turn:
  "expiring (Salts_Store new ss) \<and> distinct (map fsSalt (Salts_Store new ss)) \<and>
   fsSalt ` set (Salts_Store new ss) = fsSalt ` (set ss \<union> set new) \<and>
   (case Salts_Get deadline (Salts_Store new ss) of
      (None, ss') \<Rightarrow> ss' = [] \<and> (\<forall>s \<in> set (Salts_Store new ss). fsValidUntil s \<le> deadline div second)
    | (Some x, ss') \<Rightarrow> \<exists>s \<in> set (Salts_Store new ss). fsSalt s = x \<and> fsValidUntil s > deadline div second \<and>
        (\<forall>t \<in> set (Salts_Store new ss). fsValidUntil t > deadline div second \<longrightarrow>
           fsValidUntil s \<le> fsValidUntil t \<and> t \<in> set ss'))"
  using Store_sound[of new ss] Get_earliest[of "Salts_Store new ss" deadline] by simp

theorem salts_are_used_in_turn_witness:
  "fst (Salts_Get (150 * second) (Salts_Store
     [\<lparr>fsValidSince = 0, fsValidUntil = 100, fsSalt = 1\<rparr>, \<lparr>fsValidSince = 0, fsValidUntil = 300, fsSalt = 3\<rparr>,
      \<lparr>fsValidSince = 0, fsValidUntil = 200, fsSalt = 2\<rparr>] [])) = Some 2"
  using salts_are_used_in_turn[of "[\<lparr>fsValidSince = 0, fsValidUntil = 100, fsSalt = 1\<rparr>, \<lparr>fsValidSince = 0, fsValidUntil = 300, fsSalt = 3\<rparr>,
      \<lparr>fsValidSince = 0, fsValidUntil = 200, fsSalt = 2\<rparr>]" "[]" "150 * second"]
  by (auto simp: Salts_Store_def split: prod.splits option.splits)

section \<open>Which packets are acted on\<close>

lemma checkMessageID_eq:
  "checkMessageID now i \<longleftrightarrow> MessageID_Type i \<in> {MessageFromServer, MessageServerResponse} \<and>
     (case now of None \<Rightarrow> True | Some t \<Rightarrow> t - MessageID_Time i \<le> maxPast \<and> MessageID_Time i - t \<le> maxFuture)"
  by (auto simp: checkMessageID_def Let_def maxPast_def split: option.split)

text \<open>The checks of a decrypted message, in the protocol's words.\<close>

definition acceptable :: "int \<Rightarrow> 'w conn \<Rightarrow> EncryptedMessageData \<Rightarrow> bool" where
  "acceptable now c m \<longleftrightarrow> edSessionID m = sessionID c \<and>
     MessageID_Type (edMessageID m) \<in> {MessageFromServer, MessageServerResponse} \<and>
     (serverTimeOffset c \<noteq> 0 \<longrightarrow>
        (let age = TimeWithOffset now c - MessageID_Time (edMessageID m) in age \<le> 300 * second \<and> - age \<le> 30 * second)) \<and>
     fst (MessageIDBuf_Consume (edMessageID m) (messageIDBuf c)) = Inr True"

lemma consume_scan_slot:
  "consume_scan newID i k v buf = Some (j, x) \<Longrightarrow> k < n \<Longrightarrow> i + length buf \<le> n \<Longrightarrow> j < n"
  by (induction newID i k v buf rule: consume_scan.induct) (auto split: if_splits)

lemma Consume_total:
  assumes "buf \<noteq> []"
  shows "\<exists>ok buf'. MessageIDBuf_Consume newID buf = (Inr ok, buf') \<and> (ok \<or> buf' = buf) \<and> buf' \<noteq> []"
proof (cases "consume_scan newID 0 0 0 buf")
  case None
  then show ?thesis using assms by (intro exI[of _ False]) (simp add: MessageIDBuf_Consume_def)
next
  case (Some p)
  obtain j x where p: "p = (j, x)" by (cases p)
  have "j < length buf" using consume_scan_slot[of newID 0 0 0 buf j x "length buf"] Some p assms by simp
  then show ?thesis using assms Some p by (auto simp: MessageIDBuf_Consume_def)
qed

lemma process_calm:
  assumes "Data m \<noteq> None"
  shows "fst (process D n now m c) \<in> {Inr (), Inl NoFuel}" "messageIDBuf (snd (process D n now m c)) = messageIDBuf c"
    "authKey (snd (process D n now m c)) = authKey c"
  using assms handleMessage_calm[of D n now "edMessageID m" "the (Data m)" c]
  by (auto simp: process_def split: option.splits prod.splits sum.splits conn_err.splits)

lemma process_settles:
  assumes "Data m = Some p" "returns D p N"
  shows "fst (process D N now m c) \<noteq> Inl NoFuel" "N \<le> n \<Longrightarrow> process D n now m c = process D N now m c"
proof -
  obtain r c1 where h: "handleMessage D N now (edMessageID m) p c = (r, c1)" by force
  then have r: "r \<noteq> Inl NoFuel" using assms(2) unfolding returns_def by (metis fst_conv order_refl)
  then show "fst (process D N now m c) \<noteq> Inl NoFuel"
    using assms(1) h by (cases r) (auto simp: process_def split: conn_err.split)
  show "process D n now m c = process D N now m c" if "N \<le> n"
    using assms(1) handleMessage_settled[of D N now "edMessageID m" p c n] h r that by (simp add: process_def)
qed


section \<open>No panic\<close>

text \<open>The packets and other outcomes of reading that the loop sees, with the clock at each.\<close>

primrec readLoop :: "'w connDeps \<Rightarrow> ('w, unit, exchangeResult) prog \<Rightarrow> nat \<Rightarrow> (int \<times> received) list \<Rightarrow> ('w, unit) cprog" where
  "readLoop D exchange n [] = ret ()"
| "readLoop D exchange n (r # rs) = andThen (readLoop_turn D exchange n (fst r) (snd r)) (\<lambda>_. readLoop D exchange n rs)"

text \<open>A packet as the loop takes it: what comes of it, and which state it leaves.\<close>

lemma consumeMessage_outcome:
  assumes "messageIDBuf c \<noteq> []"
  obtains (broken) e c1 where "\<And>n. consumeMessage D n now b c = (Inl (ConnCipher e), c1)" "e \<noteq> CBin Panic"
      "messageIDBuf c1 \<noteq> []" "authKey c1 = authKey c"
  | (dropped) c1 where "\<And>n. consumeMessage D n now b c = (Inr (), c1)" "messageIDBuf c1 \<noteq> []" "authKey c1 = authKey c"
  | (handled) m p c1 where "fst (DecryptFromBuffer (aesIGE D) Client (authKey c) b) = Inr m" "Data m = Some p"
      "\<And>n. consumeMessage D n now b c = process D n now m c1" "messageIDBuf c1 \<noteq> []" "authKey c1 = authKey c"
proof (cases "DecryptFromBuffer (aesIGE D) Client (authKey c) b")
  case (Pair x b')
  show thesis
  proof (cases x)
    case (Inl e)
    have "e \<noteq> CBin Panic" using DecryptFromBuffer_calm Pair Inl by metis
    then show thesis using assms Pair Inl
      by (intro broken[of e "updateSalt now c"]) (simp_all add: consumeMessage_def decryptMessage_conn_def session_eq)
  next
    case (Inr m)
    obtain ok buf where consume: "MessageIDBuf_Consume (edMessageID m) (messageIDBuf c) = (Inr ok, buf)" "buf \<noteq> []"
      using Consume_total[OF assms] by blast
    obtain p where p: "Data m = Some p" using DecryptFromBuffer_authentic[OF Pair[unfolded Inr]] by auto
    define c1 where "c1 = (updateSalt now c)\<lparr>messageIDBuf := buf\<rparr>"
    have "decryptMessage_conn D now b c = (Inl Rejected, updateSalt now c) \<or>
        decryptMessage_conn D now b c = (Inl Rejected, c1) \<or> decryptMessage_conn D now b c = (Inr m, c1)"
      using consume by (simp add: decryptMessage_conn_def session_eq Pair Inr consumeID_def andThen_def fail_def ret_def c1_def)
    then consider "decryptMessage_conn D now b c = (Inl Rejected, updateSalt now c)"
      | "decryptMessage_conn D now b c = (Inl Rejected, c1)" | "decryptMessage_conn D now b c = (Inr m, c1)"
      by blast
    then show thesis
    proof cases
      case 1
      then show thesis using assms by (intro dropped[of "updateSalt now c"]) (simp_all add: consumeMessage_def)
    next
      case 2
      then show thesis using consume(2) by (intro dropped[of c1]) (simp_all add: consumeMessage_def c1_def)
    next
      case 3
      then show thesis using Pair Inr p consume(2)
        by (intro handled[of m p c1]) (simp_all add: consumeMessage_def c1_def)
    qed
  qed
qed

text \<open>How the loop may end, when it has the depth it needs: a read that fails, a key exchange that
  fails, or a packet that does not decrypt, none of them by a panic.\<close>

definition ordinary :: "conn_err \<Rightarrow> bool" where
  "ordinary e \<longleftrightarrow> e = ConnSend \<or> e = ConnExchange \<or> (\<exists>x. x \<noteq> CBin Panic \<and> e = ConnCipher x)"

text \<open>The keys the connection can have, and that what decrypts under them nests finitely.\<close>

definition keys_of :: "('w, unit, exchangeResult) prog \<Rightarrow> 'w conn \<Rightarrow> AuthKey set" where
  "keys_of exchange c = insert (authKey c) {erAuthKey r |w r w'. exchange w = (Inr r, w')}"

definition packet_nests :: "'w connDeps \<Rightarrow> AuthKey set \<Rightarrow> received \<Rightarrow> bool" where
  "packet_nests D keys r \<longleftrightarrow> (\<forall>b k m p. r = Packet b \<and> k \<in> keys \<and>
     fst (DecryptFromBuffer (aesIGE D) Client k b) = Inr m \<and> Data m = Some p \<longrightarrow> nests (gzipLib D) p)"

lemma createAuthKey_outcome:
  "fst (createAuthKey exchange c) \<in> {Inr (), Inl ConnExchange} \<and>
   messageIDBuf (snd (createAuthKey exchange c)) = messageIDBuf c \<and>
   authKey (snd (createAuthKey exchange c)) \<in> keys_of exchange c"
  by (auto simp: createAuthKey_def andThen_def outside_def modify_def keys_of_def split: prod.split sum.split)

lemma turn_outcome:
  assumes "messageIDBuf c \<noteq> []" "authKey c \<in> keys_of exchange c0"
  shows "fst (readLoop_turn D exchange n now r c) \<in> {Inr (), Inl NoFuel} \<union> Inl ` Collect ordinary \<and>
    messageIDBuf (snd (readLoop_turn D exchange n now r c)) \<noteq> [] \<and>
    authKey (snd (readLoop_turn D exchange n now r c)) \<in> keys_of exchange c0"
proof (cases r)
  case (Packet b)
  show ?thesis
  proof (cases rule: consumeMessage_outcome[OF assms(1), of D now b, case_names broken dropped handled])
    case (handled m p c1)
    then show ?thesis using assms(2) process_calm[of m D n now c1] by (auto simp: readLoop_turn_def Packet)
  qed (use assms(2) in \<open>auto simp: readLoop_turn_def Packet ordinary_def\<close>)
next
  case AuthKeyNotFound
  then show ?thesis using assms createAuthKey_outcome[of exchange "updateSalt now c"]
    by (auto simp: readLoop_turn_def handleAuthKeyNotFound_def session_eq ordinary_def keys_of_def)
qed (use assms in \<open>auto simp: readLoop_turn_def ret_def fail_def ordinary_def\<close>)

lemma turn_settles:
  assumes "messageIDBuf c \<noteq> []" "authKey c \<in> keys" "packet_nests D keys r"
  shows "\<exists>N. fst (readLoop_turn D exchange N now r c) \<noteq> Inl NoFuel \<and>
    (\<forall>n \<ge> N. readLoop_turn D exchange n now r c = readLoop_turn D exchange N now r c)"
proof (cases r)
  case (Packet b)
  show ?thesis
  proof (cases rule: consumeMessage_outcome[OF assms(1), of D now b, case_names broken dropped handled])
    case (handled m p c1)
    then have "nests (gzipLib D) p" using assms(2,3) by (auto simp: packet_nests_def Packet)
    then obtain N where "returns D p N" using nests_returns by blast
    moreover have "readLoop_turn D exchange n now r c = process D n now m c1" for n
      by (simp add: readLoop_turn_def Packet handled(3))
    ultimately show ?thesis using process_settles[OF handled(2)] by metis
  qed (auto simp: readLoop_turn_def Packet)
next
  case AuthKeyNotFound
  then show ?thesis using createAuthKey_outcome[of exchange "updateSalt now c"]
    by (auto simp: readLoop_turn_def handleAuthKeyNotFound_def session_eq)
qed (auto simp: readLoop_turn_def ret_def fail_def)

lemma loop_outcome:
  assumes "messageIDBuf c \<noteq> []" "authKey c \<in> keys_of exchange c0"
  shows "fst (readLoop D exchange n rs c) \<in> {Inr (), Inl NoFuel} \<union> Inl ` Collect ordinary"
  using assms
proof (induction rs arbitrary: c)
  case Nil
  then show ?case by (simp add: ret_def)
next
  case (Cons r rs)
  obtain x c1 where x: "readLoop_turn D exchange n (fst r) (snd r) c = (x, c1)" by force
  then show ?case using turn_outcome[OF Cons.prems, of D n "fst r" "snd r"] Cons.IH[of c1]
    by (cases x) (auto simp: andThen_def)
qed

lemma loop_settles:
  assumes "messageIDBuf c \<noteq> []" "authKey c \<in> keys_of exchange c0" "\<forall>r \<in> set rs. packet_nests D (keys_of exchange c0) (snd r)"
  shows "\<exists>N y. fst y \<noteq> Inl NoFuel \<and> (\<forall>n \<ge> N. readLoop D exchange n rs c = y)"
  using assms
proof (induction rs arbitrary: c)
  case Nil
  show ?case by (intro exI[of _ 0] exI[of _ "(Inr (), c)"]) (simp add: ret_def)
next
  case (Cons r rs)
  let ?turn = "\<lambda>n. readLoop_turn D exchange n (fst r) (snd r) c"
  obtain N1 where N1: "fst (?turn N1) \<noteq> Inl NoFuel" "\<And>n. n \<ge> N1 \<Longrightarrow> ?turn n = ?turn N1"
    using turn_settles[OF Cons.prems(1,2)] Cons.prems(3) by (metis list.set_intros(1))
  obtain x c1 where x: "?turn N1 = (x, c1)" by force
  show ?case
  proof (cases x)
    case (Inl e)
    then show ?thesis using N1 x by (intro exI[of _ N1] exI[of _ "(Inl e, c1)"]) (simp add: andThen_def)
  next
    case (Inr u)
    have "messageIDBuf c1 \<noteq> [] \<and> authKey c1 \<in> keys_of exchange c0"
      using turn_outcome[OF Cons.prems(1,2), of D N1 "fst r" "snd r"] x by simp
    then obtain N2 y where y: "fst y \<noteq> Inl NoFuel" "\<forall>n \<ge> N2. readLoop D exchange n rs c1 = y"
      using Cons.IH[of c1] Cons.prems(3) by auto
    then show ?thesis using N1 x Inr by (intro exI[of _ "max N1 N2"] exI[of _ y]) (simp add: andThen_def)
  qed
qed

text \<open>C28: no bytes of the server make the client panic, and only endless nesting keeps it busy.
  Whatever packets, timeouts and errors the read loop meets, from any state with a replay buffer of
  some size, it never panics, at no depth of nesting, and stops only for a read
  or a key exchange that fails or for a packet that does not decrypt.  When what decrypts, under
  the keys the connection can have, nests finitely, there is a depth from which the loop has that
  outcome and never lacks depth; this much the code does not enforce, it unpacks
  to any depth.\<close>

theorem incoming_never_panics:
  assumes "messageIDBuf c \<noteq> []"
  shows "(\<forall>n e. fst (readLoop D exchange n rs c) = Inl e \<longrightarrow> ordinary e \<or> e = NoFuel) \<and>
    ((\<forall>r \<in> set rs. packet_nests D (keys_of exchange c) (snd r)) \<longrightarrow>
      (\<exists>N y. (\<forall>n \<ge> N. readLoop D exchange n rs c = y) \<and> (\<forall>e. fst y = Inl e \<longrightarrow> ordinary e)))"
proof -
  have key: "authKey c \<in> keys_of exchange c" by (simp add: keys_of_def)
  note any = loop_outcome[OF assms key, of D _ rs]
  have "\<exists>N y. (\<forall>n \<ge> N. readLoop D exchange n rs c = y) \<and> (\<forall>e. fst y = Inl e \<longrightarrow> ordinary e)"
    if nest: "\<forall>r \<in> set rs. packet_nests D (keys_of exchange c) (snd r)"
  proof -
    obtain N y where y: "fst y \<noteq> Inl NoFuel" "\<forall>n \<ge> N. readLoop D exchange n rs c = y"
      using loop_settles[OF assms key nest] by blast
    moreover have "ordinary e" if "fst y = Inl e" for e using any[of N] y that by auto
    ultimately show ?thesis by blast
  qed
  moreover have "ordinary e \<or> e = NoFuel" if "fst (readLoop D exchange n rs c) = Inl e" for n e
    using any[of n] that by auto
  ultimately show ?thesis by blast
qed

text \<open>A packet that decrypts and nests finitely, then one that is too short.\<close>

theorem incoming_never_panics_witness:
  "\<exists>ct m N y. fst (DecryptFromBuffer ige0 Client key0 ct) = Inr m \<and> Data m = Some [1, 2, 3, 4] \<and>
     (\<forall>n \<ge> N. readLoop deps0 (\<lambda>w. (Inl (), w)) n [(0, Packet ct), (1, NoUpdates), (2, Packet [1, 2, 3])] conn0 = y) \<and>
     fst y \<noteq> Inl NoFuel \<and> fst y \<noteq> Inl (ConnProto (PBin Panic))"
proof -
  obtain ct pad where "DecryptFromBuffer ige0 (DecryptSide Server) key0 ct =
      (if 4 dvd length [1 :: byte, 2, 3, 4] then
         Inr (data0\<lparr>edDataLen := int (length [1 :: byte, 2, 3, 4]), edData := [1, 2, 3, 4] @ pad, edMessage := None\<rparr>)
       else Inl (MessageLengthInvalid (int (length [1 :: byte, 2, 3, 4]))), drop 24 ct)"
    using Encrypt_then_decrypt[of ige0 data0 "[1, 2, 3, 4]" key0 "replicate 32 7" Server "[]"] by (auto simp: ige0_def sample_ok)
  then obtain m where m: "fst (DecryptFromBuffer ige0 Client key0 ct) = Inr m" "Data m = Some [1, 2, 3, 4]"
    by (simp add: Data_def)
  let ?rs = "[(0, Packet ct), (1, NoUpdates), (2, Packet [1, 2, 3])]"
  let ?exchange = "\<lambda>w. (Inl (), w)"
  have keys: "keys_of ?exchange conn0 = {key0}" and buf: "messageIDBuf conn0 \<noteq> []" and ige: "aesIGE deps0 = ige0"
    by (simp_all add: keys_of_def conn0_def NewMessageIDBuf_def deps0_def)
  have "fst (DecryptFromBuffer ige0 Client key0 [1, 2, 3]) = Inl (CBin UnexpectedEOF)"
    by (simp add: DecryptFromBuffer_def EncryptedMessage_DecodeWithoutCopy_def andThen_def onBin_def ConsumeN_eq PeekN_eq)
  moreover have "nests (gzipLib deps0) [1, 2, 3, 4]" by (rule nests_plain)
  ultimately have "\<forall>r \<in> set ?rs. packet_nests deps0 (keys_of ?exchange conn0) (snd r)"
    using m unfolding keys by (simp add: packet_nests_def ige)
  then obtain N y where y: "\<forall>n \<ge> N. readLoop deps0 ?exchange n ?rs conn0 = y" "\<forall>e. fst y = Inl e \<longrightarrow> ordinary e"
    using incoming_never_panics[OF buf, of deps0 ?exchange ?rs] by blast
  have "\<not> ordinary NoFuel" "\<not> ordinary (ConnProto (PBin Panic))" by (simp_all add: ordinary_def)
  with y(2) have "fst y \<noteq> Inl NoFuel \<and> fst y \<noteq> Inl (ConnProto (PBin Panic))" by blast
  with m y(1) show ?thesis by blast
qed

section \<open>What the peer reads\<close>

lemma length_wires: "length (wLong i) = 8" "length (wID t) = 4"
  by (simp_all add: wLong_def wID_def tl_defs)

lemma GZIP_put: "GZIP_Encode G d b = b @ wID GZIPTypeID @ PutBytes (gzCompress G d) []"
  using tl_bytes.put_append[of "gzCompress G d" "b @ wID GZIPTypeID"] by (simp add: GZIP_Encode_def wire_put)

lemma length_GZIP_Encode:
  "4 dvd length (GZIP_Encode G d [])" "length (GZIP_Encode G d []) < length (gzCompress G d) + 12"
proof -
  show "4 dvd length (GZIP_Encode G d [])" "length (GZIP_Encode G d []) < length (gzCompress G d) + 12"
    using length_PutBytes[of "gzCompress G d"] by (simp_all add: GZIP_put length_wires)
qed

definition gzip_law :: "gzip_lib \<Rightarrow> bytes \<Rightarrow> bool" where
  "gzip_law G d \<longleftrightarrow> length (gzCompress G d) < 2 ^ 24 \<and> gzReader G (gzCompress G d) \<and>
     gzRead G (gzCompress G d) = (d, False) \<and> gzClose G (gzCompress G d)"

text \<open>C20: what the connection sends, the server reads.  A payload goes out under the salt in
  force, the session, and the identifier and sequence number it was given, and the server, with the same
  key, gets back that payload, packed when it is longer than the threshold and as it is
  otherwise; only the salts and the random source change.\<close>

theorem peer_reads_what_is_sent:
  assumes "ige_law (aesIGE D)" "gzip_law (gzipLib D) payload" "length payload < maxUncompressedSize" "4 dvd length payload"
    and "int64_range (salt (updateSalt now c))" "int64_range (sessionID c)" "int64_range i" "int32_range seqNo"
    and "length (akID (authKey c)) = 8" "32 \<le> length (fst (randRead D (world c)))"
  shows "\<exists>ct m p. newEncryptedMessage D now i seqNo payload c =
      (Inr ct, (updateSalt now c)\<lparr>world := snd (randRead D (world c))\<rparr>) \<and>
    fst (DecryptFromBuffer (aesIGE D) Server (authKey c) ct) = Inr m \<and>
    edSalt m = salt (updateSalt now c) \<and> edSessionID m = sessionID c \<and> edMessageID m = i \<and> edSeqNo m = seqNo \<and>
    Data m = Some p \<and>
    (if 0 < compressThreshold D \<and> compressThreshold D < int (length payload)
     then fst (GZIP_Decode (gzipLib D) p) = Inr payload else p = payload)"
proof -
  define packed where "packed \<longleftrightarrow> 0 < compressThreshold D \<and> compressThreshold D < int (length payload)"
  define p where "p = (if packed then GZIP_Encode (gzipLib D) payload [] else payload)"
  define s where "s = fst (session now c)"
  define d where "d = messageData D s i seqNo payload"
  have s: "s = \<lparr>sID = sessionID c, sKey = authKey c, sSalt = salt (updateSalt now c)\<rparr>"
    by (simp add: s_def session_eq)
  have carries: "carries d p"
    by (simp add: d_def messageData_def Let_def carries_def p_def packed_def GZIP_put)
  have fields: "fields_ok d" and flds: "edSalt d = sSalt s" "edSessionID d = sID s" "edMessageID d = i" "edSeqNo d = seqNo"
    using assms(5-8) by (simp_all add: d_def messageData_def Let_def fields_ok_def s)
  have p: "4 dvd length p" "length p < 2 ^ 31"
    using length_GZIP_Encode[of "gzipLib D" payload] assms(2-4)
    by (auto simp: p_def gzip_law_def maxUncompressedSize_def)
  have law: "length k = 32 \<Longrightarrow> length iv = 32 \<Longrightarrow> 16 dvd length q \<Longrightarrow>
      length (EncryptBlocks (aesIGE D) k iv q) = length q \<and> DecryptBlocks (aesIGE D) k iv (EncryptBlocks (aesIGE D) k iv q) = q"
    for k iv q using assms(1) by (simp add: ige_law_def)
  have "\<exists>ct pad. Encrypt (aesIGE D) Client (fst (randRead D (world c))) (authKey c) d [] = (Inr (), ct) \<and>
      DecryptFromBuffer (aesIGE D) (DecryptSide Client) (authKey c) ct =
      (if 4 dvd length p then Inr (d\<lparr>edDataLen := int (length p), edData := p @ pad, edMessage := None\<rparr>)
       else Inl (MessageLengthInvalid (int (length p))), drop 24 ct)"
    by (rule Encrypt_then_decrypt) (use law carries fields p(2) assms(9,10) in simp_all)
  then obtain ct pad where ct: "Encrypt (aesIGE D) Client (fst (randRead D (world c))) (authKey c) d [] = (Inr (), ct)"
    "DecryptFromBuffer (aesIGE D) Server (authKey c) ct =
      (Inr (d\<lparr>edDataLen := int (length p), edData := p @ pad, edMessage := None\<rparr>), drop 24 ct)"
    using p(1) by auto
  define m where "m = d\<lparr>edDataLen := int (length p), edData := p @ pad, edMessage := None\<rparr>"
  have "newEncryptedMessage D now i seqNo payload c = (Inr ct, (updateSalt now c)\<lparr>world := snd (randRead D (world c))\<rparr>)"
    using ct(1) by (cases "randRead D (world c)") (simp add: newEncryptedMessage_def session_eq d_def s Let_def)
  moreover have "fst (DecryptFromBuffer (aesIGE D) Server (authKey c) ct) = Inr m" using ct(2) by (simp add: m_def)
  moreover have "packed \<Longrightarrow> fst (GZIP_Decode (gzipLib D) p) = Inr payload"
    using GZIP_wire[of "gzipLib D" payload "[]"] assms(2,3) by (simp add: p_def gzip_law_def)
  moreover have "Data m = Some p" by (simp add: m_def Data_def)
  ultimately show ?thesis
    by (intro exI[of _ ct] exI[of _ m] exI[of _ p]) (simp add: m_def flds s p_def packed_def)
qed

theorem peer_reads_what_is_sent_witness:
  "\<exists>ct m p. newEncryptedMessage deps0 0 4 1 (replicate 12 3) conn0 = (Inr ct, conn0) \<and>
     fst (DecryptFromBuffer ige0 Server key0 ct) = Inr m \<and> Data m = Some p \<and> fst (GZIP_Decode (gzipLib deps0) p) = Inr (replicate 12 3)"
proof -
  have "updateSalt 0 conn0 = conn0" by (simp add: conn0_def updateSalt_def Salts_Get.simps)
  moreover have "conn0\<lparr>world := w\<rparr> = conn0" for w by simp
  moreover have "salt conn0 = 0" "sessionID conn0 = 6" "authKey conn0 = key0" by (simp_all add: conn0_def)
  moreover have "ige_law (aesIGE deps0)" "gzip_law (gzipLib deps0) (replicate 12 3)" "aesIGE deps0 = ige0"
    "compressThreshold deps0 = 8" "randRead deps0 w = (replicate 32 7, w)" for w
    by (simp_all add: ige_law_def gzip_law_def deps0_def ige0_def)
  ultimately show ?thesis
    using peer_reads_what_is_sent[of deps0 "replicate 12 3" 0 conn0 4 1] sample_ok(3)
    by (auto simp: maxUncompressedSize_def)
qed

section \<open>Answers\<close>

text \<open>What the bytes of a result mean: a value as it is, an error, or either of them packed.\<close>

definition answers :: "bytes \<Rightarrow> rpc_failure rpc_err + bytes \<Rightarrow> bool" where
  "answers r v \<longleftrightarrow> (case v of
     Inr p \<Rightarrow> r = p \<and> (\<exists>t. fst (PeekID p) = Inr t \<and> t \<notin> {GZIPTypeID, RPCErrorTypeID, PongTypeID})
   | Inl x \<Rightarrow> \<exists>e. RPCError_ok e \<and> r = RPCError_Encode e [] \<and>
       x = RpcError (TgError (TgErr.New (rpceErrorCode e) (to_string (rpceErrorMessage e)))))"

definition reply :: "'w connDeps \<Rightarrow> bytes \<Rightarrow> rpc_failure rpc_err + bytes \<Rightarrow> bool" where
  "reply D q v \<longleftrightarrow> answers q v \<or> (\<exists>r. fst (GZIP_Decode (gzipLib D) q) = Inr r \<and> answers r v)"

text \<open>A call that waits for the answer to a message, and one that has it.\<close>

definition awaits :: "int \<Rightarrow> rpc_failure rpc_err + bytes \<Rightarrow> (bytes, rpc_failure) Engine \<Rightarrow> bool" where
  "awaits i v e \<longleftrightarrow> (\<exists>k d. rpc e i = Some (Handler k) \<and> calls e k = Some d \<and> reqMsgID (request d) = i \<and>
     \<not> handlerCalled d \<and> (case v of Inr p \<Rightarrow> reqDecode (request d) p | Inl _ \<Rightarrow> True))"

definition answered :: "int \<Rightarrow> rpc_failure rpc_err + bytes \<Rightarrow> (bytes, rpc_failure) Engine \<Rightarrow> bool" where
  "answered i v e \<longleftrightarrow> ack e i = None \<and> (\<exists>k d. rpc e i = Some (Handler k) \<and> calls e k = Some d \<and>
     reqMsgID (request d) = i \<and> handlerCalled d \<and>
     (case v of Inr p \<Rightarrow> resultErr d = None \<and> reqOutput d = Some p | Inl x \<Rightarrow> resultErr d = Some x))"

lemma runCallback_answers:
  assumes "awaits i v e"
  shows "\<exists>e'. runCallback i v e = (None, e') \<and> answered i v e' \<and>
    (\<forall>j w. j \<noteq> i \<longrightarrow> awaits j w e' = awaits j w e \<and> answered j w e' = answered j w e)"
proof -
  obtain k d where k: "rpc e i = Some (Handler k)" "calls e k = Some d" "reqMsgID (request d) = i" "\<not> handlerCalled d"
    and ok: "case v of Inr p \<Rightarrow> reqDecode (request d) p | Inl _ \<Rightarrow> True"
    using assms by (auto simp: awaits_def)
  define d' where "d' = d\<lparr>handlerCalled := True, retryErr := (case retryErr d of None \<Rightarrow> Some Canceled | Some x \<Rightarrow> Some x),
    resultErr := (case v of Inl x \<Rightarrow> Some x | Inr _ \<Rightarrow> None), reqOutput := (case v of Inl _ \<Rightarrow> reqOutput d | Inr p \<Rightarrow> Some p)\<rparr>"
  define e' where "e' = setCall k d' (notifyAckUnlocked i e)"
  have "runCallback i v e = (None, e')"
    using k ok by (cases v) (simp_all add: runCallback_def engine callHandler_def e'_def d'_def)
  moreover have "answered i v e'"
    using k by (cases v) (simp_all add: answered_def e'_def d'_def engine)
  moreover have "awaits j w e' = awaits j w e \<and> answered j w e' = answered j w e" if j: "j \<noteq> i" for j w
  proof -
    have e': "rpc e' = rpc e" "ack e' j = ack e j" "calls e' = (calls e)(k \<mapsto> d')" "reqMsgID (request d') = i"
      using k(3) j by (simp_all add: e'_def engine d'_def)
    have same: "(rpc e j = Some (Handler ka) \<and> calls e' ka = Some da \<and> reqMsgID (request da) = j \<and> X) \<longleftrightarrow>
        (rpc e j = Some (Handler ka) \<and> calls e ka = Some da \<and> reqMsgID (request da) = j \<and> X)" for ka da X
      using k(2,3) e'(3,4) j by auto
    show ?thesis by (simp only: awaits_def answered_def e'(1,2) same)
  qed
  ultimately show ?thesis by blast
qed

lemma PeekID_wID [simp]: "PeekID (wID i @ rest) = (Inr i, wID i @ rest)"
  by (rule wire)

lemma deliverResult_answers:
  assumes "answers r v" "awaits i v (engine c)"
  obtains t where "fst (PeekID r) = Inr t" "t \<noteq> GZIPTypeID"
    "deliverResult i t r c = (Inr (), c\<lparr>engine := snd (runCallback i v (engine c))\<rparr>)"
proof (cases v)
  case (Inr p)
  then obtain t where t: "r = p" "fst (PeekID p) = Inr t" "t \<notin> {GZIPTypeID, RPCErrorTypeID, PongTypeID}"
    using assms(1) by (auto simp: answers_def)
  then show thesis using that[of t] runCallback_answers[OF assms(2)] Inr
    by (auto simp: deliverResult_def notifyResult_def)
next
  case (Inl x)
  then obtain e where e: "RPCError_ok e" "r = RPCError_Encode e []"
      "x = RpcError (TgError (TgErr.New (rpceErrorCode e) (to_string (rpceErrorMessage e))))"
    using assms(1) by (auto simp: answers_def)
  have "RPCError_Decode r = (Inr e, [])" using rpce.get_put[OF e(1), of "[]"] e(2) by simp
  moreover have "fst (PeekID r) = Inr RPCErrorTypeID"
    by (simp add: e(2) RPCError_Encode_def RPCError_EncodeBare_def wire)
  ultimately show thesis using that[of RPCErrorTypeID] Inl e(3)
    by (simp add: deliverResult_def decode_def modify_def notifyError_def GZIPTypeID_def RPCErrorTypeID_def andThen_def)
qed

lemma handleResult_answers:
  assumes "reply D q v" "awaits i v (engine c)" "int64_range i"
  shows "handleResult D (Result_Encode \<lparr>RequestMessageID = i, resultBytes = q\<rparr> []) c =
    (Inr (), c\<lparr>engine := snd (runCallback i v (engine c))\<rparr>)"
proof -
  have dec: "Result_Decode (Result_Encode \<lparr>RequestMessageID = i, resultBytes = q\<rparr> []) = (Inr \<lparr>RequestMessageID = i, resultBytes = q\<rparr>, [])"
    using assms(3) by (simp add: Result_wire)
  show ?thesis
  proof (cases "answers q v")
    case True
    then obtain t where "fst (PeekID q) = Inr t" "t \<noteq> GZIPTypeID"
        "deliverResult i t q c = (Inr (), c\<lparr>engine := snd (runCallback i v (engine c))\<rparr>)"
      using deliverResult_answers[OF True assms(2)] by blast
    then show ?thesis by (cases "PeekID q") (simp add: handleResult_def decode_def dec andThen_def onTL_def)
  next
    case False
    then obtain r where r: "fst (GZIP_Decode (gzipLib D) q) = Inr r" "answers r v"
      using assms(1) by (auto simp: reply_def)
    then obtain t where "fst (PeekID r) = Inr t"
        "deliverResult i t r c = (Inr (), c\<lparr>engine := snd (runCallback i v (engine c))\<rparr>)"
      using deliverResult_answers[OF r(2) assms(2)] by blast
    moreover have "fst (PeekID q) = Inr GZIPTypeID" by (rule GZIP_Decode_id[OF r(1)])
    ultimately show ?thesis using r(1)
      by (cases "PeekID q"; cases "PeekID r") (simp add: handleResult_def decode_def dec andThen_def onTL_def unzip_conn_def)
  qed
qed

definition result_message :: "int \<times> int \<times> bytes \<Rightarrow> Message" where
  "result_message x = (case x of (i, mid, q) \<Rightarrow> (let body = Result_Encode \<lparr>RequestMessageID = i, resultBytes = q\<rparr> [] in
     \<lparr>msgID = mid, msgSeqNo = 1, msgBytes = int (length body), msgBody = body\<rparr>))"

lemma handle_results:
  assumes "\<forall>(i, mid, q, v) \<in> set rs. reply D q v \<and> awaits i v (engine c) \<and> int64_range i"
    and "distinct (map fst rs)"
  shows "\<exists>e'. forEach (\<lambda>m. handleMessage D (Suc n) now x (msgBody m)) (map (\<lambda>(i, mid, q, v). result_message (i, mid, q)) rs) c =
      (Inr (), c\<lparr>engine := e'\<rparr>) \<and> (\<forall>(i, mid, q, v) \<in> set rs. answered i v e') \<and>
    (\<forall>j w. j \<notin> fst ` set rs \<longrightarrow> answered j w e' = answered j w (engine c))"
  using assms
proof (induction rs arbitrary: c)
  case Nil
  then show ?case by (intro exI[of _ "engine c"]) (simp add: ret_def)
next
  case (Cons r rs)
  obtain i mid q v where r: "r = (i, mid, q, v)" by (cases r)
  have pre: "reply D q v" "awaits i v (engine c)" "int64_range i" using Cons.prems(1) by (simp_all add: r)
  obtain e1 where e1: "runCallback i v (engine c) = (None, e1)" "answered i v e1"
      "\<And>j w. j \<noteq> i \<Longrightarrow> awaits j w e1 = awaits j w (engine c) \<and> answered j w e1 = answered j w (engine c)"
    using runCallback_answers[OF pre(2)] by blast
  have "handleMessage D (Suc n) now x (msgBody (result_message (i, mid, q))) c = (Inr (), c\<lparr>engine := e1\<rparr>)"
  proof -
    have "PeekID (Result_Encode \<lparr>RequestMessageID = i, resultBytes = q\<rparr> []) =
        (Inr ResultTypeID, Result_Encode \<lparr>RequestMessageID = i, resultBytes = q\<rparr> [])"
      by (simp add: Result_Encode_def wire)
    then show ?thesis using handleResult_answers[OF pre] e1(1)
      by (simp add: result_message_def Let_def handleMessage.simps decode_def onTL_def andThen_def mt_ids
          ResultTypeID_def MessageContainerTypeID_def)
  qed
  moreover have later: "j \<noteq> i" if "(j, mid', q', w) \<in> set rs" for j mid' q' w
    using Cons.prems(2) that by (force simp: r)
  have "\<forall>(j, mid, q, w) \<in> set rs. reply D q w \<and> awaits j w (engine (c\<lparr>engine := e1\<rparr>)) \<and> int64_range j"
    using Cons.prems(1) later e1(3) by fastforce
  then obtain e2 where e2: "forEach (\<lambda>m. handleMessage D (Suc n) now x (msgBody m))
        (map (\<lambda>(i, mid, q, v). result_message (i, mid, q)) rs) (c\<lparr>engine := e1\<rparr>) = (Inr (), c\<lparr>engine := e2\<rparr>)"
      "\<forall>(j, mid, q, w) \<in> set rs. answered j w e2" "\<And>j w. j \<notin> fst ` set rs \<Longrightarrow> answered j w e2 = answered j w e1"
    using Cons.IH[of "c\<lparr>engine := e1\<rparr>"] Cons.prems(2) by auto
  moreover have "i \<notin> fst ` set rs" using Cons.prems(2) by (simp add: r)
  ultimately show ?case using e1 by (intro exI[of _ e2]) (auto simp: r)
qed

text \<open>C8: every result in a container reaches the request it answers.  When the server puts the
  answers to any number of waiting requests into one message, each a value, an error or either of
  them packed, handling the message succeeds and every one of the calls has its own answer, decoded
  or as the error, and is acknowledged; answers that other calls have stay theirs.\<close>

theorem results_reach_their_requests:
  assumes "\<forall>(i, mid, q, v) \<in> set rs. reply D q v \<and> awaits i v (engine c) \<and> int64_range i"
    and "distinct (map fst rs)" "length rs < 2 ^ 31"
    and "\<forall>(i, mid, q, v) \<in> set rs. int64_range mid \<and> length q \<le> 1024 * 1024 - 12"
    and "MessageContainer_Encode (map (\<lambda>(i, mid, q, v). result_message (i, mid, q)) rs) [] = (Inr (), b)"
  shows "\<exists>e'. handleMessage D (Suc (Suc n)) now x b c = (Inr (), c\<lparr>engine := e'\<rparr>) \<and>
    (\<forall>(i, mid, q, v) \<in> set rs. answered i v e') \<and>
    (\<forall>j w. j \<notin> fst ` set rs \<longrightarrow> answered j w e' = answered j w (engine c))"
proof -
  define ms where "ms = map (\<lambda>(i, mid, q, v). result_message (i, mid, q)) rs"
  have ok: "\<forall>m \<in> set ms. Message_ok m"
    using assms(4) by (fastforce simp: ms_def Message_ok_def result_message_def Let_def Result_Encode_def wire length_wires)
  have b: "b = wID MessageContainerTypeID @ wInt (int (length ms)) @ concat (map wMessage ms)"
    using MessageContainer_wire(1)[OF ok, of "[]"] assms(3,5) by (simp add: ms_def)
  have "MessageContainer_Decode b = (Inr ms, [])"
    using MessageContainer_wire(2)[OF ok, of "[]"] assms(3) by (simp add: b ms_def)
  moreover have "PeekID b = (Inr MessageContainerTypeID, b)" by (simp add: b)
  ultimately have "handleMessage D (Suc (Suc n)) now x b c = forEach (\<lambda>m. handleMessage D (Suc n) now x (msgBody m)) ms c"
    by (simp add: handleMessage.simps(2)[where n = "Suc n"] decode_def onTL_def andThen_def mt_ids MessageContainerTypeID_def)
  then show ?thesis using handle_results[OF assms(1,2)] by (simp add: ms_def)
qed

definition pending_call :: "int \<Rightarrow> (bytes, rpc_failure) doCall" where
  "pending_call i = (newCall \<lparr>reqMsgID = i, reqDecode = \<lambda>_. True\<rparr>)\<lparr>callPhase := Retrying 0\<rparr>"

definition engine0 :: "(bytes, rpc_failure) Engine" where
  "engine0 = Rpc.New\<lparr>rpc := [10 \<mapsto> Handler 0, 20 \<mapsto> Handler 1], calls := [0 \<mapsto> pending_call 10, 1 \<mapsto> pending_call 20]\<rparr>"

definition failure0 :: RPCError where
  "failure0 = \<lparr>rpceErrorCode = 420, rpceErrorMessage = [70, 76, 79, 79, 68]\<rparr>"

lemma awaits0: "awaits 10 (Inr p) engine0" "awaits 20 (Inl x) engine0"
  by (simp_all add: awaits_def engine0_def pending_call_def newCall_def)

theorem results_reach_their_requests_witness:
  "\<exists>b e'. fst (handleMessage deps0 2 0 7 b (conn0\<lparr>engine := engine0\<rparr>)) = Inr () \<and>
     engine (snd (handleMessage deps0 2 0 7 b (conn0\<lparr>engine := engine0\<rparr>))) = e' \<and> answered 10 (Inr [1, 2, 3, 4]) e' \<and>
     answered 20 (Inl (RpcError (TgError (TgErr.New 420 ''FLOOD'')))) e'"
proof -
  define rs where "rs = [(10 :: int, 5 :: int, [1, 2, 3, 4] :: bytes, Inr [1, 2, 3, 4] :: rpc_failure rpc_err + bytes),
    (20, 9, RPCError_Encode failure0 [], Inl (RpcError (TgError (TgErr.New 420 ''FLOOD''))))]"
  have err: "answers (RPCError_Encode failure0 []) (Inl (RpcError (TgError (TgErr.New 420 ''FLOOD''))))"
    unfolding answers_def by (auto intro!: exI[of _ failure0] simp: failure0_def RPCError_ok_def to_string_def char_of_def bit_0)
  have val: "answers [1, 2, 3, 4] (Inr [1, 2, 3, 4])"
    by (simp add: answers_def PeekID_eq GZIPTypeID_def RPCErrorTypeID_def PongTypeID_def)
  have len: "length (RPCError_Encode failure0 []) \<le> 1000"
    by (simp add: failure0_def RPCError_Encode_def RPCError_EncodeBare_def PutString_def encodeString_def tl_defs
        nearestPaddedValueLength_def maxSmallStringLength_def)
  have ok: "\<forall>m \<in> set (map (\<lambda>(i, mid, q, v). result_message (i, mid, q)) rs). Message_ok m"
    using len by (simp add: rs_def result_message_def Message_ok_def Let_def Result_Encode_def wire length_wires)
  obtain b where b: "MessageContainer_Encode (map (\<lambda>(i, mid, q, v). result_message (i, mid, q)) rs) [] = (Inr (), b)"
    using MessageContainer_wire(1)[OF ok] by (simp add: rs_def)
  have "\<exists>e'. handleMessage deps0 (Suc (Suc 0)) 0 7 b (conn0\<lparr>engine := engine0\<rparr>) = (Inr (), conn0\<lparr>engine := engine0, engine := e'\<rparr>) \<and>
    (\<forall>(i, mid, q, v) \<in> set rs. answered i v e') \<and>
    (\<forall>j w. j \<notin> fst ` set rs \<longrightarrow> answered j w e' = answered j w (engine (conn0\<lparr>engine := engine0\<rparr>)))"
    using len err val by (intro results_reach_their_requests[OF _ _ _ _ b]) (auto simp: rs_def reply_def awaits0)
  then show ?thesis by (intro exI[of _ b]) (auto simp: rs_def numeral_2_eq_2)
qed

section \<open>Requests\<close>

text \<open>a request whose salt the server does not accept goes out again with the right one.  The
  server's notification ends the waiting call with the new salt; \<open>Invoke\<close> then drops the stored
  salts and tries once more, under the same identifier and sequence number, with the new salt in
  force for whatever it sends next.\<close>

theorem bad_salt_is_replaced:
  assumes "BadServerSalt_ok bad" "bssErrorCode bad = 48"
    and "awaits (bssBadMsgID bad) (Inl (RpcError (BadMessage 48 (bssNewServerSalt bad) False))) (engine c)"
    and "doRPC i seqNo cs = (Some (RpcError (BadMessage 48 (bssNewServerSalt bad) False)), cf)" "retries < 2"
  shows "(\<exists>e'. handleMessage D (Suc n) now x (BadServerSalt_Encode bad []) c = (Inr (), c\<lparr>engine := e'\<rparr>) \<and>
      answered (bssBadMsgID bad) (Inl (RpcError (BadMessage 48 (bssNewServerSalt bad) False))) e') \<and>
    (\<exists>c2. Invoke_loop doRPC now retries i seqNo cs = Invoke_loop doRPC now (Suc retries) i seqNo c2 \<and>
      engine c2 = engine cf \<and> (\<forall>t. sSalt (fst (session t c2)) = bssNewServerSalt bad))"
proof (rule conjI)
  obtain e' where e': "runCallback (bssBadMsgID bad) (Inl (RpcError (BadMessage 48 (bssNewServerSalt bad) False))) (engine c) = (None, e')"
      "answered (bssBadMsgID bad) (Inl (RpcError (BadMessage 48 (bssNewServerSalt bad) False))) e'"
    using runCallback_answers[OF assms(3)] by blast
  have p: "PeekID (BadServerSalt_Encode bad []) = (Inr BadServerSaltTypeID, BadServerSalt_Encode bad [])"
    by (simp add: BadServerSalt_Encode_def BadServerSalt_EncodeBare_def wire)
  have d: "BadServerSalt_Decode (BadServerSalt_Encode bad []) = (Inr bad, [])"
    using bss.get_put[OF assms(1), of "[]"] by simp
  have "handleMessage D (Suc n) now x (BadServerSalt_Encode bad []) c = (Inr (), c\<lparr>engine := e'\<rparr>)"
    using e'(1) assms(2) by (simp add: handleMessage.simps decode_def onTL_def andThen_def p d handleBadMsg_def
        BadServerSaltTypeID_def BadMsgNotificationTypeID_def NewSessionCreatedTypeID_def modify_def notifyError_def)
  then show "\<exists>e'. handleMessage D (Suc n) now x (BadServerSalt_Encode bad []) c = (Inr (), c\<lparr>engine := e'\<rparr>) \<and>
      answered (bssBadMsgID bad) (Inl (RpcError (BadMessage 48 (bssNewServerSalt bad) False))) e'"
    using e'(2) by blast
  define c2 where "c2 = (storeSalt (bssNewServerSalt bad) cf)\<lparr>futureSalts := []\<rparr>"
  have "Invoke_loop doRPC now retries i seqNo cs = Invoke_loop doRPC now (Suc retries) i seqNo c2"
    using assms(4,5) by (subst Invoke_loop.simps) (simp add: codeIncorrectServerSalt_def Salts_Reset_def c2_def)
  moreover have "sSalt (fst (session t c2)) = bssNewServerSalt bad" for t
    by (simp add: session_eq c2_def updateSalt_def Salts_Get.simps storeSalt_def)
  moreover have "engine c2 = engine cf" by (simp add: c2_def storeSalt_def)
  ultimately show "\<exists>c2. Invoke_loop doRPC now retries i seqNo cs = Invoke_loop doRPC now (Suc retries) i seqNo c2 \<and>
      engine c2 = engine cf \<and> (\<forall>t. sSalt (fst (session t c2)) = bssNewServerSalt bad)" by blast
qed

definition bad0 :: BadServerSalt where
  "bad0 = \<lparr>bssBadMsgID = 20, bssBadMsgSeqno = 1, bssErrorCode = 48, bssNewServerSalt = 77\<rparr>"

theorem bad_salt_is_replaced_witness:
  "\<exists>c2 :: unit conn. Invoke_loop (\<lambda>_ _ c. (if salt c = 77 then None else Some (RpcError (BadMessage 48 77 False)), c)) 0 0 20 1
      (conn0\<lparr>engine := engine0\<rparr>) =
    Invoke_loop (\<lambda>_ _ c. (if salt c = 77 then None else Some (RpcError (BadMessage 48 77 False)), c)) 0 1 20 1 c2 \<and>
    (\<forall>t. sSalt (fst (session t c2)) = 77)"
proof -
  have "salt (conn0\<lparr>engine := engine0\<rparr>) = 0" by (simp add: conn0_def)
  then show ?thesis
    using bad_salt_is_replaced[where bad = bad0 and c = "conn0\<lparr>engine := engine0\<rparr>" and cs = "conn0\<lparr>engine := engine0\<rparr>"
      and cf = "conn0\<lparr>engine := engine0\<rparr>" and doRPC = "\<lambda>_ _ c. (if salt c = 77 then None else Some (RpcError (BadMessage 48 77 False)), c)"
      and retries = 0 and i = 20 and seqNo = 1 and now = 0 and D = deps0 and n = 0 and x = 0]
    by (auto simp: bad0_def BadServerSalt_ok_def awaits0)
qed

lemma nextMsgSeq_world: "world (snd (nextMsgSeq now b c)) = world c"
  by (simp add: nextMsgSeq_def newMessageID_conn_def Let_def split: prod.split)

lemma Invoke_loop_tries:
  fixes c :: "nat conn"
  assumes "\<And>i s c. world (snd (doRPC i s c)) = Suc (world c)" "2 - retries = k"
  shows "world (snd (Invoke_loop doRPC now retries i seqNo c)) \<le> world c + Suc k"
  using assms(2)
proof (induction k arbitrary: retries i seqNo c)
  case 0
  then show ?case using assms(1)[of i seqNo c] by (subst Invoke_loop.simps) (simp split: prod.split)
next
  case (Suc k)
  obtain err c1 where d: "doRPC i seqNo c = (err, c1)" by force
  have w: "world c1 = Suc (world c)" using assms(1)[of i seqNo c] d by simp
  have again: "world (snd (Invoke_loop doRPC now (Suc retries) i' s' c2)) \<le> world c + Suc (Suc k)" if "world c2 = Suc (world c)" for i' s' c2
    using Suc.IH[of "Suc retries" i' s' c2] Suc.prems that w by simp
  obtain i' s' c2 where n: "nextMsgSeq now True c1 = ((i', s'), c2)" by (metis prod.exhaust)
  have "world c2 = world c1" using nextMsgSeq_world[of now True c1] n by simp
  moreover have "world (storeSalt s c1) = world c1" for s by (simp add: storeSalt_def)
  ultimately show ?case
    using w by (subst Invoke_loop.simps)
      (auto simp: d n Let_def again[simplified] split: option.split rpc_err.split rpc_failure.split)
qed

text \<open>a request is sent at most three times by \<open>Invoke\<close>, whatever its failures: with \<open>world\<close>
  counting the calls of the engine, no answer of the server, new salts and new clocks included,
  makes it try a fourth time.\<close>

theorem requests_are_tried_thrice:
  fixes c :: "nat conn"
  assumes "\<And>i s c. world (snd (doRPC i s c)) = Suc (world c)"
  shows "world (snd (Invoke doRPC now c)) \<le> world c + 3"
proof -
  obtain i s c2 where n: "nextMsgSeq now True c = ((i, s), c2)" by (metis prod.exhaust)
  have "world c2 = world c" using nextMsgSeq_world[of now True c] n by simp
  then show ?thesis
    using Invoke_loop_tries[OF assms, where retries = 0 and k = 2 and now = now and i = i and seqNo = s and c = c2] by (simp add: Invoke_def n)
qed

definition counting :: "unit conn \<Rightarrow> nat conn" where
  "counting c = \<lparr>serverTimeOffset = 0, salt = salt c, sessionID = sessionID c, authKey = authKey c, futureSalts = [],
     messageIDs = messageIDs c, messageIDBuf = messageIDBuf c, sentContentMessages = 0, pings = {}, pongs = {}, gotSession = False,
     ackSent = [], ackBuf = [], engine = engine c, world = 0\<rparr>"

theorem requests_are_tried_thrice_witness:
  "world (snd (Invoke (\<lambda>_ _ c. (Some (RpcError (BadMessage 48 77 False)), c\<lparr>world := Suc (world c)\<rparr>)) 0 (counting conn0))) \<le> 3"
  using requests_are_tried_thrice[of "\<lambda>_ _ c. (Some (RpcError (BadMessage 48 77 False)), c\<lparr>world := Suc (world c)\<rparr>)" 0 "counting conn0"]
  by (simp add: counting_def)

end
