(* ===== verification/ExTypes.thy ===== *)
theory ExTypes
  imports MtTypes
begin

text \<open>
  The messages of the key exchange, \<open>pkg/gotd/mt\<close>: records, identifiers and coders as in
  \<open>MtTypes\<close>, and the three classes whose constructor is told by the identifier.
\<close>

section \<open>Byte strings and nonces on the wire\<close>

definition wBytes :: "bytes \<Rightarrow> bytes" where "wBytes s = PutBytes s []"

lemma wire_put_bytes [wire]: "PutBytes s b = b @ wBytes s" "PutInt128 v b = b @ v" "PutInt256 v b = b @ v"
  using tl_bytes.put_append[of s b] by (simp_all add: wBytes_def PutInt128_def PutInt256_def)

lemma wire_get_bytes [wire]:
  "length s < 2 ^ 24 \<Longrightarrow> Bytes (wBytes s @ rest) = (Inr s, rest)"
  "length v = 16 \<Longrightarrow> Int128 (v @ rest) = (Inr v, rest)"
  "length u = 32 \<Longrightarrow> Int256 (u @ rest) = (Inr u, rest)"
  using tl_bytes.get_put[of s rest] by (simp_all add: wBytes_def Int128_eq Int256_eq)

text \<open>Readers whose values have a property.\<close>

definition gives :: "('a \<Rightarrow> bool) \<Rightarrow> 'a decoder \<Rightarrow> bool" where
  "gives P get \<longleftrightarrow> (\<forall>b x b'. get b = (Inr x, b') \<longrightarrow> P x)"

named_theorems gives_intros \<open>what readers give\<close>

lemma decodeBytes_length: "decodeBytes b = Inr (n, v) \<Longrightarrow> length v < 2 ^ 24"
proof -
  have "unat ((ucast (x :: byte) :: 32 word) OR push_bit 8 (ucast (y :: byte)) OR push_bit 16 (ucast (z :: byte))) < 2 ^ 24" for x y z
    using unle_bound[of "[x, y, z]"] by (simp only: unat_or_shift24) simp
  then show "decodeBytes b = Inr (n, v) \<Longrightarrow> length v < 2 ^ 24"
    using unsigned_less[of "hd b"]
    by (auto simp: decodeBytes_eq Let_def maxSmallStringLength_def split: list.splits if_splits)
qed

lemma gives_prims [gives_intros]:
  "gives int64_range Long" "gives int32_range Int_buf" "gives (\<lambda>v. length v = 16) Int128"
  "gives (\<lambda>v. length v = 32) Int256" "gives (\<lambda>v. length v < 2 ^ 24) Bytes" "P x \<Longrightarrow> gives P (ret x)" "gives P (fail e)"
  "gives (\<lambda>n. 0 \<le> n \<and> n < 2 ^ 31) VectorHeader" "gives (\<lambda>_. True) (ConsumeID i)" "gives (\<lambda>_. True) PeekID"
proof -
  show "gives int64_range Long" "gives int32_range Int_buf"
    using sint_ge[where ?'a = 64] sint_lt[where ?'a = 64] sint_ge[where ?'a = 32] sint_lt[where ?'a = 32]
    by (auto simp: gives_def tl_defs andThen_def ret_def split: if_splits)
  then show "gives (\<lambda>n. 0 \<le> n \<and> n < 2 ^ 31) VectorHeader"
    unfolding gives_def VectorHeader_def andThen_eq_Inr_iff by (fastforce simp: ret_def fail_def split: if_splits)
qed (auto simp: gives_def Int128_eq Int256_eq Bytes_eq ret_def fail_def dest: decodeBytes_length split: if_splits sum.splits)

lemma gives_andThen [gives_intros]: "gives P m \<Longrightarrow> (\<And>a. P a \<Longrightarrow> gives Q (f a)) \<Longrightarrow> gives Q (andThen m f)"
  unfolding gives_def andThen_eq_Inr_iff by blast

lemma gives_loop: "gives P get \<Longrightarrow> gives (\<lambda>xs. length xs = n \<and> (\<forall>x \<in> set xs. P x)) (get_loop n get)"
  by (induction n) (fastforce simp: gives_def andThen_eq_Inr_iff ret_def)+

lemmas gives_steps = gives_prims(1-5,8-10)[THEN gives_andThen] gives_loop[OF gives_prims(1), THEN gives_andThen]

text \<open>A serialised type whose reader gives well-formed values only, so that what was read can be written
  and read again.\<close>

locale tl_typed = tl_type +
  assumes gives_valid: "gives valid get"
begin

lemma get_valid: "get b = (Inr x, b') \<Longrightarrow> valid x"
  using gives_valid unfolding gives_def by blast

lemma reread: "get b = (Inr x, b') \<Longrightarrow> get (put x [] @ r) = (Inr x, r)"
  using get_valid get_put by blast

end


record ReqPqRequest =
  rpqNonce :: bytes

definition ReqPqRequestTypeID :: "32 word" where "ReqPqRequestTypeID = 0x60469778"

definition ReqPqRequest_EncodeBare :: "ReqPqRequest \<Rightarrow> bytes \<Rightarrow> bytes" where
  "ReqPqRequest_EncodeBare x b =
     PutInt128 (rpqNonce x) b"

definition ReqPqRequest_Encode :: "ReqPqRequest \<Rightarrow> bytes \<Rightarrow> bytes" where
  "ReqPqRequest_Encode x b = ReqPqRequest_EncodeBare x (PutID ReqPqRequestTypeID b)"

definition ReqPqRequest_DecodeBare :: "ReqPqRequest decoder" where
  "ReqPqRequest_DecodeBare =
     andThen Int128 (\<lambda>v0. ret \<lparr>rpqNonce = v0\<rparr>)"

definition ReqPqRequest_Decode :: "ReqPqRequest decoder" where
  "ReqPqRequest_Decode = andThen (ConsumeID ReqPqRequestTypeID) (\<lambda>_. ReqPqRequest_DecodeBare)"

record ReqPqMultiRequest =
  rpmNonce :: bytes

definition ReqPqMultiRequestTypeID :: "32 word" where "ReqPqMultiRequestTypeID = 0xbe7e8ef1"

definition ReqPqMultiRequest_EncodeBare :: "ReqPqMultiRequest \<Rightarrow> bytes \<Rightarrow> bytes" where
  "ReqPqMultiRequest_EncodeBare x b =
     PutInt128 (rpmNonce x) b"

definition ReqPqMultiRequest_Encode :: "ReqPqMultiRequest \<Rightarrow> bytes \<Rightarrow> bytes" where
  "ReqPqMultiRequest_Encode x b = ReqPqMultiRequest_EncodeBare x (PutID ReqPqMultiRequestTypeID b)"

definition ReqPqMultiRequest_DecodeBare :: "ReqPqMultiRequest decoder" where
  "ReqPqMultiRequest_DecodeBare =
     andThen Int128 (\<lambda>v0. ret \<lparr>rpmNonce = v0\<rparr>)"

definition ReqPqMultiRequest_Decode :: "ReqPqMultiRequest decoder" where
  "ReqPqMultiRequest_Decode = andThen (ConsumeID ReqPqMultiRequestTypeID) (\<lambda>_. ReqPqMultiRequest_DecodeBare)"

record ResPQ =
  resNonce :: bytes
  resServerNonce :: bytes
  resPq :: bytes
  resFingerprints :: "int list"

definition ResPQTypeID :: "32 word" where "ResPQTypeID = 0x5162463"

definition ResPQ_EncodeBare :: "ResPQ \<Rightarrow> bytes \<Rightarrow> bytes" where
  "ResPQ_EncodeBare x b =
     fold PutLong (resFingerprints x) (PutVectorHeader (int (length (resFingerprints x))) (PutBytes (resPq x) (PutInt128 (resServerNonce x) (PutInt128 (resNonce x) b))))"

definition ResPQ_Encode :: "ResPQ \<Rightarrow> bytes \<Rightarrow> bytes" where
  "ResPQ_Encode x b = ResPQ_EncodeBare x (PutID ResPQTypeID b)"

definition ResPQ_DecodeBare :: "ResPQ decoder" where
  "ResPQ_DecodeBare =
     andThen Int128 (\<lambda>v0. andThen Int128 (\<lambda>v1. andThen Bytes (\<lambda>v2. andThen VectorHeader (\<lambda>n3. andThen (get_loop (nat n3) Long) (\<lambda>v3. 
     ret \<lparr>resNonce = v0, resServerNonce = v1, resPq = v2, resFingerprints = v3\<rparr>)))))"

definition ResPQ_Decode :: "ResPQ decoder" where
  "ResPQ_Decode = andThen (ConsumeID ResPQTypeID) (\<lambda>_. ResPQ_DecodeBare)"

record PQInnerData =
  pqdPq :: bytes
  pqdP :: bytes
  pqdQ :: bytes
  pqdNonce :: bytes
  pqdServerNonce :: bytes
  pqdNewNonce :: bytes

definition PQInnerDataTypeID :: "32 word" where "PQInnerDataTypeID = 0x83c95aec"

definition PQInnerData_EncodeBare :: "PQInnerData \<Rightarrow> bytes \<Rightarrow> bytes" where
  "PQInnerData_EncodeBare x b =
     PutInt256 (pqdNewNonce x) (PutInt128 (pqdServerNonce x) (PutInt128 (pqdNonce x) (PutBytes (pqdQ x) (PutBytes (pqdP x) (PutBytes (pqdPq x) b)))))"

definition PQInnerData_Encode :: "PQInnerData \<Rightarrow> bytes \<Rightarrow> bytes" where
  "PQInnerData_Encode x b = PQInnerData_EncodeBare x (PutID PQInnerDataTypeID b)"

definition PQInnerData_DecodeBare :: "PQInnerData decoder" where
  "PQInnerData_DecodeBare =
     andThen Bytes (\<lambda>v0. andThen Bytes (\<lambda>v1. andThen Bytes (\<lambda>v2. andThen Int128 (\<lambda>v3. 
     andThen Int128 (\<lambda>v4. andThen Int256 (\<lambda>v5. ret \<lparr>pqdPq = v0, pqdP = v1, pqdQ = v2, pqdNonce = v3, pqdServerNonce = v4, pqdNewNonce = v5\<rparr>))))))"

definition PQInnerData_Decode :: "PQInnerData decoder" where
  "PQInnerData_Decode = andThen (ConsumeID PQInnerDataTypeID) (\<lambda>_. PQInnerData_DecodeBare)"

record PQInnerDataDC =
  pqcPq :: bytes
  pqcP :: bytes
  pqcQ :: bytes
  pqcNonce :: bytes
  pqcServerNonce :: bytes
  pqcNewNonce :: bytes
  pqcDC :: int

definition PQInnerDataDCTypeID :: "32 word" where "PQInnerDataDCTypeID = 0xa9f55f95"

definition PQInnerDataDC_EncodeBare :: "PQInnerDataDC \<Rightarrow> bytes \<Rightarrow> bytes" where
  "PQInnerDataDC_EncodeBare x b =
     PutInt (pqcDC x) (PutInt256 (pqcNewNonce x) (PutInt128 (pqcServerNonce x) (PutInt128 (pqcNonce x) (PutBytes (pqcQ x) (PutBytes (pqcP x) (PutBytes (pqcPq x) b))))))"

definition PQInnerDataDC_Encode :: "PQInnerDataDC \<Rightarrow> bytes \<Rightarrow> bytes" where
  "PQInnerDataDC_Encode x b = PQInnerDataDC_EncodeBare x (PutID PQInnerDataDCTypeID b)"

definition PQInnerDataDC_DecodeBare :: "PQInnerDataDC decoder" where
  "PQInnerDataDC_DecodeBare =
     andThen Bytes (\<lambda>v0. andThen Bytes (\<lambda>v1. andThen Bytes (\<lambda>v2. andThen Int128 (\<lambda>v3. 
     andThen Int128 (\<lambda>v4. andThen Int256 (\<lambda>v5. andThen Int_buf (\<lambda>v6. ret \<lparr>pqcPq = v0, pqcP = v1, pqcQ = v2, pqcNonce = v3, pqcServerNonce = v4, pqcNewNonce = v5, pqcDC = v6\<rparr>)))))))"

definition PQInnerDataDC_Decode :: "PQInnerDataDC decoder" where
  "PQInnerDataDC_Decode = andThen (ConsumeID PQInnerDataDCTypeID) (\<lambda>_. PQInnerDataDC_DecodeBare)"

record PQInnerDataTempDC =
  pqtPq :: bytes
  pqtP :: bytes
  pqtQ :: bytes
  pqtNonce :: bytes
  pqtServerNonce :: bytes
  pqtNewNonce :: bytes
  pqtDC :: int
  pqtExpiresIn :: int

definition PQInnerDataTempDCTypeID :: "32 word" where "PQInnerDataTempDCTypeID = 0x56fddf88"

definition PQInnerDataTempDC_EncodeBare :: "PQInnerDataTempDC \<Rightarrow> bytes \<Rightarrow> bytes" where
  "PQInnerDataTempDC_EncodeBare x b =
     PutInt (pqtExpiresIn x) (PutInt (pqtDC x) (PutInt256 (pqtNewNonce x) (PutInt128 (pqtServerNonce x) (PutInt128 (pqtNonce x) (PutBytes (pqtQ x) (PutBytes (pqtP x) (PutBytes (pqtPq x) b)))))))"

definition PQInnerDataTempDC_Encode :: "PQInnerDataTempDC \<Rightarrow> bytes \<Rightarrow> bytes" where
  "PQInnerDataTempDC_Encode x b = PQInnerDataTempDC_EncodeBare x (PutID PQInnerDataTempDCTypeID b)"

definition PQInnerDataTempDC_DecodeBare :: "PQInnerDataTempDC decoder" where
  "PQInnerDataTempDC_DecodeBare =
     andThen Bytes (\<lambda>v0. andThen Bytes (\<lambda>v1. andThen Bytes (\<lambda>v2. andThen Int128 (\<lambda>v3. 
     andThen Int128 (\<lambda>v4. andThen Int256 (\<lambda>v5. andThen Int_buf (\<lambda>v6. andThen Int_buf (\<lambda>v7. 
     ret \<lparr>pqtPq = v0, pqtP = v1, pqtQ = v2, pqtNonce = v3, pqtServerNonce = v4, pqtNewNonce = v5, pqtDC = v6, pqtExpiresIn = v7\<rparr>))))))))"

definition PQInnerDataTempDC_Decode :: "PQInnerDataTempDC decoder" where
  "PQInnerDataTempDC_Decode = andThen (ConsumeID PQInnerDataTempDCTypeID) (\<lambda>_. PQInnerDataTempDC_DecodeBare)"

record ReqDHParamsRequest =
  rdhNonce :: bytes
  rdhServerNonce :: bytes
  rdhP :: bytes
  rdhQ :: bytes
  rdhFingerprint :: int
  rdhEncryptedData :: bytes

definition ReqDHParamsRequestTypeID :: "32 word" where "ReqDHParamsRequestTypeID = 0xd712e4be"

definition ReqDHParamsRequest_EncodeBare :: "ReqDHParamsRequest \<Rightarrow> bytes \<Rightarrow> bytes" where
  "ReqDHParamsRequest_EncodeBare x b =
     PutBytes (rdhEncryptedData x) (PutLong (rdhFingerprint x) (PutBytes (rdhQ x) (PutBytes (rdhP x) (PutInt128 (rdhServerNonce x) (PutInt128 (rdhNonce x) b)))))"

definition ReqDHParamsRequest_Encode :: "ReqDHParamsRequest \<Rightarrow> bytes \<Rightarrow> bytes" where
  "ReqDHParamsRequest_Encode x b = ReqDHParamsRequest_EncodeBare x (PutID ReqDHParamsRequestTypeID b)"

definition ReqDHParamsRequest_DecodeBare :: "ReqDHParamsRequest decoder" where
  "ReqDHParamsRequest_DecodeBare =
     andThen Int128 (\<lambda>v0. andThen Int128 (\<lambda>v1. andThen Bytes (\<lambda>v2. andThen Bytes (\<lambda>v3. 
     andThen Long (\<lambda>v4. andThen Bytes (\<lambda>v5. ret \<lparr>rdhNonce = v0, rdhServerNonce = v1, rdhP = v2, rdhQ = v3, rdhFingerprint = v4, rdhEncryptedData = v5\<rparr>))))))"

definition ReqDHParamsRequest_Decode :: "ReqDHParamsRequest decoder" where
  "ReqDHParamsRequest_Decode = andThen (ConsumeID ReqDHParamsRequestTypeID) (\<lambda>_. ReqDHParamsRequest_DecodeBare)"

record ServerDHParamsFail =
  sdfNonce :: bytes
  sdfServerNonce :: bytes
  sdfNewNonceHash :: bytes

definition ServerDHParamsFailTypeID :: "32 word" where "ServerDHParamsFailTypeID = 0x79cb045d"

definition ServerDHParamsFail_EncodeBare :: "ServerDHParamsFail \<Rightarrow> bytes \<Rightarrow> bytes" where
  "ServerDHParamsFail_EncodeBare x b =
     PutInt128 (sdfNewNonceHash x) (PutInt128 (sdfServerNonce x) (PutInt128 (sdfNonce x) b))"

definition ServerDHParamsFail_Encode :: "ServerDHParamsFail \<Rightarrow> bytes \<Rightarrow> bytes" where
  "ServerDHParamsFail_Encode x b = ServerDHParamsFail_EncodeBare x (PutID ServerDHParamsFailTypeID b)"

definition ServerDHParamsFail_DecodeBare :: "ServerDHParamsFail decoder" where
  "ServerDHParamsFail_DecodeBare =
     andThen Int128 (\<lambda>v0. andThen Int128 (\<lambda>v1. andThen Int128 (\<lambda>v2. ret \<lparr>sdfNonce = v0, sdfServerNonce = v1, sdfNewNonceHash = v2\<rparr>)))"

definition ServerDHParamsFail_Decode :: "ServerDHParamsFail decoder" where
  "ServerDHParamsFail_Decode = andThen (ConsumeID ServerDHParamsFailTypeID) (\<lambda>_. ServerDHParamsFail_DecodeBare)"

record ServerDHParamsOk =
  sdoNonce :: bytes
  sdoServerNonce :: bytes
  sdoEncryptedAnswer :: bytes

definition ServerDHParamsOkTypeID :: "32 word" where "ServerDHParamsOkTypeID = 0xd0e8075c"

definition ServerDHParamsOk_EncodeBare :: "ServerDHParamsOk \<Rightarrow> bytes \<Rightarrow> bytes" where
  "ServerDHParamsOk_EncodeBare x b =
     PutBytes (sdoEncryptedAnswer x) (PutInt128 (sdoServerNonce x) (PutInt128 (sdoNonce x) b))"

definition ServerDHParamsOk_Encode :: "ServerDHParamsOk \<Rightarrow> bytes \<Rightarrow> bytes" where
  "ServerDHParamsOk_Encode x b = ServerDHParamsOk_EncodeBare x (PutID ServerDHParamsOkTypeID b)"

definition ServerDHParamsOk_DecodeBare :: "ServerDHParamsOk decoder" where
  "ServerDHParamsOk_DecodeBare =
     andThen Int128 (\<lambda>v0. andThen Int128 (\<lambda>v1. andThen Bytes (\<lambda>v2. ret \<lparr>sdoNonce = v0, sdoServerNonce = v1, sdoEncryptedAnswer = v2\<rparr>)))"

definition ServerDHParamsOk_Decode :: "ServerDHParamsOk decoder" where
  "ServerDHParamsOk_Decode = andThen (ConsumeID ServerDHParamsOkTypeID) (\<lambda>_. ServerDHParamsOk_DecodeBare)"

record ServerDHInnerData =
  sdiNonce :: bytes
  sdiServerNonce :: bytes
  sdiG :: int
  sdiDhPrime :: bytes
  sdiGA :: bytes
  sdiServerTime :: int

definition ServerDHInnerDataTypeID :: "32 word" where "ServerDHInnerDataTypeID = 0xb5890dba"

definition ServerDHInnerData_EncodeBare :: "ServerDHInnerData \<Rightarrow> bytes \<Rightarrow> bytes" where
  "ServerDHInnerData_EncodeBare x b =
     PutInt (sdiServerTime x) (PutBytes (sdiGA x) (PutBytes (sdiDhPrime x) (PutInt (sdiG x) (PutInt128 (sdiServerNonce x) (PutInt128 (sdiNonce x) b)))))"

definition ServerDHInnerData_Encode :: "ServerDHInnerData \<Rightarrow> bytes \<Rightarrow> bytes" where
  "ServerDHInnerData_Encode x b = ServerDHInnerData_EncodeBare x (PutID ServerDHInnerDataTypeID b)"

definition ServerDHInnerData_DecodeBare :: "ServerDHInnerData decoder" where
  "ServerDHInnerData_DecodeBare =
     andThen Int128 (\<lambda>v0. andThen Int128 (\<lambda>v1. andThen Int_buf (\<lambda>v2. andThen Bytes (\<lambda>v3. 
     andThen Bytes (\<lambda>v4. andThen Int_buf (\<lambda>v5. ret \<lparr>sdiNonce = v0, sdiServerNonce = v1, sdiG = v2, sdiDhPrime = v3, sdiGA = v4, sdiServerTime = v5\<rparr>))))))"

definition ServerDHInnerData_Decode :: "ServerDHInnerData decoder" where
  "ServerDHInnerData_Decode = andThen (ConsumeID ServerDHInnerDataTypeID) (\<lambda>_. ServerDHInnerData_DecodeBare)"

record ClientDHInnerData =
  cdiNonce :: bytes
  cdiServerNonce :: bytes
  cdiRetryID :: int
  cdiGB :: bytes

definition ClientDHInnerDataTypeID :: "32 word" where "ClientDHInnerDataTypeID = 0x6643b654"

definition ClientDHInnerData_EncodeBare :: "ClientDHInnerData \<Rightarrow> bytes \<Rightarrow> bytes" where
  "ClientDHInnerData_EncodeBare x b =
     PutBytes (cdiGB x) (PutLong (cdiRetryID x) (PutInt128 (cdiServerNonce x) (PutInt128 (cdiNonce x) b)))"

definition ClientDHInnerData_Encode :: "ClientDHInnerData \<Rightarrow> bytes \<Rightarrow> bytes" where
  "ClientDHInnerData_Encode x b = ClientDHInnerData_EncodeBare x (PutID ClientDHInnerDataTypeID b)"

definition ClientDHInnerData_DecodeBare :: "ClientDHInnerData decoder" where
  "ClientDHInnerData_DecodeBare =
     andThen Int128 (\<lambda>v0. andThen Int128 (\<lambda>v1. andThen Long (\<lambda>v2. andThen Bytes (\<lambda>v3. 
     ret \<lparr>cdiNonce = v0, cdiServerNonce = v1, cdiRetryID = v2, cdiGB = v3\<rparr>))))"

definition ClientDHInnerData_Decode :: "ClientDHInnerData decoder" where
  "ClientDHInnerData_Decode = andThen (ConsumeID ClientDHInnerDataTypeID) (\<lambda>_. ClientDHInnerData_DecodeBare)"

record SetClientDHParamsRequest =
  scpNonce :: bytes
  scpServerNonce :: bytes
  scpEncryptedData :: bytes

definition SetClientDHParamsRequestTypeID :: "32 word" where "SetClientDHParamsRequestTypeID = 0xf5045f1f"

definition SetClientDHParamsRequest_EncodeBare :: "SetClientDHParamsRequest \<Rightarrow> bytes \<Rightarrow> bytes" where
  "SetClientDHParamsRequest_EncodeBare x b =
     PutBytes (scpEncryptedData x) (PutInt128 (scpServerNonce x) (PutInt128 (scpNonce x) b))"

definition SetClientDHParamsRequest_Encode :: "SetClientDHParamsRequest \<Rightarrow> bytes \<Rightarrow> bytes" where
  "SetClientDHParamsRequest_Encode x b = SetClientDHParamsRequest_EncodeBare x (PutID SetClientDHParamsRequestTypeID b)"

definition SetClientDHParamsRequest_DecodeBare :: "SetClientDHParamsRequest decoder" where
  "SetClientDHParamsRequest_DecodeBare =
     andThen Int128 (\<lambda>v0. andThen Int128 (\<lambda>v1. andThen Bytes (\<lambda>v2. ret \<lparr>scpNonce = v0, scpServerNonce = v1, scpEncryptedData = v2\<rparr>)))"

definition SetClientDHParamsRequest_Decode :: "SetClientDHParamsRequest decoder" where
  "SetClientDHParamsRequest_Decode = andThen (ConsumeID SetClientDHParamsRequestTypeID) (\<lambda>_. SetClientDHParamsRequest_DecodeBare)"

record DhGenOk =
  dgoNonce :: bytes
  dgoServerNonce :: bytes
  dgoNewNonceHash1 :: bytes

definition DhGenOkTypeID :: "32 word" where "DhGenOkTypeID = 0x3bcbf734"

definition DhGenOk_EncodeBare :: "DhGenOk \<Rightarrow> bytes \<Rightarrow> bytes" where
  "DhGenOk_EncodeBare x b =
     PutInt128 (dgoNewNonceHash1 x) (PutInt128 (dgoServerNonce x) (PutInt128 (dgoNonce x) b))"

definition DhGenOk_Encode :: "DhGenOk \<Rightarrow> bytes \<Rightarrow> bytes" where
  "DhGenOk_Encode x b = DhGenOk_EncodeBare x (PutID DhGenOkTypeID b)"

definition DhGenOk_DecodeBare :: "DhGenOk decoder" where
  "DhGenOk_DecodeBare =
     andThen Int128 (\<lambda>v0. andThen Int128 (\<lambda>v1. andThen Int128 (\<lambda>v2. ret \<lparr>dgoNonce = v0, dgoServerNonce = v1, dgoNewNonceHash1 = v2\<rparr>)))"

definition DhGenOk_Decode :: "DhGenOk decoder" where
  "DhGenOk_Decode = andThen (ConsumeID DhGenOkTypeID) (\<lambda>_. DhGenOk_DecodeBare)"

record DhGenRetry =
  dgrNonce :: bytes
  dgrServerNonce :: bytes
  dgrNewNonceHash2 :: bytes

definition DhGenRetryTypeID :: "32 word" where "DhGenRetryTypeID = 0x46dc1fb9"

definition DhGenRetry_EncodeBare :: "DhGenRetry \<Rightarrow> bytes \<Rightarrow> bytes" where
  "DhGenRetry_EncodeBare x b =
     PutInt128 (dgrNewNonceHash2 x) (PutInt128 (dgrServerNonce x) (PutInt128 (dgrNonce x) b))"

definition DhGenRetry_Encode :: "DhGenRetry \<Rightarrow> bytes \<Rightarrow> bytes" where
  "DhGenRetry_Encode x b = DhGenRetry_EncodeBare x (PutID DhGenRetryTypeID b)"

definition DhGenRetry_DecodeBare :: "DhGenRetry decoder" where
  "DhGenRetry_DecodeBare =
     andThen Int128 (\<lambda>v0. andThen Int128 (\<lambda>v1. andThen Int128 (\<lambda>v2. ret \<lparr>dgrNonce = v0, dgrServerNonce = v1, dgrNewNonceHash2 = v2\<rparr>)))"

definition DhGenRetry_Decode :: "DhGenRetry decoder" where
  "DhGenRetry_Decode = andThen (ConsumeID DhGenRetryTypeID) (\<lambda>_. DhGenRetry_DecodeBare)"

record DhGenFail =
  dgfNonce :: bytes
  dgfServerNonce :: bytes
  dgfNewNonceHash3 :: bytes

definition DhGenFailTypeID :: "32 word" where "DhGenFailTypeID = 0xa69dae02"

definition DhGenFail_EncodeBare :: "DhGenFail \<Rightarrow> bytes \<Rightarrow> bytes" where
  "DhGenFail_EncodeBare x b =
     PutInt128 (dgfNewNonceHash3 x) (PutInt128 (dgfServerNonce x) (PutInt128 (dgfNonce x) b))"

definition DhGenFail_Encode :: "DhGenFail \<Rightarrow> bytes \<Rightarrow> bytes" where
  "DhGenFail_Encode x b = DhGenFail_EncodeBare x (PutID DhGenFailTypeID b)"

definition DhGenFail_DecodeBare :: "DhGenFail decoder" where
  "DhGenFail_DecodeBare =
     andThen Int128 (\<lambda>v0. andThen Int128 (\<lambda>v1. andThen Int128 (\<lambda>v2. ret \<lparr>dgfNonce = v0, dgfServerNonce = v1, dgfNewNonceHash3 = v2\<rparr>)))"

definition DhGenFail_Decode :: "DhGenFail decoder" where
  "DhGenFail_Decode = andThen (ConsumeID DhGenFailTypeID) (\<lambda>_. DhGenFail_DecodeBare)"

section \<open>Classes\<close>

datatype PQInnerDataClass =
    PQPlain PQInnerData
  | PQDC PQInnerDataDC
  | PQTempDC PQInnerDataTempDC

definition DecodePQInnerData :: "PQInnerDataClass decoder" where
  "DecodePQInnerData = andThen PeekID (\<lambda>i.
     if i = PQInnerDataTypeID then andThen PQInnerData_Decode (\<lambda>v. ret (PQPlain v))
     else if i = PQInnerDataDCTypeID then andThen PQInnerDataDC_Decode (\<lambda>v. ret (PQDC v))
     else if i = PQInnerDataTempDCTypeID then andThen PQInnerDataTempDC_Decode (\<lambda>v. ret (PQTempDC v))
     else fail (UnexpectedIDErr i))"

datatype ServerDHParamsClass =
    DHParamsFail ServerDHParamsFail
  | DHParamsOk ServerDHParamsOk

definition DecodeServerDHParams :: "ServerDHParamsClass decoder" where
  "DecodeServerDHParams = andThen PeekID (\<lambda>i.
     if i = ServerDHParamsFailTypeID then andThen ServerDHParamsFail_Decode (\<lambda>v. ret (DHParamsFail v))
     else if i = ServerDHParamsOkTypeID then andThen ServerDHParamsOk_Decode (\<lambda>v. ret (DHParamsOk v))
     else fail (UnexpectedIDErr i))"

datatype SetClientDHParamsAnswerClass =
    GenOk DhGenOk
  | GenRetry DhGenRetry
  | GenFail DhGenFail

definition DecodeSetClientDHParamsAnswer :: "SetClientDHParamsAnswerClass decoder" where
  "DecodeSetClientDHParamsAnswer = andThen PeekID (\<lambda>i.
     if i = DhGenOkTypeID then andThen DhGenOk_Decode (\<lambda>v. ret (GenOk v))
     else if i = DhGenRetryTypeID then andThen DhGenRetry_Decode (\<lambda>v. ret (GenRetry v))
     else if i = DhGenFailTypeID then andThen DhGenFail_Decode (\<lambda>v. ret (GenFail v))
     else fail (UnexpectedIDErr i))"

lemmas ex_defs =
  ReqPqRequest_EncodeBare_def ReqPqRequest_Encode_def ReqPqRequest_DecodeBare_def ReqPqRequest_Decode_def
  ReqPqMultiRequest_EncodeBare_def ReqPqMultiRequest_Encode_def ReqPqMultiRequest_DecodeBare_def ReqPqMultiRequest_Decode_def
  ResPQ_EncodeBare_def ResPQ_Encode_def ResPQ_DecodeBare_def ResPQ_Decode_def
  PQInnerData_EncodeBare_def PQInnerData_Encode_def PQInnerData_DecodeBare_def PQInnerData_Decode_def
  PQInnerDataDC_EncodeBare_def PQInnerDataDC_Encode_def PQInnerDataDC_DecodeBare_def PQInnerDataDC_Decode_def
  PQInnerDataTempDC_EncodeBare_def PQInnerDataTempDC_Encode_def PQInnerDataTempDC_DecodeBare_def PQInnerDataTempDC_Decode_def
  ReqDHParamsRequest_EncodeBare_def ReqDHParamsRequest_Encode_def ReqDHParamsRequest_DecodeBare_def ReqDHParamsRequest_Decode_def
  ServerDHParamsFail_EncodeBare_def ServerDHParamsFail_Encode_def ServerDHParamsFail_DecodeBare_def ServerDHParamsFail_Decode_def
  ServerDHParamsOk_EncodeBare_def ServerDHParamsOk_Encode_def ServerDHParamsOk_DecodeBare_def ServerDHParamsOk_Decode_def
  ServerDHInnerData_EncodeBare_def ServerDHInnerData_Encode_def ServerDHInnerData_DecodeBare_def ServerDHInnerData_Decode_def
  ClientDHInnerData_EncodeBare_def ClientDHInnerData_Encode_def ClientDHInnerData_DecodeBare_def ClientDHInnerData_Decode_def
  SetClientDHParamsRequest_EncodeBare_def SetClientDHParamsRequest_Encode_def SetClientDHParamsRequest_DecodeBare_def SetClientDHParamsRequest_Decode_def
  DhGenOk_EncodeBare_def DhGenOk_Encode_def DhGenOk_DecodeBare_def DhGenOk_Decode_def
  DhGenRetry_EncodeBare_def DhGenRetry_Encode_def DhGenRetry_DecodeBare_def DhGenRetry_Decode_def
  DhGenFail_EncodeBare_def DhGenFail_Encode_def DhGenFail_DecodeBare_def DhGenFail_Decode_def

lemmas ex_ids =
  ReqPqRequestTypeID_def
  ReqPqMultiRequestTypeID_def
  ResPQTypeID_def
  PQInnerDataTypeID_def
  PQInnerDataDCTypeID_def
  PQInnerDataTempDCTypeID_def
  ReqDHParamsRequestTypeID_def
  ServerDHParamsFailTypeID_def
  ServerDHParamsOkTypeID_def
  ServerDHInnerDataTypeID_def
  ClientDHInnerDataTypeID_def
  SetClientDHParamsRequestTypeID_def
  DhGenOkTypeID_def
  DhGenRetryTypeID_def
  DhGenFailTypeID_def

section \<open>Round trips and well-formed values\<close>

definition ReqPqRequest_ok :: "ReqPqRequest \<Rightarrow> bool" where
  "ReqPqRequest_ok x \<longleftrightarrow> length (rpqNonce x) = 16"

lemma gives_rpq: "gives ReqPqRequest_ok ReqPqRequest_Decode"
  unfolding ex_defs by (intro gives_steps gives_prims(6)) (auto simp: ReqPqRequest_ok_def nat_less_iff)

interpretation rpq: tl_typed ReqPqRequest_Encode ReqPqRequest_Decode ReqPqRequest_ok
  using gives_rpq by unfold_locales (simp_all add: ex_defs wire ReqPqRequest_ok_def ret_def)

definition ReqPqMultiRequest_ok :: "ReqPqMultiRequest \<Rightarrow> bool" where
  "ReqPqMultiRequest_ok x \<longleftrightarrow> length (rpmNonce x) = 16"

lemma gives_rpm: "gives ReqPqMultiRequest_ok ReqPqMultiRequest_Decode"
  unfolding ex_defs by (intro gives_steps gives_prims(6)) (auto simp: ReqPqMultiRequest_ok_def nat_less_iff)

interpretation rpm: tl_typed ReqPqMultiRequest_Encode ReqPqMultiRequest_Decode ReqPqMultiRequest_ok
  using gives_rpm by unfold_locales (simp_all add: ex_defs wire ReqPqMultiRequest_ok_def ret_def)

definition ResPQ_ok :: "ResPQ \<Rightarrow> bool" where
  "ResPQ_ok x \<longleftrightarrow> length (resNonce x) = 16 \<and> length (resServerNonce x) = 16 \<and> length (resPq x) < 2 ^ 24 \<and> length (resFingerprints x) < 2 ^ 31 \<and> (\<forall>v \<in> set (resFingerprints x). int64_range v)"

lemma gives_res: "gives ResPQ_ok ResPQ_Decode"
  unfolding ex_defs by (intro gives_steps gives_prims(6)) (auto simp: ResPQ_ok_def nat_less_iff)

interpretation res: tl_typed ResPQ_Encode ResPQ_Decode ResPQ_ok
proof
  show "ResPQ_Encode x b = b @ ResPQ_Encode x []" for x b
    by (simp add: ex_defs long.fold_put) (simp add: wire)
  show "ResPQ_Decode (ResPQ_Encode x [] @ rest) = (Inr x, rest)" if "ResPQ_ok x" for x rest
    using that long.get_loop_fold_put[of "resFingerprints x" rest]
    by (simp add: ex_defs long.fold_put ResPQ_ok_def) (simp add: wire ret_def)
qed (rule gives_res)

definition PQInnerData_ok :: "PQInnerData \<Rightarrow> bool" where
  "PQInnerData_ok x \<longleftrightarrow> length (pqdPq x) < 2 ^ 24 \<and> length (pqdP x) < 2 ^ 24 \<and> length (pqdQ x) < 2 ^ 24 \<and> length (pqdNonce x) = 16 \<and> length (pqdServerNonce x) = 16 \<and> length (pqdNewNonce x) = 32"

lemma gives_pqd: "gives PQInnerData_ok PQInnerData_Decode"
  unfolding ex_defs by (intro gives_steps gives_prims(6)) (auto simp: PQInnerData_ok_def nat_less_iff)

interpretation pqd: tl_typed PQInnerData_Encode PQInnerData_Decode PQInnerData_ok
  using gives_pqd by unfold_locales (simp_all add: ex_defs wire PQInnerData_ok_def ret_def)

definition PQInnerDataDC_ok :: "PQInnerDataDC \<Rightarrow> bool" where
  "PQInnerDataDC_ok x \<longleftrightarrow> length (pqcPq x) < 2 ^ 24 \<and> length (pqcP x) < 2 ^ 24 \<and> length (pqcQ x) < 2 ^ 24 \<and> length (pqcNonce x) = 16 \<and> length (pqcServerNonce x) = 16 \<and> length (pqcNewNonce x) = 32 \<and> int32_range (pqcDC x)"

lemma gives_pqc: "gives PQInnerDataDC_ok PQInnerDataDC_Decode"
  unfolding ex_defs by (intro gives_steps gives_prims(6)) (auto simp: PQInnerDataDC_ok_def nat_less_iff)

interpretation pqc: tl_typed PQInnerDataDC_Encode PQInnerDataDC_Decode PQInnerDataDC_ok
  using gives_pqc by unfold_locales (simp_all add: ex_defs wire PQInnerDataDC_ok_def ret_def)

definition PQInnerDataTempDC_ok :: "PQInnerDataTempDC \<Rightarrow> bool" where
  "PQInnerDataTempDC_ok x \<longleftrightarrow> length (pqtPq x) < 2 ^ 24 \<and> length (pqtP x) < 2 ^ 24 \<and> length (pqtQ x) < 2 ^ 24 \<and> length (pqtNonce x) = 16 \<and> length (pqtServerNonce x) = 16 \<and> length (pqtNewNonce x) = 32 \<and> int32_range (pqtDC x) \<and> int32_range (pqtExpiresIn x)"

lemma gives_pqt: "gives PQInnerDataTempDC_ok PQInnerDataTempDC_Decode"
  unfolding ex_defs by (intro gives_steps gives_prims(6)) (auto simp: PQInnerDataTempDC_ok_def nat_less_iff)

interpretation pqt: tl_typed PQInnerDataTempDC_Encode PQInnerDataTempDC_Decode PQInnerDataTempDC_ok
  using gives_pqt by unfold_locales (simp_all add: ex_defs wire PQInnerDataTempDC_ok_def ret_def)

definition ReqDHParamsRequest_ok :: "ReqDHParamsRequest \<Rightarrow> bool" where
  "ReqDHParamsRequest_ok x \<longleftrightarrow> length (rdhNonce x) = 16 \<and> length (rdhServerNonce x) = 16 \<and> length (rdhP x) < 2 ^ 24 \<and> length (rdhQ x) < 2 ^ 24 \<and> int64_range (rdhFingerprint x) \<and> length (rdhEncryptedData x) < 2 ^ 24"

lemma gives_rdh: "gives ReqDHParamsRequest_ok ReqDHParamsRequest_Decode"
  unfolding ex_defs by (intro gives_steps gives_prims(6)) (auto simp: ReqDHParamsRequest_ok_def nat_less_iff)

interpretation rdh: tl_typed ReqDHParamsRequest_Encode ReqDHParamsRequest_Decode ReqDHParamsRequest_ok
  using gives_rdh by unfold_locales (simp_all add: ex_defs wire ReqDHParamsRequest_ok_def ret_def)

definition ServerDHParamsFail_ok :: "ServerDHParamsFail \<Rightarrow> bool" where
  "ServerDHParamsFail_ok x \<longleftrightarrow> length (sdfNonce x) = 16 \<and> length (sdfServerNonce x) = 16 \<and> length (sdfNewNonceHash x) = 16"

lemma gives_sdf: "gives ServerDHParamsFail_ok ServerDHParamsFail_Decode"
  unfolding ex_defs by (intro gives_steps gives_prims(6)) (auto simp: ServerDHParamsFail_ok_def nat_less_iff)

interpretation sdf: tl_typed ServerDHParamsFail_Encode ServerDHParamsFail_Decode ServerDHParamsFail_ok
  using gives_sdf by unfold_locales (simp_all add: ex_defs wire ServerDHParamsFail_ok_def ret_def)

definition ServerDHParamsOk_ok :: "ServerDHParamsOk \<Rightarrow> bool" where
  "ServerDHParamsOk_ok x \<longleftrightarrow> length (sdoNonce x) = 16 \<and> length (sdoServerNonce x) = 16 \<and> length (sdoEncryptedAnswer x) < 2 ^ 24"

lemma gives_sdo: "gives ServerDHParamsOk_ok ServerDHParamsOk_Decode"
  unfolding ex_defs by (intro gives_steps gives_prims(6)) (auto simp: ServerDHParamsOk_ok_def nat_less_iff)

interpretation sdo: tl_typed ServerDHParamsOk_Encode ServerDHParamsOk_Decode ServerDHParamsOk_ok
  using gives_sdo by unfold_locales (simp_all add: ex_defs wire ServerDHParamsOk_ok_def ret_def)

definition ServerDHInnerData_ok :: "ServerDHInnerData \<Rightarrow> bool" where
  "ServerDHInnerData_ok x \<longleftrightarrow> length (sdiNonce x) = 16 \<and> length (sdiServerNonce x) = 16 \<and> int32_range (sdiG x) \<and> length (sdiDhPrime x) < 2 ^ 24 \<and> length (sdiGA x) < 2 ^ 24 \<and> int32_range (sdiServerTime x)"

lemma gives_sdi: "gives ServerDHInnerData_ok ServerDHInnerData_Decode"
  unfolding ex_defs by (intro gives_steps gives_prims(6)) (auto simp: ServerDHInnerData_ok_def nat_less_iff)

interpretation sdi: tl_typed ServerDHInnerData_Encode ServerDHInnerData_Decode ServerDHInnerData_ok
  using gives_sdi by unfold_locales (simp_all add: ex_defs wire ServerDHInnerData_ok_def ret_def)

definition ClientDHInnerData_ok :: "ClientDHInnerData \<Rightarrow> bool" where
  "ClientDHInnerData_ok x \<longleftrightarrow> length (cdiNonce x) = 16 \<and> length (cdiServerNonce x) = 16 \<and> int64_range (cdiRetryID x) \<and> length (cdiGB x) < 2 ^ 24"

lemma gives_cdi: "gives ClientDHInnerData_ok ClientDHInnerData_Decode"
  unfolding ex_defs by (intro gives_steps gives_prims(6)) (auto simp: ClientDHInnerData_ok_def nat_less_iff)

interpretation cdi: tl_typed ClientDHInnerData_Encode ClientDHInnerData_Decode ClientDHInnerData_ok
  using gives_cdi by unfold_locales (simp_all add: ex_defs wire ClientDHInnerData_ok_def ret_def)

definition SetClientDHParamsRequest_ok :: "SetClientDHParamsRequest \<Rightarrow> bool" where
  "SetClientDHParamsRequest_ok x \<longleftrightarrow> length (scpNonce x) = 16 \<and> length (scpServerNonce x) = 16 \<and> length (scpEncryptedData x) < 2 ^ 24"

lemma gives_scp: "gives SetClientDHParamsRequest_ok SetClientDHParamsRequest_Decode"
  unfolding ex_defs by (intro gives_steps gives_prims(6)) (auto simp: SetClientDHParamsRequest_ok_def nat_less_iff)

interpretation scp: tl_typed SetClientDHParamsRequest_Encode SetClientDHParamsRequest_Decode SetClientDHParamsRequest_ok
  using gives_scp by unfold_locales (simp_all add: ex_defs wire SetClientDHParamsRequest_ok_def ret_def)

definition DhGenOk_ok :: "DhGenOk \<Rightarrow> bool" where
  "DhGenOk_ok x \<longleftrightarrow> length (dgoNonce x) = 16 \<and> length (dgoServerNonce x) = 16 \<and> length (dgoNewNonceHash1 x) = 16"

lemma gives_dgo: "gives DhGenOk_ok DhGenOk_Decode"
  unfolding ex_defs by (intro gives_steps gives_prims(6)) (auto simp: DhGenOk_ok_def nat_less_iff)

interpretation dgo: tl_typed DhGenOk_Encode DhGenOk_Decode DhGenOk_ok
  using gives_dgo by unfold_locales (simp_all add: ex_defs wire DhGenOk_ok_def ret_def)

definition DhGenRetry_ok :: "DhGenRetry \<Rightarrow> bool" where
  "DhGenRetry_ok x \<longleftrightarrow> length (dgrNonce x) = 16 \<and> length (dgrServerNonce x) = 16 \<and> length (dgrNewNonceHash2 x) = 16"

lemma gives_dgr: "gives DhGenRetry_ok DhGenRetry_Decode"
  unfolding ex_defs by (intro gives_steps gives_prims(6)) (auto simp: DhGenRetry_ok_def nat_less_iff)

interpretation dgr: tl_typed DhGenRetry_Encode DhGenRetry_Decode DhGenRetry_ok
  using gives_dgr by unfold_locales (simp_all add: ex_defs wire DhGenRetry_ok_def ret_def)

definition DhGenFail_ok :: "DhGenFail \<Rightarrow> bool" where
  "DhGenFail_ok x \<longleftrightarrow> length (dgfNonce x) = 16 \<and> length (dgfServerNonce x) = 16 \<and> length (dgfNewNonceHash3 x) = 16"

lemma gives_dgf: "gives DhGenFail_ok DhGenFail_Decode"
  unfolding ex_defs by (intro gives_steps gives_prims(6)) (auto simp: DhGenFail_ok_def nat_less_iff)

interpretation dgf: tl_typed DhGenFail_Encode DhGenFail_Decode DhGenFail_ok
  using gives_dgf by unfold_locales (simp_all add: ex_defs wire DhGenFail_ok_def ret_def)

lemma no_panic_nonces [panics]: "no_panic Int128" "no_panic Int256"
  by (simp_all add: no_panic_def Int128_eq Int256_eq)

lemma ex_no_panic [panics]:
  "no_panic ReqPqRequest_Decode"
  "no_panic ReqPqMultiRequest_Decode"
  "no_panic ResPQ_Decode"
  "no_panic PQInnerData_Decode"
  "no_panic PQInnerDataDC_Decode"
  "no_panic PQInnerDataTempDC_Decode"
  "no_panic ReqDHParamsRequest_Decode"
  "no_panic ServerDHParamsFail_Decode"
  "no_panic ServerDHParamsOk_Decode"
  "no_panic ServerDHInnerData_Decode"
  "no_panic ClientDHInnerData_Decode"
  "no_panic SetClientDHParamsRequest_Decode"
  "no_panic DhGenOk_Decode"
  "no_panic DhGenRetry_Decode"
  "no_panic DhGenFail_Decode"
  "no_panic DecodePQInnerData" "no_panic DecodeServerDHParams" "no_panic DecodeSetClientDHParamsAnswer"
  by (auto simp: ex_defs DecodePQInnerData_def DecodeServerDHParams_def DecodeSetClientDHParamsAnswer_def panics intro!: panics)

section \<open>Property\<close>

text \<open>A coder that is typed: it writes any well-formed value so that it reads back, whatever it reads is
  well formed, and nothing makes it panic.\<close>

definition typed :: "('a \<Rightarrow> bytes \<Rightarrow> bytes) \<Rightarrow> 'a decoder \<Rightarrow> ('a \<Rightarrow> bool) \<Rightarrow> bool" where
  "typed put get ok \<longleftrightarrow> (\<forall>x rest. ok x \<longrightarrow> get (put x [] @ rest) = (Inr x, rest)) \<and>
     (\<forall>b x b'. get b = (Inr x, b') \<longrightarrow> ok x) \<and> no_panic get"


context tl_typed
begin

lemma typedI: "no_panic get \<Longrightarrow> typed put get valid"
  using get_put gives_valid by (auto simp: typed_def gives_def)

end

lemmas ex_typed =
  rpq.typedI[OF ex_no_panic(1)]
  rpm.typedI[OF ex_no_panic(2)]
  res.typedI[OF ex_no_panic(3)]
  pqd.typedI[OF ex_no_panic(4)]
  pqc.typedI[OF ex_no_panic(5)]
  pqt.typedI[OF ex_no_panic(6)]
  rdh.typedI[OF ex_no_panic(7)]
  sdf.typedI[OF ex_no_panic(8)]
  sdo.typedI[OF ex_no_panic(9)]
  sdi.typedI[OF ex_no_panic(10)]
  cdi.typedI[OF ex_no_panic(11)]
  scp.typedI[OF ex_no_panic(12)]
  dgo.typedI[OF ex_no_panic(13)]
  dgr.typedI[OF ex_no_panic(14)]
  dgf.typedI[OF ex_no_panic(15)]

text \<open>The reader of a constructor accepts only what begins with its identifier, which the class has looked at.\<close>

lemma consumed: "andThen (ConsumeID i) f b = (Inr v, b') \<Longrightarrow> PeekID b = (Inr i, b)"
  by (auto simp: andThen_eq_Inr_iff ConsumeID_eq PeekID_eq split: if_splits)

lemma peeked: "(\<exists>i. PeekID b = (Inr i, b)) \<or> PeekID b = (Inl UnexpectedEOF, b)"
  by (simp add: PeekID_eq)

lemma andThen_con: "andThen m (\<lambda>v. ret (F v)) b = (Inr y, b') \<longleftrightarrow> (\<exists>v. y = F v \<and> m b = (Inr v, b'))"
  by (auto simp: andThen_eq_Inr_iff ret_def)


lemma decoded:
  "PQInnerData_Decode b = (Inr xPQInnerData, b') \<Longrightarrow> PeekID b = (Inr PQInnerDataTypeID, b)"
  "PQInnerDataDC_Decode b = (Inr xPQInnerDataDC, b') \<Longrightarrow> PeekID b = (Inr PQInnerDataDCTypeID, b)"
  "PQInnerDataTempDC_Decode b = (Inr xPQInnerDataTempDC, b') \<Longrightarrow> PeekID b = (Inr PQInnerDataTempDCTypeID, b)"
  "ServerDHParamsFail_Decode b = (Inr xServerDHParamsFail, b') \<Longrightarrow> PeekID b = (Inr ServerDHParamsFailTypeID, b)"
  "ServerDHParamsOk_Decode b = (Inr xServerDHParamsOk, b') \<Longrightarrow> PeekID b = (Inr ServerDHParamsOkTypeID, b)"
  "DhGenOk_Decode b = (Inr xDhGenOk, b') \<Longrightarrow> PeekID b = (Inr DhGenOkTypeID, b)"
  "DhGenRetry_Decode b = (Inr xDhGenRetry, b') \<Longrightarrow> PeekID b = (Inr DhGenRetryTypeID, b)"
  "DhGenFail_Decode b = (Inr xDhGenFail, b') \<Longrightarrow> PeekID b = (Inr DhGenFailTypeID, b)"
  by (auto simp: PQInnerData_Decode_def PQInnerDataDC_Decode_def PQInnerDataTempDC_Decode_def ServerDHParamsFail_Decode_def
      ServerDHParamsOk_Decode_def DhGenOk_Decode_def DhGenRetry_Decode_def DhGenFail_Decode_def dest!: consumed)

lemma DecodePQInnerData_iff:
  "DecodePQInnerData b = (Inr c, b') \<longleftrightarrow>
    (case c of PQPlain x \<Rightarrow> PQInnerData_Decode b = (Inr x, b') | PQDC x \<Rightarrow> PQInnerDataDC_Decode b = (Inr x, b') | PQTempDC x \<Rightarrow> PQInnerDataTempDC_Decode b = (Inr x, b'))"
proof (cases c)
  case (PQPlain x)
  then show ?thesis using peeked[of b] decoded(1)[of b x b']
    by (auto simp: DecodePQInnerData_def andThen_con fail_def ret_def ex_ids split: if_splits)
next
  case (PQDC x)
  then show ?thesis using peeked[of b] decoded(2)[of b x b']
    by (auto simp: DecodePQInnerData_def andThen_con fail_def ret_def ex_ids split: if_splits)
next
  case (PQTempDC x)
  then show ?thesis using peeked[of b] decoded(3)[of b x b']
    by (auto simp: DecodePQInnerData_def andThen_con fail_def ret_def ex_ids split: if_splits)
qed

lemma DecodeServerDHParams_iff:
  "DecodeServerDHParams b = (Inr d, b') \<longleftrightarrow>
    (case d of DHParamsFail x \<Rightarrow> ServerDHParamsFail_Decode b = (Inr x, b') | DHParamsOk x \<Rightarrow> ServerDHParamsOk_Decode b = (Inr x, b'))"
proof (cases d)
  case (DHParamsFail x)
  then show ?thesis using peeked[of b] decoded(4)[of b x b']
    by (auto simp: DecodeServerDHParams_def andThen_con fail_def ret_def ex_ids split: if_splits)
next
  case (DHParamsOk x)
  then show ?thesis using peeked[of b] decoded(5)[of b x b']
    by (auto simp: DecodeServerDHParams_def andThen_con fail_def ret_def ex_ids split: if_splits)
qed

lemma DecodeSetClientDHParamsAnswer_iff:
  "DecodeSetClientDHParamsAnswer b = (Inr e, b') \<longleftrightarrow>
    (case e of GenOk x \<Rightarrow> DhGenOk_Decode b = (Inr x, b') | GenRetry x \<Rightarrow> DhGenRetry_Decode b = (Inr x, b') | GenFail x \<Rightarrow> DhGenFail_Decode b = (Inr x, b'))"
proof (cases e)
  case (GenOk x)
  then show ?thesis using peeked[of b] decoded(6)[of b x b']
    by (auto simp: DecodeSetClientDHParamsAnswer_def andThen_con fail_def ret_def ex_ids split: if_splits)
next
  case (GenRetry x)
  then show ?thesis using peeked[of b] decoded(7)[of b x b']
    by (auto simp: DecodeSetClientDHParamsAnswer_def andThen_con fail_def ret_def ex_ids split: if_splits)
next
  case (GenFail x)
  then show ?thesis using peeked[of b] decoded(8)[of b x b']
    by (auto simp: DecodeSetClientDHParamsAnswer_def andThen_con fail_def ret_def ex_ids split: if_splits)
qed

text \<open>C37: the messages of the key exchange are typed.  Each of them is read back as it was written when
  its numbers fit and its nonces have their size; whatever is read from the network has these; nothing
  makes a reader panic; no two kinds share an identifier, and a class reads exactly its constructors.\<close>

theorem exchange_messages_are_typed:
  "typed ReqPqRequest_Encode ReqPqRequest_Decode ReqPqRequest_ok \<and>
    typed ReqPqMultiRequest_Encode ReqPqMultiRequest_Decode ReqPqMultiRequest_ok \<and>
    typed ResPQ_Encode ResPQ_Decode ResPQ_ok \<and>
    typed PQInnerData_Encode PQInnerData_Decode PQInnerData_ok \<and>
    typed PQInnerDataDC_Encode PQInnerDataDC_Decode PQInnerDataDC_ok \<and>
    typed PQInnerDataTempDC_Encode PQInnerDataTempDC_Decode PQInnerDataTempDC_ok \<and>
    typed ReqDHParamsRequest_Encode ReqDHParamsRequest_Decode ReqDHParamsRequest_ok \<and>
    typed ServerDHParamsFail_Encode ServerDHParamsFail_Decode ServerDHParamsFail_ok \<and>
    typed ServerDHParamsOk_Encode ServerDHParamsOk_Decode ServerDHParamsOk_ok \<and>
    typed ServerDHInnerData_Encode ServerDHInnerData_Decode ServerDHInnerData_ok \<and>
    typed ClientDHInnerData_Encode ClientDHInnerData_Decode ClientDHInnerData_ok \<and>
    typed SetClientDHParamsRequest_Encode SetClientDHParamsRequest_Decode SetClientDHParamsRequest_ok \<and>
    typed DhGenOk_Encode DhGenOk_Decode DhGenOk_ok \<and>
    typed DhGenRetry_Encode DhGenRetry_Decode DhGenRetry_ok \<and>
    typed DhGenFail_Encode DhGenFail_Decode DhGenFail_ok \<and>
    distinct [ReqPqRequestTypeID, ReqPqMultiRequestTypeID, ResPQTypeID, PQInnerDataTypeID, PQInnerDataDCTypeID, PQInnerDataTempDCTypeID, ReqDHParamsRequestTypeID, ServerDHParamsFailTypeID, ServerDHParamsOkTypeID, ServerDHInnerDataTypeID, ClientDHInnerDataTypeID, SetClientDHParamsRequestTypeID, DhGenOkTypeID, DhGenRetryTypeID, DhGenFailTypeID] \<and>
    (DecodePQInnerData b = (Inr c, b') \<longleftrightarrow>
      (case c of PQPlain v \<Rightarrow> PQInnerData_Decode b = (Inr v, b') | PQDC v \<Rightarrow> PQInnerDataDC_Decode b = (Inr v, b')
        | PQTempDC v \<Rightarrow> PQInnerDataTempDC_Decode b = (Inr v, b'))) \<and>
    (DecodeServerDHParams b = (Inr d, b') \<longleftrightarrow>
      (case d of DHParamsFail v \<Rightarrow> ServerDHParamsFail_Decode b = (Inr v, b') | DHParamsOk v \<Rightarrow> ServerDHParamsOk_Decode b = (Inr v, b'))) \<and>
    (DecodeSetClientDHParamsAnswer b = (Inr e, b') \<longleftrightarrow>
      (case e of GenOk v \<Rightarrow> DhGenOk_Decode b = (Inr v, b') | GenRetry v \<Rightarrow> DhGenRetry_Decode b = (Inr v, b')
        | GenFail v \<Rightarrow> DhGenFail_Decode b = (Inr v, b')))"
proof (intro conjI)
  show "distinct [ReqPqRequestTypeID, ReqPqMultiRequestTypeID, ResPQTypeID, PQInnerDataTypeID, PQInnerDataDCTypeID, PQInnerDataTempDCTypeID, ReqDHParamsRequestTypeID, ServerDHParamsFailTypeID, ServerDHParamsOkTypeID, ServerDHInnerDataTypeID, ClientDHInnerDataTypeID, SetClientDHParamsRequestTypeID, DhGenOkTypeID, DhGenRetryTypeID, DhGenFailTypeID]" by (simp add: ex_ids)
qed (simp_all add: ex_typed DecodePQInnerData_iff DecodeServerDHParams_iff DecodeSetClientDHParamsAnswer_iff)

end
