(* ===== verification/Kex.thy ===== *)
theory Kex
  imports ExTypes Cipher ProtoMsg
begin

text \<open>
  The arithmetic and the envelopes of the key exchange, \<open>pkg/gotd/crypto\<close>: factoring, checks of
  Diffie-Hellman parameters, RSA with padding, data with a hash, temporary keys.  A \<open>big.Int\<close> that
  is never negative is a \<open>nat\<close>.  The random source is the list of the bytes it will give, so a
  loop that draws until it is content ends with \<open>RandEOF\<close> when they are used up.
\<close>

datatype kex_err =
    KProto proto_err
  | KDuplicate
  | RandEOF
  | KPanic
  | BadPrimeSize
  | BadGenerator int
  | NotResidue
  | NotPrime
  | NotSafePrime
  | BadRange string
  | DataTooLong nat
  | BadLength nat
  | InvalidEncryptedData
  | HashMismatch
  | ErrVerification

type_synonym 'a drawing = "(bytes, kex_err, 'a) prog"

definition draw :: "nat \<Rightarrow> bytes drawing" where
  "draw n tape = (if length tape < n then (Inl RandEOF, []) else (Inr (take n tape), drop n tape))"

section \<open>Natural numbers as bytes\<close>

text \<open>\<open>SetBytes\<close>, \<open>Bytes\<close> and \<open>FillBytes\<close> of \<open>big.Int\<close>.\<close>

definition SetBytes :: "bytes \<Rightarrow> nat" where "SetBytes b = unle (rev b)"

fun le_bytes :: "nat \<Rightarrow> bytes" where
  "le_bytes n = (if n = 0 then [] else word_of_nat n # le_bytes (n div 256))"

declare le_bytes.simps [simp del]

definition big_Bytes :: "nat \<Rightarrow> bytes" where "big_Bytes n = rev (le_bytes n)"

fun BitLen :: "nat \<Rightarrow> nat" where
  "BitLen n = (if n = 0 then 0 else Suc (BitLen (n div 2)))"

declare BitLen.simps [simp del]

definition FillBytes :: "nat \<Rightarrow> nat \<Rightarrow> bytes option" where
  "FillBytes b to = (if (BitLen b + 7) div 8 > to then None else Some (be to b))"

definition Exp :: "nat \<Rightarrow> nat \<Rightarrow> nat \<Rightarrow> nat" where "Exp x y m = x ^ y mod m"

text \<open>\<open>rand.Int\<close> for a limit of \<open>2 ^ (8 * k)\<close>: it never has to draw again.\<close>

definition rand_Int :: "nat \<Rightarrow> nat drawing" where
  "rand_Int k = andThen (draw k) (\<lambda>b. ret (SetBytes b))"

lemma le_bytes_le: "\<exists>k. le_bytes n = le k n \<and> n < 256 ^ k"
proof (induction n rule: le_bytes.induct)
  case (1 n)
  show ?case
  proof (cases "n = 0")
    case True
    then show ?thesis by (intro exI[of _ 0]) (simp add: le_bytes.simps)
  next
    case False
    with 1 obtain k where "le_bytes (n div 256) = le k (n div 256)" "n div 256 < 256 ^ k" by blast
    with False show ?thesis by (intro exI[of _ "Suc k"]) (simp add: le_bytes.simps[of n] less_mult_imp_div_less div_less_iff_less_mult mult.commute)
  qed
qed

lemma SetBytes_Bytes [simp]: "SetBytes (big_Bytes n) = n"
proof -
  obtain k where "le_bytes n = le k n" "n < 256 ^ k" using le_bytes_le by blast
  then show ?thesis by (simp add: SetBytes_def big_Bytes_def unle_le)
qed

lemma SetBytes_be [simp]: "SetBytes (be k n) = n mod 256 ^ k"
  by (simp add: SetBytes_def be_def unle_le)

lemma be_SetBytes [simp]: "length b = k \<Longrightarrow> be k (SetBytes b) = b"
  using le_unle[of "rev b"] by (simp add: SetBytes_def be_def)

lemma SetBytes_bound: "SetBytes b < 256 ^ length b"
  using unle_bound[of "rev b"] by (simp add: SetBytes_def)

lemma length_be [simp]: "length (be k n) = k"
  by (simp add: be_def)

lemma length_Bytes: "n < 256 ^ k \<Longrightarrow> length (big_Bytes n) \<le> k"
proof (induction k arbitrary: n)
  case 0
  then show ?case by (simp add: big_Bytes_def le_bytes.simps)
next
  case (Suc k)
  have "length (big_Bytes n) \<le> Suc (length (big_Bytes (n div 256)))"
    by (simp add: big_Bytes_def le_bytes.simps[of n])
  also have "\<dots> \<le> Suc k" using Suc by (simp add: div_less_iff_less_mult mult.commute)
  finally show ?case by simp
qed

lemma BitLen_0 [simp]: "BitLen 0 = 0"
  by (simp add: BitLen.simps)

lemma BitLen_le: "BitLen n \<le> k \<longleftrightarrow> n < 2 ^ k"
proof (induction k arbitrary: n)
  case 0
  show ?case by (cases "n = 0") (simp_all add: BitLen.simps[of n])
next
  case (Suc k)
  have "n div 2 < 2 ^ k \<longleftrightarrow> n < 2 ^ Suc k" by (simp add: div_less_iff_less_mult mult.commute)
  then show ?case using Suc[of "n div 2"] by (cases "n = 0") (simp_all add: BitLen.simps[of n])
qed

lemma FillBytes_fits: "n < 256 ^ k \<Longrightarrow> FillBytes n k = Some (be k n)"
proof -
  assume "n < 256 ^ k"
  then have "n < 2 ^ (8 * k)" by (simp add: power_mult)
  then have "BitLen n \<le> 8 * k" using BitLen_le by blast
  then show ?thesis by (auto simp: FillBytes_def)
qed

section \<open>Factoring\<close>

text \<open>The product by doubling, modulo \<open>what\<close>, added to \<open>c\<close>.\<close>

function mul_loop :: "nat \<Rightarrow> nat \<Rightarrow> nat \<Rightarrow> nat \<Rightarrow> nat" where
  "mul_loop what a b c =
     (if b = 0 then c
      else let c = (if b AND 1 > 0 then (if c + a \<ge> what then c + a - what else c + a) else c);
               a = (if a + a \<ge> what then a + a - what else a + a)
           in mul_loop what a (drop_bit 1 b) c)"
  by pat_completeness auto
termination by (relation "measure (\<lambda>(_, _, b, _). b)") (auto simp: drop_bit_eq_div)

declare mul_loop.simps [simp del]

text \<open>The search in one attempt, from the \<open>j\<close>-th step on: \<open>g\<close> is the last divisor found.\<close>

function rho_loop :: "nat \<Rightarrow> nat \<Rightarrow> nat \<Rightarrow> nat \<Rightarrow> nat \<Rightarrow> nat \<Rightarrow> nat \<Rightarrow> nat" where
  "rho_loop what v lim j x y g =
     (if j < lim then
        let x = mul_loop what x x v;
            z = (if x < y then what + x - y else x - y);
            g = gcd z what;
            y = (if j AND (j - 1) = 0 then x else y)
        in if g \<noteq> 1 then g else rho_loop what v lim (j + 1) x y g
      else g)"
  by pat_completeness auto
termination by (relation "measure (\<lambda>(_, _, lim, j, _). lim - j)") auto

declare rho_loop.simps [simp del]

text \<open>\<open>1 << (i + 18)\<close> of an \<open>int\<close>; from \<open>i = 45\<close> on it is not positive.\<close>

definition rho_limit :: "nat \<Rightarrow> nat" where "rho_limit i = (if i < 45 then 2 ^ (i + 18) else 0)"

text \<open>The attempts: \<open>Mod\<close> of \<open>big.Int\<close> panics on 0.\<close>

function attempts :: "nat \<Rightarrow> nat \<Rightarrow> nat \<Rightarrow> nat drawing" where
  "attempts what i g tape =
     (if 1 < g \<and> g < what then (Inr g, tape)
      else case rand_Int 8 tape of
        (Inl e, tape) \<Rightarrow> (Inl e, tape)
      | (Inr v, tape1) \<Rightarrow>
          if what = 0 then (Inl KPanic, tape1)
          else let v = ((v AND 15) + 17) mod what in
            (case rand_Int 8 tape1 of
               (Inl e, tape) \<Rightarrow> (Inl e, tape)
             | (Inr x, tape2) \<Rightarrow>
                 if what = 1 then (Inl KPanic, tape2)
                 else let x = x mod (what - 1) + 1
                      in attempts what (i + 1) (rho_loop what v (rho_limit i) 1 x x g) tape2))"
  by pat_completeness auto
termination
  by (relation "measure (\<lambda>(_, _, _, tape). length tape)")
    (auto simp: rand_Int_def draw_def andThen_def ret_def split: if_splits)

declare attempts.simps [simp del]

definition DecomposePQ :: "nat \<Rightarrow> (nat \<times> nat) drawing" where
  "DecomposePQ pq = andThen (attempts pq 0 0) (\<lambda>g.
     let p = g; q = pq div g in ret (if p > q then (q, p) else (p, q)))"

lemma sub_mod: "x < 2 * n \<Longrightarrow> (if x \<ge> n then x - n else x) = x mod (n :: nat)"
  by (simp add: le_mod_geq)

lemma mod_linear: "(x mod w + y mod w * k) mod w = (x + y * k) mod (w :: nat)"
  by (metis mod_add_left_eq mod_add_right_eq mod_mult_left_eq)

lemma mul_loop_step:
  assumes "a < what" "c < what" "b \<noteq> 0"
  shows "mul_loop what a b c = mul_loop what ((2 * a) mod what) (b div 2) ((c + (b mod 2) * a) mod what)"
proof -
  have odd: "b AND 1 > 0 \<longleftrightarrow> odd b" by (simp add: and_one_eq odd_iff_mod_2_eq_one)
  have "(if b AND 1 > 0 then (if c + a \<ge> what then c + a - what else c + a) else c) = (c + (b mod 2) * a) mod what"
    using assms(1,2) sub_mod[of "c + a" what] by (auto simp: odd odd_iff_mod_2_eq_one)
  moreover have "(if a + a \<ge> what then a + a - what else a + a) = (2 * a) mod what"
    using assms(1) sub_mod[of "a + a" what] by (simp add: mult_2)
  ultimately show ?thesis
    using assms(3) by (simp only: mul_loop.simps[of what a b c] Let_def if_False drop_bit_Suc drop_bit_0 drop_bit_eq_div power_one_right)
qed

lemma mul_loop_correct: "a < what \<Longrightarrow> c < what \<Longrightarrow> mul_loop what a b c = (c + a * b) mod what"
proof (induction b arbitrary: a c rule: less_induct)
  case (less b)
  show ?case
  proof (cases "b = 0")
    case True
    then show ?thesis using less.prems by (simp add: mul_loop.simps)
  next
    case False
    have "mul_loop what a b c = ((c + (b mod 2) * a) mod what + (2 * a) mod what * (b div 2)) mod what"
      unfolding mul_loop_step[OF less.prems False] using False less.prems by (intro less.IH) auto
    also have "\<dots> = (c + (b mod 2) * a + 2 * a * (b div 2)) mod what" by (rule mod_linear)
    also have "c + (b mod 2) * a + 2 * a * (b div 2) = c + a * (b mod 2 + 2 * (b div 2))" by (simp only: distrib_left mult.commute mult.left_commute add.assoc)
    finally show ?thesis by (simp only: mod_mult_div_eq)
  qed
qed

lemma rho_loop_divides: "g = 0 \<or> g dvd what \<Longrightarrow> rho_loop what v lim j x y g = 0 \<or> rho_loop what v lim j x y g dvd what"
proof (induction what v lim j x y g rule: rho_loop.induct)
  case (1 what v lim j x y g)
  then show ?case by (subst (1 2) rho_loop.simps) (auto simp: Let_def)
qed

lemma attempts_divides:
  "attempts what i g tape = (Inr g', tape') \<Longrightarrow> g = 0 \<or> g dvd what \<Longrightarrow>
    1 < g' \<and> g' < what \<and> g' dvd what \<and> (\<exists>n. tape' = drop (16 * n) tape)"
proof (induction what i g tape rule: attempts.induct)
  case (1 what i g tape)
  show ?case
  proof (cases "1 < g \<and> g < what")
    case True
    then show ?thesis using 1(2,3) by (auto simp: attempts.simps intro: exI[of _ 0])
  next
    case False
    with 1(2) obtain v x where draws: "rand_Int 8 tape = (Inr v, drop 8 tape)" "rand_Int 8 (drop 8 tape) = (Inr x, drop 16 tape)"
      "what \<noteq> 0" "what \<noteq> 1"
      by (auto simp: attempts.simps[of what i g] rand_Int_def draw_def andThen_def ret_def Let_def split: if_splits)
    define g1 where "g1 = rho_loop what (((v AND 15) + 17) mod what) (rho_limit i) 1 (x mod (what - 1) + 1) (x mod (what - 1) + 1) g"
    have next_one: "attempts what (i + 1) g1 (drop 16 tape) = (Inr g', tape')"
      using 1(2) False draws by (auto simp: attempts.simps[of what i g] g1_def Let_def)
    have "1 < g' \<and> g' < what \<and> g' dvd what \<and> (\<exists>n. tape' = drop (16 * n) (drop 16 tape))"
      using 1(1)[OF False draws(1)[symmetric] refl draws(3) refl draws(2)[symmetric] refl draws(4) refl] next_one
        rho_loop_divides[OF 1(3)] unfolding g1_def by blast
    moreover have "drop (16 * n) (drop 16 tape) = drop (16 * Suc n) tape" for n by (simp add: add.commute)
    ultimately show ?thesis by metis
  qed
qed

lemma attempts_fails: "attempts what i g tape = (Inl e, tape') \<Longrightarrow> e = RandEOF \<or> what \<le> 1 \<and> e = KPanic"
proof (induction what i g tape rule: attempts.induct)
  case (1 what i g tape)
  then show ?case
    by (subst (asm) attempts.simps[of what i g tape])
      (auto simp: rand_Int_def draw_def andThen_def ret_def Let_def split: if_splits prod.splits)
qed

text \<open>A draw that closes a cycle modulo a factor only in the first step is lucky.\<close>

lemma attempts_lucky:
  assumes "2 < what" "x < what" "0 < x" "v = ((w AND 15) + 17) mod what"
    and "g = gcd (if (v + x * x) mod what < x then what + (v + x * x) mod what - x else (v + x * x) mod what - x) what"
    and "1 < g" "g < what" "w < 256 ^ 8" "x \<le> 256 ^ 8"
  shows "attempts what 0 0 (be 8 w @ be 8 (x - 1) @ tape) = (Inr g, tape)"
proof -
  define y where "y = x - 1"
  have draws: "rand_Int 8 (be 8 w @ be 8 y @ tape) = (Inr w, be 8 y @ tape)" "rand_Int 8 (be 8 y @ tape) = (Inr y, tape)"
    using assms(3,8,9) by (simp_all add: y_def rand_Int_def draw_def andThen_def ret_def)
  have x: "y mod (what - 1) + 1 = x" using assms(2,3) by (simp add: y_def)
  have "mul_loop what x x v = (v + x * x) mod what"
    using assms(1-4) by (intro mul_loop_correct) simp_all
  then have "rho_loop what v (rho_limit 0) 1 x x 0 = g"
    using assms(5,6) by (subst rho_loop.simps) (simp add: rho_limit_def Let_def)
  then have "attempts what 0 0 (be 8 w @ be 8 y @ tape) = attempts what 1 g tape"
    using assms(1,4) by (subst attempts.simps) (simp add: draws x Let_def del: One_nat_def)
  also have "\<dots> = (Inr g, tape)" using assms(6,7) by (simp add: attempts.simps)
  finally show ?thesis by (simp add: y_def)
qed

definition is_prime :: "nat \<Rightarrow> bool" where
  "is_prime p \<longleftrightarrow> 1 < p \<and> (\<forall>d. d dvd p \<longrightarrow> d = 1 \<or> d = p)"

lemma divisor_of_two_primes:
  assumes "is_prime p" "is_prime q" "g dvd p * q" "1 < g" "g < p * q"
  shows "g = p \<or> g = q"
proof (cases "coprime g p")
  case True
  with assms(3) have "g dvd q" by (simp add: coprime_dvd_mult_right_iff)
  then show ?thesis using assms(2,4) by (auto simp: is_prime_def)
next
  case False
  then have "gcd g p \<noteq> 1" by (simp add: coprime_iff_gcd_eq_1)
  moreover have "gcd g p dvd p" by simp
  ultimately have "gcd g p = p" using assms(1) unfolding is_prime_def by blast
  then obtain k where k: "g = p * k" by (metis gcd_dvd1 dvdE)
  with assms(3) have "k dvd q" using assms(1) by (simp add: is_prime_def)
  then have "k = 1 \<or> k = q" using assms(2) by (auto simp: is_prime_def)
  then show ?thesis using k assms(5) by auto
qed

text \<open>C17: the proof of work is done right or not at all.  When factoring gives two numbers they multiply
  to the number, and neither is 1; of the product of two primes they are these, the smaller first.
  It fails otherwise only when the random source does, which it must before it can give anything for a
  prime; and it panics for 0 and 1, as soon as it has drawn.\<close>

theorem pq_is_decomposed:
  "(case DecomposePQ pq tape of
      (Inr (p, q), tape') \<Rightarrow> p * q = pq \<and> 1 < p \<and> p \<le> q \<and> \<not> is_prime pq \<and> (\<exists>n. tape' = drop (16 * n) tape) \<and>
        (\<forall>p' q'. is_prime p' \<and> is_prime q' \<and> p' \<le> q' \<and> pq = p' * q' \<longrightarrow> p = p' \<and> q = q')
    | (Inl e, _) \<Rightarrow> e = RandEOF \<or> pq \<le> 1 \<and> e = KPanic) \<and>
   (pq \<le> 1 \<and> 16 \<le> length tape \<longrightarrow> fst (DecomposePQ pq tape) = Inl KPanic)"
proof
  show "case DecomposePQ pq tape of
      (Inr (p, q), tape') \<Rightarrow> p * q = pq \<and> 1 < p \<and> p \<le> q \<and> \<not> is_prime pq \<and> (\<exists>n. tape' = drop (16 * n) tape) \<and>
        (\<forall>p' q'. is_prime p' \<and> is_prime q' \<and> p' \<le> q' \<and> pq = p' * q' \<longrightarrow> p = p' \<and> q = q')
    | (Inl e, _) \<Rightarrow> e = RandEOF \<or> pq \<le> 1 \<and> e = KPanic"
  proof (cases "attempts pq 0 0 tape")
    case (Pair r tape')
    show ?thesis
    proof (cases r)
      case (Inl e)
      then show ?thesis using attempts_fails[OF Pair[unfolded Inl]] Pair by (simp add: DecomposePQ_def)
    next
      case (Inr g)
      have g: "1 < g" "g < pq" "g dvd pq" "\<exists>n. tape' = drop (16 * n) tape"
        using attempts_divides[OF Pair[unfolded Inr]] by auto
      then obtain h where h: "pq = g * h" by (auto elim: dvdE)
      with g(1,2) have "1 < h" by (cases h) auto
      have "\<not> is_prime pq" using g by (auto simp: is_prime_def)
      have "g = p' \<and> h = q' \<or> g = q' \<and> h = p'" if "is_prime p'" "is_prime q'" "pq = p' * q'" for p' q'
        using divisor_of_two_primes[of p' q' g] g that h by (auto simp: is_prime_def mult.commute)
      moreover have res: "DecomposePQ pq tape = (Inr (if g > h then (h, g) else (g, h)), tape')"
        using Pair Inr h g(1) by (simp add: DecomposePQ_def ret_def Let_def)
      ultimately have "\<forall>p' q'. is_prime p' \<and> is_prime q' \<and> p' \<le> q' \<and> pq = p' * q' \<longrightarrow> (if g > h then (h, g) else (g, h)) = (p', q')"
        by fastforce
      then show ?thesis using res \<open>1 < h\<close> \<open>\<not> is_prime pq\<close> g h by (auto simp: mult.commute)
    qed
  qed
  show "pq \<le> 1 \<and> 16 \<le> length tape \<longrightarrow> fst (DecomposePQ pq tape) = Inl KPanic"
  proof
    assume pq: "pq \<le> 1 \<and> 16 \<le> length tape"
    then have "fst (attempts pq 0 0 tape) = Inl KPanic"
      by (subst attempts.simps) (auto simp: rand_Int_def draw_def andThen_def ret_def Let_def)
    then show "fst (DecomposePQ pq tape) = Inl KPanic" by (auto simp: DecomposePQ_def andThen_def split: prod.splits sum.splits)
  qed
qed

theorem pq_is_decomposed_witness: "DecomposePQ 15 (be 8 1 @ be 8 0) = (Inr (3, 5), []) \<and> fst (DecomposePQ 1 (replicate 16 7)) = Inl KPanic"
proof
  have "attempts 15 0 0 (be 8 1 @ be 8 (1 - 1) @ []) = (Inr 3, [])"
    by (rule attempts_lucky[where v = 3]) (simp_all add: gcd_proj1_if_dvd)
  then show "DecomposePQ 15 (be 8 1 @ be 8 0) = (Inr (3, 5), [])"
    by (simp add: DecomposePQ_def ret_def Let_def)
  show "fst (DecomposePQ 1 (replicate 16 7)) = Inl KPanic"
    using pq_is_decomposed[of 1 "replicate 16 7"] by simp
qed

section \<open>RSA\<close>

record PublicKey =
  rsaN :: nat
  rsaE :: nat

record PrivateKey = PublicKey +
  rsaD :: nat

definition RSAKeyBits :: nat where "RSAKeyBits = 2048"
definition rsaLen :: nat where "rsaLen = 256"
definition rsaWithHashLen :: nat where "rsaWithHashLen = 255"
definition rsaDataLen :: nat where "rsaDataLen = rsaWithHashLen - 20"

definition RSAPublicDecrypt :: "PublicKey \<Rightarrow> bytes \<Rightarrow> kex_err + bytes" where
  "RSAPublicDecrypt pub sig =
     (let k = (BitLen (rsaN pub) + 7) div 8 in
      if k < 11 \<or> k \<noteq> length sig then Inl ErrVerification
      else Inr (big_Bytes (Exp (SetBytes sig) (rsaE pub) (rsaN pub))))"

text \<open>\<open>None\<close> is the panic of the library's \<open>FillBytes\<close> for what does not fit.\<close>

definition rsaEncrypt :: "bytes \<Rightarrow> 'a PublicKey_scheme \<Rightarrow> bytes option" where
  "rsaEncrypt data key = FillBytes (Exp (SetBytes data) (rsaE key) (rsaN key)) rsaLen"

definition rsaDecrypt :: "bytes \<Rightarrow> PrivateKey \<Rightarrow> nat \<Rightarrow> bytes option" where
  "rsaDecrypt data key to = FillBytes (Exp (SetBytes data) (rsaD key) (rsaN key)) to"

definition RSAFingerprint :: "'a PublicKey_scheme \<Rightarrow> int" where
  "RSAFingerprint key =
     (let buf = PutBytes (big_Bytes (rsaE key)) (PutBytes (big_Bytes (rsaN key)) [])
      in sint (word_of_nat (unle (drop 12 (SHA1 buf))) :: 64 word))"

definition RSAEncryptHashed :: "bytes \<Rightarrow> PublicKey \<Rightarrow> bytes drawing" where
  "RSAEncryptHashed data key =
     (if length data > rsaDataLen then fail (DataTooLong (length data))
      else andThen (draw rsaWithHashLen) (\<lambda>random.
        case rsaEncrypt (SHA1 data @ data @ drop (20 + length data) random) key of
          None \<Rightarrow> fail KPanic | Some res \<Rightarrow> ret res))"

fun guess_hashed :: "bytes \<Rightarrow> bytes \<Rightarrow> nat \<Rightarrow> bytes option" where
  "guess_hashed hash padded n =
     (if SHA1 (take n padded) = hash then Some (take n padded)
      else if n = 0 then None else guess_hashed hash padded (n - 1))"

declare guess_hashed.simps [simp del]

definition RSADecryptHashed :: "bytes \<Rightarrow> PrivateKey \<Rightarrow> kex_err + bytes" where
  "RSADecryptHashed data key = (case rsaDecrypt data key rsaWithHashLen of
     None \<Rightarrow> Inl InvalidEncryptedData
   | Some dataWithHash \<Rightarrow>
       (case guess_hashed (take 20 dataWithHash) (drop 20 dataWithHash) (length dataWithHash - 20) of
          None \<Rightarrow> Inl HashMismatch | Some d \<Rightarrow> Inr d))"

section \<open>RSA with padding\<close>

definition rsaPadDataLimit :: nat where "rsaPadDataLimit = 144"
definition dataWithPaddingLength :: nat where "dataWithPaddingLength = 192"
definition tempKeySize :: nat where "tempKeySize = 32"

definition xor_bytes :: "bytes \<Rightarrow> bytes \<Rightarrow> bytes" where
  "xor_bytes a b = map2 (\<lambda>x y. x XOR y) a b"

text \<open>Steps 4 to 7 for one temporary key.\<close>

definition keyAESEncrypted :: "aes_ige \<Rightarrow> bytes \<Rightarrow> bytes \<Rightarrow> bytes" where
  "keyAESEncrypted A dataWithPadding tempKey =
     (let dataWithHash = rev dataWithPadding @ SHA256 (tempKey @ dataWithPadding);
          aesEncrypted = EncryptBlocks A tempKey (replicate 32 0) dataWithHash;
          tempKeyXor = xor_bytes tempKey (SHA256 aesEncrypted)
      in tempKeyXor @ aesEncrypted)"

text \<open>The loop of step 3 draws another temporary key until the number is below the modulus.\<close>

function pad_loop :: "aes_ige \<Rightarrow> bytes \<Rightarrow> 'a PublicKey_scheme \<Rightarrow> bytes drawing" where
  "pad_loop A dataWithPadding key tape =
     (case draw tempKeySize tape of
        (Inl e, tape) \<Rightarrow> (Inl e, tape)
      | (Inr tempKey, tape1) \<Rightarrow>
          let enc = keyAESEncrypted A dataWithPadding tempKey in
          if SetBytes enc \<ge> rsaN key then pad_loop A dataWithPadding key tape1
          else case rsaEncrypt enc key of None \<Rightarrow> (Inl KPanic, tape1) | Some res \<Rightarrow> (Inr res, tape1))"
  by pat_completeness auto
termination
  by (relation "measure (\<lambda>(_, _, _, tape). length tape)") (auto simp: draw_def tempKeySize_def split: if_splits)

declare pad_loop.simps [simp del]

definition RSAPad :: "aes_ige \<Rightarrow> bytes \<Rightarrow> 'a PublicKey_scheme \<Rightarrow> bytes drawing" where
  "RSAPad A data key =
     (if length data > rsaPadDataLimit then fail (DataTooLong (length data))
      else andThen (draw (dataWithPaddingLength - length data)) (\<lambda>padding. pad_loop A (data @ padding) key))"

definition DecodeRSAPad :: "aes_ige \<Rightarrow> bytes \<Rightarrow> PrivateKey \<Rightarrow> kex_err + bytes" where
  "DecodeRSAPad A data key = (case rsaDecrypt data key 256 of
     None \<Rightarrow> Inl InvalidEncryptedData
   | Some encryptedData \<Rightarrow>
       let tempKeyXor = take tempKeySize encryptedData;
           aesEncrypted = drop tempKeySize encryptedData;
           tempKey = xor_bytes tempKeyXor (SHA256 aesEncrypted);
           dataWithHash = DecryptBlocks A tempKey (replicate 32 0) aesEncrypted;
           dataWithPadding = rev (take dataWithPaddingLength dataWithHash);
           hash = drop dataWithPaddingLength dataWithHash
       in if hash \<noteq> SHA256 (tempKey @ dataWithPadding) then Inl HashMismatch else Inr dataWithPadding)"

section \<open>Diffie-Hellman parameters\<close>

definition checkSubgroup :: "nat \<Rightarrow> nat \<Rightarrow> nat list \<Rightarrow> bool" where
  "checkSubgroup p divider expected \<longleftrightarrow> p mod divider \<in> set expected"

definition CheckGP :: "int \<Rightarrow> nat \<Rightarrow> kex_err option" where
  "CheckGP g p =
     (if g \<notin> {2, 3, 4, 5, 6, 7} then Some (BadGenerator g)
      else
        let result =
          (if g = 2 then checkSubgroup p 8 [7]
           else if g = 3 then checkSubgroup p 3 [2]
           else if g = 4 then True
           else if g = 5 then checkSubgroup p 5 [1, 4]
           else if g = 6 then checkSubgroup p 24 [19, 23]
           else checkSubgroup p 7 [3, 5, 6])
        in if result then None else Some NotResidue)"

text \<open>\<open>Prime\<close>, a probabilistic test of the standard library, is an argument.\<close>

definition checkPrime :: "(nat \<Rightarrow> bool) \<Rightarrow> nat \<Rightarrow> kex_err option" where
  "checkPrime Prime p =
     (if \<not> Prime p then Some NotPrime else if \<not> Prime ((p - 1) div 2) then Some NotSafePrime else None)"

definition CheckDH :: "(nat \<Rightarrow> bool) \<Rightarrow> int \<Rightarrow> nat \<Rightarrow> kex_err option" where
  "CheckDH Prime g p =
     (if BitLen p \<noteq> RSAKeyBits then Some BadPrimeSize
      else case CheckGP g p of Some e \<Rightarrow> Some e | None \<Rightarrow> checkPrime Prime p)"

definition InRange :: "int \<Rightarrow> int \<Rightarrow> int \<Rightarrow> bool" where
  "InRange x mn mx \<longleftrightarrow> x > mn \<and> x < mx"

definition CheckDHParams :: "nat \<Rightarrow> int \<Rightarrow> nat \<Rightarrow> nat \<Rightarrow> kex_err option" where
  "CheckDHParams dhPrime g gA gB =
     (let dhPrimeMinusOne = int dhPrime - 1;
          safetyRangeMin = 2 ^ (RSAKeyBits - 64);
          safetyRangeMax = int dhPrime - safetyRangeMin
      in if \<not> InRange g 1 dhPrimeMinusOne then Some (BadRange ''g'')
         else if \<not> InRange (int gA) 1 dhPrimeMinusOne then Some (BadRange ''g_a'')
         else if \<not> InRange (int gB) 1 dhPrimeMinusOne then Some (BadRange ''g_b'')
         else if \<not> InRange (int gA) safetyRangeMin safetyRangeMax then Some (BadRange ''g_a'')
         else if \<not> InRange (int gB) safetyRangeMin safetyRangeMax then Some (BadRange ''g_b'')
         else None)"

section \<open>Data with a hash\<close>

definition paddedLen16 :: "nat \<Rightarrow> nat" where
  "paddedLen16 l = (let n = 16 * (l div 16) in if n < l then n + 16 else n)"

definition DataWithHash :: "bytes \<Rightarrow> bytes drawing" where
  "DataWithHash data = andThen (draw (paddedLen16 (length data + 20) - (20 + length data)))
     (\<lambda>random. ret (SHA1 data @ data @ random))"

text \<open>The loop over 16 lengths of padding from \<open>i\<close> on; \<open>[]\<close> is also the nil of a failed guess.\<close>

function guess_loop :: "bytes \<Rightarrow> nat \<Rightarrow> bytes" where
  "guess_loop dataWithHash i =
     (if i \<ge> 16 then []
      else if length dataWithHash < 20 + i then []
      else let data = take (length dataWithHash - i - 20) (drop 20 dataWithHash) in
        if SHA1 data = take 20 dataWithHash then data else guess_loop dataWithHash (i + 1))"
  by pat_completeness auto
termination by (relation "measure (\<lambda>(_, i). 16 - i)") auto

declare guess_loop.simps [simp del]

definition GuessDataWithHash :: "bytes \<Rightarrow> bytes" where
  "GuessDataWithHash dataWithHash = (if length dataWithHash \<le> 20 then [] else guess_loop dataWithHash 0)"

text \<open>After the guess the code looks whether its argument, and not the guess, is nil, so a failed guess
  is no error; the argument is nil when it was read as an empty byte string.\<close>

definition DecryptExchangeAnswer :: "aes_ige \<Rightarrow> bytes \<Rightarrow> bytes \<Rightarrow> bytes \<Rightarrow> kex_err + bytes" where
  "DecryptExchangeAnswer A data key iv =
     (if length data mod 16 \<noteq> 0 then Inl (BadLength (length data))
      else let dst = GuessDataWithHash (DecryptBlocks A key iv data) in
        if data = [] then Inl HashMismatch else Inr dst)"

definition EncryptExchangeAnswer :: "aes_ige \<Rightarrow> bytes \<Rightarrow> bytes \<Rightarrow> bytes \<Rightarrow> bytes drawing" where
  "EncryptExchangeAnswer A answer key iv =
     andThen (DataWithHash answer) (\<lambda>answerWithHash. ret (EncryptBlocks A key iv answerWithHash))"

section \<open>Keys from nonces\<close>

definition sha1BigInt :: "nat \<Rightarrow> nat \<Rightarrow> bytes" where
  "sha1BigInt a b = SHA1 (big_Bytes a @ big_Bytes b)"

text \<open>The first four bytes of a nonce that has fewer, without its leading zeros, are a panic.\<close>

definition TempAESKeys :: "nat \<Rightarrow> nat \<Rightarrow> (bytes \<times> bytes) option" where
  "TempAESKeys newNonce serverNonce =
     (if length (big_Bytes newNonce) < 4 then None
      else Some (sha1BigInt newNonce serverNonce @ take 12 (sha1BigInt serverNonce newNonce),
        take 8 (drop 12 (sha1BigInt serverNonce newNonce)) @ sha1BigInt newNonce newNonce @ take 4 (big_Bytes newNonce)))"

definition NonceHash1 :: "bytes \<Rightarrow> bytes \<Rightarrow> bytes" where
  "NonceHash1 newNonce key = take 16 (drop 4 (SHA1 (newNonce @ [1] @ take 8 (SHA1 key))))"

definition ServerSalt :: "bytes \<Rightarrow> bytes \<Rightarrow> int" where
  "ServerSalt newNonce serverNonce =
     sint (word_of_nat (unle (xor_bytes (take 8 newNonce) (take 8 serverNonce))) :: 64 word)"

definition NewSessionID :: "int drawing" where
  "NewSessionID = andThen (draw 8) (\<lambda>b. ret (sint (word_of_nat (unle b) :: 64 word)))"

section \<open>Envelopes are opened\<close>

text \<open>What a key pair promises: deciphering undoes enciphering below the modulus.\<close>

definition rsa_law :: "PrivateKey \<Rightarrow> bool" where
  "rsa_law key \<longleftrightarrow> rsaN key \<le> 256 ^ 256 \<and> (\<forall>m < rsaN key. Exp (Exp m (rsaE key) (rsaN key)) (rsaD key) (rsaN key) = m)"

lemma rsa_roundtrip:
  assumes "rsa_law key" "SetBytes m < rsaN key" "length m = k"
  shows "\<exists>c. rsaEncrypt m key = Some c \<and> length c = 256 \<and> rsaDecrypt c key k = Some m"
proof -
  define c where "c = Exp (SetBytes m) (rsaE key) (rsaN key)"
  have "c < rsaN key" unfolding c_def Exp_def using assms(2) by (intro mod_less_divisor) linarith
  moreover have "rsaN key \<le> 256 ^ 256" using assms(1) by (simp add: rsa_law_def)
  ultimately have c: "c < 256 ^ 256" by linarith
  have "Exp c (rsaD key) (rsaN key) = SetBytes m" using assms(1,2) by (simp add: rsa_law_def c_def)
  then have "rsaDecrypt (be 256 c) key k = Some m"
    using c assms(3) FillBytes_fits[of "SetBytes m" k] SetBytes_bound[of m] by (simp add: rsaDecrypt_def)
  moreover have "rsaEncrypt m key = Some (be 256 c)"
    using FillBytes_fits[OF c] by (simp add: rsaEncrypt_def rsaLen_def c_def)
  ultimately show ?thesis by simp
qed

lemma xor_bytes_twice [simp]: "length a = length b \<Longrightarrow> xor_bytes (xor_bytes a b) b = a"
  by (induction a b rule: list_induct2) (simp_all add: xor_bytes_def xor.assoc)

lemma length_xor_bytes [simp]: "length (xor_bytes a b) = min (length a) (length b)"
  by (simp add: xor_bytes_def)

lemma length_keyAESEncrypted:
  assumes "ige_law A" "length d = 192" "length k = 32"
  shows "length (keyAESEncrypted A d k) = 256"
  using assms by (simp add: keyAESEncrypted_def ige_law_def Let_def)

lemma DecodeRSAPad_keyAES:
  assumes "ige_law A" "length d = 192" "length k = 32" "rsaDecrypt c key 256 = Some (keyAESEncrypted A d k)"
  shows "DecodeRSAPad A c key = Inr d"
proof -
  have "length (EncryptBlocks A k (replicate 32 0) (rev d @ SHA256 (k @ d))) = 224"
    "DecryptBlocks A k (replicate 32 0) (EncryptBlocks A k (replicate 32 0) (rev d @ SHA256 (k @ d))) = rev d @ SHA256 (k @ d)"
    using assms(1-3) by (simp_all add: ige_law_def)
  then show ?thesis
    using assms(2-4) by (simp add: DecodeRSAPad_def keyAESEncrypted_def Let_def tempKeySize_def dataWithPaddingLength_def)
qed

lemma pad_loop_draws:
  assumes "\<forall>k \<in> set ks. length k = 32 \<and> rsaN key \<le> SetBytes (keyAESEncrypted A d k)"
    and "length k = 32" "SetBytes (keyAESEncrypted A d k) < rsaN key" "rsaEncrypt (keyAESEncrypted A d k) key = Some c"
  shows "pad_loop A d key (concat ks @ k @ rest) = (Inr c, rest)"
  using assms(1)
proof (induction ks)
  case Nil
  then show ?case using assms(2-4) by (subst pad_loop.simps) (simp add: draw_def tempKeySize_def Let_def)
next
  case (Cons k' ks)
  then show ?case by (subst pad_loop.simps) (simp add: draw_def tempKeySize_def Let_def)
qed

text \<open>What would make the guess of the length of the data take padding for data.\<close>

definition collides :: "bytes \<Rightarrow> bytes \<Rightarrow> bool" where
  "collides data padding \<longleftrightarrow> (\<exists>n \<le> length padding. 0 < n \<and> SHA1 (data @ take n padding) = SHA1 data)"

lemma guess_loop_finds:
  assumes "length pad < 16" "\<not> collides data pad"
  shows "i \<le> length pad \<Longrightarrow> guess_loop (SHA1 data @ data @ pad) i = data"
proof (induction "length pad - i" arbitrary: i)
  case 0
  then show ?case using assms(1) by (subst guess_loop.simps) (simp add: Let_def)
next
  case (Suc n)
  have "SHA1 (data @ take (length pad - i) pad) \<noteq> SHA1 data"
    using assms(2) Suc(2,3) unfolding collides_def by (metis diff_le_self zero_less_Suc)
  then show ?case using Suc(1)[of "Suc i"] Suc(2,3) assms(1) by (subst guess_loop.simps) (simp add: Let_def)
qed

lemma guess_hashed_finds:
  assumes "\<not> collides data pad"
  shows "n \<le> length pad \<Longrightarrow> guess_hashed (SHA1 data) (data @ pad) (length data + n) = Some data"
proof (induction n)
  case 0
  then show ?case by (simp add: guess_hashed.simps)
next
  case (Suc n)
  have "SHA1 (data @ take (Suc n) pad) \<noteq> SHA1 data" using assms Suc(2) unfolding collides_def by blast
  then show ?case using Suc by (simp add: guess_hashed.simps[of _ _ "Suc (length data + n)"])
qed

lemma paddedLen16_bounds: "l \<le> paddedLen16 l" "paddedLen16 l < l + 16" "16 dvd paddedLen16 l"
proof -
  have "16 * (l div 16) + l mod 16 = l" by (simp add: mult_div_mod_eq)
  moreover have "l mod 16 < 16" by simp
  ultimately show "l \<le> paddedLen16 l" "paddedLen16 l < l + 16" unfolding paddedLen16_def Let_def by (auto simp del: mult_div_mod_eq mod_mult_div_eq)
  show "16 dvd paddedLen16 l" by (simp add: paddedLen16_def Let_def)
qed

lemma exchange_answer_roundtrip:
  assumes "ige_law A" "length key = 32" "length iv = 32" "length pad = paddedLen16 (length data + 20) - (20 + length data)"
    and "\<not> collides data pad"
  shows "\<exists>c. EncryptExchangeAnswer A data key iv (pad @ rest) = (Inr c, rest) \<and> length c = paddedLen16 (length data + 20) \<and>
    DecryptExchangeAnswer A c key iv = Inr data"
proof -
  define h where "h = SHA1 data @ data @ pad"
  have len: "length h = paddedLen16 (length data + 20)" "length pad < 16" "16 dvd length h" "length h > 0"
    using paddedLen16_bounds[of "length data + 20"] assms(4) by (auto simp: h_def)
  have "DataWithHash data (pad @ rest) = (Inr h, rest)"
    using assms(4) by (simp add: DataWithHash_def draw_def ret_def andThen_def h_def)
  then have "EncryptExchangeAnswer A data key iv (pad @ rest) = (Inr (EncryptBlocks A key iv h), rest)"
    by (simp add: EncryptExchangeAnswer_def ret_def)
  moreover have "length (EncryptBlocks A key iv h) = length h" "DecryptBlocks A key iv (EncryptBlocks A key iv h) = h"
    using assms(1-3) len(3) by (simp_all add: ige_law_def)
  moreover have "GuessDataWithHash h = data"
    using guess_loop_finds[OF len(2) assms(5), of 0] by (auto simp: GuessDataWithHash_def h_def guess_loop.simps)
  ultimately show ?thesis using len
    by (intro exI[of _ "EncryptBlocks A key iv h"]) (auto simp: DecryptExchangeAnswer_def Let_def dvd_imp_mod_0)
qed

lemma rsa_pad_roundtrip:
  assumes "ige_law A" "rsa_law key" "length padding = 192 - length data" "length data \<le> 144"
    and "\<forall>k \<in> set ks. length k = 32 \<and> rsaN key \<le> SetBytes (keyAESEncrypted A (data @ padding) k)"
    and "length k = 32" "SetBytes (keyAESEncrypted A (data @ padding) k) < rsaN key"
  shows "\<exists>c. RSAPad A data key (padding @ concat ks @ k @ rest) = (Inr c, rest) \<and>
      RSAPad A data (PublicKey.truncate key) (padding @ concat ks @ k @ rest) = (Inr c, rest) \<and> length c = 256 \<and>
      DecodeRSAPad A c key = Inr (data @ padding)"
proof -
  have d: "length (data @ padding) = 192" using assms(3,4) by simp
  obtain c where c: "rsaEncrypt (keyAESEncrypted A (data @ padding) k) key = Some c" "length c = 256"
    "rsaDecrypt c key 256 = Some (keyAESEncrypted A (data @ padding) k)"
    using rsa_roundtrip[OF assms(2,7) length_keyAESEncrypted[OF assms(1) d assms(6)]] by blast
  have "RSAPad A data key' (padding @ concat ks @ k @ rest) = (Inr c, rest)"
    if "rsaN key' = rsaN key" "rsaE key' = rsaE key" for key' :: "'b PublicKey_scheme"
    using pad_loop_draws[of ks key' A "data @ padding" k c rest] assms(3-7) c(1) that
    by (simp add: RSAPad_def rsaPadDataLimit_def dataWithPaddingLength_def draw_def andThen_def rsaEncrypt_def)
  from this[of key] this[of "PublicKey.truncate key"] c(2) DecodeRSAPad_keyAES[OF assms(1) d assms(6) c(3)]
  show ?thesis by (auto simp: PublicKey.defs)
qed

text \<open>C18: what the exchange puts into an envelope comes out of it.  Data of at most 144 bytes that is
  padded, put under drawn keys until one fits the modulus, and enciphered with RSA, is deciphered to
  itself and its padding.  A hashed answer under the temporary keys, and data enciphered with its hash
  in the old way, come out exact unless the padding collides with the hash.\<close>

theorem envelopes_are_opened:
  assumes "ige_law A" "rsa_law key" "length padding = 192 - length data" "length data \<le> 144"
    and "\<forall>k \<in> set ks. length k = 32 \<and> rsaN key \<le> SetBytes (keyAESEncrypted A (data @ padding) k)"
    and "length k = 32" "SetBytes (keyAESEncrypted A (data @ padding) k) < rsaN key"
  shows "(\<exists>c. RSAPad A data key (padding @ concat ks @ k @ rest) = (Inr c, rest) \<and> length c = 256 \<and>
      DecodeRSAPad A c key = Inr (data @ padding)) \<and>
    (\<forall>answer pad key' iv. length key' = 32 \<and> length iv = 32 \<and> length pad = paddedLen16 (length answer + 20) - (20 + length answer) \<and>
      \<not> collides answer pad \<longrightarrow>
      (\<exists>c. EncryptExchangeAnswer A answer key' iv (pad @ rest) = (Inr c, rest) \<and> DecryptExchangeAnswer A c key' iv = Inr answer)) \<and>
    (\<forall>pad. length pad = 255 \<and> 256 ^ 255 \<le> rsaN key \<and> \<not> collides data (drop (20 + length data) pad) \<longrightarrow>
      (\<exists>c. RSAEncryptHashed data (PublicKey.truncate key) (pad @ rest) = (Inr c, rest) \<and> RSADecryptHashed c key = Inr data))"
proof (intro conjI allI impI)
  show "\<exists>c. RSAPad A data key (padding @ concat ks @ k @ rest) = (Inr c, rest) \<and> length c = 256 \<and>
      DecodeRSAPad A c key = Inr (data @ padding)"
    using rsa_pad_roundtrip[OF assms] by blast
next
  fix answer pad key' iv :: bytes
  assume "length key' = 32 \<and> length iv = 32 \<and> length pad = paddedLen16 (length answer + 20) - (20 + length answer) \<and> \<not> collides answer pad"
  then show "\<exists>c. EncryptExchangeAnswer A answer key' iv (pad @ rest) = (Inr c, rest) \<and> DecryptExchangeAnswer A c key' iv = Inr answer"
    using exchange_answer_roundtrip[OF assms(1)] by blast
next
  fix pad :: bytes
  assume pad: "length pad = 255 \<and> 256 ^ 255 \<le> rsaN key \<and> \<not> collides data (drop (20 + length data) pad)"
  define m where "m = SHA1 data @ data @ drop (20 + length data) pad"
  have len: "length m = 255" using pad assms(4) by (simp add: m_def)
  have "SetBytes m < rsaN key" using SetBytes_bound[of m] pad by (simp only: len) linarith
  then obtain c where c: "rsaEncrypt m key = Some c" "rsaDecrypt c key 255 = Some m"
    using rsa_roundtrip[OF assms(2) _ len] by blast
  have "guess_hashed (SHA1 data) (data @ drop (20 + length data) pad) (length data + (235 - length data)) = Some data"
    using pad assms(4) by (intro guess_hashed_finds) auto
  then have "RSADecryptHashed c key = Inr data"
    using c(2) assms(4) pad by (simp add: RSADecryptHashed_def rsaWithHashLen_def m_def)
  moreover have "RSAEncryptHashed data (PublicKey.truncate key) (pad @ rest) = (Inr c, rest)"
    using c(1) pad assms(4) by (simp add: RSAEncryptHashed_def rsaDataLen_def rsaWithHashLen_def draw_def andThen_def ret_def
        m_def rsaEncrypt_def PublicKey.defs)
  ultimately show "\<exists>c. RSAEncryptHashed data (PublicKey.truncate key) (pad @ rest) = (Inr c, rest) \<and> RSADecryptHashed c key = Inr data"
    by blast
qed

text \<open>A pair for examples: the exponents are trivial.\<close>

definition rsa0 :: PrivateKey where "rsa0 = \<lparr>rsaN = 256 ^ 256, rsaE = 1, rsaD = 1\<rparr>"

lemma laws0: "ige_law ige0" "rsa_law rsa0"
  by (simp_all add: ige_law_def ige0_def rsa_law_def rsa0_def Exp_def)

lemma below_rsa0: "length b = 256 \<Longrightarrow> SetBytes b < rsaN rsa0"
  using SetBytes_bound[of b] by (simp add: rsa0_def)

theorem envelopes_are_opened_witness:
  "\<exists>c. RSAPad ige0 [1, 2, 3] rsa0 (replicate 189 7 @ replicate 32 9) = (Inr c, []) \<and>
     DecodeRSAPad ige0 c rsa0 = Inr ([1, 2, 3] @ replicate 189 7)"
proof -
  have "length (keyAESEncrypted ige0 ([1, 2, 3] @ replicate 189 7) (replicate 32 9)) = 256"
    by (intro length_keyAESEncrypted laws0) simp_all
  from below_rsa0[OF this] show ?thesis
    using envelopes_are_opened[OF laws0, of "replicate 189 7" "[1, 2, 3]" "[]" "replicate 32 9" "[]"] by auto
qed

end
