(* ===== verification/Exchange.thy ===== *)
theory Exchange
  imports Kex MsgId
begin

text \<open>
  The key exchange, \<open>pkg/gotd/exchange\<close>: both flows from the first message to the key.  Each runs
  on a state of its own: the bytes its random source will give, what it will receive, what it has sent
  and how often it has read the clock.  Nothing more to receive is a timeout.
\<close>

section \<open>The connection\<close>

datatype net_err = NetAuthKeyNotFound | NetOther

datatype ex_err =
    ExKex kex_err
  | ExNet net_err
  | ExProto proto_err
  | ExTL bin_err
  | BadMsgType
  | NonceMismatch string
  | ServerNonceMismatch string
  | ErrKeyFingerprintNotFound
  | BadPQ
  | ParamsFailed
  | RetryRequired bytes
  | GenFailed bytes
  | VerificationFailed
  | AuthKeyNotFound kex_err
  | InnerUnreadable bin_err
  | WrongDC
  | AuthKeyTooBig
  | OutOfMessages

record world =
  draws :: bytes
  inbox :: "(net_err + bytes) list"
  outbox :: "bytes list"
  ticks :: nat

type_synonym 'a run = "(world, ex_err, 'a) prog"

text \<open>The cipher, the primality test, the clock in nanoseconds by the number of the reading, and whether the
  \<open>n\<close>-th message can be sent.\<close>

record kexEnv =
  kAES :: aes_ige
  kPrime :: "nat \<Rightarrow> bool"
  kClock :: "nat \<Rightarrow> int"
  kSends :: "nat \<Rightarrow> bool"

definition onTape :: "'a drawing \<Rightarrow> 'a run" where
  "onTape m w = (case m (draws w) of
     (Inl e, t) \<Rightarrow> (Inl (ExKex e), w\<lparr>draws := t\<rparr>) | (Inr a, t) \<Rightarrow> (Inr a, w\<lparr>draws := t\<rparr>))"

definition now :: "kexEnv \<Rightarrow> int run" where
  "now E w = (Inr (kClock E (ticks w)), w\<lparr>ticks := ticks w + 1\<rparr>)"

definition parse :: "('b \<Rightarrow> ex_err) \<Rightarrow> (bytes, 'b, 'a) prog \<Rightarrow> bytes \<Rightarrow> 'a run" where
  "parse wrap get b w = (case get b of (Inl e, _) \<Rightarrow> (Inl (wrap e), w) | (Inr a, _) \<Rightarrow> (Inr a, w))"

definition require :: "bool \<Rightarrow> ex_err \<Rightarrow> unit run" where
  "require ok e = (if ok then ret () else fail e)"

definition the_or :: "'a option \<Rightarrow> ex_err \<Rightarrow> 'a run" where
  "the_or x e = (case x of None \<Rightarrow> fail e | Some a \<Rightarrow> ret a)"

definition right :: "('b \<Rightarrow> ex_err) \<Rightarrow> 'b + 'a \<Rightarrow> 'a run" where
  "right wrap x = (case x of Inl e \<Rightarrow> fail (wrap e) | Inr a \<Rightarrow> ret a)"

definition Send :: "kexEnv \<Rightarrow> bytes \<Rightarrow> unit run" where
  "Send E b w = (if kSends E (length (outbox w)) then (Inr (), w\<lparr>outbox := outbox w @ [b]\<rparr>) else (Inl (ExNet NetOther), w))"

definition Recv :: "bytes run" where
  "Recv w = (case inbox w of
     [] \<Rightarrow> (Inl (ExNet NetOther), w)
   | Inl e # is \<Rightarrow> (Inl (ExNet e), w\<lparr>inbox := is\<rparr>)
   | Inr b # is \<Rightarrow> (Inr b, w\<lparr>inbox := is\<rparr>))"

definition writeUnencrypted :: "kexEnv \<Rightarrow> MessageType \<Rightarrow> bytes \<Rightarrow> unit run" where
  "writeUnencrypted E typ data = andThen (now E) (\<lambda>t.
     Send E (UnencryptedMessage_Encode \<lparr>umMessageID = NewMessageIDNano t typ, umData = data\<rparr> []))"

text \<open>The loop of \<open>readUnencrypted\<close>: the client reads on after the error that its key is not known.\<close>

fun try_read :: "bool \<Rightarrow> (net_err + bytes) list \<Rightarrow> (ex_err + bytes) \<times> (net_err + bytes) list" where
  "try_read isClient [] = (Inl (ExNet NetOther), [])"
| "try_read isClient (Inl e # is) =
     (if isClient \<and> e = NetAuthKeyNotFound then try_read isClient is else (Inl (ExNet e), is))"
| "try_read isClient (Inr b # is) = (Inr b, is)"

definition tryRead :: "bool \<Rightarrow> bytes run" where
  "tryRead isClient w = (case try_read isClient (inbox w) of (r, is) \<Rightarrow> (r, w\<lparr>inbox := is\<rparr>))"

definition readUnencrypted :: "bool \<Rightarrow> MessageType \<Rightarrow> 'a decoder \<Rightarrow> 'a run" where
  "readUnencrypted isClient input get =
     andThen (tryRead isClient) (\<lambda>b.
     andThen (parse ExProto UnencryptedMessage_Decode b) (\<lambda>msg.
     andThen (require (MessageID_Type (umMessageID msg) = input) BadMsgType) (\<lambda>_.
       parse ExTL get (umData msg))))"

section \<open>The client\<close>

record ClientExchangeResult =
  cAuthKey :: AuthKey
  cSessionID :: int
  cServerSalt :: int
  cServerTimeOffset :: int

definition between :: "int \<Rightarrow> int \<Rightarrow> int" where
  "between t u = max (- (2 ^ 63)) (min (2 ^ 63 - 1) (t - u))"

definition client_hello :: "kexEnv \<Rightarrow> (bytes \<times> ResPQ) run" where
  "client_hello E =
     andThen (onTape (draw 16)) (\<lambda>nonce.
     andThen (writeUnencrypted E MessageFromClient (ReqPqMultiRequest_Encode \<lparr>rpmNonce = nonce\<rparr> [])) (\<lambda>_.
     andThen (readUnencrypted True MessageServerResponse ResPQ_Decode) (\<lambda>r.
     andThen (require (resNonce r = nonce) (NonceMismatch ''ResPQ'')) (\<lambda>_.
       ret (nonce, r)))))"

definition select_key :: "PublicKey list \<Rightarrow> int list \<Rightarrow> PublicKey option" where
  "select_key keys fingerprints = find (\<lambda>key. RSAFingerprint key \<in> set fingerprints) keys"

text \<open>Steps 3 to 5: the new nonce, what the server answers, and the clock before and after.\<close>

definition client_request :: "kexEnv \<Rightarrow> PublicKey list \<Rightarrow> int \<Rightarrow> bytes \<Rightarrow> ResPQ \<Rightarrow> (bytes \<times> ServerDHParamsClass \<times> int \<times> int) run" where
  "client_request E keys dc nonce r =
     andThen (the_or (select_key keys (resFingerprints r)) ErrKeyFingerprintNotFound) (\<lambda>key.
     let pq = SetBytes (resPq r) in
     andThen (require (pq \<le> 2 ^ 63) BadPQ) (\<lambda>_.
     andThen (now E) (\<lambda>_.
     andThen (onTape (DecomposePQ pq)) (\<lambda>(p, q).
     andThen (now E) (\<lambda>_.
     andThen (onTape (draw 32)) (\<lambda>newNonce.
     andThen (onTape (RSAPad (kAES E) (PQInnerDataDC_Encode \<lparr>pqcPq = resPq r, pqcP = big_Bytes p, pqcQ = big_Bytes q,
         pqcNonce = nonce, pqcServerNonce = resServerNonce r, pqcNewNonce = newNonce, pqcDC = dc\<rparr> []) key)) (\<lambda>encryptedData.
     andThen (now E) (\<lambda>reqStart.
     andThen (writeUnencrypted E MessageFromClient (ReqDHParamsRequest_Encode \<lparr>rdhNonce = nonce,
         rdhServerNonce = resServerNonce r, rdhP = big_Bytes p, rdhQ = big_Bytes q,
         rdhFingerprint = RSAFingerprint key, rdhEncryptedData = encryptedData\<rparr> [])) (\<lambda>_.
     andThen Recv (\<lambda>b.
     andThen (now E) (\<lambda>received.
     andThen (parse ExProto UnencryptedMessage_Decode b) (\<lambda>msg.
     andThen (parse ExTL DecodeServerDHParams (umData msg)) (\<lambda>dhParams.
       ret (newNonce, dhParams, reqStart, between received reqStart))))))))))))))"

text \<open>Step 6: what the server has sent, checked; the client's half is sent and \<open>b\<close> kept.\<close>

definition client_dh :: "kexEnv \<Rightarrow> bytes \<Rightarrow> bytes \<Rightarrow> bytes \<Rightarrow> ServerDHParamsClass \<Rightarrow> (ServerDHInnerData \<times> nat) run" where
  "client_dh E nonce serverNonce newNonce dhParams = (case dhParams of
     DHParamsFail _ \<Rightarrow> fail ParamsFailed
   | DHParamsOk p \<Rightarrow>
       andThen (require (sdoNonce p = nonce) (NonceMismatch ''ServerDHParamsOk'')) (\<lambda>_.
       andThen (require (sdoServerNonce p = serverNonce) (ServerNonceMismatch ''ServerDHParamsOk'')) (\<lambda>_.
       andThen (the_or (TempAESKeys (SetBytes newNonce) (SetBytes serverNonce)) (ExKex KPanic)) (\<lambda>(key, iv).
       andThen (right ExKex (DecryptExchangeAnswer (kAES E) (sdoEncryptedAnswer p) key iv)) (\<lambda>data.
       andThen (parse ExTL ServerDHInnerData_Decode data) (\<lambda>innerData.
       andThen (require (sdiNonce innerData = nonce) (NonceMismatch ''ServerDHInnerData'')) (\<lambda>_.
       andThen (require (sdiServerNonce innerData = serverNonce) (ServerNonceMismatch ''ServerDHInnerData'')) (\<lambda>_.
       let dhPrime = SetBytes (sdiDhPrime innerData); g = sdiG innerData in
       andThen (right ExKex (case CheckDH (kPrime E) g dhPrime of Some e \<Rightarrow> Inl e | None \<Rightarrow> Inr ())) (\<lambda>_.
       let gA = SetBytes (sdiGA innerData) in
       andThen (onTape (rand_Int 256)) (\<lambda>b.
       let gB = Exp (nat g) b dhPrime in
       andThen (right ExKex (case CheckDHParams dhPrime g gA gB of Some e \<Rightarrow> Inl e | None \<Rightarrow> Inr ())) (\<lambda>_.
       andThen (onTape (EncryptExchangeAnswer (kAES E) (ClientDHInnerData_Encode \<lparr>cdiNonce = sdiNonce innerData,
           cdiServerNonce = sdiServerNonce innerData, cdiRetryID = 0, cdiGB = big_Bytes gB\<rparr> []) key iv)) (\<lambda>clientEncrypted.
       andThen (writeUnencrypted E MessageFromClient (SetClientDHParamsRequest_Encode \<lparr>scpNonce = nonce,
           scpServerNonce = serverNonce, scpEncryptedData = clientEncrypted\<rparr> [])) (\<lambda>_.
         ret (innerData, b))))))))))))))"

text \<open>Step 7 and the end.\<close>

definition client_finish :: "bytes \<Rightarrow> bytes \<Rightarrow> bytes \<Rightarrow> nat \<Rightarrow> (AuthKey \<times> int \<times> int) run" where
  "client_finish nonce serverNonce newNonce authKey =
     andThen Recv (\<lambda>b.
     andThen (parse ExProto UnencryptedMessage_Decode b) (\<lambda>msg.
     andThen (parse ExTL DecodeSetClientDHParamsAnswer (umData msg)) (\<lambda>answer.
     case answer of
       GenOk v \<Rightarrow>
         andThen (require (dgoNonce v = nonce) (NonceMismatch ''DhGenOk'')) (\<lambda>_.
         andThen (require (dgoServerNonce v = serverNonce) (ServerNonceMismatch ''DhGenOk'')) (\<lambda>_.
         andThen (the_or (FillBytes authKey 256) (ExKex KPanic)) (\<lambda>key.
         andThen (require (NonceHash1 newNonce key = dgoNewNonceHash1 v) VerificationFailed) (\<lambda>_.
         andThen (onTape NewSessionID) (\<lambda>sessionID.
           ret (WithID key, sessionID, ServerSalt newNonce (dgoServerNonce v)))))))
     | GenRetry v \<Rightarrow> fail (RetryRequired (dgrNewNonceHash2 v))
     | GenFail v \<Rightarrow> fail (GenFailed (dgfNewNonceHash3 v)))))"

definition ClientRun :: "kexEnv \<Rightarrow> PublicKey list \<Rightarrow> int \<Rightarrow> ClientExchangeResult run" where
  "ClientRun E keys dc =
     andThen (client_hello E) (\<lambda>(nonce, r).
     andThen (client_request E keys dc nonce r) (\<lambda>(newNonce, dhParams, reqStart, roundtrip).
     andThen (client_dh E nonce (resServerNonce r) newNonce dhParams) (\<lambda>(innerData, b).
     andThen (client_finish nonce (resServerNonce r) newNonce
         (Exp (SetBytes (sdiGA innerData)) b (SetBytes (sdiDhPrime innerData)))) (\<lambda>(key, sessionID, salt).
       ret \<lparr>cAuthKey = key, cSessionID = sessionID, cServerSalt = salt,
         cServerTimeOffset = between (sdiServerTime innerData * 1000000000) (reqStart + roundtrip sdiv 2)\<rparr>))))"

section \<open>The server\<close>

record ServerExchangeResult =
  sKey :: AuthKey
  sServerSalt :: int

record ServerRNG =
  rngPQ :: nat
  rngGA :: "int \<Rightarrow> nat \<Rightarrow> (nat \<times> nat) drawing"
  rngDhPrime :: nat

text \<open>The loop of the testing source draws until the half is in the safe range.\<close>

function test_ga_loop :: "nat \<Rightarrow> nat \<Rightarrow> (nat \<times> nat) drawing" where
  "test_ga_loop g dhPrime tape = (case rand_Int 256 tape of
     (Inl e, tape1) \<Rightarrow> (Inl e, tape1)
   | (Inr a, tape1) \<Rightarrow>
       let ga = Exp g a dhPrime; lo = 2 ^ (RSAKeyBits - 64) in
       if InRange (int ga) 1 (int dhPrime - 1) \<and> InRange (int ga) lo (int dhPrime - lo) then (Inr (a, ga), tape1)
       else test_ga_loop g dhPrime tape1)"
  by pat_completeness auto
termination
  by (relation "measure (\<lambda>(_, _, tape). length tape)")
    (auto simp: rand_Int_def draw_def andThen_def ret_def split: if_splits)

declare test_ga_loop.simps [simp del]

definition test_GA :: "int \<Rightarrow> nat \<Rightarrow> (nat \<times> nat) drawing" where
  "test_GA g dhPrime = (case CheckGP g dhPrime of Some e \<Rightarrow> fail e | None \<Rightarrow> test_ga_loop (nat g) dhPrime)"

definition test_PQ :: nat where "test_PQ = 0x17ED48941A08F981"

definition test_DhPrime :: nat where
  "test_DhPrime = 0xC71CAEB9C6B1C9048E6C522F70F13F73980D40238E3E21C14934D037563D930F48198A0AA7C14058229493D22530F4DBFA336F6E0AC925139543AED44CCE7C3720FD51F69458705AC68CD4FE6B6B13ABDC9746512969328454F18FAF8C595F642477FE96BB2A941D5BCD1D4AC8CC49880708FA9B378E3C4F3A9060BEE67CF9A4A4A695811051907E162753B56B0F6B410DBA74D8A84B2A14B3144E0EF1284754FD17ED950D5965B4B9DD46582DB1178D169C6BC465B0D6FF9CA3928FEF5B9AE4E418FC15E83EBEA0F87FA9FF5EED70050DED2849F47BF959D956850CE929851F0D8115F635B105EE2E4E15D04B2454BF6F4FADF034B10403119CD8E3B92FCC5B"

definition TestServerRNG :: ServerRNG where
  "TestServerRNG = \<lparr>rngPQ = test_PQ, rngGA = test_GA, rngDhPrime = test_DhPrime\<rparr>"

definition reqPQ_Decode :: "bytes decoder" where
  "reqPQ_Decode = andThen PeekID (\<lambda>i.
     if i = ReqPqRequestTypeID then andThen ReqPqRequest_Decode (\<lambda>r. ret (rpqNonce r))
     else if i = ReqPqMultiRequestTypeID then andThen ReqPqMultiRequest_Decode (\<lambda>r. ret (rpmNonce r))
     else fail (UnexpectedIDErr i))"

datatype reqOrDH = ReqPQ bytes | ReqDH ReqDHParamsRequest

definition reqOrDH_Decode :: "reqOrDH decoder" where
  "reqOrDH_Decode = andThen PeekID (\<lambda>i.
     if i = ReqDHParamsRequestTypeID then andThen ReqDHParamsRequest_Decode (\<lambda>r. ret (ReqDH r))
     else andThen reqPQ_Decode (\<lambda>nonce. ret (ReqPQ nonce)))"

text \<open>\<open>SendResPQ\<close>: the offer is sent again for every new first message; \<open>n\<close> bounds how often.\<close>

primrec send_ResPQ :: "kexEnv \<Rightarrow> PrivateKey \<Rightarrow> nat \<Rightarrow> bytes \<Rightarrow> nat \<Rightarrow> bytes \<Rightarrow> (bytes \<times> ReqDHParamsRequest) run" where
  "send_ResPQ E key pq serverNonce 0 nonce = fail OutOfMessages"
| "send_ResPQ E key pq serverNonce (Suc n) nonce =
     andThen (writeUnencrypted E MessageServerResponse (ResPQ_Encode \<lparr>resNonce = nonce, resServerNonce = serverNonce,
         resPq = big_Bytes pq, resFingerprints = [RSAFingerprint key]\<rparr> [])) (\<lambda>_.
     andThen (readUnencrypted False MessageFromClient reqOrDH_Decode) (\<lambda>dhParams.
       case dhParams of
         ReqPQ nonce \<Rightarrow> send_ResPQ E key pq serverNonce n nonce
       | ReqDH d \<Rightarrow> ret (nonce, d)))"

definition server_hello :: "kexEnv \<Rightarrow> ServerRNG \<Rightarrow> PrivateKey \<Rightarrow> (bytes \<times> bytes \<times> ReqDHParamsRequest) run" where
  "server_hello E rng key =
     andThen (readUnencrypted False MessageFromClient reqPQ_Decode) (\<lambda>nonce.
     andThen (onTape (draw 16)) (\<lambda>serverNonce w.
       andThen (send_ResPQ E key (rngPQ rng) serverNonce (Suc (length (inbox w))) nonce)
         (\<lambda>(nonce, d). ret (nonce, serverNonce, d)) w))"

fun inner_NewNonce :: "PQInnerDataClass \<Rightarrow> bytes" where
  "inner_NewNonce (PQPlain d) = pqdNewNonce d"
| "inner_NewNonce (PQDC d) = pqcNewNonce d"
| "inner_NewNonce (PQTempDC d) = pqtNewNonce d"

definition server_open :: "kexEnv \<Rightarrow> PrivateKey \<Rightarrow> int \<Rightarrow> ReqDHParamsRequest \<Rightarrow> bytes run" where
  "server_open E key dc d =
     andThen (right AuthKeyNotFound (DecodeRSAPad (kAES E) (rdhEncryptedData d) key)) (\<lambda>r.
     andThen (parse ExTL DecodePQInnerData r) (\<lambda>inner.
     andThen (require (case inner of PQDC c \<Rightarrow> pqcDC c = dc | _ \<Rightarrow> True) WrongDC) (\<lambda>_.
       ret (inner_NewNonce inner))))"

definition server_dh :: "kexEnv \<Rightarrow> ServerRNG \<Rightarrow> bytes \<Rightarrow> bytes \<Rightarrow> bytes \<Rightarrow> (nat \<times> bytes \<times> bytes) run" where
  "server_dh E rng nonce serverNonce newNonce =
     andThen (onTape (rngGA rng 3 (rngDhPrime rng))) (\<lambda>(a, ga).
     andThen (now E) (\<lambda>t.
     andThen (the_or (TempAESKeys (SetBytes newNonce) (SetBytes serverNonce)) (ExKex KPanic)) (\<lambda>(key, iv).
     andThen (onTape (EncryptExchangeAnswer (kAES E) (ServerDHInnerData_Encode \<lparr>sdiNonce = nonce, sdiServerNonce = serverNonce,
         sdiG = 3, sdiDhPrime = big_Bytes (rngDhPrime rng), sdiGA = big_Bytes ga, sdiServerTime = t div 1000000000\<rparr> []) key iv)) (\<lambda>answer.
     andThen (writeUnencrypted E MessageServerResponse (ServerDHParamsOk_Encode \<lparr>sdoNonce = nonce,
         sdoServerNonce = serverNonce, sdoEncryptedAnswer = answer\<rparr> [])) (\<lambda>_.
       ret (a, key, iv))))))"

definition server_finish :: "kexEnv \<Rightarrow> ServerRNG \<Rightarrow> bytes \<Rightarrow> bytes \<Rightarrow> bytes \<Rightarrow> nat \<Rightarrow> bytes \<Rightarrow> bytes \<Rightarrow> ServerExchangeResult run" where
  "server_finish E rng nonce serverNonce newNonce a key iv =
     andThen (readUnencrypted False MessageFromClient SetClientDHParamsRequest_Decode) (\<lambda>c.
     andThen (right AuthKeyNotFound (DecryptExchangeAnswer (kAES E) (scpEncryptedData c) key iv)) (\<lambda>decrypted.
     andThen (parse InnerUnreadable ClientDHInnerData_Decode decrypted) (\<lambda>inner.
     andThen (the_or (FillBytes (Exp (SetBytes (cdiGB inner)) a (rngDhPrime rng)) 256) AuthKeyTooBig) (\<lambda>authKey.
     andThen (writeUnencrypted E MessageServerResponse (DhGenOk_Encode \<lparr>dgoNonce = nonce, dgoServerNonce = serverNonce,
         dgoNewNonceHash1 = NonceHash1 newNonce authKey\<rparr> [])) (\<lambda>_.
       ret \<lparr>sKey = WithID authKey, sServerSalt = ServerSalt newNonce serverNonce\<rparr>)))))"

definition ServerRun :: "kexEnv \<Rightarrow> ServerRNG \<Rightarrow> PrivateKey \<Rightarrow> int \<Rightarrow> ServerExchangeResult run" where
  "ServerRun E rng key dc =
     andThen (server_hello E rng key) (\<lambda>(nonce, serverNonce, d).
     andThen (server_open E key dc d) (\<lambda>newNonce.
     andThen (server_dh E rng nonce serverNonce newNonce) (\<lambda>(a, k, iv).
       server_finish E rng nonce serverNonce newNonce a k iv)))"

end
