(* ===== verification/ExchangeSpec.thy ===== *)
theory ExchangeSpec
  imports Exchange
begin

text \<open>
  What the key exchange promises: a key that the client accepts has passed every check, and an honest
  client and an honest server that hear each other end with the same key and salt.
\<close>

section \<open>What an accepted key has passed\<close>

lemma run_Inr:
  "require ok e w = (Inr u, w') \<longleftrightarrow> ok \<and> w' = w"
  "the_or x e w = (Inr y, w') \<longleftrightarrow> x = Some y \<and> w' = w"
  "right f z w = (Inr v, w') \<longleftrightarrow> z = Inr v \<and> w' = w"
  by (auto simp: require_def the_or_def right_def ret_def fail_def split: option.splits sum.splits)

lemma ret_Inr: "ret y w = (Inr v, w') \<longleftrightarrow> v = y \<and> w' = w" "fail e w \<noteq> (Inr v, w')"
  by (auto simp: ret_def fail_def)

lemma parse_Inr: "parse f get b w = (Inr x, w') \<longleftrightarrow> (\<exists>b'. get b = (Inr x, b')) \<and> w' = w"
  by (auto simp: parse_def split: prod.splits sum.splits)

text \<open>What stays the same: only \<open>onTape\<close> uses up random bytes and only \<open>Recv\<close> and \<open>tryRead\<close> the inbox.\<close>

lemma onTape_Inr:
  "onTape m w = (Inr x, w') \<longleftrightarrow> (\<exists>t. m (draws w) = (Inr x, t) \<and> w' = w\<lparr>draws := t\<rparr>)"
  by (auto simp: onTape_def split: prod.splits sum.splits)

lemma write_Inr: "writeUnencrypted E t d w = (Inr u, w') \<Longrightarrow> draws w' = draws w \<and> inbox w' = inbox w"
  by (auto simp: writeUnencrypted_def now_def Send_def andThen_def split: if_splits)

lemma now_Inr: "now E w = (Inr t, w') \<longleftrightarrow> t = kClock E (ticks w) \<and> w' = w\<lparr>ticks := ticks w + 1\<rparr>"
  by (auto simp: now_def)

text \<open>A message from the inbox that carries a value.\<close>

definition brings :: "world \<Rightarrow> 'a decoder \<Rightarrow> 'a \<Rightarrow> bool" where
  "brings w get x \<longleftrightarrow> (\<exists>b msg b' b''. Inr b \<in> set (inbox w) \<and> UnencryptedMessage_Decode b = (Inr msg, b') \<and> get (umData msg) = (Inr x, b''))"

lemma Recv_Inr: "Recv w = (Inr b, w') \<Longrightarrow> Inr b \<in> set (inbox w) \<and> w' = w\<lparr>inbox := tl (inbox w)\<rparr>"
  by (auto simp: Recv_def split: list.splits sum.splits)

lemma try_read_Inr: "try_read c is = (Inr b, is') \<Longrightarrow> Inr b \<in> set is \<and> set is' \<subseteq> set is \<and> length is' < length is"
  by (induction c "is" rule: try_read.induct) (auto split: if_splits)

lemma read_Inr:
  "readUnencrypted c t get w = (Inr x, w') \<Longrightarrow>
    brings w get x \<and> set (inbox w') \<subseteq> set (inbox w) \<and> draws w' = draws w \<and> length (inbox w') < length (inbox w)"
  by (auto simp: readUnencrypted_def andThen_eq_Inr_iff tryRead_def run_Inr ret_Inr parse_Inr brings_def split: prod.splits
      dest!: try_read_Inr)

lemma brings_mono: "brings w' get x \<Longrightarrow> set (inbox w') \<subseteq> set (inbox w) \<Longrightarrow> brings w get x"
  unfolding brings_def by blast

lemma set_tl: "set (tl xs) \<subseteq> set xs" by (cases xs) auto

lemma draw_Inr: "draw n t = (Inr x, t') \<longleftrightarrow> n \<le> length t \<and> x = take n t \<and> t' = drop n t"
  by (auto simp: draw_def)

lemma hello_Inr:
  assumes "client_hello E w = (Inr (nonce, r), w')"
  shows "nonce = take 16 (draws w) \<and> length nonce = 16 \<and> draws w' = drop 16 (draws w) \<and> brings w ResPQ_Decode r \<and>
    resNonce r = nonce \<and> set (inbox w') \<subseteq> set (inbox w)"
  using assms
  by (auto simp: client_hello_def andThen_eq_Inr_iff onTape_Inr draw_Inr run_Inr ret_Inr dest!: write_Inr read_Inr)
    (auto simp: brings_def)
lemma select_key_Some: "select_key keys fps = Some key \<Longrightarrow> key \<in> set keys \<and> RSAFingerprint key \<in> set fps"
  by (auto simp: select_key_def find_Some_iff)

lemma Recv_brings:
  "Recv w = (Inr b, w1) \<Longrightarrow> UnencryptedMessage_Decode b = (Inr msg, b') \<Longrightarrow> get (umData msg) = (Inr x, b'') \<Longrightarrow> brings w get x"
  by (auto simp: brings_def dest: Recv_Inr)

lemma request_Inr:
  assumes "client_request E keys dc nonce r w = (Inr (newNonce, dhParams, reqStart, roundtrip), w')"
  shows "SetBytes (resPq r) \<le> 2 ^ 63 \<and>
    (\<exists>k p q t enc. k \<in> set keys \<and> RSAFingerprint k \<in> set (resFingerprints r) \<and>
      DecomposePQ (SetBytes (resPq r)) (draws w) = (Inr (p, q), t) \<and> 32 \<le> length t \<and> newNonce = take 32 t \<and>
      RSAPad (kAES E) (PQInnerDataDC_Encode \<lparr>pqcPq = resPq r, pqcP = big_Bytes p, pqcQ = big_Bytes q,
        pqcNonce = nonce, pqcServerNonce = resServerNonce r, pqcNewNonce = newNonce, pqcDC = dc\<rparr> []) k (drop 32 t) = (Inr enc, draws w')) \<and>
    brings w DecodeServerDHParams dhParams \<and> set (inbox w') \<subseteq> set (inbox w)"
proof -
  from assms obtain key p q t enc w1 w2 w3 b msg b' b'' where
    "select_key keys (resFingerprints r) = Some key" "SetBytes (resPq r) \<le> 2 ^ 63"
    "DecomposePQ (SetBytes (resPq r)) (draws w) = (Inr (p, q), t)" "32 \<le> length t" "newNonce = take 32 t"
    "RSAPad (kAES E) (PQInnerDataDC_Encode \<lparr>pqcPq = resPq r, pqcP = big_Bytes p, pqcQ = big_Bytes q,
      pqcNonce = nonce, pqcServerNonce = resServerNonce r, pqcNewNonce = newNonce, pqcDC = dc\<rparr> []) key (drop 32 t) = (Inr enc, draws w1)"
    "inbox w1 = inbox w" "Recv w1 = (Inr b, w2)" "UnencryptedMessage_Decode b = (Inr msg, b')"
    "DecodeServerDHParams (umData msg) = (Inr dhParams, b'')" "inbox w' = inbox w2" "draws w' = draws w2"
    by (auto simp: client_request_def andThen_eq_Inr_iff run_Inr ret_Inr parse_Inr onTape_Inr now_Inr draw_Inr Let_def dest!: write_Inr)
  moreover from this have "brings w1 DecodeServerDHParams dhParams" using Recv_brings by metis
  ultimately show ?thesis
    using select_key_Some[of keys "resFingerprints r" key] Recv_Inr[of w1 b w2] brings_mono[of w1 DecodeServerDHParams dhParams w] set_tl[of "inbox w1"]
    by auto
qed

lemma dh_Inr:
  assumes "client_dh E nonce serverNonce newNonce dhParams w = (Inr (inner, b), w')"
  shows "(\<exists>p key iv data b'. dhParams = DHParamsOk p \<and> sdoNonce p = nonce \<and> sdoServerNonce p = serverNonce \<and>
      TempAESKeys (SetBytes newNonce) (SetBytes serverNonce) = Some (key, iv) \<and>
      DecryptExchangeAnswer (kAES E) (sdoEncryptedAnswer p) key iv = Inr data \<and>
      ServerDHInnerData_Decode data = (Inr inner, b')) \<and>
    sdiNonce inner = nonce \<and> sdiServerNonce inner = serverNonce \<and>
    CheckDH (kPrime E) (sdiG inner) (SetBytes (sdiDhPrime inner)) = None \<and>
    CheckDHParams (SetBytes (sdiDhPrime inner)) (sdiG inner) (SetBytes (sdiGA inner))
      (Exp (nat (sdiG inner)) b (SetBytes (sdiDhPrime inner))) = None \<and>
    b = SetBytes (take 256 (draws w)) \<and> 256 \<le> length (draws w) \<and> inbox w' = inbox w"
  using assms
  by (auto simp: client_dh_def andThen_eq_Inr_iff run_Inr ret_Inr parse_Inr onTape_Inr draw_Inr rand_Int_def Let_def
      split: ServerDHParamsClass.splits option.splits dest!: write_Inr)

lemma finish_Inr:
  assumes "client_finish nonce serverNonce newNonce authKey w = (Inr (k, sessionID, salt), w')"
  shows "\<exists>v key. brings w DecodeSetClientDHParamsAnswer (GenOk v) \<and> dgoNonce v = nonce \<and> dgoServerNonce v = serverNonce \<and>
    FillBytes authKey 256 = Some key \<and> NonceHash1 newNonce key = dgoNewNonceHash1 v \<and> k = WithID key \<and>
    salt = ServerSalt newNonce serverNonce"
  using assms unfolding client_finish_def
  apply (simp only: andThen_eq_Inr_iff parse_Inr)
  apply (elim exE conjE)
  subgoal for b w1 msg w2 answer w3 b' b''
    using Recv_brings[of w b w1 msg b' DecodeSetClientDHParamsAnswer answer b'']
    apply (cases answer)
    apply (simp_all only: SetClientDHParamsAnswerClass.case andThen_eq_Inr_iff run_Inr ret_Inr onTape_Inr prod.inject simp_thms)
    apply blast
    done
  done
lemma ClientRun_Inr:
  assumes "ClientRun E keys dc w = (Inr result, w')"
  shows "\<exists>nonce r w1 newNonce dhParams reqStart rt w2 inner b w3 k sid salt.
    client_hello E w = (Inr (nonce, r), w1) \<and>
    client_request E keys dc nonce r w1 = (Inr (newNonce, dhParams, reqStart, rt), w2) \<and>
    client_dh E nonce (resServerNonce r) newNonce dhParams w2 = (Inr (inner, b), w3) \<and>
    client_finish nonce (resServerNonce r) newNonce (Exp (SetBytes (sdiGA inner)) b (SetBytes (sdiDhPrime inner))) w3 = (Inr (k, sid, salt), w') \<and>
    cAuthKey result = k \<and> cServerSalt result = salt"
  using assms unfolding ClientRun_def
  by (simp only: andThen_eq_Inr_iff split_paired_Ex prod.case ret_Inr)
    (elim exE conjE, intro exI conjI, assumption+, simp_all)

lemma BitLen_eq: "BitLen p = Suc k \<Longrightarrow> 2 ^ k \<le> p \<and> p < 2 ^ Suc k"
  using BitLen_le[of p k] BitLen_le[of p "Suc k"] by auto

lemma CheckDH_None:
  assumes "CheckDH Prime g p = None"
  shows "2 ^ 2047 \<le> p" "p < 2 ^ 2048" "Prime p" "Prime ((p - 1) div 2)" "g \<in> {2, 3, 4, 5, 6, 7}" "CheckGP g p = None"
proof -
  have "BitLen p = Suc 2047" using assms by (simp add: CheckDH_def RSAKeyBits_def split: if_splits)
  from BitLen_eq[OF this] show "2 ^ 2047 \<le> p" "p < 2 ^ 2048" by (simp_all only: Suc_numeral semiring_norm)
  show "Prime p" "Prime ((p - 1) div 2)" "g \<in> {2, 3, 4, 5, 6, 7}" "CheckGP g p = None"
    using assms by (auto simp: CheckDH_def CheckGP_def checkPrime_def split: if_splits option.splits)
qed

lemma InRange_nat: "InRange (int x) (int lo) (int p - int lo) \<Longrightarrow> lo < x \<and> x + lo < p"
  by (auto simp: InRange_def)

lemma CheckDHParams_None:
  assumes "CheckDHParams p g gA gB = None"
  shows "2 ^ 1984 < gA" "gA + 2 ^ 1984 < p" "2 ^ 1984 < gB" "gB + 2 ^ 1984 < p"
proof -
  define lo :: nat where "lo = 2 ^ (RSAKeyBits - 64)"
  have lo: "(2 :: int) ^ (RSAKeyBits - 64) = int lo" "lo = 2 ^ 1984" by (simp only: lo_def of_nat_power of_nat_numeral) (simp only: lo_def RSAKeyBits_def, simp)
  have "InRange (int gA) (int lo) (int p - int lo)" "InRange (int gB) (int lo) (int p - int lo)"
    using assms by (simp_all add: CheckDHParams_def Let_def lo(1) split: if_splits)
  then show "2 ^ 1984 < gA" "gA + 2 ^ 1984 < p" "2 ^ 1984 < gB" "gB + 2 ^ 1984 < p"
    using InRange_nat unfolding lo(2)[symmetric] by blast+
qed

lemma group_checked:
  assumes "client_dh E nonce serverNonce newNonce dhParams w = (Inr (inner, b), w')"
    and "FillBytes (Exp (SetBytes (sdiGA inner)) b (SetBytes (sdiDhPrime inner))) 256 = Some key"
  shows "let p = SetBytes (sdiDhPrime inner); gA = SetBytes (sdiGA inner); gB = nat (sdiG inner) ^ b mod p in
      2 ^ 2047 \<le> p \<and> p < 2 ^ 2048 \<and> kPrime E p \<and> kPrime E ((p - 1) div 2) \<and> sdiG inner \<in> {2, 3, 4, 5, 6, 7} \<and>
      2 ^ 1984 < gA \<and> gA + 2 ^ 1984 < p \<and> 2 ^ 1984 < gB \<and> gB + 2 ^ 1984 < p \<and> key = be 256 (gA ^ b mod p)"
proof -
  define p gA gB where "p = SetBytes (sdiDhPrime inner)" "gA = SetBytes (sdiGA inner)" "gB = nat (sdiG inner) ^ b mod p"
  note dh = dh_Inr[OF assms(1)]
  have key: "key = be 256 (gA ^ b mod p)"
    using assms(2) by (simp add: FillBytes_def Exp_def p_gA_gB_def split: if_splits)
  have cdh: "CheckDH (kPrime E) (sdiG inner) p = None" using dh unfolding p_gA_gB_def by blast
  have prime: "2 ^ 2047 \<le> p" "p < 2 ^ 2048" "kPrime E p" "kPrime E ((p - 1) div 2)" "sdiG inner \<in> {2, 3, 4, 5, 6, 7}"
    using CheckDH_None[OF cdh] by blast+
  have "CheckDHParams p (sdiG inner) gA gB = None" using dh unfolding p_gA_gB_def Exp_def by blast
  note range = CheckDHParams_None[OF this]
  show ?thesis unfolding Let_def p_gA_gB_def[symmetric] using prime range key by blast
qed

text \<open>C4: the client accepts a key only when everything it is to check holds.  Let its flow return.  Then the
  server named a key the client knows, and under it the client's fresh nonce, which it drew after factoring, was
  encrypted.  The answer of the server echoed both nonces and was decrypted with the temporary keys of the fresh nonce
  to inner data that echo both nonces too; in these the group has a generator from 2 to 7 and a modulus of 2048 bits
  that tests as a safe prime, and the server's half and the client's own lie in the safe range.  The exponent is
  the next 256 bytes the client drew and the key is the server's half to its power; and the last answer echoed
  both nonces and showed the hash of that key under the fresh nonce, from which the salt comes.\<close>

theorem accepted_key_is_checked:
  assumes "ClientRun E keys dc w = (Inr result, w')"
  shows "\<exists>r k p q t newNonce enc t' answer tempKey iv data rest inner b v key.
    brings w ResPQ_Decode r \<and> resNonce r = take 16 (draws w) \<and> SetBytes (resPq r) \<le> 2 ^ 63 \<and>
    k \<in> set keys \<and> RSAFingerprint k \<in> set (resFingerprints r) \<and>
    DecomposePQ (SetBytes (resPq r)) (drop 16 (draws w)) = (Inr (p, q), t) \<and> newNonce = take 32 t \<and> 32 \<le> length t \<and>
    RSAPad (kAES E) (PQInnerDataDC_Encode \<lparr>pqcPq = resPq r, pqcP = big_Bytes p, pqcQ = big_Bytes q, pqcNonce = resNonce r,
      pqcServerNonce = resServerNonce r, pqcNewNonce = newNonce, pqcDC = dc\<rparr> []) k (drop 32 t) = (Inr enc, t') \<and>
    brings w DecodeServerDHParams (DHParamsOk answer) \<and> sdoNonce answer = resNonce r \<and> sdoServerNonce answer = resServerNonce r \<and>
    TempAESKeys (SetBytes newNonce) (SetBytes (resServerNonce r)) = Some (tempKey, iv) \<and>
    DecryptExchangeAnswer (kAES E) (sdoEncryptedAnswer answer) tempKey iv = Inr data \<and>
    ServerDHInnerData_Decode data = (Inr inner, rest) \<and> sdiNonce inner = resNonce r \<and> sdiServerNonce inner = resServerNonce r \<and>
    b = SetBytes (take 256 t') \<and> 256 \<le> length t' \<and>
    (let p = SetBytes (sdiDhPrime inner); gA = SetBytes (sdiGA inner); gB = nat (sdiG inner) ^ b mod p in
      2 ^ 2047 \<le> p \<and> p < 2 ^ 2048 \<and> kPrime E p \<and> kPrime E ((p - 1) div 2) \<and> sdiG inner \<in> {2, 3, 4, 5, 6, 7} \<and>
      2 ^ 1984 < gA \<and> gA + 2 ^ 1984 < p \<and> 2 ^ 1984 < gB \<and> gB + 2 ^ 1984 < p \<and> key = be 256 (gA ^ b mod p)) \<and>
    brings w DecodeSetClientDHParamsAnswer (GenOk v) \<and> dgoNonce v = resNonce r \<and> dgoServerNonce v = resServerNonce r \<and>
    dgoNewNonceHash1 v = NonceHash1 newNonce key \<and>
    cAuthKey result = WithID key \<and> cServerSalt result = ServerSalt newNonce (resServerNonce r)"
proof -
  from ClientRun_Inr[OF assms] obtain nonce r w1 newNonce dhParams reqStart rt w2 inner b w3 k sid salt where
    run: "client_hello E w = (Inr (nonce, r), w1)"
    "client_request E keys dc nonce r w1 = (Inr (newNonce, dhParams, reqStart, rt), w2)"
    "client_dh E nonce (resServerNonce r) newNonce dhParams w2 = (Inr (inner, b), w3)"
    "client_finish nonce (resServerNonce r) newNonce (Exp (SetBytes (sdiGA inner)) b (SetBytes (sdiDhPrime inner))) w3 = (Inr (k, sid, salt), w')"
    and result: "cAuthKey result = k" "cServerSalt result = salt"
    by blast
  note hello = hello_Inr[OF run(1)] and request = request_Inr[OF run(2)] and dh = dh_Inr[OF run(3)]
  have inboxes: "set (inbox w1) \<subseteq> set (inbox w)" "set (inbox w3) \<subseteq> set (inbox w)" using hello request dh by auto
  from finish_Inr[OF run(4)] obtain v key where fin: "brings w3 DecodeSetClientDHParamsAnswer (GenOk v)" "dgoNonce v = nonce"
    "dgoServerNonce v = resServerNonce r" "NonceHash1 newNonce key = dgoNewNonceHash1 v"
    "k = WithID key" "salt = ServerSalt newNonce (resServerNonce r)"
    "FillBytes (Exp (SetBytes (sdiGA inner)) b (SetBytes (sdiDhPrime inner))) 256 = Some key"
    by blast
  from dh obtain answer tempKey iv data rest where answer: "dhParams = DHParamsOk answer" "sdoNonce answer = nonce"
    "sdoServerNonce answer = resServerNonce r" "TempAESKeys (SetBytes newNonce) (SetBytes (resServerNonce r)) = Some (tempKey, iv)"
    "DecryptExchangeAnswer (kAES E) (sdoEncryptedAnswer answer) tempKey iv = Inr data" "ServerDHInnerData_Decode data = (Inr inner, rest)"
    by blast
  from request hello obtain key0 p0 q0 t enc where asked: "key0 \<in> set keys" "RSAFingerprint key0 \<in> set (resFingerprints r)"
    "DecomposePQ (SetBytes (resPq r)) (drop 16 (draws w)) = (Inr (p0, q0), t)" "newNonce = take 32 t" "32 \<le> length t"
    "RSAPad (kAES E) (PQInnerDataDC_Encode \<lparr>pqcPq = resPq r, pqcP = big_Bytes p0, pqcQ = big_Bytes q0,
        pqcNonce = nonce, pqcServerNonce = resServerNonce r, pqcNewNonce = newNonce, pqcDC = dc\<rparr> []) key0 (drop 32 t) = (Inr enc, draws w2)"
    by metis
  have "brings w1 DecodeServerDHParams (DHParamsOk answer)" using request answer(1) by simp
  from brings_mono[OF this inboxes(1)] brings_mono[OF fin(1) inboxes(2)] hello
  have brought: "brings w ResPQ_Decode r" "brings w DecodeServerDHParams (DHParamsOk answer)"
    "brings w DecodeSetClientDHParamsAnswer (GenOk v)"
    by simp_all
  have names: "nonce = resNonce r" "resNonce r = take 16 (draws w)" "SetBytes (resPq r) \<le> 2 ^ 63"
    "sdiNonce inner = nonce" "sdiServerNonce inner = resServerNonce r" "b = SetBytes (take 256 (draws w2))" "256 \<le> length (draws w2)"
    using hello request dh by simp_all
  note facts = brought group_checked[OF run(3) fin(7)] asked names(2-) answer(2-) fin(2,3) fin(4)[symmetric] result[unfolded fin(5,6)]
  show ?thesis by (intro exI conjI) (rule facts[unfolded names(1)])+
qed

section \<open>What is sent arrives\<close>

definition umsg :: "kexEnv \<Rightarrow> nat \<Rightarrow> MessageType \<Rightarrow> bytes \<Rightarrow> bytes" where
  "umsg E n typ data = UnencryptedMessage_Encode \<lparr>umMessageID = NewMessageIDNano (kClock E n) typ, umData = data\<rparr> []"

text \<open>The clock reads a time that identifiers can express, and nothing stops a message.\<close>

definition working :: "kexEnv \<Rightarrow> bool" where
  "working E \<longleftrightarrow> (\<forall>n. clock_range (kClock E n) \<and> kSends E n)"

lemma int64_NewMessageID: "clock_range n \<Longrightarrow> int64_range (NewMessageIDNano n t)"
proof -
  assume n: "clock_range n"
  then have r: "0 \<le> n - n mod 4" "n - n mod 4 < 2 ^ 31 * second"
    using pos_mod_sign[of 4 n] zmod_le_nonneg_dividend[of n 4] by (auto simp: clock_range_def)
  then have "(n - n mod 4) div second < 2 ^ 31" by (simp add: div_less_iff_less_mult)
  moreover have "0 \<le> (n - n mod 4) div second" using r(1) by (simp add: pos_imp_zdiv_nonneg_iff)
  ultimately have "0 \<le> slot (n - n mod 4)" "slot (n - n mod 4) < 2 ^ 32 * (2 ^ 31 - 1) + second"
    using pos_mod_bound[of second "n - n mod 4"] pos_mod_sign[of second "n - n mod 4"] unfolding slot_def by simp_all
  then show ?thesis
    using yield_of_bounds[of t] NewMessageIDNano_slot[OF n, of t] by simp
qed

lemma write_works:
  "working E \<Longrightarrow> writeUnencrypted E t d w =
    (Inr (), w\<lparr>outbox := outbox w @ [umsg E (ticks w) t d], ticks := ticks w + 1\<rparr>)"
  by (simp add: working_def writeUnencrypted_def now_def Send_def umsg_def)

lemma msg_arrives:
  assumes "working E" "length d < 2 ^ 31"
  shows "UnencryptedMessage_Decode (umsg E n t d) =
    (Inr \<lparr>umMessageID = NewMessageIDNano (kClock E n) t, umData = d\<rparr>, [])"
  using UnencryptedMessage_wire[of "\<lparr>umMessageID = NewMessageIDNano (kClock E n) t, umData = d\<rparr>" "[]"]
    assms int64_NewMessageID[of "kClock E n" t]
  by (simp add: umsg_def working_def)

lemma read_works:
  assumes "working E" "length d < 2 ^ 31" "get d = (Inr x, b')" "inbox w = Inr (umsg E n t d) # is" "t \<noteq> MessageUnknown"
  shows "readUnencrypted c t get w = (Inr x, w\<lparr>inbox := is\<rparr>)"
  using msg_arrives[OF assms(1,2)] assms MessageID_reads_back[of "kClock E n" t]
  by (simp add: readUnencrypted_def tryRead_def parse_def require_def ret_def working_def)

lemma recv_works:
  assumes "working E" "length d < 2 ^ 31" "get d = (Inr x, b')" "inbox w = Inr (umsg E n t d) # is"
  shows "Recv w = (Inr (umsg E n t d), w\<lparr>inbox := is\<rparr>)"
    "parse ExProto UnencryptedMessage_Decode (umsg E n t d) w' =
      (Inr \<lparr>umMessageID = NewMessageIDNano (kClock E n) t, umData = d\<rparr>, w')"
    "parse f get d w' = (Inr x, w')"
  using assms msg_arrives[OF assms(1,2)] by (simp_all add: Recv_def parse_def)

lemma sims:
  "m (draws w) = (Inr x, u) \<Longrightarrow> onTape m w = (Inr x, w\<lparr>draws := u\<rparr>)"
  "ok \<Longrightarrow> require ok e w = (Inr (), w)" "the_or (Some y) e w = (Inr y, w)" "right f (Inr z) w = (Inr z, w)"
  "now E w = (Inr (kClock E (ticks w)), w\<lparr>ticks := ticks w + 1\<rparr>)" "ret v s = (Inr v, s)"
  by (simp_all add: onTape_def require_def the_or_def right_def now_def ret_def)

lemma add_sims: "n + 2 = Suc (Suc n)" "n + 3 = Suc (Suc (Suc n))" "n + 4 = Suc (Suc (Suc (Suc n)))"
  "n + 5 = Suc (Suc (Suc (Suc (Suc n))))"
  by simp_all

lemma draw_sim: "length v = n \<Longrightarrow> draw n (v @ u) = (Inr v, u)"
  by (simp add: draw_def)

lemma client_hello_works:
  assumes "working C" "working S" "draws w = nonce @ u" "length nonce = 16" "resNonce r = nonce"
    and "inbox w = Inr (umsg S n MessageServerResponse d) # is" "length d < 2 ^ 31" "ResPQ_Decode d = (Inr r, b')"
  shows "client_hello C w = (Inr (nonce, r), w\<lparr>draws := u, inbox := is,
    outbox := outbox w @ [umsg C (ticks w) MessageFromClient (ReqPqMultiRequest_Encode \<lparr>rpmNonce = nonce\<rparr> [])],
    ticks := ticks w + 1\<rparr>)"
  using assms
  by (simp add: client_hello_def sims draw_sim write_works read_works[where get = ResPQ_Decode, OF assms(2,7,8)])

lemma client_request_works:
  assumes "working C" "working S" "select_key keys (resFingerprints r) = Some key" "SetBytes (resPq r) \<le> 2 ^ 63"
    and "DecomposePQ (SetBytes (resPq r)) (draws w) = (Inr (p, q), newNonce @ t1)" "length newNonce = 32"
    and "RSAPad (kAES C) (PQInnerDataDC_Encode \<lparr>pqcPq = resPq r, pqcP = big_Bytes p, pqcQ = big_Bytes q,
         pqcNonce = nonce, pqcServerNonce = resServerNonce r, pqcNewNonce = newNonce, pqcDC = dc\<rparr> []) key t1 = (Inr c, t2)"
    and "inbox w = Inr (umsg S n MessageServerResponse d) # ms" "length d < 2 ^ 31" "DecodeServerDHParams d = (Inr dhParams, b')"
    and "n2 = ticks w + 2" "n3 = ticks w + 3" "n4 = ticks w + 4" "n5 = ticks w + 5"
  shows "client_request C keys dc nonce r w = (Inr (newNonce, dhParams, kClock C n2, between (kClock C n4) (kClock C n2)), w\<lparr>draws := t2, inbox := ms,
    outbox := outbox w @ [umsg C n3 MessageFromClient (ReqDHParamsRequest_Encode \<lparr>rdhNonce = nonce,
      rdhServerNonce = resServerNonce r, rdhP = big_Bytes p, rdhQ = big_Bytes q, rdhFingerprint = RSAFingerprint key,
      rdhEncryptedData = c\<rparr> [])], ticks := n5\<rparr>)"
  using assms(1-8,11-)
  by (simp add: client_request_def sims draw_sim write_works recv_works[where get = DecodeServerDHParams, OF assms(2,9,10)] Let_def add_sims)


lemma client_dh_works:
  assumes "working C" "sdoNonce p = nonce" "sdoServerNonce p = serverNonce"
    and "TempAESKeys (SetBytes newNonce) (SetBytes serverNonce) = Some (key, iv)"
    and "DecryptExchangeAnswer (kAES C) (sdoEncryptedAnswer p) key iv = Inr data" "ServerDHInnerData_Decode data = (Inr inner, b')"
    and "sdiNonce inner = nonce" "sdiServerNonce inner = serverNonce" "SetBytes (sdiDhPrime inner) = P" "nat (sdiG inner) = g"
    and "CheckDH (kPrime C) (sdiG inner) P = None" "draws w = half @ t1" "length half = 256"
    and "CheckDHParams P (sdiG inner) (SetBytes (sdiGA inner)) (Exp g (SetBytes half) P) = None"
    and "EncryptExchangeAnswer (kAES C) (ClientDHInnerData_Encode \<lparr>cdiNonce = nonce, cdiServerNonce = serverNonce,
           cdiRetryID = 0, cdiGB = big_Bytes (Exp g (SetBytes half) P)\<rparr> []) key iv t1 = (Inr c, t2)"
  shows "client_dh C nonce serverNonce newNonce (DHParamsOk p) w = (Inr (inner, SetBytes half), w\<lparr>draws := t2,
    outbox := outbox w @ [umsg C (ticks w) MessageFromClient (SetClientDHParamsRequest_Encode \<lparr>scpNonce = nonce,
      scpServerNonce = serverNonce, scpEncryptedData = c\<rparr> [])], ticks := ticks w + 1\<rparr>)"
  using assms by (simp add: client_dh_def sims parse_def draw_sim rand_Int_def write_works Let_def)

lemma client_finish_works:
  assumes "working S" "length d < 2 ^ 31" "DecodeSetClientDHParamsAnswer d = (Inr (GenOk v), b')"
    and "inbox w = Inr (umsg S n MessageServerResponse d) # is" "draws w = sid @ u" "length sid = 8"
    and "dgoNonce v = nonce" "dgoServerNonce v = serverNonce" "FillBytes authKey 256 = Some key"
    and "dgoNewNonceHash1 v = NonceHash1 newNonce key"
  shows "client_finish nonce serverNonce newNonce authKey w =
    (Inr (WithID key, sint (word_of_nat (unle sid) :: 64 word), ServerSalt newNonce serverNonce), w\<lparr>draws := u, inbox := is\<rparr>)"
  using assms(1,2,4-)
  by (simp add: client_finish_def sims draw_sim NewSessionID_def recv_works[where get = DecodeSetClientDHParamsAnswer, OF assms(1-3)])

section \<open>The server at work\<close>

lemma server_hello_works:
  assumes "working C" "working S" "draws w = serverNonce @ u" "length serverNonce = 16"
    and "inbox w = Inr (umsg C n MessageFromClient d) # Inr (umsg C m MessageFromClient e) # is"
    and "length d < 2 ^ 31" "reqPQ_Decode d = (Inr nonce, b')" "length e < 2 ^ 31" "reqOrDH_Decode e = (Inr (ReqDH x), b'')"
  shows "server_hello S rng key w = (Inr (nonce, serverNonce, x), w\<lparr>draws := u, inbox := is,
    outbox := outbox w @ [umsg S (ticks w) MessageServerResponse (ResPQ_Encode \<lparr>resNonce = nonce, resServerNonce = serverNonce,
      resPq = big_Bytes (rngPQ rng), resFingerprints = [RSAFingerprint key]\<rparr> [])], ticks := ticks w + 1\<rparr>)"
  using assms
  by (simp add: server_hello_def sims draw_sim write_works read_works[where get = reqPQ_Decode, OF assms(1,6,7)]
      read_works[where get = reqOrDH_Decode, OF assms(1,8,9)])

lemma server_open_works:
  assumes "DecodeRSAPad (kAES S) (rdhEncryptedData x) key = Inr r" "DecodePQInnerData r = (Inr (PQDC inner), b')" "pqcDC inner = dc"
  shows "server_open S key dc x w = (Inr (pqcNewNonce inner), w)"
  using assms by (simp add: server_open_def sims parse_def)

lemma server_dh_works:
  assumes "working S" "rngGA rng 3 (rngDhPrime rng) (draws w) = (Inr (a, ga), t1)"
    and "TempAESKeys (SetBytes newNonce) (SetBytes serverNonce) = Some (key, iv)"
    and "EncryptExchangeAnswer (kAES S) (ServerDHInnerData_Encode \<lparr>sdiNonce = nonce, sdiServerNonce = serverNonce,
         sdiG = 3, sdiDhPrime = big_Bytes (rngDhPrime rng), sdiGA = big_Bytes ga,
         sdiServerTime = kClock S (ticks w) div 1000000000\<rparr> []) key iv t1 = (Inr c, t2)"
  shows "server_dh S rng nonce serverNonce newNonce w = (Inr (a, key, iv), w\<lparr>draws := t2,
    outbox := outbox w @ [umsg S (ticks w + 1) MessageServerResponse (ServerDHParamsOk_Encode \<lparr>sdoNonce = nonce,
      sdoServerNonce = serverNonce, sdoEncryptedAnswer = c\<rparr> [])], ticks := ticks w + 2\<rparr>)"
  using assms by (simp add: server_dh_def sims write_works add_sims)

lemma server_finish_works:
  assumes "working C" "working S" "length d < 2 ^ 31" "SetClientDHParamsRequest_Decode d = (Inr x, b')"
    and "inbox w = Inr (umsg C n MessageFromClient d) # is"
    and "DecryptExchangeAnswer (kAES S) (scpEncryptedData x) key iv = Inr data" "ClientDHInnerData_Decode data = (Inr inner, b'')"
    and "FillBytes (Exp (SetBytes (cdiGB inner)) a (rngDhPrime rng)) 256 = Some authKey"
  shows "server_finish S rng nonce serverNonce newNonce a key iv w =
    (Inr \<lparr>sKey = WithID authKey, sServerSalt = ServerSalt newNonce serverNonce\<rparr>, w\<lparr>inbox := is,
    outbox := outbox w @ [umsg S (ticks w) MessageServerResponse (DhGenOk_Encode \<lparr>dgoNonce = nonce, dgoServerNonce = serverNonce,
      dgoNewNonceHash1 = NonceHash1 newNonce authKey\<rparr> [])], ticks := ticks w + 1\<rparr>)"
  using assms(1,2,5-)
  by (simp add: server_finish_def sims write_works parse_def read_works[where get = SetClientDHParamsRequest_Decode, OF assms(1,3,4)])


section \<open>An honest exchange\<close>

lemma lengths_wire:
  "length (wID i) = 4" "length (wInt n) = 4" "length (wLong v) = 8" "length (wBytes s) < length s + 8"
  using length_PutBytes(2)[of s] by (simp_all add: wID_def wInt_def wLong_def wBytes_def tl_defs)

lemma big_Bytes_short: "n \<le> 2 ^ 63 \<Longrightarrow> length (big_Bytes n) \<le> 8" "n < 2 ^ 2048 \<Longrightarrow> length (big_Bytes n) \<le> 256"
proof -
  show "length (big_Bytes n) \<le> 8" if "n \<le> 2 ^ 63" using that by (intro length_Bytes) simp
  have "(256 :: nat) ^ 256 = 2 ^ (8 * 256)" unfolding power_mult by simp
  also have "8 * 256 = (2048 :: nat)" by simp
  finally show "length (big_Bytes n) \<le> 256" if "n < 2 ^ 2048" using that by (intro length_Bytes) (simp only:)
qed

text \<open>What each side puts into its envelopes.\<close>

definition clientInner :: "ServerRNG \<Rightarrow> nat \<times> nat \<Rightarrow> bytes \<Rightarrow> bytes \<Rightarrow> bytes \<Rightarrow> int \<Rightarrow> bytes" where
  "clientInner rng pq nonce serverNonce newNonce dc = PQInnerDataDC_Encode \<lparr>pqcPq = big_Bytes (rngPQ rng),
     pqcP = big_Bytes (fst pq), pqcQ = big_Bytes (snd pq), pqcNonce = nonce, pqcServerNonce = serverNonce,
     pqcNewNonce = newNonce, pqcDC = dc\<rparr> []"

definition serverInner :: "kexEnv \<Rightarrow> ServerRNG \<Rightarrow> bytes \<Rightarrow> bytes \<Rightarrow> nat \<Rightarrow> bytes" where
  "serverInner S rng nonce serverNonce ga = ServerDHInnerData_Encode \<lparr>sdiNonce = nonce, sdiServerNonce = serverNonce,
     sdiG = 3, sdiDhPrime = big_Bytes (rngDhPrime rng), sdiGA = big_Bytes ga, sdiServerTime = kClock S 1 div 1000000000\<rparr> []"

definition clientHalf :: "bytes \<Rightarrow> bytes \<Rightarrow> nat \<Rightarrow> bytes" where
  "clientHalf nonce serverNonce gb = ClientDHInnerData_Encode \<lparr>cdiNonce = nonce, cdiServerNonce = serverNonce,
     cdiRetryID = 0, cdiGB = big_Bytes gb\<rparr> []"

lemma clientInner_opened:
  assumes "rngPQ rng \<le> 2 ^ 63" "fst pq \<le> 2 ^ 63" "snd pq \<le> 2 ^ 63" "length nonce = 16" "length serverNonce = 16" "length newNonce = 32" "int32_range dc"
  shows "\<exists>x. DecodePQInnerData (clientInner rng pq nonce serverNonce newNonce dc @ rest) = (Inr (PQDC x), rest) \<and> pqcNewNonce x = newNonce \<and> pqcDC x = dc"
    "length (clientInner rng pq nonce serverNonce newNonce dc) \<le> 144"
proof -
  note short = big_Bytes_short(1)[OF assms(1)] big_Bytes_short(1)[OF assms(2)] big_Bytes_short(1)[OF assms(3)]
  define x where "x = \<lparr>pqcPq = big_Bytes (rngPQ rng), pqcP = big_Bytes (fst pq), pqcQ = big_Bytes (snd pq), pqcNonce = nonce,
    pqcServerNonce = serverNonce, pqcNewNonce = newNonce, pqcDC = dc\<rparr>"
  have "PQInnerDataDC_ok x" using assms short by (simp add: x_def PQInnerDataDC_ok_def)
  from pqc.get_put[OF this, of rest] have "DecodePQInnerData (PQInnerDataDC_Encode x [] @ rest) = (Inr (PQDC x), rest)"
    by (simp add: DecodePQInnerData_iff)
  then show "\<exists>x. DecodePQInnerData (clientInner rng pq nonce serverNonce newNonce dc @ rest) = (Inr (PQDC x), rest) \<and> pqcNewNonce x = newNonce \<and> pqcDC x = dc"
    by (intro exI[of _ x]) (simp add: clientInner_def x_def)
  show "length (clientInner rng pq nonce serverNonce newNonce dc) \<le> 144"
    using short assms(4-6) lengths_wire(4)[of "big_Bytes (rngPQ rng)"] lengths_wire(4)[of "big_Bytes (fst pq)"] lengths_wire(4)[of "big_Bytes (snd pq)"]
    by (simp add: clientInner_def ex_defs wire lengths_wire(1-3))
qed

lemma serverInner_opened:
  assumes "working S" "rngDhPrime rng < 2 ^ 2048" "ga < rngDhPrime rng" "length nonce = 16" "length serverNonce = 16"
  shows "ServerDHInnerData_Decode (serverInner S rng nonce serverNonce ga @ rest) = (Inr \<lparr>sdiNonce = nonce, sdiServerNonce = serverNonce,
     sdiG = 3, sdiDhPrime = big_Bytes (rngDhPrime rng), sdiGA = big_Bytes ga, sdiServerTime = kClock S 1 div 1000000000\<rparr>, rest)"
    "length (serverInner S rng nonce serverNonce ga) \<le> 600"
proof -
  have "ga < 2 ^ 2048" using assms(2,3) by (rule less_trans[rotated])
  note short = big_Bytes_short(2)[OF assms(2)] big_Bytes_short(2)[OF this]
  have "clock_range (kClock S 1)" using assms(1) by (simp add: working_def)
  then have "0 \<le> kClock S 1" "kClock S 1 < 2147483648 * 1000000000" by (simp_all add: clock_range_def)
  then have "0 \<le> kClock S 1 div 1000000000" "kClock S 1 div 1000000000 < 2147483648"
    using zdiv_mono1[of "kClock S 1" "2147483648 * 1000000000 - 1" 1000000000] by (simp_all add: pos_imp_zdiv_nonneg_iff)
  then show "ServerDHInnerData_Decode (serverInner S rng nonce serverNonce ga @ rest) = (Inr \<lparr>sdiNonce = nonce, sdiServerNonce = serverNonce,
     sdiG = 3, sdiDhPrime = big_Bytes (rngDhPrime rng), sdiGA = big_Bytes ga, sdiServerTime = kClock S 1 div 1000000000\<rparr>, rest)"
    unfolding serverInner_def using short assms(4,5)
    by (intro sdi.get_put) (simp add: ServerDHInnerData_ok_def)
  show "length (serverInner S rng nonce serverNonce ga) \<le> 600"
    using short assms(4,5) lengths_wire(4)[of "big_Bytes (rngDhPrime rng)"] lengths_wire(4)[of "big_Bytes ga"]
    by (simp add: serverInner_def ex_defs wire lengths_wire(1-3))
qed

lemma clientHalf_opened:
  assumes "gb < 2 ^ 2048" "length nonce = 16" "length serverNonce = 16"
  shows "ClientDHInnerData_Decode (clientHalf nonce serverNonce gb) = (Inr \<lparr>cdiNonce = nonce, cdiServerNonce = serverNonce,
     cdiRetryID = 0, cdiGB = big_Bytes gb\<rparr>, [])"
    "length (clientHalf nonce serverNonce gb) \<le> 600"
proof -
  note short = big_Bytes_short(2)[OF assms(1)]
  show "ClientDHInnerData_Decode (clientHalf nonce serverNonce gb) = (Inr \<lparr>cdiNonce = nonce, cdiServerNonce = serverNonce,
     cdiRetryID = 0, cdiGB = big_Bytes gb\<rparr>, [])"
    unfolding clientHalf_def using short assms(2,3)
    by (intro cdi.get_put[where rest = "[]", unfolded append_Nil2]) (simp add: ClientDHInnerData_ok_def)
  show "length (clientHalf nonce serverNonce gb) \<le> 600"
    using short assms(2,3) lengths_wire(4)[of "big_Bytes gb"] by (simp add: clientHalf_def ex_defs wire lengths_wire(1-3))
qed

text \<open>The messages of both sides.\<close>

lemma hello_sent:
  assumes "length nonce = 16"
  shows "reqPQ_Decode (ReqPqMultiRequest_Encode \<lparr>rpmNonce = nonce\<rparr> []) = (Inr nonce, [])"
    "length (ReqPqMultiRequest_Encode \<lparr>rpmNonce = nonce\<rparr> []) < 2 ^ 31"
proof -
  have "ReqPqMultiRequest_Decode (ReqPqMultiRequest_Encode \<lparr>rpmNonce = nonce\<rparr> []) = (Inr \<lparr>rpmNonce = nonce\<rparr>, [])"
    using assms by (intro rpm.get_put[where rest = "[]", unfolded append_Nil2]) (simp add: ReqPqMultiRequest_ok_def)
  moreover have "PeekID (ReqPqMultiRequest_Encode \<lparr>rpmNonce = nonce\<rparr> []) = (Inr ReqPqMultiRequestTypeID, ReqPqMultiRequest_Encode \<lparr>rpmNonce = nonce\<rparr> [])"
    by (simp add: ReqPqMultiRequest_Encode_def ReqPqMultiRequest_EncodeBare_def wire)
  ultimately show "reqPQ_Decode (ReqPqMultiRequest_Encode \<lparr>rpmNonce = nonce\<rparr> []) = (Inr nonce, [])"
    by (simp add: reqPQ_Decode_def ret_def ex_ids)
  show "length (ReqPqMultiRequest_Encode \<lparr>rpmNonce = nonce\<rparr> []) < 2 ^ 31"
    using assms by (simp add: ex_defs wire lengths_wire)
qed

lemma request_sent:
  assumes "ReqDHParamsRequest_ok x" "length (rdhP x) \<le> 8" "length (rdhQ x) \<le> 8" "length (rdhEncryptedData x) = 256"
  shows "reqOrDH_Decode (ReqDHParamsRequest_Encode x []) = (Inr (ReqDH x), [])" "length (ReqDHParamsRequest_Encode x []) < 2 ^ 31"
proof -
  have "ReqDHParamsRequest_Decode (ReqDHParamsRequest_Encode x []) = (Inr x, [])"
    using assms(1) by (intro rdh.get_put[where rest = "[]", unfolded append_Nil2])
  moreover have "PeekID (ReqDHParamsRequest_Encode x []) = (Inr ReqDHParamsRequestTypeID, ReqDHParamsRequest_Encode x [])"
    by (simp add: ReqDHParamsRequest_Encode_def ReqDHParamsRequest_EncodeBare_def wire)
  ultimately show "reqOrDH_Decode (ReqDHParamsRequest_Encode x []) = (Inr (ReqDH x), [])"
    by (simp add: reqOrDH_Decode_def ret_def)
  show "length (ReqDHParamsRequest_Encode x []) < 2 ^ 31"
    using assms lengths_wire(4)[of "rdhP x"] lengths_wire(4)[of "rdhQ x"] lengths_wire(4)[of "rdhEncryptedData x"]
    by (simp add: ex_defs wire lengths_wire(1-3) ReqDHParamsRequest_ok_def)
qed

lemma RSAFingerprint_range: "int64_range (RSAFingerprint key)"
  using sint_ge[where ?'a = 64] sint_lt[where ?'a = 64] by (simp add: RSAFingerprint_def Let_def)

lemma offer_sent:
  assumes "length nonce = 16" "length serverNonce = 16" "n \<le> 2 ^ 63"
  shows "ResPQ_Decode (ResPQ_Encode \<lparr>resNonce = nonce, resServerNonce = serverNonce, resPq = big_Bytes n, resFingerprints = [RSAFingerprint key]\<rparr> []) =
      (Inr \<lparr>resNonce = nonce, resServerNonce = serverNonce, resPq = big_Bytes n, resFingerprints = [RSAFingerprint key]\<rparr>, [])"
    "length (ResPQ_Encode \<lparr>resNonce = nonce, resServerNonce = serverNonce, resPq = big_Bytes n, resFingerprints = [RSAFingerprint key]\<rparr> []) < 2 ^ 31"
proof -
  show "ResPQ_Decode (ResPQ_Encode \<lparr>resNonce = nonce, resServerNonce = serverNonce, resPq = big_Bytes n, resFingerprints = [RSAFingerprint key]\<rparr> []) =
      (Inr \<lparr>resNonce = nonce, resServerNonce = serverNonce, resPq = big_Bytes n, resFingerprints = [RSAFingerprint key]\<rparr>, [])"
    using assms big_Bytes_short(1)[OF assms(3)] RSAFingerprint_range
    by (intro res.get_put[where rest = "[]", unfolded append_Nil2]) (simp add: ResPQ_ok_def)
  show "length (ResPQ_Encode \<lparr>resNonce = nonce, resServerNonce = serverNonce, resPq = big_Bytes n, resFingerprints = [RSAFingerprint key]\<rparr> []) < 2 ^ 31"
    using assms big_Bytes_short(1)[OF assms(3)] lengths_wire(4)[of "big_Bytes n"]
    by (simp add: ex_defs wire lengths_wire(1-3))
qed

lemma params_sent:
  assumes "length nonce = 16" "length serverNonce = 16" "length c \<le> 700"
  shows "DecodeServerDHParams (ServerDHParamsOk_Encode \<lparr>sdoNonce = nonce, sdoServerNonce = serverNonce, sdoEncryptedAnswer = c\<rparr> []) =
      (Inr (DHParamsOk \<lparr>sdoNonce = nonce, sdoServerNonce = serverNonce, sdoEncryptedAnswer = c\<rparr>), [])"
    "length (ServerDHParamsOk_Encode \<lparr>sdoNonce = nonce, sdoServerNonce = serverNonce, sdoEncryptedAnswer = c\<rparr> []) < 2 ^ 31"
    "SetClientDHParamsRequest_Decode (SetClientDHParamsRequest_Encode \<lparr>scpNonce = nonce, scpServerNonce = serverNonce, scpEncryptedData = c\<rparr> []) =
      (Inr \<lparr>scpNonce = nonce, scpServerNonce = serverNonce, scpEncryptedData = c\<rparr>, [])"
    "length (SetClientDHParamsRequest_Encode \<lparr>scpNonce = nonce, scpServerNonce = serverNonce, scpEncryptedData = c\<rparr> []) < 2 ^ 31"
proof -
  have "ServerDHParamsOk_Decode (ServerDHParamsOk_Encode \<lparr>sdoNonce = nonce, sdoServerNonce = serverNonce, sdoEncryptedAnswer = c\<rparr> []) =
      (Inr \<lparr>sdoNonce = nonce, sdoServerNonce = serverNonce, sdoEncryptedAnswer = c\<rparr>, [])"
    using assms by (intro sdo.get_put[where rest = "[]", unfolded append_Nil2]) (simp add: ServerDHParamsOk_ok_def)
  then show "DecodeServerDHParams (ServerDHParamsOk_Encode \<lparr>sdoNonce = nonce, sdoServerNonce = serverNonce, sdoEncryptedAnswer = c\<rparr> []) =
      (Inr (DHParamsOk \<lparr>sdoNonce = nonce, sdoServerNonce = serverNonce, sdoEncryptedAnswer = c\<rparr>), [])"
    by (simp add: DecodeServerDHParams_iff)
  show "SetClientDHParamsRequest_Decode (SetClientDHParamsRequest_Encode \<lparr>scpNonce = nonce, scpServerNonce = serverNonce, scpEncryptedData = c\<rparr> []) =
      (Inr \<lparr>scpNonce = nonce, scpServerNonce = serverNonce, scpEncryptedData = c\<rparr>, [])"
    using assms by (intro scp.get_put[where rest = "[]", unfolded append_Nil2]) (simp add: SetClientDHParamsRequest_ok_def)
qed (use assms lengths_wire(4)[of c] in \<open>simp_all add: ex_defs wire lengths_wire(1-3)\<close>)

lemma answer_sent:
  assumes "length nonce = 16" "length serverNonce = 16"
  shows "DecodeSetClientDHParamsAnswer (DhGenOk_Encode \<lparr>dgoNonce = nonce, dgoServerNonce = serverNonce,
        dgoNewNonceHash1 = NonceHash1 newNonce key\<rparr> []) =
      (Inr (GenOk \<lparr>dgoNonce = nonce, dgoServerNonce = serverNonce, dgoNewNonceHash1 = NonceHash1 newNonce key\<rparr>), [])"
    "length (DhGenOk_Encode \<lparr>dgoNonce = nonce, dgoServerNonce = serverNonce, dgoNewNonceHash1 = NonceHash1 newNonce key\<rparr> []) < 2 ^ 31"
proof -
  have "DhGenOk_Decode (DhGenOk_Encode \<lparr>dgoNonce = nonce, dgoServerNonce = serverNonce, dgoNewNonceHash1 = NonceHash1 newNonce key\<rparr> []) =
      (Inr \<lparr>dgoNonce = nonce, dgoServerNonce = serverNonce, dgoNewNonceHash1 = NonceHash1 newNonce key\<rparr>, [])"
    using assms by (intro dgo.get_put[where rest = "[]", unfolded append_Nil2]) (simp add: DhGenOk_ok_def NonceHash1_def)
  then show "DecodeSetClientDHParamsAnswer (DhGenOk_Encode \<lparr>dgoNonce = nonce, dgoServerNonce = serverNonce,
        dgoNewNonceHash1 = NonceHash1 newNonce key\<rparr> []) =
      (Inr (GenOk \<lparr>dgoNonce = nonce, dgoServerNonce = serverNonce, dgoNewNonceHash1 = NonceHash1 newNonce key\<rparr>), [])"
    by (simp add: DecodeSetClientDHParamsAnswer_iff)
qed (use assms in \<open>simp add: ex_defs wire lengths_wire(1-3) NonceHash1_def\<close>)


lemma ClientRun_phases:
  assumes "client_hello C w = (Inr (nonce, r), w1)"
    and "client_request C keys dc nonce r w1 = (Inr (newNonce, dhParams, t, d), w2)"
    and "client_dh C nonce (resServerNonce r) newNonce dhParams w2 = (Inr (inner, b), w3)"
    and "client_finish nonce (resServerNonce r) newNonce (Exp (SetBytes (sdiGA inner)) b (SetBytes (sdiDhPrime inner))) w3 =
      (Inr (key, sid, salt), w4)"
  shows "\<exists>result. ClientRun C keys dc w = (Inr result, w4) \<and> cAuthKey result = key \<and> cServerSalt result = salt \<and> cSessionID result = sid"
  using assms by (simp add: ClientRun_def sims)

lemma ServerRun_phases:
  assumes "server_hello S rng key w = (Inr (nonce, serverNonce, x), w1)" "server_open S key dc x w1 = (Inr newNonce, w2)"
    and "server_dh S rng nonce serverNonce newNonce w2 = (Inr (a, k, iv), w3)"
    and "server_finish S rng nonce serverNonce newNonce a k iv w3 = (Inr result, w4)"
  shows "ServerRun S rng key dc w = (Inr result, w4)"
  using assms by (simp add: ServerRun_def)

lemma padded_answer: "length data \<le> 600 \<Longrightarrow> paddedLen16 (length data + 20) \<le> 700"
  using paddedLen16_bounds(2)[of "length data + 20"] by linarith

lemma select_key_fingerprint: "select_key keys [RSAFingerprint key] = Some key' \<Longrightarrow> RSAFingerprint key' = RSAFingerprint key"
  by (auto dest: select_key_Some)

lemma DecomposePQ_bounds: "DecomposePQ n u = (Inr pq, u') \<Longrightarrow> fst pq \<le> n \<and> snd pq \<le> n"
  by (auto simp: DecomposePQ_def andThen_eq_Inr_iff ret_def Let_def dest!: attempts_divides split: if_splits)

lemma TempAESKeys_length: "TempAESKeys m n = Some (tk, iv) \<Longrightarrow> length tk = 32 \<and> length iv = 32"
  by (auto simp: TempAESKeys_def sha1BigInt_def split: if_splits)

lemma FillBytes_mod: "P < 2 ^ 2048 \<Longrightarrow> 0 < P \<Longrightarrow> FillBytes (x mod P) 256 = Some (be 256 (x mod P))"
proof (rule FillBytes_fits)
  assume "P < 2 ^ 2048" "0 < P"
  then have "x mod P < 2 ^ 2048" by (meson less_trans mod_less_divisor)
  moreover have "(2 :: nat) ^ (8 * 256) = 256 ^ 256" unfolding power_mult by simp
  moreover have "8 * 256 = (2048 :: nat)" by simp
  ultimately show "x mod P < 256 ^ 256" by (simp only:)
qed

text \<open>What each side has sent when all went well.\<close>

definition fromClient :: "kexEnv \<Rightarrow> bytes \<Rightarrow> bytes \<Rightarrow> nat \<times> nat \<Rightarrow> PrivateKey \<Rightarrow> bytes \<Rightarrow> bytes \<Rightarrow> bytes list" where
  "fromClient C nonce serverNonce pq key c1 c3 =
     [umsg C 0 MessageFromClient (ReqPqMultiRequest_Encode \<lparr>rpmNonce = nonce\<rparr> []),
      umsg C 4 MessageFromClient (ReqDHParamsRequest_Encode \<lparr>rdhNonce = nonce, rdhServerNonce = serverNonce,
        rdhP = big_Bytes (fst pq), rdhQ = big_Bytes (snd pq), rdhFingerprint = RSAFingerprint key, rdhEncryptedData = c1\<rparr> []),
      umsg C 6 MessageFromClient (SetClientDHParamsRequest_Encode \<lparr>scpNonce = nonce, scpServerNonce = serverNonce, scpEncryptedData = c3\<rparr> [])]"

definition fromServer :: "kexEnv \<Rightarrow> bytes \<Rightarrow> bytes \<Rightarrow> nat \<Rightarrow> PrivateKey \<Rightarrow> bytes \<Rightarrow> bytes \<Rightarrow> bytes list" where
  "fromServer S nonce serverNonce n key c2 h =
     [umsg S 0 MessageServerResponse (ResPQ_Encode \<lparr>resNonce = nonce, resServerNonce = serverNonce, resPq = big_Bytes n, resFingerprints = [RSAFingerprint key]\<rparr> []),
      umsg S 2 MessageServerResponse (ServerDHParamsOk_Encode \<lparr>sdoNonce = nonce, sdoServerNonce = serverNonce, sdoEncryptedAnswer = c2\<rparr> []),
      umsg S 3 MessageServerResponse (DhGenOk_Encode \<lparr>dgoNonce = nonce, dgoServerNonce = serverNonce, dgoNewNonceHash1 = h\<rparr> [])]"

lemma server_side:
  assumes "working C" "working S" "P = rngDhPrime rng" "P < 2 ^ 2048" "0 < P"
    and "length nonce = 16" "length serverNonce = 16" "TempAESKeys (SetBytes newNonce) (SetBytes serverNonce) = Some (tk, iv)"
    and "fst pq \<le> 2 ^ 63" "snd pq \<le> 2 ^ 63" "length c1 = 256"
    and "DecodeRSAPad (kAES S) c1 key = Inr r" "DecodePQInnerData r = (Inr (PQDC x1), r')" "pqcNewNonce x1 = newNonce" "pqcDC x1 = dc"
    and "\<forall>u. rngGA rng 3 P (ga @ u) = (Inr (a, 3 ^ a mod P), u)"
    and "EncryptExchangeAnswer (kAES S) (serverInner S rng nonce serverNonce (3 ^ a mod P)) tk iv pad1 = (Inr c2, [])"
    and "DecryptExchangeAnswer (kAES S) c3 tk iv = Inr (clientHalf nonce serverNonce (3 ^ b mod P))" "length c3 \<le> 700"
    and "k = be 256 (3 ^ (a * b) mod P)"
  shows "ServerRun S rng key dc \<lparr>draws = serverNonce @ ga @ pad1, inbox = map Inr (fromClient C nonce serverNonce pq key c1 c3),
      outbox = [], ticks = 0\<rparr> = (Inr \<lparr>sKey = WithID k, sServerSalt = ServerSalt newNonce serverNonce\<rparr>,
      \<lparr>draws = [], inbox = [], outbox = fromServer S nonce serverNonce (rngPQ rng) key c2 (NonceHash1 newNonce k), ticks = 4\<rparr>)"
proof -
  define x where "x = \<lparr>rdhNonce = nonce, rdhServerNonce = serverNonce, rdhP = big_Bytes (fst pq), rdhQ = big_Bytes (snd pq),
    rdhFingerprint = RSAFingerprint key, rdhEncryptedData = c1\<rparr>"
  define m where "m = nth (fromClient C nonce serverNonce pq key c1 c3)"
  define s where "s = nth (fromServer S nonce serverNonce (rngPQ rng) key c2 (NonceHash1 newNonce k))"
  have msgs: "m 0 = umsg C 0 MessageFromClient (ReqPqMultiRequest_Encode \<lparr>rpmNonce = nonce\<rparr> [])"
    "m (Suc 0) = umsg C 4 MessageFromClient (ReqDHParamsRequest_Encode x [])" and all: "fromClient C nonce serverNonce pq key c1 c3 = [m 0, m 1, m 2]"
    "fromServer S nonce serverNonce (rngPQ rng) key c2 (NonceHash1 newNonce k) = [s 0, s 1, s 2]"
    by (simp_all add: m_def s_def x_def fromClient_def fromServer_def)
  have "ReqDHParamsRequest_ok x" "length (rdhP x) \<le> 8" "length (rdhQ x) \<le> 8" "length (rdhEncryptedData x) = 256"
    using big_Bytes_short(1)[OF assms(9)] big_Bytes_short(1)[OF assms(10)] assms(6,7,11) RSAFingerprint_range[of key]
    by (simp_all add: x_def ReqDHParamsRequest_ok_def)
  note request = request_sent[OF this] and hello = hello_sent[OF assms(6)]
  have "3 ^ b mod P < 2 ^ 2048" using assms(4,5) by (meson less_trans mod_less_divisor)
  note reply = clientHalf_opened(1)[OF this assms(6,7)]
  have power: "(3 ^ b mod P) ^ a mod P = 3 ^ (a * b) mod P" by (simp add: power_mod mult.commute flip: power_mult)
  have "ServerRun S rng key dc \<lparr>draws = serverNonce @ ga @ pad1, inbox = [Inr (m 0), Inr (m 1), Inr (m 2)], outbox = [], ticks = 0\<rparr> =
      (Inr \<lparr>sKey = WithID k, sServerSalt = ServerSalt newNonce serverNonce\<rparr>, \<lparr>draws = [], inbox = [], outbox = [s 0, s 1, s 2], ticks = 4\<rparr>)"
  proof (rule ServerRun_phases)
    show "server_hello S rng key \<lparr>draws = serverNonce @ ga @ pad1, inbox = [Inr (m 0), Inr (m 1), Inr (m 2)], outbox = [], ticks = 0\<rparr> =
      (Inr (nonce, serverNonce, x), \<lparr>draws = ga @ pad1, inbox = [Inr (m 2)], outbox = [s 0], ticks = 1\<rparr>)"
      by (subst server_hello_works[OF assms(1,2) _ assms(7) _ hello(2,1) request(2,1)]) (simp_all add: msgs s_def fromServer_def)
    show "server_open S key dc x \<lparr>draws = ga @ pad1, inbox = [Inr (m 2)], outbox = [s 0], ticks = 1\<rparr> =
      (Inr newNonce, \<lparr>draws = ga @ pad1, inbox = [Inr (m 2)], outbox = [s 0], ticks = 1\<rparr>)"
      by (subst server_open_works[OF _ assms(13,15)]) (simp_all add: x_def assms(12,14))
    show "server_dh S rng nonce serverNonce newNonce \<lparr>draws = ga @ pad1, inbox = [Inr (m 2)], outbox = [s 0], ticks = 1\<rparr> =
      (Inr (a, tk, iv), \<lparr>draws = [], inbox = [Inr (m 2)], outbox = [s 0, s 1], ticks = 3\<rparr>)"
      using assms(16,17) by (subst server_dh_works[OF assms(2) _ assms(8)])
        (auto simp: assms(3) serverInner_def numeral_2_eq_2 numeral_3_eq_3 s_def fromServer_def)
    show "server_finish S rng nonce serverNonce newNonce a tk iv \<lparr>draws = [], inbox = [Inr (m 2)], outbox = [s 0, s 1], ticks = 3\<rparr> =
      (Inr \<lparr>sKey = WithID k, sServerSalt = ServerSalt newNonce serverNonce\<rparr>, \<lparr>draws = [], inbox = [], outbox = [s 0, s 1, s 2], ticks = 4\<rparr>)"
      by (subst server_finish_works[OF assms(1,2) params_sent(4,3)[OF assms(6,7,19)] _ _ reply])
        (auto simp: m_def fromClient_def s_def fromServer_def assms(18,20) Exp_def assms(3)[symmetric] power FillBytes_mod[OF assms(4,5)])
  qed
  then show ?thesis by (simp add: all)
qed

lemma client_side:
  assumes "working C" "working S" "P < 2 ^ 2048" "0 < P" "CheckDH (kPrime C) 3 P = None" "rngPQ rng \<le> 2 ^ 63"
    and "length nonce = 16" "length serverNonce = 16" "length newNonce = 32" "length sid = 8"
    and "TempAESKeys (SetBytes newNonce) (SetBytes serverNonce) = Some (tk, iv)"
    and "select_key keys [RSAFingerprint key] = Some (PublicKey.truncate key)"
    and "DecomposePQ (rngPQ rng) (f @ newNonce @ t1) = (Inr pq, newNonce @ t1)"
    and "RSAPad (kAES C) (clientInner rng pq nonce serverNonce newNonce dc) (PublicKey.truncate key) t1 = (Inr c1, half @ t2)"
    and "length half = 256" "b = SetBytes half" "CheckDHParams P 3 (3 ^ a mod P) (3 ^ b mod P) = None"
    and "DecryptExchangeAnswer (kAES C) c2 tk iv = Inr answer" "length c2 \<le> 700"
    and "ServerDHInnerData_Decode answer = (Inr inner, b')" "inner = \<lparr>sdiNonce = nonce, sdiServerNonce = serverNonce, sdiG = 3,
      sdiDhPrime = big_Bytes P, sdiGA = big_Bytes (3 ^ a mod P), sdiServerTime = t\<rparr>"
    and "EncryptExchangeAnswer (kAES C) (clientHalf nonce serverNonce (3 ^ b mod P)) tk iv t2 = (Inr c3, sid)"
    and "k = be 256 (3 ^ (a * b) mod P)"
  shows "\<exists>result. ClientRun C keys dc \<lparr>draws = nonce @ f @ newNonce @ t1,
      inbox = map Inr (fromServer S nonce serverNonce (rngPQ rng) key c2 (NonceHash1 newNonce k)), outbox = [], ticks = 0\<rparr> =
      (Inr result, \<lparr>draws = [], inbox = [], outbox = fromClient C nonce serverNonce pq key c1 c3, ticks = 7\<rparr>) \<and>
    cAuthKey result = WithID k \<and> cServerSalt result = ServerSalt newNonce serverNonce \<and>
    cSessionID result = sint (word_of_nat (unle sid) :: 64 word)"
proof -
  define m where "m = nth (fromClient C nonce serverNonce pq key c1 c3)"
  define s where "s = nth (fromServer S nonce serverNonce (rngPQ rng) key c2 (NonceHash1 newNonce k))"
  define p where "p = \<lparr>sdoNonce = nonce, sdoServerNonce = serverNonce, sdoEncryptedAnswer = c2\<rparr>"
  define r where "r = \<lparr>resNonce = nonce, resServerNonce = serverNonce, resPq = big_Bytes (rngPQ rng), resFingerprints = [RSAFingerprint key]\<rparr>"
  have all: "fromClient C nonce serverNonce pq key c1 c3 = [m 0, m 1, m 2]"
    "fromServer S nonce serverNonce (rngPQ rng) key c2 (NonceHash1 newNonce k) = [s 0, s 1, s 2]"
    by (simp_all add: m_def s_def fromClient_def fromServer_def)
  note msgs = m_def s_def fromClient_def fromServer_def
  note offer = offer_sent[OF assms(7,8,6), of key, folded r_def] and finger = select_key_fingerprint[OF assms(12)]
  have power: "(3 ^ a mod P) ^ b mod P = 3 ^ (a * b) mod P" by (simp add: power_mod flip: power_mult)
  have g3: "Exp 3 n P = 3 ^ n mod P" for n by (simp add: Exp_def)
  have hello: "client_hello C \<lparr>draws = nonce @ f @ newNonce @ t1, inbox = [Inr (s 0), Inr (s 1), Inr (s 2)], outbox = [], ticks = 0\<rparr> =
    (Inr (nonce, r), \<lparr>draws = f @ newNonce @ t1, inbox = [Inr (s 1), Inr (s 2)], outbox = [m 0], ticks = 1\<rparr>)"
    by (subst client_hello_works[OF assms(1,2) _ assms(7) _ _ offer(2,1)]) (simp_all add: msgs r_def)
  have request: "client_request C keys dc nonce r \<lparr>draws = f @ newNonce @ t1, inbox = [Inr (s 1), Inr (s 2)], outbox = [m 0], ticks = 1\<rparr> =
    (Inr (newNonce, DHParamsOk p, kClock C 3, between (kClock C 5) (kClock C 3)),
     \<lparr>draws = half @ t2, inbox = [Inr (s 2)], outbox = [m 0, m 1], ticks = 6\<rparr>)"
    using assms(6,13,14)
    by (subst client_request_works[OF assms(1,2) _ _ _ assms(9) _ _ params_sent(2,1)[OF assms(7,8,19)], where p = "fst pq" and q = "snd pq"
          and c = c1 and ?t2.0 = "half @ t2" and n = 2 and ms = "[Inr (s 2)]" and key = "PublicKey.truncate key"
          and ?n2.0 = 3 and ?n3.0 = 4 and ?n4.0 = 5 and ?n5.0 = 6])
      (simp_all add: msgs r_def p_def assms(12) clientInner_def finger)
  have dh: "client_dh C nonce (resServerNonce r) newNonce (DHParamsOk p) \<lparr>draws = half @ t2, inbox = [Inr (s 2)], outbox = [m 0, m 1], ticks = 6\<rparr> =
    (Inr (inner, b), \<lparr>draws = sid, inbox = [Inr (s 2)], outbox = [m 0, m 1, m 2], ticks = 7\<rparr>)"
    using client_dh_works[OF assms(1) _ _ assms(11) _ assms(20), where p = p and P = P and g = 3 and half = half and c = c3 and ?t1.0 = t2
        and ?t2.0 = sid and w = "\<lparr>draws = half @ t2, inbox = [Inr (s 2)], outbox = [m 0, m 1], ticks = 6\<rparr>"]
      assms(5,15,17,18,22)
    by (simp add: m_def fromClient_def p_def r_def assms(16,21) g3 clientHalf_def)
  have finish: "client_finish nonce (resServerNonce r) newNonce (Exp (SetBytes (sdiGA inner)) b (SetBytes (sdiDhPrime inner)))
      \<lparr>draws = sid, inbox = [Inr (s 2)], outbox = [m 0, m 1, m 2], ticks = 7\<rparr> =
    (Inr (WithID k, sint (word_of_nat (unle sid) :: 64 word), ServerSalt newNonce serverNonce),
     \<lparr>draws = [], inbox = [], outbox = [m 0, m 1, m 2], ticks = 7\<rparr>)"
    by (subst client_finish_works[OF assms(2) answer_sent(2,1)[OF assms(7,8)] _ _ assms(10)])
      (simp_all add: s_def fromServer_def r_def Exp_def power FillBytes_mod[OF assms(3,4)] assms(21,23))
  show ?thesis using ClientRun_phases[OF hello request dh finish] by (simp add: all)
qed

lemma honest_run:
  assumes envs: "working C" "working S" "kAES C = A" "kAES S = A" "ige_law A" "rsa_law key" "int32_range dc"
    and known: "select_key keys [RSAFingerprint key] = Some (PublicKey.truncate key)"
    and pq: "rngPQ rng \<le> 2 ^ 63" "\<forall>u. DecomposePQ (rngPQ rng) (f @ u) = (Inr pq, u)"
    and prime: "P = rngDhPrime rng" "CheckDH (kPrime C) 3 P = None"
    and halves: "\<forall>u. rngGA rng 3 P (ga @ u) = (Inr (a, 3 ^ a mod P), u)" "b = SetBytes half" "length half = 256"
      "CheckDHParams P 3 (3 ^ a mod P) (3 ^ b mod P) = None"
    and nonces: "length nonce = 16" "length serverNonce = 16" "length newNonce = 32" "length sid = 8"
      "TempAESKeys (SetBytes newNonce) (SetBytes serverNonce) = Some (tk, iv)"
    and pads: "length pad = 192 - length (clientInner rng pq nonce serverNonce newNonce dc)" "length k = 32"
      "SetBytes (keyAESEncrypted A (clientInner rng pq nonce serverNonce newNonce dc @ pad) k) < rsaN key"
      "answer = serverInner S rng nonce serverNonce (3 ^ a mod P)" "length pad1 = paddedLen16 (length answer + 20) - (20 + length answer)"
      "reply = clientHalf nonce serverNonce (3 ^ b mod P)" "length pad2 = paddedLen16 (length reply + 20) - (20 + length reply)"
    and free: "\<not> collides answer pad1" "\<not> collides reply pad2"
  shows "\<exists>toServer toClient result result'.
      ClientRun C keys dc \<lparr>draws = nonce @ f @ newNonce @ pad @ k @ half @ pad2 @ sid, inbox = map Inr toClient, outbox = [], ticks = 0\<rparr> =
        (Inr result, \<lparr>draws = [], inbox = [], outbox = toServer, ticks = 7\<rparr>) \<and>
      ServerRun S rng key dc \<lparr>draws = serverNonce @ ga @ pad1, inbox = map Inr toServer, outbox = [], ticks = 0\<rparr> =
        (Inr result', \<lparr>draws = [], inbox = [], outbox = toClient, ticks = 4\<rparr>) \<and>
      length toServer = 3 \<and> length toClient = 3 \<and>
      cAuthKey result = sKey result' \<and> sKey result' = WithID (be 256 (3 ^ (a * b) mod P)) \<and>
      cServerSalt result = sServerSalt result' \<and> sServerSalt result' = ServerSalt newNonce serverNonce"
proof -
  have P: "P < 2 ^ 2048" "0 < P" using CheckDH_None(1,2)[OF prime(2)] by (auto intro: less_le_trans[OF zero_less_power])
  have below: "x mod P < 2 ^ 2048" for x using P by (meson less_trans mod_less_divisor)
  define inner1 where "inner1 = clientInner rng pq nonce serverNonce newNonce dc"
  have pqs: "fst pq \<le> 2 ^ 63" "snd pq \<le> 2 ^ 63" using DecomposePQ_bounds[OF pq(2)[rule_format]] pq(1) by auto
  note inner1 = clientInner_opened[OF pq(1) pqs nonces(1-3) envs(7), folded inner1_def]
  obtain x1 where x1: "DecodePQInnerData (inner1 @ pad) = (Inr (PQDC x1), pad)" "pqcNewNonce x1 = newNonce" "pqcDC x1 = dc"
    using inner1(1)[of pad] by blast
  obtain c1 where c1: "RSAPad A inner1 (PublicKey.truncate key) (pad @ k @ half @ pad2 @ sid) = (Inr c1, half @ pad2 @ sid)"
    "length c1 = 256" "DecodeRSAPad A c1 key = Inr (inner1 @ pad)"
    using rsa_pad_roundtrip[OF envs(5,6), of pad inner1 "[]" k "half @ pad2 @ sid"] pads(1-3) inner1(2) by (auto simp: inner1_def)
  have keys: "length tk = 32" "length iv = 32" using TempAESKeys_length[OF nonces(5)] by simp_all
  note answer0 = serverInner_opened[OF envs(2) P(1)[unfolded prime(1)] _ nonces(1,2), folded prime(1), of "3 ^ a mod P", OF mod_less_divisor[OF P(2)], folded pads(4)]
  note answer = answer0(1)[of "[]", unfolded append_Nil2] answer0(2)
  note reply = clientHalf_opened[OF below nonces(1,2), of "3 ^ b", folded pads(6)]
  obtain c2 where c2: "EncryptExchangeAnswer A answer tk iv pad1 = (Inr c2, [])" "length c2 \<le> 700" "DecryptExchangeAnswer A c2 tk iv = Inr answer"
    using exchange_answer_roundtrip[OF envs(5) keys pads(5) free(1), of "[]"] padded_answer[OF answer(2)] by auto
  obtain c3 where c3: "EncryptExchangeAnswer A reply tk iv (pad2 @ sid) = (Inr c3, sid)" "length c3 \<le> 700" "DecryptExchangeAnswer A c3 tk iv = Inr reply"
    using exchange_answer_roundtrip[OF envs(5) keys pads(7) free(2), of sid] padded_answer[OF reply(2)] by auto
  define key' where "key' = be 256 (3 ^ (a * b) mod P)"
  have "ServerRun S rng key dc \<lparr>draws = serverNonce @ ga @ pad1, inbox = map Inr (fromClient C nonce serverNonce pq key c1 c3),
      outbox = [], ticks = 0\<rparr> = (Inr \<lparr>sKey = WithID key', sServerSalt = ServerSalt newNonce serverNonce\<rparr>,
      \<lparr>draws = [], inbox = [], outbox = fromServer S nonce serverNonce (rngPQ rng) key c2 (NonceHash1 newNonce key'), ticks = 4\<rparr>)"
    using c1(3) c2 c3 halves(1)
    by (intro server_side[OF envs(1,2) prime(1) P nonces(1,2,5) pqs c1(2) _ x1]) (simp_all add: envs(4) pads(4,6) key'_def)
  moreover have "\<exists>result. ClientRun C keys dc \<lparr>draws = nonce @ f @ newNonce @ pad @ k @ half @ pad2 @ sid,
      inbox = map Inr (fromServer S nonce serverNonce (rngPQ rng) key c2 (NonceHash1 newNonce key')), outbox = [], ticks = 0\<rparr> =
      (Inr result, \<lparr>draws = [], inbox = [], outbox = fromClient C nonce serverNonce pq key c1 c3, ticks = 7\<rparr>) \<and>
    cAuthKey result = WithID key' \<and> cServerSalt result = ServerSalt newNonce serverNonce \<and>
    cSessionID result = sint (word_of_nat (unle sid) :: 64 word)"
    using pq(2) c1(1) c2(3) c3(1) halves(2,4)
    by (intro client_side[OF envs(1,2) P prime(2) pq(1) nonces known _ _ halves(3) _ _ _ c2(2) answer(1)])
      (simp_all add: envs(3) inner1_def pads(6) key'_def)
  ultimately show ?thesis
    by (intro exI[of _ "fromClient C nonce serverNonce pq key c1 c3"] exI[of _ "fromServer S nonce serverNonce (rngPQ rng) key c2 (NonceHash1 newNonce key')"])
      (auto simp: fromClient_def fromServer_def key'_def)
qed

text \<open>The number of messages the server has still to receive bounds how often it sends its offer.\<close>

lemma andThen_fst_Inl: "fst (andThen m f w) = Inl e \<longleftrightarrow>
    fst (m w) = Inl e \<or> (\<exists>a w1. m w = (Inr a, w1) \<and> fst (f a w1) = Inl e)"
  by (auto simp: andThen_def split: prod.splits sum.splits)

lemma fuel_unused:
  "fst (writeUnencrypted E t d w) \<noteq> Inl OutOfMessages" "fst (readUnencrypted c t get w) \<noteq> Inl OutOfMessages"
proof -
  show "fst (writeUnencrypted E t d w) \<noteq> Inl OutOfMessages"
    by (simp add: writeUnencrypted_def andThen_fst_Inl now_def Send_def)
  have "fst (try_read c ms) \<noteq> Inl OutOfMessages" for ms by (induction c ms rule: try_read.induct) auto
  then have "fst (tryRead c w) \<noteq> Inl OutOfMessages" by (auto simp: tryRead_def split: prod.split) (metis fst_conv)
  then show "fst (readUnencrypted c t get w) \<noteq> Inl OutOfMessages"
    by (auto simp: readUnencrypted_def andThen_fst_Inl parse_def require_def ret_def fail_def split: prod.splits sum.splits if_splits)
qed

lemma send_ResPQ_fuel: "length (inbox w) < n \<Longrightarrow> fst (send_ResPQ E key pq serverNonce n nonce w) \<noteq> Inl OutOfMessages"
proof (induction n arbitrary: nonce w)
  case (Suc n)
  have "fst (send_ResPQ E key pq serverNonce n nonce' w2) \<noteq> Inl OutOfMessages"
    if "writeUnencrypted E t d w = (Inr u, w1)" "readUnencrypted False t' get w1 = (Inr x, w2)" for nonce' w1 w2 t d u t' x and get :: "reqOrDH decoder"
    using Suc.IH[of w2] Suc.prems write_Inr[OF that(1)] read_Inr[OF that(2)] by auto
  then show ?case
    by (auto simp: andThen_fst_Inl fuel_unused ret_def split: reqOrDH.splits)
qed simp

lemma server_hello_fuel: "fst (server_hello E rng key w) \<noteq> Inl OutOfMessages"
proof -
  have "fst (send_ResPQ E key pq serverNonce (Suc (length (inbox v))) nonce v) \<noteq> Inl OutOfMessages" for pq serverNonce nonce v
    by (rule send_ResPQ_fuel) simp
  moreover have "fst (onTape m v) \<noteq> Inl OutOfMessages" for m :: "bytes drawing" and v by (auto simp: onTape_def split: prod.splits sum.splits)
  ultimately show ?thesis
    by (auto simp: server_hello_def andThen_fst_Inl fuel_unused ret_def simp del: send_ResPQ.simps split: prod.splits)
qed

text \<open>C3: both sides agree.  Let client and server hear each other, in the same data center, the client
  knowing the server's public key under its fingerprint; let factoring succeed with the bytes it draws,
  the group and both halves pass the client's checks, the inner data fit under the modulus with the
  first temporary key, and the clocks read times that identifiers can express.  Then both flows return,
  after three messages each, with the same key, \<open>g\<close> to the product of both exponents, and the same
  salt, unless the padding of an envelope collides with its hash.\<close>

theorem both_sides_agree:
  assumes envs: "working C" "working S" "kAES C = A" "kAES S = A" "ige_law A" "rsa_law key" "int32_range dc"
    and known: "select_key keys [RSAFingerprint key] = Some (PublicKey.truncate key)"
    and pq: "rngPQ rng \<le> 2 ^ 63" "\<forall>u. DecomposePQ (rngPQ rng) (f @ u) = (Inr pq, u)"
    and prime: "P = rngDhPrime rng" "CheckDH (kPrime C) 3 P = None"
    and halves: "\<forall>u. rngGA rng 3 P (ga @ u) = (Inr (a, 3 ^ a mod P), u)" "b = SetBytes half" "length half = 256"
      "CheckDHParams P 3 (3 ^ a mod P) (3 ^ b mod P) = None"
    and nonces: "length nonce = 16" "length serverNonce = 16" "length newNonce = 32" "length sid = 8"
      "TempAESKeys (SetBytes newNonce) (SetBytes serverNonce) = Some (tk, iv)"
    and pads: "length pad = 192 - length (clientInner rng pq nonce serverNonce newNonce dc)" "length k = 32"
      "SetBytes (keyAESEncrypted A (clientInner rng pq nonce serverNonce newNonce dc @ pad) k) < rsaN key"
      "answer = serverInner S rng nonce serverNonce (3 ^ a mod P)" "length pad1 = paddedLen16 (length answer + 20) - (20 + length answer)"
      "reply = clientHalf nonce serverNonce (3 ^ b mod P)" "length pad2 = paddedLen16 (length reply + 20) - (20 + length reply)"
  shows "(collides answer pad1 \<or> collides reply pad2) \<or>
    (\<exists>toServer toClient result result'.
      ClientRun C keys dc \<lparr>draws = nonce @ f @ newNonce @ pad @ k @ half @ pad2 @ sid, inbox = map Inr toClient, outbox = [], ticks = 0\<rparr> =
        (Inr result, \<lparr>draws = [], inbox = [], outbox = toServer, ticks = 7\<rparr>) \<and>
      ServerRun S rng key dc \<lparr>draws = serverNonce @ ga @ pad1, inbox = map Inr toServer, outbox = [], ticks = 0\<rparr> =
        (Inr result', \<lparr>draws = [], inbox = [], outbox = toClient, ticks = 4\<rparr>) \<and>
      length toServer = 3 \<and> length toClient = 3 \<and>
      cAuthKey result = sKey result' \<and> sKey result' = WithID (be 256 (3 ^ (a * b) mod P)) \<and>
      cServerSalt result = sServerSalt result' \<and> sServerSalt result' = ServerSalt newNonce serverNonce)"
proof (cases "collides answer pad1 \<or> collides reply pad2")
  case False
  then have "\<not> collides answer pad1" "\<not> collides reply pad2" by simp_all
  from honest_run[OF assms this] show ?thesis by (rule disjI2)
qed (rule disjI1)

text \<open>An environment for examples, and the testing server's numbers.\<close>

definition kex0 :: kexEnv where
  "kex0 = \<lparr>kAES = ige0, kPrime = (\<lambda>_. True), kClock = (\<lambda>_. 0), kSends = (\<lambda>_. True)\<rparr>"

lemma working0: "working kex0"
  by (simp add: working_def kex0_def clock_range_def)

lemma test_PQ_decomposed:
  "DecomposePQ test_PQ (be 8 0 @ be 8 111718305 @ u) = (Inr (1229739323, 1402015859), u)"
proof -
  have "gcd (10149289 :: nat) 1402015859 = 1" by (simp add: gcd_non_0_nat)
  then have "gcd (1229739323 * 10149289 :: nat) (1229739323 * 1402015859) = 1229739323"
    by (simp only: gcd_mult_distrib_nat[symmetric])
  then have g: "gcd (12480979783791347 :: nat) 1724114033281923457 = 1229739323" by simp
  have "attempts test_PQ 0 0 (be 8 0 @ be 8 (111718306 - 1) @ u) = (Inr 1229739323, u)"
    by (rule attempts_lucky[where v = 17]) (simp_all add: test_PQ_def g)
  then show ?thesis by (simp add: DecomposePQ_def ret_def Let_def test_PQ_def)
qed

lemma test_DhPrime_bounds: "2 ^ 2047 \<le> test_DhPrime" "test_DhPrime < 2 ^ 2048" "test_DhPrime mod 3 = 2"
proof -
  show "2 ^ 2047 \<le> test_DhPrime" "test_DhPrime < 2 ^ 2048" by (simp_all add: test_DhPrime_def)
  define third :: nat where "third = 0x425EE4E897909856DA241B6525A5BFD132AF15612F6A0B406DBC4567C769DBAFC2B32E038D406AC80B86DBF0B710519EA8BBCFCF58EDB70687168F9C199A2967B5A9C5FCDC1D7AC8ECD99C54CE79068E9EDD1770632310D6C6FB2FE52EC87521617D54DCE90E315F1E99B46E42EEC32D57ADA8DE67DA141A68DACAEA4CD45336E18CDC805AC5DAD4B20D1BE723AFCE6B04937C4838190E06E65C1A04FB0D6D1C545D4F31AF1DCC919349C21D64905D2F07897941773AF2553436862FFA73DE4C4C0854074D6A3F8AFD7FE3551FA47AAC59F9B818A6D3FDC89DC781AEF8632C5FAF2B075211E5ACA4BA1A07456E617195251A8F50119056ABB0899DA13DBA9973"
  have "test_DhPrime = 3 * third + 2" by (simp add: test_DhPrime_def third_def)
  moreover have "(3 * third + 2) mod 3 = 2" by presburger
  ultimately show "test_DhPrime mod 3 = 2" by (simp only:)
qed

lemma test_half_bounds: "2 ^ 1984 < (3 :: nat) ^ 1260" "(3 :: nat) ^ 1260 < 2 ^ 2016"
proof -
  have split: "19 * 105 = (1995 :: nat)" "12 * 105 = (1260 :: nat)" "5 * 252 = (1260 :: nat)" "8 * 252 = (2016 :: nat)" by simp_all
  have "(2 ^ 19) ^ 105 \<le> ((3 :: nat) ^ 12) ^ 105" by (rule power_mono) simp_all
  then have "(2 :: nat) ^ 1995 \<le> 3 ^ 1260" by (simp only: power_mult[symmetric] split)
  moreover have "(2 :: nat) ^ 1984 < 2 ^ 1995" by (rule power_strict_increasing) simp_all
  ultimately show "2 ^ 1984 < (3 :: nat) ^ 1260" by (rule less_le_trans[rotated])
  have "(3 ^ 5) ^ 252 < ((2 :: nat) ^ 8) ^ 252" by (rule power_strict_mono) simp_all
  then show "(3 :: nat) ^ 1260 < 2 ^ 2016" by (simp only: power_mult[symmetric] split)
qed

lemma test_half_mod: "3 ^ 1260 mod test_DhPrime = 3 ^ 1260" "3 ^ 1260 + 2 ^ 1984 < test_DhPrime"
proof -
  have "(2 :: nat) ^ 2016 + 2 ^ 1984 < 2 ^ 2047" by simp
  then show 1: "3 ^ 1260 + 2 ^ 1984 < test_DhPrime" using test_half_bounds(2) test_DhPrime_bounds(1) by linarith
  then show "3 ^ 1260 mod test_DhPrime = 3 ^ 1260" by (intro mod_less) linarith
qed

lemma test_group: "CheckDH Prime 3 test_DhPrime = None \<or> \<not> Prime test_DhPrime \<or> \<not> Prime ((test_DhPrime - 1) div 2)"
proof -
  have "\<not> BitLen test_DhPrime \<le> 2047" "BitLen test_DhPrime \<le> 2048" unfolding BitLen_le using test_DhPrime_bounds(1,2) by linarith+
  then have "BitLen test_DhPrime = 2048" by linarith
  then show ?thesis using test_DhPrime_bounds(3) by (simp add: CheckDH_def CheckGP_def checkSubgroup_def checkPrime_def RSAKeyBits_def Let_def)
qed

lemma test_range: "lo = 2 ^ (RSAKeyBits - 64) \<Longrightarrow> InRange (int (3 ^ 1260)) lo (int test_DhPrime - lo)"
  "InRange (int (3 ^ 1260)) 1 (int test_DhPrime - 1)" "InRange 3 1 (int test_DhPrime - 1)"
proof -
  define k where "k = (2 :: nat) ^ 1984"
  have k: "(2 :: int) ^ (RSAKeyBits - 64) = int k" by (simp add: k_def RSAKeyBits_def del: power_numeral)
  show "InRange (int (3 ^ 1260)) lo (int test_DhPrime - lo)" if "lo = 2 ^ (RSAKeyBits - 64)"
    using test_half_bounds(1) test_half_mod(2) unfolding that k InRange_def k_def[symmetric] by linarith
  have "4 \<le> k" "k < 3 ^ 1260" using test_half_bounds(1) by (simp_all only: k_def) simp
  then show "InRange (int (3 ^ 1260)) 1 (int test_DhPrime - 1)" "InRange 3 1 (int test_DhPrime - 1)"
    using test_half_mod(2) unfolding InRange_def k_def[symmetric] by linarith+
qed

lemma test_params: "CheckDHParams test_DhPrime 3 (3 ^ 1260 mod test_DhPrime) (3 ^ 1260 mod test_DhPrime) = None"
  unfolding test_half_mod(1) CheckDHParams_def Let_def using test_range by (simp only: simp_thms if_False)

lemma test_GA_draws: "test_GA 3 test_DhPrime (be 256 1260 @ u) = (Inr (1260, 3 ^ 1260 mod test_DhPrime), u)"
proof -
  have "(1260 :: nat) < 256 ^ 256" by simp
  then have "SetBytes (be 256 1260) = 1260" by (simp only: SetBytes_be mod_less)
  then have draws: "rand_Int 256 (be 256 1260 @ u) = (Inr 1260, u)"
    by (simp add: rand_Int_def draw_sim ret_def)
  have group: "CheckGP 3 test_DhPrime = None" using test_group[of "\<lambda>_. True"] CheckDH_None(6) by blast
  define h where "h = (3 :: nat) ^ 1260"
  have ga: "Exp 3 1260 test_DhPrime = h" unfolding Exp_def h_def by (rule test_half_mod(1))
  note ranges = test_range(1)[OF refl, folded h_def] test_range(2)[folded h_def]
  have "test_ga_loop 3 test_DhPrime (be 256 1260 @ u) = (Inr (1260, h), u)"
    by (subst test_ga_loop.simps) (simp only: draws prod.case sum.case Let_def ga ranges simp_thms if_True)
  then show ?thesis unfolding h_def[symmetric] test_half_mod(1)[folded h_def] test_GA_def group option.case nat_numeral .
qed

lemma test_temp_keys: "TempAESKeys (SetBytes (be 32 (256 ^ 31))) n \<noteq> None"
proof -
  have "(256 :: nat) ^ 31 < 256 ^ length (big_Bytes (256 ^ 31))" using SetBytes_bound[of "big_Bytes (256 ^ 31)"] unfolding SetBytes_Bytes .
  then have "31 < length (big_Bytes (256 ^ 31))" by (rule power_less_imp_less_exp[rotated]) simp
  moreover have "SetBytes (be 32 (256 ^ 31)) = 256 ^ 31" by simp
  ultimately show ?thesis by (simp only: TempAESKeys_def) simp
qed


lemma test_bytes: "SetBytes (be 256 1260) = 1260"
proof -
  have "(1260 :: nat) < 256 ^ 256" by simp
  then show ?thesis by (simp only: SetBytes_be mod_less)
qed

lemma test_env: "kAES kex0 = ige0" "rngPQ TestServerRNG = test_PQ" "rngGA TestServerRNG = test_GA" "rngDhPrime TestServerRNG = test_DhPrime"
  "CheckDH (kPrime kex0) 3 test_DhPrime = None"
  "select_key [PublicKey.truncate rsa0] [RSAFingerprint rsa0] = Some (PublicKey.truncate rsa0)"
proof -
  show "CheckDH (kPrime kex0) 3 test_DhPrime = None" using test_group[of "kPrime kex0"] by (simp add: kex0_def)
qed (simp_all add: kex0_def TestServerRNG_def select_key_def RSAFingerprint_def PublicKey.defs)

lemma test_draws: "rngPQ TestServerRNG \<le> 2 ^ 63"
  "DecomposePQ (rngPQ TestServerRNG) ((be 8 0 @ be 8 111718305) @ u) = (Inr (1229739323, 1402015859), u)"
  "rngGA TestServerRNG 3 test_DhPrime (be 256 1260 @ u) = (Inr (1260, 3 ^ 1260 mod test_DhPrime), u)"
  "CheckDHParams test_DhPrime 3 (3 ^ 1260 mod test_DhPrime) (3 ^ SetBytes (be 256 1260) mod test_DhPrime) = None"
proof -
  show "rngPQ TestServerRNG \<le> 2 ^ 63"
    "DecomposePQ (rngPQ TestServerRNG) ((be 8 0 @ be 8 111718305) @ u) = (Inr (1229739323, 1402015859), u)"
    using test_PQ_decomposed by (simp_all add: test_env) (simp add: test_PQ_def)
  show "rngGA TestServerRNG 3 test_DhPrime (be 256 1260 @ u) = (Inr (1260, 3 ^ 1260 mod test_DhPrime), u)"
    unfolding test_env by (rule test_GA_draws)
  show "CheckDHParams test_DhPrime 3 (3 ^ 1260 mod test_DhPrime) (3 ^ SetBytes (be 256 1260) mod test_DhPrime) = None"
    unfolding test_bytes by (rule test_params)
qed

lemma test_fits:
  "length inner \<le> 144 \<Longrightarrow> length pad = 192 - length inner \<Longrightarrow> SetBytes (keyAESEncrypted ige0 (inner @ pad) (replicate 32 0)) < rsaN rsa0"
  by (intro below_rsa0 length_keyAESEncrypted laws0) simp_all

theorem both_sides_agree_witness:
  "\<exists>drawsC drawsS answer pad1 reply pad2. length pad1 < 16 \<and> length pad2 < 16 \<and>
    ((collides answer pad1 \<or> collides reply pad2) \<or>
     (\<exists>toServer toClient result result'.
      ClientRun kex0 [PublicKey.truncate rsa0] 2 \<lparr>draws = drawsC, inbox = map Inr toClient, outbox = [], ticks = 0\<rparr> =
        (Inr result, \<lparr>draws = [], inbox = [], outbox = toServer, ticks = 7\<rparr>) \<and>
      ServerRun kex0 TestServerRNG rsa0 2 \<lparr>draws = drawsS, inbox = map Inr toServer, outbox = [], ticks = 0\<rparr> =
        (Inr result', \<lparr>draws = [], inbox = [], outbox = toClient, ticks = 4\<rparr>) \<and>
      length toServer = 3 \<and> length toClient = 3 \<and>
      cAuthKey result = sKey result' \<and> sKey result' = WithID (be 256 (3 ^ (1260 * SetBytes (be 256 1260)) mod test_DhPrime)) \<and>
      cServerSalt result = sServerSalt result' \<and> sServerSalt result' = ServerSalt (be 32 (256 ^ 31)) (replicate 16 5)))"
proof -
  obtain tk iv where keys: "TempAESKeys (SetBytes (be 32 (256 ^ 31))) (SetBytes (replicate 16 5)) = Some (tk, iv)" using test_temp_keys by fastforce
  define inner where "inner = clientInner TestServerRNG (1229739323, 1402015859) (replicate 16 3) (replicate 16 5) (be 32 (256 ^ 31)) 2"
  define answer where "answer = serverInner kex0 TestServerRNG (replicate 16 3) (replicate 16 5) (3 ^ 1260 mod test_DhPrime)"
  define reply where "reply = clientHalf (replicate 16 3) (replicate 16 5) (3 ^ SetBytes (be 256 1260) mod test_DhPrime)"
  define pad pad1 pad2 :: bytes where "pad = replicate (192 - length inner) 0"
    "pad1 = replicate (paddedLen16 (length answer + 20) - (20 + length answer)) 0"
    "pad2 = replicate (paddedLen16 (length reply + 20) - (20 + length reply)) 0"
  note lens = pad_pad1_pad2_def
  have short: "length pad1 < 16" "length pad2 < 16"
    using paddedLen16_bounds(2)[of "length answer + 20"] paddedLen16_bounds(2)[of "length reply + 20"] by (simp_all add: lens)
  have inner144: "length inner \<le> 144" unfolding inner_def by (rule clientInner_opened(2)) (simp_all add: test_env test_PQ_def)
  have pads: "length pad = 192 - length (clientInner TestServerRNG (1229739323, 1402015859) (replicate 16 3) (replicate 16 5) (be 32 (256 ^ 31)) 2)"
    "length pad1 = paddedLen16 (length answer + 20) - (20 + length answer)" "length pad2 = paddedLen16 (length reply + 20) - (20 + length reply)"
    by (simp_all add: lens inner_def)
  have fits: "SetBytes (keyAESEncrypted ige0 (inner @ pad) (replicate 32 0)) < rsaN rsa0" by (rule test_fits[OF inner144]) (simp add: lens)
  have dc: "int32_range (2 :: int)" by simp
  note run = both_sides_agree[OF working0 working0 test_env(1,1) laws0 dc test_env(6) test_draws(1) allI[OF test_draws(2)] test_env(4)[symmetric]
      test_env(5) allI[OF test_draws(3)] refl length_be test_draws(4) length_replicate length_replicate length_be length_replicate keys pads(1)
      length_replicate fits[unfolded inner_def] answer_def pads(2) reply_def pads(3), of "0 :: byte"]
  show ?thesis by (intro exI conjI) (rule short, rule short, rule run)
qed

text \<open>A server that pads inside its answer leaves nothing to guess, so the client accepts without a look at
  the values of the hash.\<close>

lemma paddedLen16_id: "16 dvd l \<Longrightarrow> paddedLen16 l = l"
  by (auto simp: paddedLen16_def)

lemma DataWithHash_draws:
  "length pad = paddedLen16 (length data + 20) - (20 + length data) \<Longrightarrow>
    \<exists>c. EncryptExchangeAnswer A data tk iv (pad @ u) = (Inr c, u)"
  by (simp add: EncryptExchangeAnswer_def DataWithHash_def draw_sim ret_def)

lemma test_client_accepts:
  "\<exists>w result w'. ClientRun kex0 [PublicKey.truncate rsa0] 2 w = (Inr result, w')"
proof -
  define nonce sn nn sid :: bytes where "nonce = replicate 16 3" "sn = replicate 16 5" "nn = be 32 (256 ^ 31)" "sid = replicate 8 0"
  have lens: "length nonce = 16" "length sn = 16" "length nn = 32" "length sid = 8" by (simp_all add: nonce_sn_nn_sid_def)
  obtain tk iv where keys: "TempAESKeys (SetBytes nn) (SetBytes sn) = Some (tk, iv)" using test_temp_keys unfolding nonce_sn_nn_sid_def by fastforce
  define inner where "inner = clientInner TestServerRNG (1229739323, 1402015859) nonce sn nn 2"
  have inner144: "length inner \<le> 144" unfolding inner_def by (rule clientInner_opened(2)) (simp_all add: test_env test_PQ_def lens)
  define plain where "plain = serverInner kex0 TestServerRNG nonce sn (3 ^ 1260 mod test_DhPrime)"
  define answer where "answer = plain @ replicate (paddedLen16 (length plain + 20) - (20 + length plain)) 0"
  define reply where "reply = clientHalf nonce sn (3 ^ SetBytes (be 256 1260) mod test_DhPrime)"
  define pad pad2 :: bytes where "pad = replicate (192 - length inner) 0" "pad2 = replicate (paddedLen16 (length reply + 20) - (20 + length reply)) 0"
  have P: "rngDhPrime TestServerRNG < 2 ^ 2048" "0 < test_DhPrime" "test_DhPrime < 2 ^ 2048"
    using test_DhPrime_bounds(2) by (simp_all only: test_env) (simp add: test_DhPrime_def)
  note opened = serverInner_opened[OF working0 P(1) _ lens(1,2), of "3 ^ 1260 mod test_DhPrime", unfolded test_env(4), OF mod_less_divisor[OF P(2)], folded plain_def]
  have 16: "16 dvd length answer + 20" "paddedLen16 (length answer + 20) = length answer + 20" "paddedLen16 (length answer + 20) \<le> 700"
    using paddedLen16_bounds[of "length plain + 20"] paddedLen16_id[of "length answer + 20"] padded_answer[OF opened(2)] by (simp_all add: answer_def)
  have "\<not> collides answer []" by (simp add: collides_def)
  then have "\<exists>c. length c = paddedLen16 (length answer + 20) \<and> DecryptExchangeAnswer ige0 c tk iv = Inr answer"
    using exchange_answer_roundtrip[OF laws0(1), of tk iv "[]" answer "[]"] TempAESKeys_length[OF keys] 16(2) by auto
  then obtain c2 where c2: "length c2 \<le> 700" "DecryptExchangeAnswer ige0 c2 tk iv = Inr answer" using 16(3) by metis
  obtain c3 where c3: "EncryptExchangeAnswer ige0 reply tk iv (pad2 @ sid) = (Inr c3, sid)"
    using DataWithHash_draws[of pad2 reply ige0 tk iv sid] by (auto simp: pad_pad2_def)
  obtain c1 where c1: "RSAPad ige0 inner (PublicKey.truncate rsa0) (pad @ replicate 32 0 @ be 256 1260 @ pad2 @ sid) = (Inr c1, be 256 1260 @ pad2 @ sid)"
    using rsa_pad_roundtrip[OF laws0, of pad inner "[]" "replicate 32 0" "be 256 1260 @ pad2 @ sid"] inner144 test_fits[OF inner144, of pad]
    by (auto simp: pad_pad2_def)
  show ?thesis
    using client_side[OF working0 working0 P(3,2) test_env(5) test_draws(1) lens keys test_env(6) test_draws(2)
      c1[folded test_env(1), unfolded inner_def] length_be refl test_draws(4) c2(2)[folded test_env(1)] c2(1) opened(1)[of "replicate (paddedLen16 (length plain + 20) - (20 + length plain)) 0", folded answer_def] refl
      c3[folded test_env(1), unfolded reply_def] refl] by blast
qed

theorem accepted_key_is_checked_witness:
  "\<exists>w result w' r (inner :: ServerDHInnerData) b. ClientRun kex0 [PublicKey.truncate rsa0] 2 w = (Inr result, w') \<and>
    brings w ResPQ_Decode r \<and> 2 ^ 2047 \<le> SetBytes (sdiDhPrime inner) \<and>
    cAuthKey result = WithID (be 256 (SetBytes (sdiGA inner) ^ b mod SetBytes (sdiDhPrime inner)))"
proof -
  obtain w result w' where run: "ClientRun kex0 [PublicKey.truncate rsa0] 2 w = (Inr result, w')" using test_client_accepts by blast
  from accepted_key_is_checked[OF run] run show ?thesis unfolding Let_def by blast
qed

end
