(* ===== verification/Srp.thy ===== *)
theory Srp
  imports ExchangeSpec
begin

text \<open>
  The password of an account, \<open>pkg/gotd/crypto/srp\<close>: the proof of the password by SRP and the
  verifier of a new one.  The key derivation PBKDF2 with SHA-512 comes from another module and is a
  parameter, a function of the password, the salt, the number of rounds and the length of the key.
\<close>

type_synonym pbkdf2 = "bytes \<Rightarrow> bytes \<Rightarrow> nat \<Rightarrow> nat \<Rightarrow> bytes"

datatype srp_err = SrpKex kex_err | GaTooBig | SaTooBig

record Input =
  inSalt1 :: bytes
  inSalt2 :: bytes
  inG :: int
  inP :: bytes

record Answer =
  ansA :: bytes
  ansM1 :: bytes

section \<open>Hashes\<close>

definition srp_hash :: "bytes list \<Rightarrow> bytes" where "srp_hash data = SHA256 (concat data)"

definition saltHash :: "bytes \<Rightarrow> bytes \<Rightarrow> bytes" where "saltHash data salt = srp_hash [salt, data, salt]"

definition primary :: "bytes \<Rightarrow> bytes \<Rightarrow> bytes \<Rightarrow> bytes" where
  "primary password salt1 salt2 = saltHash (saltHash password salt1) salt2"

definition srp_pbkdf2 :: "pbkdf2 \<Rightarrow> bytes \<Rightarrow> bytes \<Rightarrow> nat \<Rightarrow> bytes" where
  "srp_pbkdf2 K ph1 salt1 n = K ph1 salt1 n 64"

definition secondary :: "pbkdf2 \<Rightarrow> bytes \<Rightarrow> bytes \<Rightarrow> bytes \<Rightarrow> bytes" where
  "secondary K password salt1 salt2 = saltHash (srp_pbkdf2 K (primary password salt1 salt2) salt1 100000) salt2"

definition pad256FromBig :: "nat \<Rightarrow> bytes option" where "pad256FromBig i = FillBytes i 256"

definition pad256 :: "bytes \<Rightarrow> bytes" where
  "pad256 b = (if length b \<ge> 256 then drop (length b - 256) b else replicate (256 - length b) 0 @ b)"

definition xor32 :: "bytes \<Rightarrow> bytes \<Rightarrow> bytes" where "xor32 a b = xor_bytes a b"

definition checkInput :: "(nat \<Rightarrow> bool) \<Rightarrow> int \<Rightarrow> nat \<Rightarrow> kex_err option" where
  "checkInput Prime g p = CheckDH Prime g p"

definition computeXV :: "pbkdf2 \<Rightarrow> bytes \<Rightarrow> bytes \<Rightarrow> bytes \<Rightarrow> nat \<Rightarrow> nat \<Rightarrow> nat \<times> nat" where
  "computeXV K password clientSalt serverSalt g p =
     (let x = SetBytes (secondary K password clientSalt serverSalt) in (x, Exp g x p))"

section \<open>The proof of a password\<close>

definition Hash :: "pbkdf2 \<Rightarrow> (nat \<Rightarrow> bool) \<Rightarrow> bytes \<Rightarrow> bytes \<Rightarrow> bytes \<Rightarrow> Input \<Rightarrow> srp_err + Answer" where
  "Hash K Prime password srpB random i =
     (let p = SetBytes (inP i) in
      case checkInput Prime (inG i) p of Some e \<Rightarrow> Inl (SrpKex e) | None \<Rightarrow>
      let g = nat (inG i); gBytes = be 256 g; a = SetBytes random in
      case pad256FromBig (Exp g a p) of None \<Rightarrow> Inl GaTooBig | Some ga \<Rightarrow>
      let gb = pad256 srpB;
          u = SetBytes (srp_hash [ga, gb]);
          (x, v) = computeXV K password (inSalt1 i) (inSalt2 i) g p;
          k = SetBytes (srp_hash [inP i, gBytes]);
          kv = k * v mod p;
          t = int (SetBytes srpB) - int kv;
          t = (if t < 0 then t + int p else t) in
      case pad256FromBig (Exp (nat t) (u * x + a) p) of None \<Rightarrow> Inl SaTooBig | Some sa \<Rightarrow>
      let ka = SHA256 sa;
          xorHpHg = xor32 (SHA256 (inP i)) (SHA256 gBytes);
          M1 = srp_hash [xorHpHg, srp_hash [inSalt1 i], srp_hash [inSalt2 i], ga, gb, ka]
      in Inr \<lparr>ansA = ga, ansM1 = M1\<rparr>)"

text \<open>The verifier of a new password; a verifier that does not fit is all zeros, as its error is ignored.\<close>

definition NewHash :: "pbkdf2 \<Rightarrow> (nat \<Rightarrow> bool) \<Rightarrow> bytes \<Rightarrow> Input \<Rightarrow> (bytes, srp_err, bytes \<times> bytes) prog" where
  "NewHash K Prime password i tape =
     (let p = SetBytes (inP i) in
      case checkInput Prime (inG i) p of Some e \<Rightarrow> (Inl (SrpKex e), tape) | None \<Rightarrow>
      (case draw 32 tape of
         (Inl e, tape) \<Rightarrow> (Inl (SrpKex e), tape)
       | (Inr random, tape) \<Rightarrow>
           let newClientSalt = inSalt1 i @ random;
               (_, v) = computeXV K password newClientSalt (inSalt2 i) (nat (inG i)) p;
               padded = (case pad256FromBig v of None \<Rightarrow> replicate 256 0 | Some b \<Rightarrow> b)
           in (Inr (padded, newClientSalt), tape)))"

section \<open>The server\<close>

text \<open>What the server, which has only the verifier, offers and expects, after the documentation of SRP.\<close>

definition serverB :: "Input \<Rightarrow> bytes \<Rightarrow> nat \<Rightarrow> bytes" where
  "serverB i verifier b =
     (let p = SetBytes (inP i); g = nat (inG i); k = SetBytes (SHA256 (inP i @ be 256 g))
      in be 256 ((k * SetBytes verifier + g ^ b) mod p))"

definition serverM1 :: "Input \<Rightarrow> bytes \<Rightarrow> nat \<Rightarrow> bytes \<Rightarrow> bytes" where
  "serverM1 i verifier b A =
     (let p = SetBytes (inP i); g = nat (inG i); B = serverB i verifier b; u = SetBytes (SHA256 (A @ B));
          S = (SetBytes A * SetBytes verifier ^ u) ^ b mod p
      in SHA256 (xor_bytes (SHA256 (inP i)) (SHA256 (be 256 g)) @ SHA256 (inSalt1 i) @ SHA256 (inSalt2 i) @ A @ B @ SHA256 (be 256 S)))"

lemma below_2048: "(n :: nat) < 2 ^ 2048 \<Longrightarrow> n < 256 ^ 256"
proof -
  have "(2 :: nat) ^ (8 * 256) = 256 ^ 256" unfolding power_mult by simp
  moreover have "8 * 256 = (2048 :: nat)" by simp
  ultimately show "n < 2 ^ 2048 \<Longrightarrow> n < 256 ^ 256" by (simp only:)
qed

lemma below_group: "CheckDH Prime g p = None \<Longrightarrow> x mod p < 256 ^ 256 \<and> pad256FromBig (x mod p) = Some (be 256 (x mod p)) \<and> 0 < p"
proof -
  assume "CheckDH Prime g p = None"
  from CheckDH_None(1,2)[OF this] have p: "p < 2 ^ 2048" "0 < p" by (auto intro: less_le_trans[OF zero_less_power])
  then have "x mod p < 2 ^ 2048" by (meson less_trans mod_less_divisor)
  then show ?thesis using below_2048[of "x mod p"] FillBytes_mod[OF p] p(2) by (simp add: pad256FromBig_def)
qed

text \<open>The client takes the multiple of the verifier off what the server sent, which leaves the server's power.\<close>

lemma taken_off:
  assumes "0 < (p :: nat)"
  shows "nat (if int ((m + n) mod p) - int (m mod p) < 0 then int ((m + n) mod p) - int (m mod p) + int p else int ((m + n) mod p) - int (m mod p)) = n mod p"
    (is "nat ?t = _")
proof -
  have t: "0 \<le> ?t" "?t < int p" 
  proof -
    have "(m + n) mod p < p" "m mod p < p" using assms by simp_all
    then have "int ((m + n) mod p) < int p" "int (m mod p) < int p" by (simp_all only: of_nat_less_iff)
    then show "0 \<le> ?t" "?t < int p"
      by (cases "int ((m + n) mod p) - int (m mod p) < 0"; simp only: if_True if_False; linarith)+
  qed
  have "?t mod int p = (int (m + n) mod int p - int m mod int p) mod int p" by (simp add: zmod_int)
  also have "\<dots> = int n mod int p" by (simp add: mod_simps)
  finally have "?t = int (n mod p)" using t by (simp add: zmod_int)
  then show ?thesis by simp
qed


lemma taken_off_cases:
  assumes "0 < (p :: nat)"
  shows "(m + n) mod p < m mod p \<Longrightarrow> nat (int ((m + n) mod p) - int (m mod p) + int p) = n mod p"
    "\<not> (m + n) mod p < m mod p \<Longrightarrow> nat (int ((m + n) mod p) - int (m mod p)) = n mod p"
  using taken_off[OF assms, of m n] by (simp_all split: if_splits)

lemma shared_secret:
  "(g ^ b mod p) ^ (u * x + a) mod p = (g ^ a mod p * (g ^ x mod p) ^ u) ^ b mod (p :: nat)"
proof -
  have "(g ^ a mod p * (g ^ x mod p) ^ u) mod p = g ^ a * (g ^ x) ^ u mod p"
    by (rule mod_mult_cong) (simp_all add: power_mod)
  then have "(g ^ a mod p * (g ^ x mod p) ^ u) ^ b mod p = (g ^ a * (g ^ x) ^ u) ^ b mod p" by (metis power_mod)
  also have "(g ^ a * (g ^ x) ^ u) ^ b = (g ^ b) ^ (u * x + a)"
    by (simp add: power_add power_mult_distrib mult_ac flip: power_mult)
  finally show ?thesis by (simp add: power_mod)
qed

text \<open>C16: a password is accepted where it was set.  Let a new password get its verifier, and the server
  keep that verifier with the new salt; then whatever exponents both sides draw afterwards, the proof that the
  client computes from the same password is the one the server computes from the verifier.  Both work on the
  same checked group.\<close>

theorem set_password_is_accepted:
  assumes "NewHash K Prime password i (salt @ rest) = (Inr (verifier, newSalt), rest)" "length salt = 32"
  shows "newSalt = inSalt1 i @ salt \<and> length verifier = 256 \<and>
    (\<exists>answer. Hash K Prime password (serverB (i\<lparr>inSalt1 := newSalt\<rparr>) verifier b) random (i\<lparr>inSalt1 := newSalt\<rparr>) = Inr answer \<and>
      length (ansA answer) = 256 \<and> ansM1 answer = serverM1 (i\<lparr>inSalt1 := newSalt\<rparr>) verifier b (ansA answer))"
proof -
  define p where "p = SetBytes (inP i)"
  define g where "g = nat (inG i)"
  have check: "checkInput Prime (inG i) p = None"
    using assms(1) by (simp add: NewHash_def p_def[symmetric] Let_def split: option.splits)
  note group = below_group[OF check[unfolded checkInput_def]]
  have salt: "newSalt = inSalt1 i @ salt"
    and v: "verifier = be 256 (g ^ SetBytes (secondary K password newSalt (inSalt2 i)) mod p)"
    using assms by (auto simp: NewHash_def p_def[symmetric] g_def[symmetric] check draw_sim Let_def computeXV_def Exp_def group split: option.splits)
  define i' where "i' = i\<lparr>inSalt1 := newSalt\<rparr>"
  define x where "x = SetBytes (secondary K password newSalt (inSalt2 i))"
  define a where "a = SetBytes random"
  define B where "B = serverB i' verifier b"
  have v': "SetBytes verifier = g ^ x mod p" using group[of "g ^ x"] by (simp add: v x_def)
  have len: "length B = 256" by (simp add: B_def serverB_def Let_def)
  have B: "SetBytes B = (SetBytes (SHA256 (inP i @ be 256 g)) * (g ^ x mod p) + g ^ b) mod p"
    using group by (simp add: B_def serverB_def Let_def i'_def p_def[symmetric] g_def[symmetric] v')
  have pad: "pad256 B = B" using len by (simp add: pad256_def)
  define u where "u = SetBytes (SHA256 (be 256 (g ^ a mod p) @ B))"
  define sa where "sa = be 256 ((g ^ b mod p) ^ (u * x + a) mod p)"
  have hash: "Hash K Prime password B random i' = Inr \<lparr>ansA = be 256 (g ^ a mod p),
    ansM1 = srp_hash [xor32 (SHA256 (inP i)) (SHA256 (be 256 g)), srp_hash [newSalt], srp_hash [inSalt2 i], be 256 (g ^ a mod p), B, SHA256 sa]\<rparr>"
    using group by (simp add: Hash_def i'_def p_def[symmetric] g_def[symmetric] a_def[symmetric] check Exp_def pad computeXV_def x_def[symmetric]
        srp_hash_def u_def[symmetric] B taken_off_cases sa_def Let_def)
  have sa: "sa = be 256 ((SetBytes (be 256 (g ^ a mod p)) * SetBytes verifier ^ u) ^ b mod p)"
    using group[of "g ^ a"] by (simp add: sa_def v' shared_secret)
  show ?thesis
    using hash salt len v sa
    by (simp add: i'_def[symmetric] B_def[symmetric]) 
      (simp add: serverM1_def Let_def i'_def p_def[symmetric] g_def[symmetric] B_def u_def srp_hash_def xor32_def)
qed

text \<open>The group of the testing server as an example, with any function for PBKDF2.\<close>

definition srp0 :: Input where
  "srp0 = \<lparr>inSalt1 = [1, 2], inSalt2 = [3], inG = 3, inP = be 256 test_DhPrime\<rparr>"

definition pbkdf0 :: pbkdf2 where "pbkdf0 = (\<lambda>password salt n len. take len (SHA256 (password @ salt) @ SHA256 password))"

lemma srp0_group: "checkInput (\<lambda>_. True) (inG srp0) (SetBytes (inP srp0)) = None"
proof -
  have "SetBytes (be 256 test_DhPrime) = test_DhPrime" using below_2048[OF test_DhPrime_bounds(2)] by (simp only: SetBytes_be mod_less)
  then show ?thesis using test_group[of "\<lambda>_. True"] by (simp add: srp0_def checkInput_def)
qed

lemma srp0_new: "\<exists>verifier newSalt. NewHash pbkdf0 (\<lambda>_. True) [112, 119] srp0 (replicate 32 7 @ []) = (Inr (verifier, newSalt), [])"
  using srp0_group by (simp add: NewHash_def draw_def Let_def split: prod.split)

theorem set_password_is_accepted_witness:
  "\<exists>verifier newSalt answer. NewHash pbkdf0 (\<lambda>_. True) [112, 119] srp0 (replicate 32 7 @ []) = (Inr (verifier, newSalt), []) \<and>
    Hash pbkdf0 (\<lambda>_. True) [112, 119] (serverB (srp0\<lparr>inSalt1 := newSalt\<rparr>) verifier 5) [9] (srp0\<lparr>inSalt1 := newSalt\<rparr>) = Inr answer \<and>
    ansM1 answer = serverM1 (srp0\<lparr>inSalt1 := newSalt\<rparr>) verifier 5 (ansA answer)"
proof -
  obtain verifier newSalt where new: "NewHash pbkdf0 (\<lambda>_. True) [112, 119] srp0 (replicate 32 7 @ []) = (Inr (verifier, newSalt), [])"
    using srp0_new by blast
  from set_password_is_accepted[OF new, of 5 "[9]"] new show ?thesis by (simp only: length_replicate simp_thms) blast
qed

end
