(* ===== verification/Bisect.thy ===== *)
theory Bisect
  imports TgErr
begin

text \<open>
  Polling statuses without letting one bad user cost a whole batch, \<open>pkg/connector/presencebisect.go\<close>,
  and the rotation of group members of \<open>pkg/connector/presencepoll.go\<close>.  The request to the server is
  a function of the items and of a state of its own; its error is \<open>None\<close> when it is not one of the
  server's.  Times and durations are nanoseconds.
\<close>

abbreviation seconds :: "int \<Rightarrow> int" where "seconds n \<equiv> 1000000000 * n"

definition presenceBadUserSkip :: int where "presenceBadUserSkip = seconds 3600"
definition presenceBisectExtra :: int where "presenceBisectExtra = 30"

definition rejectsInput :: "Error option \<Rightarrow> bool" where
  "rejectsInput err = IsCode err 400"

type_synonym ('a, 'r, 'w) fetcher = "'a list \<Rightarrow> 'w \<Rightarrow> (Error option + 'r list) \<times> 'w"

section \<open>Isolating the bad items\<close>

text \<open>The variables of \<open>fetchIsolatingBad\<close>; \<open>failure\<close> is its error.\<close>

record ('a, 'r, 'w) bisect =
  requests :: int
  results :: "'r list"
  bad :: "'a list"
  wait :: int
  failure :: "Error option option"
  server :: 'w

function run :: "('a, 'r, 'w) fetcher \<Rightarrow> int \<Rightarrow> 'a list \<Rightarrow> ('a, 'r, 'w) bisect \<Rightarrow> bool \<times> ('a, 'r, 'w) bisect" where
  "run fetch budget chunk s =
     (if chunk = [] then (True, s)
      else if requests s \<ge> budget then (False, s)
      else
        let s = s\<lparr>requests := requests s + 1\<rparr>;
            (reply, w) = fetch chunk (server s);
            s = s\<lparr>server := w\<rparr>
        in case reply of
             Inr got \<Rightarrow> (True, s\<lparr>results := results s @ got\<rparr>)
           | Inl err \<Rightarrow>
               (case AsFloodWait err of
                  Some d \<Rightarrow> (False, s\<lparr>wait := max (signed_take_bit 63 (seconds d)) (seconds 1)\<rparr>)
                | None \<Rightarrow>
                    if \<not> rejectsInput err then (False, s\<lparr>failure := Some err\<rparr>)
                    else if length chunk = 1 then (True, s\<lparr>bad := bad s @ [hd chunk]\<rparr>)
                    else let mid = length chunk div 2;
                             (ok, s) = run fetch budget (take mid chunk) s
                         in if ok then run fetch budget (drop mid chunk) s else (False, s)))"
  by pat_completeness auto
termination
proof (relation "measure (\<lambda>(_, _, chunk, _). length chunk)", goal_cases)
  case 1 show ?case by simp
next
  case (2 fetch budget chunk) then show ?case by (cases chunk) auto
next
  case (3 fetch budget chunk) then show ?case by (cases chunk) auto
qed

declare run.simps [simp del]

definition fetchIsolatingBad :: "'a list \<Rightarrow> int \<Rightarrow> ('a, 'r, 'w) fetcher \<Rightarrow> 'w \<Rightarrow> ('a, 'r, 'w) bisect" where
  "fetchIsolatingBad items budget fetch w =
     snd (run fetch budget items \<lparr>requests = 0, results = [], bad = [], wait = 0, failure = None, server = w\<rparr>)"

section \<open>The users left out\<close>

type_synonym skips = "int \<rightharpoonup> int"

definition skipped :: "int \<Rightarrow> int \<Rightarrow> skips \<Rightarrow> bool \<times> skips" where
  "skipped i now until = (case until i of
     None \<Rightarrow> (False, until)
   | Some t \<Rightarrow> if \<not> now < t then (False, until(i := None)) else (True, until))"

definition add_skip :: "int \<Rightarrow> int \<Rightarrow> skips \<Rightarrow> skips" where
  "add_skip i now until =
     (\<lambda>j. case until j of None \<Rightarrow> None | Some t \<Rightarrow> if \<not> now < t then None else Some t)(i \<mapsto> now + presenceBadUserSkip)"

fun live_ids :: "int \<Rightarrow> int list \<Rightarrow> skips \<Rightarrow> int list \<times> skips" where
  "live_ids now [] until = ([], until)"
| "live_ids now (i # is) until =
     (let (skip, until) = skipped i now until; (live, until) = live_ids now is until
      in (if skip then live else i # live, until))"

text \<open>The loop over the batches: \<open>live\<close> is what is left from \<open>start\<close> on.  A batch size of 0 would make
  it go round for ever, which is \<open>None\<close>.\<close>

partial_function (option) batches :: "nat \<Rightarrow> int \<Rightarrow> (int, 'r, 'w) fetcher \<Rightarrow> int list \<Rightarrow> int \<Rightarrow> skips \<Rightarrow>
    'r list \<Rightarrow> int list \<Rightarrow> 'w \<Rightarrow> ('r list \<times> int list \<times> int \<times> Error option option \<times> skips \<times> 'w) option" where
  "batches batchSize now fetch live extra skips out rejected w =
     (if live = [] then Some (out, rejected, 0, None, skips, w)
      else
        let s = fetchIsolatingBad (take batchSize live) (1 + extra) fetch w;
            extra = extra - (requests s - 1);
            out = out @ results s;
            skips = fold (\<lambda>i. add_skip i now) (bad s) skips;
            rejected = rejected @ bad s
        in if wait s = 0 \<and> failure s = None
           then batches batchSize now fetch (drop batchSize live) extra skips out rejected (server s)
           else Some (out, rejected, wait s, failure s, skips, server s))"

definition fetchUnskipped :: "int list \<Rightarrow> nat \<Rightarrow> int \<Rightarrow> skips \<Rightarrow> int \<Rightarrow> (int, 'r, 'w) fetcher \<Rightarrow> 'w \<Rightarrow>
    ('r list \<times> int list \<times> int \<times> Error option option \<times> skips \<times> 'w) option" where
  "fetchUnskipped ids batchSize extra skips now fetch w =
     (let (live, skips) = live_ids now ids skips
      in batches batchSize now fetch live extra skips [] [] w)"

section \<open>Rotation\<close>

record memberRotation =
  mIds :: "int list"
  mNext :: nat

definition rotation_set :: "int list \<Rightarrow> memberRotation \<Rightarrow> memberRotation" where
  "rotation_set is r = r\<lparr>mIds := is, mNext := (if mNext r \<ge> length is then 0 else mNext r)\<rparr>"

primrec rotate_out :: "nat \<Rightarrow> memberRotation \<Rightarrow> int list \<times> memberRotation" where
  "rotate_out 0 r = ([], r)"
| "rotate_out (Suc n) r =
     (let (out, r') = rotate_out n (r\<lparr>mNext := (mNext r + 1) mod length (mIds r)\<rparr>) in (mIds r ! mNext r # out, r'))"

definition batch :: "nat \<Rightarrow> memberRotation \<Rightarrow> int list \<times> memberRotation" where
  "batch n r = rotate_out (min n (length (mIds r))) r"

section \<open>One request at a time\<close>

definition asked :: "('a, 'r, 'w) bisect \<Rightarrow> 'w \<Rightarrow> ('a, 'r, 'w) bisect" where
  "asked s w = s\<lparr>requests := requests s + 1, server := w\<rparr>"

lemma asked_simps [simp]:
  "requests (asked s w) = requests s + 1" "server (asked s w) = w" "wait (asked s w) = wait s"
  "failure (asked s w) = failure s" "results (asked s w) = results s" "bad (asked s w) = bad s"
  by (simp_all add: asked_def)

lemma run_stop: "run fetch budget [] s = (True, s)"
  "chunk \<noteq> [] \<Longrightarrow> requests s \<ge> budget \<Longrightarrow> run fetch budget chunk s = (False, s)"
  by (simp_all add: run.simps)

lemma run_ask:
  assumes "chunk \<noteq> []" "requests s < budget" "fetch chunk (server s) = (reply, w)"
  shows "run fetch budget chunk s = (case reply of
      Inr got \<Rightarrow> (True, (asked s w)\<lparr>results := results s @ got\<rparr>)
    | Inl err \<Rightarrow>
        (case AsFloodWait err of
           Some d \<Rightarrow> (False, (asked s w)\<lparr>wait := max (signed_take_bit 63 (seconds d)) (seconds 1)\<rparr>)
         | None \<Rightarrow>
             if \<not> rejectsInput err then (False, (asked s w)\<lparr>failure := Some err\<rparr>)
             else if length chunk = 1 then (True, (asked s w)\<lparr>bad := bad s @ [hd chunk]\<rparr>)
             else (case run fetch budget (take (length chunk div 2) chunk) (asked s w) of
                (ok, s') \<Rightarrow> if ok then run fetch budget (drop (length chunk div 2) chunk) s' else (False, s'))))"
  using assms by (simp add: run.simps[of fetch budget chunk s] asked_def Let_def not_le split: sum.split option.split)

text \<open>The ways a call of \<open>run\<close> can go.\<close>

lemma run_cases [consumes 1, case_names stop ask_end split]:
  assumes "run fetch budget chunk s = (ok, s')"
  obtains (stop) "s' = s" "ok \<longleftrightarrow> chunk = []" "chunk = [] \<or> requests s \<ge> budget"
  | (ask_end) w where "chunk \<noteq> []" "requests s < budget" "requests s' = requests s + 1"
      "server s' = w" "snd (fetch chunk (server s)) = w" "ok \<Longrightarrow> wait s' = wait s \<and> failure s' = failure s"
      "bad s' = bad s \<or> (\<exists>x. chunk = [x] \<and> bad s' = bad s @ [x])"
  | (split) w ok1 s1 where "chunk \<noteq> []" "requests s < budget" "2 \<le> length chunk" "snd (fetch chunk (server s)) = w"
      "run fetch budget (take (length chunk div 2) chunk) (asked s w) = (ok1, s1)"
      "if ok1 then run fetch budget (drop (length chunk div 2) chunk) s1 = (ok, s') else \<not> ok \<and> s' = s1"
proof (cases "chunk = [] \<or> requests s \<ge> budget")
  case True
  then show thesis using assms stop by (cases "chunk = []") (auto simp: run_stop)
next
  case False
  obtain reply w where f: "fetch chunk (server s) = (reply, w)" by force
  have go: "run fetch budget chunk s = (ok, s')" "chunk \<noteq> []" "requests s < budget" using assms False by auto
  note eq = run_ask[of chunk s budget fetch reply w, OF go(2,3) f]
  show thesis
  proof (cases "\<exists>e. reply = Inl e \<and> AsFloodWait e = None \<and> rejectsInput e \<and> length chunk \<noteq> 1")
    case True
    obtain ok1 s1 where "run fetch budget (take (length chunk div 2) chunk) (asked s w) = (ok1, s1)" by force
    moreover have "2 \<le> length chunk" using True go(2) by (cases chunk) (auto simp: Suc_le_eq)
    ultimately show thesis using split[of w ok1 s1] go eq f True by (auto split: if_splits)
  next
    case False
    then have one: "\<exists>x. chunk = [x]" if "reply = Inl e" "AsFloodWait e = None" "rejectsInput e" for e
      using that by (auto simp: length_Suc_conv)
    show thesis
      using ask_end[of w] go eq f False one
      by (auto split: sum.splits option.splits if_splits)
  qed
qed

lemma run_bounds:
  assumes "run fetch budget chunk s = (ok, s')" "requests s \<le> budget"
  shows "requests s \<le> requests s' \<and> requests s' \<le> budget \<and> (ok \<longrightarrow> wait s' = wait s \<and> failure s' = failure s) \<and>
    (chunk \<noteq> [] \<and> requests s < budget \<longrightarrow> requests s < requests s')"
  using assms
proof (induction "length chunk" arbitrary: chunk s ok s' rule: less_induct)
  case less
  from less.prems(1) show ?case
  proof (cases rule: run_cases)
    case (split w ok1 s1)
    have half: "length (take (length chunk div 2) chunk) < length chunk" "length (drop (length chunk div 2) chunk) < length chunk"
      using split(3) by auto
    have l: "requests (asked s w) \<le> requests s1 \<and> requests s1 \<le> budget \<and> (ok1 \<longrightarrow> wait s1 = wait s \<and> failure s1 = failure s)"
      using less.hyps[OF half(1) split(5)] split(2) by simp
    show ?thesis
    proof (cases ok1)
      case True
      then have "run fetch budget (drop (length chunk div 2) chunk) s1 = (ok, s')" using split(6) by simp
      then show ?thesis using less.hyps[OF half(2), of s1 ok s'] l True by auto
    qed (use split(6) l in auto)
  qed (use less.prems in auto)
qed

section \<open>The bad items are found\<close>

text \<open>A server that rejects exactly the requests that hold an item it does not accept.\<close>

definition rejects_only :: "('a, 'r, 'w) fetcher \<Rightarrow> ('a \<Rightarrow> bool) \<Rightarrow> ('a \<Rightarrow> 'r) \<Rightarrow> Error \<Rightarrow> bool" where
  "rejects_only fetch B answer e \<longleftrightarrow> Code e = 400 \<and> AsFloodWait (Some e) = None \<and>
     (\<forall>chunk w. fst (fetch chunk w) = (if \<exists>x \<in> set chunk. B x then Inl (Some e) else Inr (map answer chunk)))"

lemma filter_halves:
  "filter P (take n xs) @ filter P (drop n xs) = filter P xs"
  by (simp flip: filter_append)

lemma run_rejects_only:
  assumes "rejects_only fetch B answer e" "chunk \<noteq> []" "requests s < budget"
  shows "run fetch budget chunk s =
    (let t = asked s (snd (fetch chunk (server s))) in
     if \<not> (\<exists>x \<in> set chunk. B x) then (True, t\<lparr>results := results s @ map answer chunk\<rparr>)
     else if length chunk = 1 then (True, t\<lparr>bad := bad s @ chunk\<rparr>)
     else (case run fetch budget (take (length chunk div 2) chunk) t of
       (ok, s') \<Rightarrow> if ok then run fetch budget (drop (length chunk div 2) chunk) s' else (False, s')))"
proof -
  obtain reply w where f: "fetch chunk (server s) = (reply, w)" by force
  then have "reply = (if \<exists>x \<in> set chunk. B x then Inl (Some e) else Inr (map answer chunk))"
    using assms(1) unfolding rejects_only_def by (metis fst_conv)
  then show ?thesis
    using run_ask[of chunk s budget fetch reply w, OF assms(2,3) f] assms(1) f
    by (auto simp: rejects_only_def rejectsInput_def IsCode_def Let_def length_Suc_conv)
qed

lemma run_isolates:
  assumes "rejects_only fetch B answer e"
    and "length chunk \<le> 2 ^ h" "requests s + 1 + 2 * int (length (filter B chunk)) * int h \<le> budget"
  shows "\<exists>s'. run fetch budget chunk s = (True, s') \<and> requests s' \<le> requests s + 1 + 2 * int (length (filter B chunk)) * int h \<and>
    results s' = results s @ map answer (filter (\<lambda>x. \<not> B x) chunk) \<and> bad s' = bad s @ filter B chunk \<and>
    wait s' = wait s \<and> failure s' = failure s"
  using assms(2,3)
proof (induction h arbitrary: chunk s)
  case 0
  then consider "chunk = []" | x where "chunk = [x]" by (cases chunk) auto
  then show ?case
    using 0 by cases (auto simp: run_stop run_rejects_only[OF assms(1)] Let_def)
next
  case (Suc h)
  define k where "k = length (filter B chunk)"
  define t where "t = asked s (snd (fetch chunk (server s)))"
  have t: "requests t = requests s + 1" "results t = results s" "bad t = bad s" "wait t = wait s" "failure t = failure s"
    by (simp_all add: t_def)
  have "0 \<le> 2 * int k * int (Suc h)" by simp
  then have budget: "requests s < budget" using Suc.prems(2) unfolding k_def by linarith
  have "length chunk = 1 \<Longrightarrow> \<exists>x. chunk = [x]" by (auto simp: length_Suc_conv)
  then consider "chunk = []" | "chunk \<noteq> []" "k = 0" | x where "chunk = [x]" "B x" | "2 \<le> length chunk" "k \<noteq> 0"
    by (cases "k = 0"; cases "length chunk \<le> 1") (auto simp: k_def le_Suc_eq split: if_splits)
  then show ?case
  proof cases
    case 2
    then have "\<not> (\<exists>x \<in> set chunk. B x)" "filter B chunk = []" "filter (\<lambda>x. \<not> B x) chunk = chunk"
      by (auto simp: k_def filter_empty_conv filter_id_conv)
    then show ?thesis using run_rejects_only[OF assms(1) 2(1) budget] by (simp add: Let_def)
  next
    case 3
    then show ?thesis using run_rejects_only[OF assms(1) _ budget, of chunk] Suc.prems(2) by (simp add: Let_def)
  next
    case 4
    define l r where "l = take (length chunk div 2) chunk" "r = drop (length chunk div 2) chunk"
    define kl kr where "kl = length (filter B l)" "kr = length (filter B r)"
    have halves: "filter P chunk = filter P l @ filter P r" for P by (simp add: l_r_def filter_halves)
    have k: "k = kl + kr" by (simp add: k_def kl_kr_def halves[of B])
    have len: "length l \<le> 2 ^ h" "length r \<le> 2 ^ h" using Suc.prems(1) by (auto simp: l_r_def)
    have cost: "2 * int k * int (Suc h) \<ge> 2 + 2 * int kl * int h + 2 * int kr * int h"
      using 4(2) by (simp add: k algebra_simps) arith
    have room: "requests t + 1 + 2 * int kl * int h \<le> budget"
      "requests t + 1 + 2 * int kl * int h + 1 + 2 * int kr * int h \<le> budget"
      using Suc.prems(2) cost t(1) zero_le_mult_iff[of "int kr" "int h"] unfolding k_def[symmetric] by linarith+
    obtain s1 where s1: "run fetch budget l t = (True, s1)"
        "requests s1 \<le> requests t + 1 + 2 * int kl * int h" "results s1 = results t @ map answer (filter (\<lambda>x. \<not> B x) l)"
        "bad s1 = bad t @ filter B l" "wait s1 = wait t" "failure s1 = failure t"
      using Suc.IH[OF len(1), of t] room(1) unfolding kl_kr_def by blast
    have "requests s1 + 1 + 2 * int kr * int h \<le> budget" using s1(2) room(2) by linarith
    then obtain s2 where s2: "run fetch budget r s1 = (True, s2)"
        "requests s2 \<le> requests s1 + 1 + 2 * int kr * int h" "results s2 = results s1 @ map answer (filter (\<lambda>x. \<not> B x) r)"
        "bad s2 = bad s1 @ filter B r" "wait s2 = wait s1" "failure s2 = failure s1"
      using Suc.IH[OF len(2), of s1] unfolding kl_kr_def by blast
    have "\<exists>x \<in> set chunk. B x" using 4(2) by (auto simp: k_def filter_empty_conv)
    moreover have "chunk \<noteq> []" "length chunk \<noteq> 1" using 4(1) by auto
    ultimately have "run fetch budget chunk s = (True, s2)"
      using run_rejects_only[OF assms(1) _ budget, of chunk] s1(1) s2(1) by (simp add: Let_def t_def l_r_def)
    moreover have "requests s2 \<le> requests s + 1 + 2 * int k * int (Suc h)" using s1(2) s2(2) cost t(1) by linarith
    ultimately show ?thesis using s1(3-) s2(3-) t by (simp add: k_def halves)
  qed (simp add: run_stop)
qed

text \<open>C14: a bad user costs only itself.  Against a server that rejects the requests that hold an item
  it does not accept, splitting the batch finds exactly the bad items, in order, and the answers
  about all others; of \<open>n\<close> items with \<open>k\<close> bad ones that takes at most \<open>1 + 2 * k * h\<close> requests
  for any \<open>h\<close> with \<open>n \<le> 2 ^ h\<close>, the logarithm rounded up.\<close>

theorem bad_items_cost_themselves:
  assumes "rejects_only fetch B answer e" "length items \<le> 2 ^ h" "1 + 2 * int (length (filter B items)) * int h \<le> budget"
  shows "let s = fetchIsolatingBad items budget fetch w in
    results s = map answer (filter (\<lambda>x. \<not> B x) items) \<and> bad s = filter B items \<and> wait s = 0 \<and> failure s = None \<and>
    requests s \<le> 1 + 2 * int (length (filter B items)) * int h"
  using run_isolates[OF assms(1,2), of "\<lparr>requests = 0, results = [], bad = [], wait = 0, failure = None, server = w\<rparr>" budget] assms(3)
  by (auto simp: fetchIsolatingBad_def)

definition rejection0 :: Error where
  "rejection0 = New 400 ''USER_ID_INVALID''"

definition server0 :: "(int, int, nat) fetcher" where
  "server0 chunk w = (if 3 \<in> set chunk then Inl (Some rejection0) else Inr (map (\<lambda>x. 10 * x) chunk), Suc w)"

lemma server0_rejects: "rejects_only server0 (\<lambda>x. x = 3) (\<lambda>x. 10 * x) rejection0"
proof -
  have "Code rejection0 = 400 \<and> AsFloodWait (Some rejection0) = None" by code_simp
  then show ?thesis by (auto simp: rejects_only_def server0_def)
qed

theorem bad_items_cost_themselves_witness:
  "bad (fetchIsolatingBad [1, 2, 3, 4, 5] 31 server0 0) = [3] \<and>
   results (fetchIsolatingBad [1, 2, 3, 4, 5] 31 server0 0) = [10, 20, 40, 50]"
  using bad_items_cost_themselves[OF server0_rejects, of "[1, 2, 3, 4, 5]" 3 31 0] by (simp add: Let_def)

section \<open>The bound of a poll\<close>

text \<open>The requests of a poll, counted in the state of the server.\<close>

definition counting :: "('a, 'r, 'w) fetcher \<Rightarrow> ('a, 'r, nat \<times> 'w) fetcher" where
  "counting fetch chunk s = (fst (fetch chunk (snd s)), (Suc (fst s), snd (fetch chunk (snd s))))"

lemma run_counts:
  assumes "run (counting fetch) budget chunk s = (ok, s')"
  shows "int (fst (server s')) - requests s' = int (fst (server s)) - requests s"
  using assms
proof (induction "length chunk" arbitrary: chunk s ok s' rule: less_induct)
  case less
  from less.prems show ?case
  proof (cases rule: run_cases)
    case (ask_end w)
    have "server s' = (Suc (fst (server s)), snd (fetch chunk (snd (server s))))"
      using ask_end(4,5) by (simp add: counting_def)
    then show ?thesis using ask_end(3) by simp
  next
    case (split w ok1 s1)
    have half: "length (take (length chunk div 2) chunk) < length chunk" "length (drop (length chunk div 2) chunk) < length chunk"
      using split(3) by auto
    have l: "int (fst (server s1)) - requests s1 = int (fst (server s)) - requests s"
      using less.hyps[OF half(1) split(5)] split(4) by (auto simp: counting_def)
    show ?thesis
    proof (cases ok1)
      case True
      then have "run (counting fetch) budget (drop (length chunk div 2) chunk) s1 = (ok, s')" using split(6) by simp
      then show ?thesis using less.hyps[OF half(2), of s1 ok s'] l by simp
    qed (use split(6) l in auto)
  qed auto
qed

definition bisect0 :: "'w \<Rightarrow> ('a, 'r, 'w) bisect" where
  "bisect0 w = \<lparr>requests = 0, results = [], bad = [], wait = 0, failure = None, server = w\<rparr>"

lemma requests_bisect0 [simp]: "requests (bisect0 w) = 0"
  by (simp add: bisect0_def)

lemma fetchIsolatingBad_eq: "fetchIsolatingBad items budget fetch w = snd (run fetch budget items (bisect0 w))"
  by (simp add: fetchIsolatingBad_def bisect0_def)

lemma fetchIsolatingBad_bounds:
  assumes "items \<noteq> []" "0 < budget"
  shows "1 \<le> requests (fetchIsolatingBad items budget fetch w) \<and> requests (fetchIsolatingBad items budget fetch w) \<le> budget"
proof (cases "run fetch budget items (bisect0 w)")
  case (Pair ok s)
  then have "0 < requests s \<and> requests s \<le> budget" using run_bounds[OF Pair] assms by simp
  then show ?thesis by (simp add: fetchIsolatingBad_eq Pair)
qed

lemma fetchIsolatingBad_counts:
  "int (fst (server (fetchIsolatingBad items budget (counting fetch) w))) = int (fst w) + requests (fetchIsolatingBad items budget (counting fetch) w)"
proof (cases "run (counting fetch) budget items (bisect0 w)")
  case (Pair ok s)
  then show ?thesis using run_counts[OF Pair] by (simp add: fetchIsolatingBad_eq bisect0_def)
qed

lemma batch_count:
  assumes "0 < n" "xs \<noteq> []"
  shows "(int (length (drop n xs)) + int n - 1) div int n + 1 \<le> (int (length xs) + int n - 1) div int n"
    "1 \<le> (int (length xs) + int n - 1) div int n"
proof -
  have "1 \<le> int (length xs)" using assms(2) by (cases xs) simp_all
  then have "int n \<le> int (length xs) + int n - 1" by linarith
  then show one: "1 \<le> (int (length xs) + int n - 1) div int n"
    using zdiv_mono1[of "int n" "int (length xs) + int n - 1" "int n"] assms(1) by simp
  show "(int (length (drop n xs)) + int n - 1) div int n + 1 \<le> (int (length xs) + int n - 1) div int n"
  proof (cases "length xs \<le> n")
    case True
    then show ?thesis using one assms(1) by simp
  next
    case False
    then have "int (length (drop n xs)) + int n - 1 = int (length xs) - 1" by simp
    moreover have "(int (length xs) - 1 + int n) div int n = (int (length xs) - 1) div int n + 1"
      using assms(1) by (intro div_add_self2) simp
    ultimately show ?thesis by (simp add: algebra_simps)
  qed
qed

lemma fold_add_skip:
  "fold (\<lambda>i. add_skip i now) is until j =
     (if j \<in> set is then Some (now + presenceBadUserSkip) else if is = [] then until j
      else case until j of None \<Rightarrow> None | Some t \<Rightarrow> if now < t then Some t else None)"
  by (induction "is" arbitrary: until) (auto simp: add_skip_def presenceBadUserSkip_def split: option.split)

lemma fold_add_skip_keeps:
  "until j = Some t \<Longrightarrow> now < t \<Longrightarrow>
    \<exists>t'. fold (\<lambda>i. add_skip i now) is until j = Some t' \<and> (t' = t \<or> t' = now + presenceBadUserSkip)"
  by (auto simp: fold_add_skip)

text \<open>What the loop over the batches leaves behind.\<close>

definition polled :: "nat \<Rightarrow> int \<Rightarrow> int \<Rightarrow> int list \<Rightarrow> int list \<Rightarrow> skips \<Rightarrow> nat \<Rightarrow>
    ('r list \<times> int list \<times> int \<times> Error option option \<times> skips \<times> nat \<times> 'w) \<Rightarrow> bool" where
  "polled batchSize now extra live rejected skips n r = (case r of (_, rejected', _, _, skips', n', _) \<Rightarrow>
     int n' \<le> int n + (int (length live) + int batchSize - 1) div int batchSize + extra \<and>
     (\<exists>new. rejected' = rejected @ new \<and> (\<forall>i \<in> set new. skips' i = Some (now + presenceBadUserSkip))) \<and>
     (\<forall>i t. skips i = Some t \<longrightarrow> now < t \<longrightarrow> (\<exists>t'. skips' i = Some t' \<and> (t' = t \<or> t' = now + presenceBadUserSkip))))"

lemma batches_bound:
  assumes "0 < batchSize" "0 \<le> extra"
  shows "\<exists>r. batches batchSize now (counting fetch) live extra skips out rejected w = Some r \<and>
    polled batchSize now extra live rejected skips (fst w) r"
  using assms(2)
proof (induction "length live" arbitrary: live extra skips out rejected w rule: less_induct)
  case less
  show ?case
  proof (cases "live = []")
    case True
    then show ?thesis using less.prems assms(1) by (simp add: batches.simps polled_def split: prod.split)
  next
    case False
    define s where "s = fetchIsolatingBad (take batchSize live) (1 + extra) (counting fetch) w"
    define rest where "rest = drop batchSize live"
    define sk where "sk = fold (\<lambda>i. add_skip i now) (bad s) skips"
    have s: "1 \<le> requests s" "requests s \<le> 1 + extra" "int (fst (server s)) = int (fst w) + requests s"
      using fetchIsolatingBad_bounds[of "take batchSize live" "1 + extra" "counting fetch" w] False assms(1) less.prems
      by (auto simp: s_def fetchIsolatingBad_counts)
    have sk: "\<forall>i \<in> set (bad s). sk i = Some (now + presenceBadUserSkip)"
      "skips i = Some t \<Longrightarrow> now < t \<Longrightarrow> \<exists>t'. sk i = Some t' \<and> (t' = t \<or> t' = now + presenceBadUserSkip)" for i t
      by (simp add: sk_def fold_add_skip) (unfold sk_def, rule fold_add_skip_keeps)
    have skip: "0 < presenceBadUserSkip" by (simp add: presenceBadUserSkip_def)
    have div: "(int (length rest) + int batchSize - 1) div int batchSize + 1 \<le> (int (length live) + int batchSize - 1) div int batchSize"
      "1 \<le> (int (length live) + int batchSize - 1) div int batchSize"
      using batch_count[OF assms(1) False] by (simp_all add: rest_def)
    show ?thesis
    proof (cases "wait s = 0 \<and> failure s = None")
      case True
      have "length rest < length live" using False assms(1) by (cases live) (auto simp: rest_def)
      then obtain r where r: "batches batchSize now (counting fetch) rest (extra - (requests s - 1)) sk (out @ results s) (rejected @ bad s) (server s) = Some r"
          "polled batchSize now (extra - (requests s - 1)) rest (rejected @ bad s) sk (fst (server s)) r"
        using less.hyps[of rest "extra - (requests s - 1)" sk "out @ results s" "rejected @ bad s" "server s"] s(2) by auto
      have "batches batchSize now (counting fetch) live extra skips out rejected w = Some r"
        using r(1) False True by (simp add: batches.simps[of _ _ _ live] Let_def flip: s_def sk_def rest_def)
      moreover have "polled batchSize now extra live rejected skips (fst w) r"
        using r(2) s sk skip div unfolding polled_def by (cases r) (fastforce intro: order_trans)
      ultimately show ?thesis by blast
    next
      case stop: False
      have "polled batchSize now extra live rejected skips (fst w) (out @ results s, rejected @ bad s, wait s, failure s, sk, server s)"
        using s sk div by (auto simp: polled_def split: prod.split)
      then show ?thesis
        using False stop by (cases "server s") (auto simp: batches.simps[of _ _ _ live] Let_def simp flip: s_def sk_def rest_def)
    qed
  qed
qed

lemma skipped_keeps: "until i = Some t \<Longrightarrow> now < t \<Longrightarrow> snd (skipped j now until) i = Some t \<and> fst (skipped i now until)"
  by (auto simp: skipped_def split: option.split)

lemma live_ids_simps:
  "fst (live_ids now (i # is) until) =
     (if fst (skipped i now until) then [] else [i]) @ fst (live_ids now is (snd (skipped i now until)))"
  "snd (live_ids now (i # is) until) = snd (live_ids now is (snd (skipped i now until)))"
  by (simp_all add: Let_def split: prod.split)

lemma length_live_ids: "length (fst (live_ids now ids until)) \<le> length ids"
  by (induction ids arbitrary: until) (simp_all add: live_ids_simps le_SucI del: live_ids.simps(2))

lemma live_ids_skip:
  "until i = Some t \<Longrightarrow> now < t \<Longrightarrow> i \<notin> set (fst (live_ids now ids until)) \<and> snd (live_ids now ids until) i = Some t"
proof (induction ids arbitrary: until)
  case (Cons j ids)
  then show ?case using skipped_keeps[of until i t now]
    by (auto simp: live_ids_simps simp del: live_ids.simps(2))
qed simp

text \<open>a poll asks little, whatever the server answers.  Of any number of users, in batches of any
  positive size, it makes at most one request per batch and \<open>extra\<close> more, and it returns; a user it
  reports as rejected is on the skip list for an hour, during which a later poll does not ask
  about them, and whoever was on the list stays there as long as before.\<close>

theorem polls_are_bounded:
  assumes "0 < batchSize" "0 \<le> extra"
  shows "\<exists>out rejected wt err skips' n' w'. fetchUnskipped ids batchSize extra skips now (counting fetch) (n, w) =
      Some (out, rejected, wt, err, skips', n', w') \<and>
    int n' \<le> int n + (int (length ids) + int batchSize - 1) div int batchSize + extra \<and>
    (\<forall>i \<in> set rejected. \<forall>now'. now' < now + seconds 3600 \<longrightarrow> i \<notin> set (fst (live_ids now' ids' skips'))) \<and>
    (\<forall>i t. skips i = Some t \<longrightarrow> now < t \<longrightarrow> skips' i = Some t \<or> skips' i = Some (now + seconds 3600))"
proof -
  obtain live sk where live: "live_ids now ids skips = (live, sk)" by force
  obtain out rejected wt err skips' n' w' where r: "batches batchSize now (counting fetch) live extra sk [] [] (n, w) =
      Some (out, rejected, wt, err, skips', n', w')"
    and p: "polled batchSize now extra live [] sk n (out, rejected, wt, err, skips', n', w')"
    using batches_bound[OF assms, of now fetch live sk "[]" "[]" "(n, w)"] by (metis fst_conv prod_cases7)
  have "length live \<le> length ids" using length_live_ids[of now ids skips] by (simp add: live)
  then have "(int (length live) + int batchSize - 1) div int batchSize \<le> (int (length ids) + int batchSize - 1) div int batchSize"
    using assms(1) by (intro zdiv_mono1) auto
  then have "int n' \<le> int n + (int (length ids) + int batchSize - 1) div int batchSize + extra"
    using p by (simp add: polled_def)
  moreover have "i \<notin> set (fst (live_ids now' ids' skips'))" if "i \<in> set rejected" "now' < now + seconds 3600" for i now'
    using live_ids_skip[of skips' i "now + presenceBadUserSkip" now' ids'] p that
    by (simp add: polled_def presenceBadUserSkip_def)
  moreover have "skips' i = Some t \<or> skips' i = Some (now + seconds 3600)" if "skips i = Some t" "now < t" for i t
    using live_ids_skip[of skips i t now ids] p that by (auto simp: polled_def live presenceBadUserSkip_def)
  ultimately show ?thesis using r live by (auto simp: fetchUnskipped_def)
qed

theorem polls_are_bounded_witness:
  "\<exists>out rejected wt err skips' n' w'. fetchUnskipped [1, 2, 3, 4, 5] 2 30 (\<lambda>_. None) 0 (counting server0) (0, 0) =
      Some (out, rejected, wt, err, skips', n', w') \<and> n' \<le> 33"
  using polls_are_bounded[of 2 30 "[1, 2, 3, 4, 5]" "\<lambda>_. None" 0 server0 0 0 "[]"] by auto

section \<open>The rotation\<close>

definition rotation_ok :: "memberRotation \<Rightarrow> bool" where
  "rotation_ok r \<longleftrightarrow> mIds r = [] \<or> mNext r < length (mIds r)"

primrec rounds :: "nat \<Rightarrow> nat \<Rightarrow> memberRotation \<Rightarrow> int list" where
  "rounds n 0 r = []"
| "rounds n (Suc k) r = (let (out, r) = batch n r in out @ rounds n k r)"

lemma rotate_out_eq:
  assumes "mIds r \<noteq> []" "mNext r < length (mIds r)"
  shows "rotate_out n r = (map (\<lambda>i. mIds r ! ((mNext r + i) mod length (mIds r))) [0..<n],
    r\<lparr>mNext := (mNext r + n) mod length (mIds r)\<rparr>)"
  using assms
proof (induction n arbitrary: r)
  case 0
  then show ?case by simp
next
  case (Suc n)
  have "((mNext r + 1) mod length (mIds r) + i) mod length (mIds r) = (mNext r + Suc i) mod length (mIds r)" for i
    by (simp add: mod_add_left_eq)
  then show ?case using Suc by (simp add: Let_def map_upt_Suc del: upt_Suc)
qed

lemma map_upt_add: "map f [0..<m + n] = map f [0..<m] @ map (\<lambda>i. f (m + i)) [0..<n]"
  by (induction n) simp_all

lemma mod_shift_inj:
  assumes "(a + i) mod l = (a + j) mod l" "i < l" "j < (l :: nat)"
  shows "i = j"
  using assms
proof (induction i j rule: linorder_wlog)
  case (le i j)
  then have "l dvd j - i" using mod_eq_dvd_iff_nat[of "a + i" "a + j" l] by simp
  then show ?case using le by (cases "j - i") (auto dest: dvd_imp_le)
qed simp

lemma rounds_eq:
  assumes "mIds r \<noteq> []" "mNext r < length (mIds r)"
  shows "rounds n k r = map (\<lambda>i. mIds r ! ((mNext r + i) mod length (mIds r))) [0..<k * min n (length (mIds r))]"
  using assms
proof (induction k arbitrary: r)
  case 0
  then show ?case by simp
next
  case (Suc k)
  define m where "m = min n (length (mIds r))"
  have "((mNext r + m) mod length (mIds r) + i) mod length (mIds r) = (mNext r + (m + i)) mod length (mIds r)" for i
    by (simp add: mod_add_left_eq add.assoc)
  then show ?case using Suc by (simp add: batch_def rotate_out_eq Let_def map_upt_add flip: m_def)
qed

text \<open>every group member is asked about in turn.  From any place in the round, however many
  members there are, the batches of \<open>n\<close> go through them cyclically without a gap or a repetition
  before the round is over, so that nobody waits longer than the round; new members keep the place
  in it and never point past the end.\<close>

theorem members_are_polled_in_turn:
  assumes "rotation_ok r" "mIds r \<noteq> []"
  shows "rounds n k r = map (\<lambda>i. mIds r ! ((mNext r + i) mod length (mIds r))) [0..<k * min n (length (mIds r))] \<and>
    (length (mIds r) \<le> k * min n (length (mIds r)) \<longrightarrow> set (rounds n k r) = set (mIds r)) \<and>
    (k * min n (length (mIds r)) \<le> length (mIds r) \<longrightarrow> distinct (mIds r) \<longrightarrow> distinct (rounds n k r)) \<and>
    rotation_ok (snd (batch n r)) \<and> rotation_ok (rotation_set is r)"
proof -
  define l where "l = length (mIds r)"
  have l: "0 < l" "mNext r < l" using assms by (simp_all add: rotation_ok_def l_def)
  have eq: "rounds n k r = map (\<lambda>i. mIds r ! ((mNext r + i) mod l)) [0..<k * min n l]"
    using rounds_eq[of r n k] assms by (simp add: rotation_ok_def l_def)
  have "set (mIds r) \<subseteq> set (rounds n k r)" if "l \<le> k * min n l"
  proof
    fix x assume "x \<in> set (mIds r)"
    then obtain j where j: "j < l" "x = mIds r ! j" by (auto simp: in_set_conv_nth l_def)
    have "(mNext r + (j + l - mNext r) mod l) mod l = j"
      using l j(1) by (simp add: mod_add_right_eq)
    moreover have "(j + l - mNext r) mod l < k * min n l" using that l(1) by (meson mod_less_divisor order_less_le_trans)
    ultimately show "x \<in> set (rounds n k r)" using j(2) by (force simp: eq)
  qed
  moreover have "set (rounds n k r) \<subseteq> set (mIds r)" using l(1) by (auto simp: eq l_def)
  ultimately have all: "l \<le> k * min n l \<Longrightarrow> set (rounds n k r) = set (mIds r)" by blast
  have dist: "distinct (rounds n k r)" if "k * min n l \<le> l" "distinct (mIds r)"
  proof -
    have "inj_on (\<lambda>i. mIds r ! ((mNext r + i) mod l)) {0..<k * min n l}"
    proof (rule inj_onI)
      fix i j assume i: "i \<in> {0..<k * min n l}" "j \<in> {0..<k * min n l}"
        and "mIds r ! ((mNext r + i) mod l) = mIds r ! ((mNext r + j) mod l)"
      then have "(mNext r + i) mod l = (mNext r + j) mod l"
        using nth_eq_iff_index_eq[OF that(2)] l(1) by (simp add: l_def)
      then show "i = j" by (rule mod_shift_inj) (use i that(1) in auto)
    qed
    then show ?thesis by (simp add: eq distinct_map)
  qed
  have "rotation_ok (snd (batch n r))" using assms l by (simp add: rotation_ok_def batch_def rotate_out_eq)
  moreover have "rotation_ok (rotation_set is r)" by (auto simp: rotation_ok_def rotation_set_def)
  ultimately show ?thesis using eq all dist unfolding l_def by blast
qed

theorem members_are_polled_in_turn_witness:
  "rounds 2 3 \<lparr>mIds = [7, 8, 9], mNext = 1\<rparr> = [8, 9, 7, 8, 9, 7]"
  using members_are_polled_in_turn[of "\<lparr>mIds = [7, 8, 9], mNext = 1\<rparr>" 2 3] by (simp add: rotation_ok_def upt_rec)

end
