(* ===== verification/Presence.thy ===== *)
theory Presence
  imports Complex_Main
begin

text \<open>
  Bridging of online status, \<open>pkg/presence\<close>: the manager of what each remote user's Matrix presence
  should be and was last sent as, its worker, the rate limiter, and the reporter of last-active
  times.  Times are nanoseconds after the epoch; \<open>zeroTime\<close> is Go's zero time.  The order in which
  Go goes through a map is open, so what depends on it takes an enumeration of the keys.  The
  arithmetic of the limiter is exact here, where the code has \<open>float64\<close>.
\<close>

section \<open>Times\<close>

definition zeroTime :: int where "zeroTime = -62135596800000000000"

text \<open>\<open>Time.Sub\<close> saturates.\<close>

definition Sub :: "int \<Rightarrow> int \<Rightarrow> int" where
  "Sub t u = max (- (2 ^ 63)) (min (2 ^ 63 - 1) (t - u))"

section \<open>The limiter\<close>

record TokenBucket =
  rate :: rat
  burst :: rat
  tokens :: rat
  last_refill :: int

definition NewTokenBucket :: "rat \<Rightarrow> int \<Rightarrow> int \<Rightarrow> TokenBucket" where
  "NewTokenBucket ratePerSecond n now =
     \<lparr>rate = ratePerSecond, burst = of_int n, tokens = of_int n, last_refill = now\<rparr>"

definition in_seconds :: "int \<Rightarrow> rat" where "in_seconds d = of_int d / 1000000000"

definition Allow :: "int \<Rightarrow> TokenBucket \<Rightarrow> bool \<times> TokenBucket" where
  "Allow now tb =
     (let elapsed = in_seconds (Sub now (last_refill tb));
          tb = (if elapsed > 0 then tb\<lparr>tokens := min (burst tb) (tokens tb + elapsed * rate tb), last_refill := now\<rparr> else tb)
      in if tokens tb \<ge> 1 then (True, tb\<lparr>tokens := tokens tb - 1\<rparr>) else (False, tb))"

section \<open>State\<close>

datatype Presence = NoPresence | Online | Offline | Unavailable

record State =
  stPresence :: Presence
  stMsg :: string
  stUntil :: int

record Config =
  Debounce :: int
  Refresh :: int
  RatePerSecond :: rat
  Burst :: int
  MaxTracked :: int
  TickInterval :: int

definition setDefaults :: "Config \<Rightarrow> Config" where
  "setDefaults c =
     (let c = (if Debounce c \<le> 0 then c\<lparr>Debounce := 10 * 1000000000\<rparr> else c);
          c = (if Refresh c \<le> 0 then c\<lparr>Refresh := 4 * 60 * 1000000000\<rparr> else c);
          c = (if RatePerSecond c \<le> 0 then c\<lparr>RatePerSecond := 5\<rparr> else c);
          c = (if Burst c \<le> 0 then c\<lparr>Burst := 10\<rparr> else c);
          c = (if MaxTracked c \<le> 0 then c\<lparr>MaxTracked := 10000\<rparr> else c)
      in if TickInterval c \<le> 0 then c\<lparr>TickInterval := 1000000000\<rparr> else c)"

record entry =
  desired :: Presence
  desiredMsg :: string
  sentMsg :: string
  until :: int
  sent :: Presence
  sentAt :: int
  touched :: int

definition zero_entry :: entry where
  "zero_entry = \<lparr>desired = NoPresence, desiredMsg = '''', sentMsg = '''', until = zeroTime, sent = NoPresence,
     sentAt = zeroTime, touched = zeroTime\<rparr>"

record Manager =
  cfg :: Config
  limiter :: TokenBucket
  entries :: "string \<rightharpoonup> entry"

definition NewManager :: "Config \<Rightarrow> int \<Rightarrow> Manager" where
  "NewManager c now = (let c = setDefaults c in
     \<lparr>cfg = c, limiter = NewTokenBucket (RatePerSecond c) (Burst c) now, entries = (\<lambda>_. None)\<rparr>)"

section \<open>Reports\<close>

text \<open>The loop of \<open>evictOne\<close>, with the oldest key so far.\<close>

fun evict_scan :: "string list \<Rightarrow> (string \<rightharpoonup> entry) \<Rightarrow> string \<Rightarrow> int \<Rightarrow> string" where
  "evict_scan [] es oldestKey oldest = oldestKey"
| "evict_scan (k # ks) es oldestKey oldest =
     (case es k of
        None \<Rightarrow> evict_scan ks es oldestKey oldest
      | Some e \<Rightarrow>
          if desired e \<noteq> Online \<and> sent e = desired e \<and> (oldestKey = '''' \<or> touched e < oldest)
          then evict_scan ks es k (touched e) else evict_scan ks es oldestKey oldest)"

definition evictOne :: "string list \<Rightarrow> Manager \<Rightarrow> bool \<times> Manager" where
  "evictOne order m =
     (let oldestKey = evict_scan order (entries m) '''' zeroTime in
      if oldestKey = '''' then (False, m) else (True, m\<lparr>entries := (entries m)(oldestKey := None)\<rparr>))"

definition tracked :: "Manager \<Rightarrow> nat" where "tracked m = card (dom (entries m))"

definition Update :: "string list \<Rightarrow> int \<Rightarrow> string \<Rightarrow> State \<Rightarrow> Manager \<Rightarrow> Manager" where
  "Update order now k st m =
     (if k = '''' \<or> stPresence st = NoPresence then m
      else
        let p = (if stPresence st = Unavailable then Offline else stPresence st);
            set = (\<lambda>e m. m\<lparr>entries := (entries m)(k \<mapsto>
              e\<lparr>desired := p, desiredMsg := '''', until := stUntil st, touched := now\<rparr>)\<rparr>);
            fresh = (if p \<noteq> Online then zero_entry\<lparr>sent := p, sentAt := now\<rparr> else zero_entry)
        in case entries m k of
             Some e \<Rightarrow> set e m
           | None \<Rightarrow>
               if int (tracked m) \<ge> MaxTracked (cfg m)
               then (case evictOne order m of (True, m) \<Rightarrow> set fresh m | (False, m) \<Rightarrow> m)
               else set fresh m)"

definition ActivityOnline :: int where "ActivityOnline = 5 * 60 * 1000000000"

text \<open>\<open>Activity\<close> reads the clock once for itself and once in \<open>Update\<close>.\<close>

definition Activity :: "string list \<Rightarrow> int \<Rightarrow> int \<Rightarrow> string \<Rightarrow> int \<Rightarrow> Manager \<Rightarrow> Manager" where
  "Activity order now now2 k t m =
     (let t = (if t = zeroTime \<or> t > now then now else t);
          u = t + ActivityOnline
      in if \<not> u > now then m
         else
           let longer = (case entries m k of None \<Rightarrow> False
                 | Some e \<Rightarrow> desired e = Online \<and> (until e = zeroTime \<or> until e > u))
           in if longer then m else Update order now2 k \<lparr>stPresence = Online, stMsg = '''', stUntil = u\<rparr> m)"

section \<open>The worker\<close>

record pending =
  key :: string
  presence :: Presence
  msg :: string
  pSentAt :: int

text \<open>What \<open>Tick\<close> makes of one entry: the entry after its online state has expired, whether a request
  is due, and whether the entry is dropped.\<close>

definition expire :: "int \<Rightarrow> entry \<Rightarrow> entry" where
  "expire now e = (if desired e = Online \<and> until e \<noteq> zeroTime \<and> \<not> now < until e
     then e\<lparr>desired := Offline, until := zeroTime\<rparr> else e)"

definition is_due :: "Config \<Rightarrow> int \<Rightarrow> entry \<Rightarrow> bool" where
  "is_due c now e \<longleftrightarrow> (let sinceSent = Sub now (sentAt e) in
     (desired e \<noteq> sent e \<or> desiredMsg e \<noteq> sentMsg e) \<and> sinceSent \<ge> Debounce c \<or>
     desired e = Online \<and> sent e = Online \<and> sinceSent \<ge> Refresh c)"

definition is_stale :: "int \<Rightarrow> entry \<Rightarrow> bool" where
  "is_stale now e \<longleftrightarrow> desired e \<noteq> Online \<and> sent e = desired e \<and> sentMsg e = desiredMsg e \<and>
     Sub now (touched e) > 60 * 60 * 1000000000"

fun scan_due :: "Config \<Rightarrow> int \<Rightarrow> string list \<Rightarrow> (string \<rightharpoonup> entry) \<Rightarrow> pending list \<times> (string \<rightharpoonup> entry)" where
  "scan_due c now [] es = ([], es)"
| "scan_due c now (k # ks) es =
     (case es k of
        None \<Rightarrow> scan_due c now ks es
      | Some e \<Rightarrow>
          (let e = expire now e in
           if is_due c now e
           then (let (due, es) = scan_due c now ks (es(k \<mapsto> e))
                 in (\<lparr>key = k, presence = desired e, msg = desiredMsg e, pSentAt = sentAt e\<rparr> # due, es))
           else if is_stale now e then scan_due c now ks (es(k := None))
           else scan_due c now ks (es(k \<mapsto> e))))"

text \<open>\<open>sort.Slice\<close> leaves the order of equals open, which the order of the map is already.\<close>

definition sort_due :: "pending list \<Rightarrow> pending list" where
  "sort_due due = sort_key (\<lambda>p. presence p \<noteq> Online) (sort_key pSentAt due)"

text \<open>The first half of \<open>Tick\<close>, under the lock.\<close>

definition tick_scan :: "string list \<Rightarrow> int \<Rightarrow> Manager \<Rightarrow> pending list \<times> Manager" where
  "tick_scan order now m = (let (due, es) = scan_due (cfg m) now order (entries m) in (sort_due due, m\<lparr>entries := es\<rparr>))"

text \<open>After a request: \<open>t\<close> is the clock then, and \<open>ok\<close> whether the homeserver took it.\<close>

definition tick_record :: "pending \<Rightarrow> int \<Rightarrow> bool \<Rightarrow> Manager \<Rightarrow> Manager" where
  "tick_record p t ok m = (case entries m (key p) of
     None \<Rightarrow> m
   | Some e \<Rightarrow>
       (let e = e\<lparr>sentAt := t\<rparr>;
            e = (if ok then e\<lparr>sent := presence p, sentMsg := msg p\<rparr> else e)
        in m\<lparr>entries := (entries m)(key p \<mapsto> e)\<rparr>))"

text \<open>The loop over what is due: for each request the clock before and after it and its success.  The
  requests made come out.\<close>

fun tick_send :: "pending list \<Rightarrow> (int \<times> int \<times> bool) list \<Rightarrow> Manager \<Rightarrow> (string \<times> Presence) list \<times> Manager" where
  "tick_send (p # due) ((t1, t2, ok) # os) m =
     (case Allow t1 (limiter m) of
        (False, tb) \<Rightarrow> ([], m\<lparr>limiter := tb\<rparr>)
      | (True, tb) \<Rightarrow>
          (let (reqs, m) = tick_send due os (tick_record p t2 ok (m\<lparr>limiter := tb\<rparr>))
           in ((key p, presence p) # reqs, m)))"
| "tick_send _ _ m = ([], m)"

definition Tick :: "string list \<Rightarrow> int \<Rightarrow> (int \<times> int \<times> bool) list \<Rightarrow> Manager \<Rightarrow> (string \<times> Presence) list \<times> Manager" where
  "Tick order now os m = (let (due, m) = tick_scan order now m in tick_send due os m)"

section \<open>Last-active times\<close>

definition queueSize :: nat where "queueSize = 4096"

record SeenReporter =
  lastSeen :: "string \<rightharpoonup> int"
  seenQueue :: "(string \<times> int) list"
  disabled :: bool

definition NewSeenReporter :: SeenReporter where
  "NewSeenReporter = \<lparr>lastSeen = (\<lambda>_. None), seenQueue = [], disabled = False\<rparr>"

definition truncate_second :: "int \<Rightarrow> int" where
  "truncate_second t = t - (t - zeroTime) mod 1000000000"

definition isNews :: "string \<Rightarrow> int \<Rightarrow> int \<Rightarrow> SeenReporter \<Rightarrow> bool \<times> SeenReporter" where
  "isNews k t now r =
     (if k = '''' \<or> t = zeroTime \<or> t > now + 60 * 1000000000 then (False, r)
      else let t = truncate_second t in
        case lastSeen r k of
          Some prev \<Rightarrow> if \<not> t > prev then (False, r) else (True, r\<lparr>lastSeen := (lastSeen r)(k \<mapsto> t)\<rparr>)
        | None \<Rightarrow> (True, r\<lparr>lastSeen := (lastSeen r)(k \<mapsto> t)\<rparr>))"

definition Note :: "string \<Rightarrow> int \<Rightarrow> int \<Rightarrow> SeenReporter \<Rightarrow> SeenReporter" where
  "Note k t now r =
     (if disabled r then r
      else case isNews k t now r of
        (False, r) \<Rightarrow> r
      | (True, r) \<Rightarrow>
          if length (seenQueue r) < queueSize then r\<lparr>seenQueue := seenQueue r @ [(k, t)]\<rparr>
          else r\<lparr>lastSeen := (lastSeen r)(k := None)\<rparr>)"

datatype seen_result = SeenOK | SeenFailed | SeenUnsupported

text \<open>One turn of \<open>Run\<close>; it ends when the homeserver has no place for these times.\<close>

definition seen_step :: "seen_result \<Rightarrow> SeenReporter \<Rightarrow> ((string \<times> int) option) \<times> SeenReporter" where
  "seen_step res r = (if disabled r then (None, r)
     else case seenQueue r of
       [] \<Rightarrow> (None, r)
     | item # q \<Rightarrow> (Some item, r\<lparr>seenQueue := q, disabled := (res = SeenUnsupported)\<rparr>))"

section \<open>Histories\<close>

text \<open>What can happen to a manager: reports, and the worker's scans and requests, of which the latter
  may have reports between them.  The state has what the worker's current round still has to send.\<close>

datatype event =
    Reported "string list" int string State
  | Acted "string list" int int string int
  | Scanned "string list" int
  | Requested int int bool

fun happen :: "event \<Rightarrow> Manager \<times> pending list \<Rightarrow> (string \<times> Presence) list \<times> Manager \<times> pending list" where
  "happen (Reported order now k st) (m, due) = ([], Update order now k st m, due)"
| "happen (Acted order now now2 k t) (m, due) = ([], Activity order now now2 k t m, due)"
| "happen (Scanned order now) (m, due) =
     (if due = [] then (let (due, m) = tick_scan order now m in ([], m, due)) else ([], m, due))"
| "happen (Requested t1 t2 ok) (m, due) =
     (case due of
        [] \<Rightarrow> ([], m, due)
      | p # due \<Rightarrow>
          (case Allow t1 (limiter m) of
             (False, tb) \<Rightarrow> ([], m\<lparr>limiter := tb\<rparr>, [])
           | (True, tb) \<Rightarrow> ([(key p, presence p)], tick_record p t2 ok (m\<lparr>limiter := tb\<rparr>), due)))"

fun history :: "event list \<Rightarrow> Manager \<times> pending list \<Rightarrow> (string \<times> Presence) list \<times> Manager \<times> pending list" where
  "history [] s = ([], s)"
| "history (e # es) s = (let (reqs, s) = happen e s; (reqs', s) = history es s in (reqs @ reqs', s))"

lemma history_simps:
  "fst (history (e # es) s) = fst (happen e s) @ fst (history es (snd (happen e s)))"
  "snd (history (e # es) s) = snd (history es (snd (happen e s)))"
  by (simp_all add: Let_def split: prod.split)

declare history.simps(2) [simp del]

lemma history_append:
  "fst (history (es @ fs) s) = fst (history es s) @ fst (history fs (snd (history es s)))"
  "snd (history (es @ fs) s) = snd (history fs (snd (history es s)))"
  by (induction es arbitrary: s) (simp_all add: history_simps)

section \<open>The limiter\<close>

lemma Allow_grants:
  assumes "0 \<le> rate tb" "0 \<le> tokens tb" "tokens tb \<le> burst tb" "Allow now tb = (ok, tb')"
  shows "0 \<le> tokens tb' \<and> tokens tb' \<le> burst tb' \<and> burst tb' = burst tb \<and> rate tb' = rate tb \<and>
    last_refill tb \<le> last_refill tb' \<and> last_refill tb' \<le> max (last_refill tb) now \<and>
    of_bool ok + tokens tb' \<le> tokens tb + rate tb * in_seconds (last_refill tb' - last_refill tb)"
proof -
  define el where "el = in_seconds (Sub now (last_refill tb))"
  have le: "0 < el \<Longrightarrow> last_refill tb < now \<and> el \<le> in_seconds (now - last_refill tb)"
    by (auto simp: el_def in_seconds_def Sub_def max_def min_def zero_less_divide_iff divide_right_mono split: if_splits)
  have "0 < el \<Longrightarrow> el * rate tb \<le> rate tb * in_seconds (now - last_refill tb)"
    using mult_left_mono[OF conjunct2[OF le] assms(1)] by (simp add: mult.commute)
  moreover have "in_seconds 0 = 0" by (simp add: in_seconds_def)
  moreover have "0 < el \<Longrightarrow> 0 \<le> el * rate tb" using assms(1) by simp
  ultimately show ?thesis
    using assms le by (auto simp: Allow_def Let_def min_def of_bool_def simp flip: el_def split: if_splits)
qed

definition bucket_ok :: "TokenBucket \<Rightarrow> bool" where
  "bucket_ok tb \<longleftrightarrow> 0 \<le> rate tb \<and> 0 \<le> tokens tb \<and> tokens tb \<le> burst tb"

lemma limiter_only:
  "limiter (Update order now k st m) = limiter m" "limiter (Activity order now now2 k t m) = limiter m"
  "limiter (snd (tick_scan order now m)) = limiter m" "limiter (tick_record p t ok m) = limiter m"
proof -
  show up: "limiter (Update order now k st m) = limiter m" for order now k st m
    by (auto simp: Update_def evictOne_def Let_def split: option.split prod.split)
  show "limiter (Activity order now now2 k t m) = limiter m"
    by (simp add: Activity_def up Let_def)
  show "limiter (snd (tick_scan order now m)) = limiter m" "limiter (tick_record p t ok m) = limiter m"
    by (simp_all add: tick_scan_def tick_record_def Let_def split: prod.split option.split)
qed

primrec clock_before :: "int \<Rightarrow> event \<Rightarrow> bool" where
  "clock_before T (Reported order now k st) = True"
| "clock_before T (Acted order now now2 k t) = True"
| "clock_before T (Scanned order now) = True"
| "clock_before T (Requested t1 t2 ok) = (t1 \<le> T)"

lemma happen_limiter:
  assumes "bucket_ok (limiter (fst s))" "clock_before T e" "happen e s = (reqs, s')"
  shows "bucket_ok (limiter (fst s')) \<and> burst (limiter (fst s')) = burst (limiter (fst s)) \<and> rate (limiter (fst s')) = rate (limiter (fst s)) \<and>
    last_refill (limiter (fst s)) \<le> last_refill (limiter (fst s')) \<and> last_refill (limiter (fst s')) \<le> max (last_refill (limiter (fst s))) T \<and>
    of_nat (length reqs) + tokens (limiter (fst s')) \<le>
      tokens (limiter (fst s)) + rate (limiter (fst s)) * in_seconds (last_refill (limiter (fst s')) - last_refill (limiter (fst s)))"
proof -
  obtain m due where s: "s = (m, due)" by (cases s)
  have zero: "in_seconds 0 = 0" by (simp add: in_seconds_def)
  show ?thesis
  proof (cases "\<exists>t1 t2 ok p due'. e = Requested t1 t2 ok \<and> due = p # due'")
    case True
    then obtain t1 t2 ok p due' where e: "e = Requested t1 t2 ok" "due = p # due'" by blast
    obtain g tb where a: "Allow t1 (limiter m) = (g, tb)" by force
    have "0 \<le> rate (limiter m)" "0 \<le> tokens (limiter m)" "tokens (limiter m) \<le> burst (limiter m)"
      using assms(1) by (simp_all add: s bucket_ok_def)
    note g = Allow_grants[OF this a]
    have t: "t1 \<le> T" "0 \<le> rate (limiter m)" using assms(1,2) by (simp_all add: e s bucket_ok_def)
    show ?thesis
      using assms(3) g t by (cases g) (auto simp: s e a limiter_only bucket_ok_def)
  next
    case False
    have "limiter (fst s') = limiter m \<and> reqs = []"
      using assms(3) False limiter_only(3)[of _ _ m]
      by (cases e) (auto simp: s limiter_only Let_def case_prod_beta split: list.splits if_splits)
    then show ?thesis using assms(1) by (simp add: s zero)
  qed
qed

lemma history_limiter:
  assumes "bucket_ok (limiter (fst s))" "\<forall>e \<in> set es. clock_before T e" "last_refill (limiter (fst s)) \<le> T"
  shows "of_nat (length (fst (history es s))) \<le>
    tokens (limiter (fst s)) + rate (limiter (fst s)) * in_seconds (T - last_refill (limiter (fst s)))"
  using assms
proof (induction es arbitrary: s)
  case Nil
  then show ?case by (simp add: bucket_ok_def in_seconds_def)
next
  case (Cons e es)
  obtain reqs s' where h: "happen e s = (reqs, s')" by (cases "happen e s")
  note step = happen_limiter[OF Cons.prems(1) _ h, of T]
  have split: "in_seconds (T - a) = in_seconds (T - b) + in_seconds (b - a)" for a b
    by (simp add: in_seconds_def flip: add_divide_distrib of_int_add)
  have "of_nat (length (fst (history es s'))) \<le>
      tokens (limiter (fst s')) + rate (limiter (fst s')) * in_seconds (T - last_refill (limiter (fst s')))"
    using step Cons.prems by (intro Cons.IH) simp_all
  then show ?case
    using step Cons.prems(2) split[of "last_refill (limiter (fst s))" "last_refill (limiter (fst s'))"]
    by (simp add: history_simps h algebra_simps)
qed

text \<open>the homeserver is never asked more than the configuration allows.  Whatever is reported and
  however the worker's rounds go, a new manager makes at most its burst of requests and its rate
  times the seconds that have passed, also when the clock stands still or goes back.\<close>

theorem requests_are_rationed:
  assumes "\<forall>e \<in> set es. clock_before T e" "now \<le> T"
  shows "of_nat (length (fst (history es (NewManager c now, [])))) \<le>
    of_int (Burst (setDefaults c)) + RatePerSecond (setDefaults c) * in_seconds (T - now)"
proof -
  have pos: "0 < RatePerSecond (setDefaults c)" "0 < Burst (setDefaults c)"
    by (simp_all add: setDefaults_def Let_def)
  have b: "limiter (NewManager c now) = NewTokenBucket (RatePerSecond (setDefaults c)) (Burst (setDefaults c)) now"
    by (simp add: NewManager_def Let_def)
  have "bucket_ok (limiter (fst (NewManager c now, [] :: pending list)))"
    using pos by (simp add: b bucket_ok_def NewTokenBucket_def)
  from history_limiter[OF this assms(1)] show ?thesis
    using assms(2) by (simp add: b) (simp add: NewTokenBucket_def)
qed

definition small_config :: Config where
  "small_config = \<lparr>Debounce = 0, Refresh = 0, RatePerSecond = 1, Burst = 1, MaxTracked = 1, TickInterval = 0\<rparr>"

definition seen_online :: "int \<Rightarrow> string \<Rightarrow> event" where
  "seen_online now k = Reported [k] now k \<lparr>stPresence = Online, stMsg = '''', stUntil = zeroTime\<rparr>"

theorem requests_are_rationed_witness:
  "of_nat (length (fst (history [seen_online 0 ''a'', Scanned [''a''] 0, Requested 0 0 True] (NewManager small_config 0, [])))) \<le> (1 :: rat)"
  using requests_are_rationed[of "[seen_online 0 ''a'', Scanned [''a''] 0, Requested 0 0 True]" 0 0 small_config]
  by (simp add: seen_online_def small_config_def setDefaults_def in_seconds_def)

section \<open>Users that are remembered\<close>

definition bounded_memory :: "Manager \<Rightarrow> bool" where
  "bounded_memory m \<longleftrightarrow> finite (dom (entries m)) \<and> [] \<notin> dom (entries m) \<and> int (tracked m) \<le> MaxTracked (cfg m)"

lemma evict_scan_in:
  "evict_scan order es k0 t = k0 \<or> (\<exists>e. es (evict_scan order es k0 t) = Some e \<and> desired e \<noteq> Online \<and> sent e = desired e)"
proof (induction order arbitrary: k0 t)
  case (Cons k order)
  show ?case
  proof (cases "es k")
    case (Some e)
    then show ?thesis
      using Cons.IH[of k0 t] Cons.IH[of k "touched e"]
      by (cases "desired e \<noteq> Online \<and> sent e = desired e \<and> (k0 = '''' \<or> touched e < t)") (force, auto)
  qed (use Cons.IH in simp)
qed simp

lemma within_Update:
  assumes "bounded_memory m"
  shows "bounded_memory (Update order now k st m)"
proof -
  have fin: "finite (dom (entries m))" using assms by (simp add: bounded_memory_def)
  have drop: "k' \<noteq> '''' \<Longrightarrow> entries m k' \<noteq> None \<Longrightarrow> k' = evict_scan order (entries m) '''' zeroTime \<Longrightarrow>
    card (insert k (dom (entries m) - {k'})) \<le> card (dom (entries m))" for k'
    using fin card_Suc_Diff1[of "dom (entries m)" k'] by (auto simp: card_insert_if domIff)
  show ?thesis
    using assms drop evict_scan_in[of order "entries m" "''''" zeroTime] fin
    by (auto simp: Update_def bounded_memory_def evictOne_def tracked_def Let_def insert_absorb domIff card_insert_if split: option.splits prod.split)
qed

lemma within_fewer:
  "bounded_memory m \<Longrightarrow> dom (entries m') \<subseteq> dom (entries m) \<Longrightarrow> cfg m' = cfg m \<Longrightarrow> bounded_memory m'"
  unfolding bounded_memory_def tracked_def using card_mono[of "dom (entries m)" "dom (entries m')"] finite_subset by fastforce

lemma scan_due_none: "es x = None \<Longrightarrow> snd (scan_due c now order es) x = None"
proof (induction order arbitrary: es)
  case (Cons a order)
  then show ?case by (cases "x = a") (simp_all add: Let_def case_prod_beta split: option.split)
qed simp

lemma happen_within: "bounded_memory (fst s) \<Longrightarrow> bounded_memory (fst (snd (happen e s)))"
proof (cases s, cases e)
  fix m due order now assume "bounded_memory (fst s)" "s = (m, due)" "e = Scanned order now"
  then show ?thesis
    using within_fewer[of m "snd (tick_scan order now m)"] scan_due_none[of "entries m" _ "cfg m" now order]
    by (fastforce simp: tick_scan_def Let_def case_prod_beta dom_def)
next
  fix m due t1 t2 ok assume "bounded_memory (fst s)" "s = (m, due)" "e = Requested t1 t2 ok"
  then show ?thesis
    by (auto simp: tick_record_def Let_def domIff elim!: within_fewer split: prod.split bool.split option.split list.split if_splits)
qed (auto simp: within_Update Activity_def Let_def)

text \<open>what the manager keeps is bounded.  Whatever is reported and however the worker's rounds go,
  it never has entries for more users than the configuration allows, and none for the empty name;
  and a user is only ever forgotten to make room for another if not online and nothing is left to
  tell the homeserver about them.\<close>

theorem memory_is_bounded:
  "bounded_memory (fst (snd (history es (NewManager c now, [])))) \<and>
   (case evictOne order m of (ok, m') \<Rightarrow>
      \<forall>k e. entries m k = Some e \<and> entries m' k = None \<longrightarrow> desired e \<noteq> Online \<and> sent e = desired e)"
proof -
  have "bounded_memory (fst s) \<Longrightarrow> bounded_memory (fst (snd (history es s)))" for s
    by (induction es arbitrary: s) (simp_all add: history_simps happen_within)
  moreover have "bounded_memory (NewManager c now)"
    by (simp add: bounded_memory_def NewManager_def tracked_def Let_def setDefaults_def)
  moreover have "entries m k = Some e \<Longrightarrow> entries (snd (evictOne order m)) k = None \<Longrightarrow> desired e \<noteq> Online \<and> sent e = desired e" for k e
    using evict_scan_in[of order "entries m" "''''" zeroTime]
    by (auto simp: evictOne_def Let_def split: if_splits)
  ultimately show ?thesis unfolding case_prod_beta by auto
qed

theorem memory_is_bounded_witness:
  "bounded_memory (fst (snd (history [seen_online 0 ''a'', seen_online 1 ''b''] (NewManager small_config 0, []))))"
  by (rule conjunct1[OF memory_is_bounded])

section \<open>What the homeserver is told\<close>

definition settled :: "entry \<Rightarrow> bool" where
  "settled e \<longleftrightarrow> desired e = Offline \<and> sent e = Offline \<and> desiredMsg e = '''' \<and> sentMsg e = ''''"

definition quiet :: "string \<Rightarrow> Manager \<times> pending list \<Rightarrow> bool" where
  "quiet k s \<longleftrightarrow> k \<notin> key ` set (snd s) \<and> (case entries (fst s) k of None \<Rightarrow> True | Some e \<Rightarrow> settled e)"

text \<open>What says that a user is online.\<close>

fun witnessed :: "string \<Rightarrow> event \<Rightarrow> bool" where
  "witnessed k (Reported order now k' st) \<longleftrightarrow> k' = k \<and> stPresence st = Online"
| "witnessed k (Acted order now now2 k' t) \<longleftrightarrow> k' = k"
| "witnessed k _ \<longleftrightarrow> False"

lemma settled_stays: "settled e \<Longrightarrow> expire now e = e \<and> \<not> is_due c now e"
  by (simp add: settled_def expire_def is_due_def Let_def)

lemma scan_due_quiet:
  "(case es k of None \<Rightarrow> True | Some e \<Rightarrow> settled e) \<Longrightarrow> k \<notin> key ` set (fst (scan_due c now order es)) \<and>
    (case snd (scan_due c now order es) k of None \<Rightarrow> True | Some e \<Rightarrow> settled e)"
proof (induction order arbitrary: es)
  case (Cons a order)
  show ?case
  proof (cases "a = k")
    case True
    have "k \<notin> key ` set (fst (scan_due c now order es')) \<and>
        (case snd (scan_due c now order es') k of None \<Rightarrow> True | Some e \<Rightarrow> settled e)"
      if "es' = es \<or> es' = es(k := None) \<or> es k \<noteq> None \<and> es' = es(k \<mapsto> the (es k))" for es'
      by (rule Cons.IH) (use Cons.prems that in \<open>cases "es k"; auto\<close>)
    then show ?thesis
      using True Cons.prems by (cases "es k") (simp_all add: settled_stays del: fun_upd_apply)
  next
    case False
    have "k \<notin> key ` set (fst (scan_due c now order es')) \<and>
        (case snd (scan_due c now order es') k of None \<Rightarrow> True | Some e \<Rightarrow> settled e)"
      if "es' = es \<or> (\<exists>x. es' = es(a := x))" for es'
      by (rule Cons.IH) (use Cons.prems that False in \<open>cases "es k"; auto\<close>)
    then show ?thesis
      using False by (cases "es a") (auto simp add: case_prod_beta Let_def simp del: fun_upd_apply)
  qed
qed simp

lemma happen_quiet:
  assumes "quiet k s" "\<not> witnessed k e"
  shows "k \<notin> fst ` set (fst (happen e s)) \<and> quiet k (snd (happen e s))"
proof -
  obtain m due where s: "s = (m, due)" by (cases s)
  have up: "\<not> (k' = k \<and> stPresence st = Online) \<Longrightarrow> quiet k (Update order now k' st m, due)" for order now k' st
    using assms(1)
    by (cases "stPresence st") (auto simp: s Update_def quiet_def settled_def evictOne_def zero_entry_def Let_def split: option.splits prod.split)
  show ?thesis
  proof (cases e)
    case (Reported order now k' st)
    then show ?thesis using assms up by (simp add: s)
  next
    case (Acted order now now2 k' t)
    then show ?thesis using assms up by (simp add: s Activity_def Let_def)
  next
    case (Scanned order now)
    then show ?thesis
      using assms scan_due_quiet[of "entries m" k "cfg m" now order]
      by (auto simp: s quiet_def tick_scan_def sort_due_def Let_def case_prod_beta)
  next
    case (Requested t1 t2 ok)
    then show ?thesis
      using assms
      by (cases due; cases "Allow t1 (limiter m)")
        (auto simp: s quiet_def tick_record_def Let_def split: bool.split option.split if_splits)
  qed
qed

lemma history_quiet:
  "quiet k s \<Longrightarrow> \<forall>e \<in> set es. \<not> witnessed k e \<Longrightarrow> k \<notin> fst ` set (fst (history es s)) \<and> quiet k (snd (history es s))"
proof (induction es arbitrary: s)
  case (Cons e es)
  then show ?case using happen_quiet[of k s e] Cons.IH[of "snd (happen e s)"] by (simp add: history_simps image_Un)
qed simp

text \<open>C13: presence is only ever told about users whose coming online was witnessed.  A user for whom
  the homeserver was last told what is still the case, offline, or who is not tracked at all, gets
  no further request until one is reported online or seen doing something, however often the network
  repeats that the user is offline and whatever it says of others; so in a new manager no request
  goes out for a user who is only ever reported offline.\<close>

theorem only_witnessed_users_are_told:
  assumes "\<forall>e \<in> set es. \<not> witnessed k e"
  shows "(quiet k s \<longrightarrow> k \<notin> fst ` set (fst (history es s))) \<and> k \<notin> fst ` set (fst (history es (NewManager c now, [])))"
proof -
  have "quiet k (NewManager c now, [])" by (simp add: quiet_def NewManager_def Let_def)
  then show ?thesis using history_quiet assms by blast
qed

theorem only_witnessed_users_are_told_witness:
  "''b'' \<notin> fst ` set (fst (history [seen_online 0 ''a'', Scanned [''a''] 0, Requested 0 0 True] (NewManager small_config 0, [])))"
  using only_witnessed_users_are_told[of "[seen_online 0 ''a'', Scanned [''a''] 0, Requested 0 0 True]" "''b''"]
  by (simp add: seen_online_def)

section \<open>A round of the worker\<close>

definition is_due_in :: "Config \<Rightarrow> int \<Rightarrow> (string \<rightharpoonup> entry) \<Rightarrow> string \<Rightarrow> bool" where
  "is_due_in c now es k = (case es k of None \<Rightarrow> False | Some e \<Rightarrow> is_due c now (expire now e))"

definition request_of :: "int \<Rightarrow> (string \<rightharpoonup> entry) \<Rightarrow> string \<Rightarrow> pending" where
  "request_of now es k = (let e = expire now (the (es k)) in
     \<lparr>key = k, presence = desired e, msg = desiredMsg e, pSentAt = sentAt e\<rparr>)"

lemma request_of_simps:
  "key (request_of now es k) = k" "presence (request_of now es k) = desired (expire now (the (es k)))"
  "msg (request_of now es k) = desiredMsg (expire now (the (es k)))"
  by (simp_all add: request_of_def Let_def)

definition scanned :: "Config \<Rightarrow> int \<Rightarrow> (string \<rightharpoonup> entry) \<Rightarrow> string \<Rightarrow> entry option" where
  "scanned c now es k = (case es k of None \<Rightarrow> None
     | Some e \<Rightarrow> if \<not> is_due c now (expire now e) \<and> is_stale now (expire now e) then None else Some (expire now e))"

lemma scan_due_all:
  "distinct order \<Longrightarrow> scan_due c now order es =
     (map (request_of now es) (filter (is_due_in c now es) order),
      \<lambda>k. if k \<in> set order then scanned c now es k else es k)"
proof (induction order arbitrary: es)
  case (Cons a order)
  have other: "map (request_of now (es(a := x))) (filter (is_due_in c now (es(a := x))) order) =
      map (request_of now es) (filter (is_due_in c now es) order)" for x
  proof -
    have "filter (is_due_in c now (es(a := x))) order = filter (is_due_in c now es) order"
      using Cons.prems by (intro filter_cong) (auto simp: is_due_in_def)
    then show ?thesis using Cons.prems by (auto simp: request_of_def)
  qed
  have rest: "(\<lambda>k. if k \<in> set order then scanned c now (es(a := x)) k else (es(a := x)) k) =
      (\<lambda>k. if k = a then x else if k \<in> set order then scanned c now es k else es k)" for x
    using Cons.prems by (auto simp: scanned_def)
  have IH: "scan_due c now order (es(a := x)) = (map (request_of now es) (filter (is_due_in c now es) order),
      \<lambda>k. if k = a then x else if k \<in> set order then scanned c now es k else es k)" for x
    using Cons.prems by (simp only: Cons.IH[of "es(a := x)"] other rest distinct.simps simp_thms)
  show ?case
    using IH Cons.IH[of es] Cons.prems
    by (cases "es a")
      (auto simp: request_of_def[of _ _ a] is_due_in_def[of _ _ _ a] scanned_def[of _ _ _ a] Let_def simp del: fun_upd_apply)
qed simp

lemma Allow_full:
  assumes "0 \<le> rate tb" "tokens tb \<le> burst tb" "of_nat (Suc n) \<le> tokens tb"
  shows "\<exists>tb'. Allow now tb = (True, tb') \<and> 0 \<le> rate tb' \<and> tokens tb' \<le> burst tb' \<and> of_nat n \<le> tokens tb'"
proof -
  define el where "el = in_seconds (Sub now (last_refill tb))"
  define g where "g = el * rate tb"
  have "0 < el \<Longrightarrow> 0 \<le> g" using assms(1) by (simp add: g_def)
  then show ?thesis
    using assms by (cases "0 < el") (auto simp: Allow_def Let_def min_def simp flip: el_def g_def)
qed

lemma tick_send_all:
  assumes "0 \<le> rate (limiter m)" "tokens (limiter m) \<le> burst (limiter m)" "of_nat (length due) \<le> tokens (limiter m)"
    and "length due \<le> length os" "\<forall>(t1, t2, ok) \<in> set os. ok" "distinct (map key due)"
  shows "fst (tick_send due os m) = map (\<lambda>p. (key p, presence p)) due \<and>
    (\<forall>k. k \<notin> key ` set due \<longrightarrow> entries (snd (tick_send due os m)) k = entries m k) \<and>
    (\<forall>p \<in> set due. \<forall>e. entries m (key p) = Some e \<longrightarrow>
      (\<exists>t. entries (snd (tick_send due os m)) (key p) = Some (e\<lparr>sentAt := t, sent := presence p, sentMsg := msg p\<rparr>)))"
  using assms
proof (induction due arbitrary: os m)
  case (Cons p due)
  from Cons.prems(4,5) obtain t1 t2 os' where os: "os = (t1, t2, True) # os'" by (cases os) auto
  obtain tb where tb: "Allow t1 (limiter m) = (True, tb)" "0 \<le> rate tb" "tokens tb \<le> burst tb" "of_nat (length due) \<le> tokens tb"
    using Allow_full[of "limiter m" "length due" t1] Cons.prems(1-3) by auto
  define m' where "m' = tick_record p t2 True (m\<lparr>limiter := tb\<rparr>)"
  have lim: "limiter m' = tb" by (simp add: m'_def limiter_only)
  have at: "entries m' k = (if k = key p then map_option (\<lambda>e. e\<lparr>sentAt := t2, sent := presence p, sentMsg := msg p\<rparr>) (entries m k) else entries m k)" for k
    by (simp add: m'_def tick_record_def Let_def split: option.split)
  have IH: "fst (tick_send due os' m') = map (\<lambda>p. (key p, presence p)) due \<and>
    (\<forall>k. k \<notin> key ` set due \<longrightarrow> entries (snd (tick_send due os' m')) k = entries m' k) \<and>
    (\<forall>p \<in> set due. \<forall>e. entries m' (key p) = Some e \<longrightarrow>
      (\<exists>t. entries (snd (tick_send due os' m')) (key p) = Some (e\<lparr>sentAt := t, sent := presence p, sentMsg := msg p\<rparr>)))"
    using Cons.prems tb lim by (intro Cons.IH) (auto simp: os)
  have step: "tick_send (p # due) os m = ((key p, presence p) # fst (tick_send due os' m'), snd (tick_send due os' m'))"
    by (simp add: os tb(1) m'_def case_prod_beta)
  have fresh: "key p \<notin> key ` set due" using Cons.prems(6) by simp
  show ?case
    using IH fresh unfolding step by (auto simp: at image_iff; metis)
qed simp

lemma set_sort_due: "set (sort_due due) = set due" "length (sort_due due) = length due"
  "distinct (map key due) \<Longrightarrow> distinct (map key (sort_due due))"
  by (auto simp: sort_due_def distinct_map distinct_sort)

lemma online_first: "\<exists>xs ys. sort_due due = xs @ ys \<and> (\<forall>p \<in> set xs. presence p = Online) \<and> (\<forall>p \<in> set ys. presence p \<noteq> Online)"
proof -
  have "sorted (map f qs) \<Longrightarrow> \<exists>xs ys. qs = xs @ ys \<and> (\<forall>p \<in> set xs. \<not> f p) \<and> (\<forall>p \<in> set ys. f p)" for f :: "pending \<Rightarrow> bool" and qs
  proof (induction qs)
    case (Cons q qs)
    show ?case
    proof (cases "f q")
      case True
      then show ?thesis using Cons.prems by (intro exI[of _ "[]"] exI[of _ "q # qs"]) auto
    next
      case False
      from Cons obtain xs ys where "qs = xs @ ys" "\<forall>p \<in> set xs. \<not> f p" "\<forall>p \<in> set ys. f p" by auto
      then show ?thesis using False by (intro exI[of _ "q # xs"] exI[of _ ys]) auto
    qed
  qed simp
  from this[of "\<lambda>p. presence p \<noteq> Online" "sort_due due"] show ?thesis
    by (simp add: sort_due_def)
qed

text \<open>C22: a round of the worker catches up.  When the limiter and the homeserver let it, a round sends
  one request for each user whose state is due, and no other: with the state now wanted, those
  coming online before the rest.  After it what was sent is what is wanted, for every one of them.\<close>

theorem a_round_catches_up:
  assumes "distinct order" "set order = dom (entries m)"
    and "0 \<le> rate (limiter m)" "tokens (limiter m) \<le> burst (limiter m)" "of_nat (length order) \<le> tokens (limiter m)"
    and "length order \<le> length os" "\<forall>(t1, t2, ok) \<in> set os. ok"
  shows "case Tick order now os m of (reqs, m') \<Rightarrow>
    set reqs = {(k, desired (expire now e)) |k e. entries m k = Some e \<and> is_due (cfg m) now (expire now e)} \<and>
    distinct (map fst reqs) \<and>
    (\<exists>xs ys. reqs = xs @ ys \<and> snd ` set xs \<subseteq> {Online} \<and> Online \<notin> snd ` set ys) \<and>
    (\<forall>k e. entries m k = Some e \<and> is_due (cfg m) now (expire now e) \<longrightarrow>
       (\<exists>e'. entries m' k = Some e' \<and> desired e' = desired (expire now e) \<and> sent e' = desired e' \<and> sentMsg e' = desiredMsg e'))"
proof -
  define due where "due = sort_due (map (request_of now (entries m)) (filter (is_due_in (cfg m) now (entries m)) order))"
  define m1 where "m1 = m\<lparr>entries := (\<lambda>k. if k \<in> set order then scanned (cfg m) now (entries m) k else entries m k)\<rparr>"
  have Tick: "Tick order now os m = tick_send due os m1"
    by (simp add: Tick_def tick_scan_def scan_due_all[OF assms(1)] due_def m1_def)
  have len: "length due \<le> length order" by (simp add: due_def set_sort_due)
  have dist: "distinct (map key due)"
    using assms(1) unfolding due_def
    by (intro set_sort_due(3)) (simp add: request_of_simps comp_def)
  have in_due: "p \<in> set due \<longleftrightarrow> (\<exists>k e. entries m k = Some e \<and> is_due (cfg m) now (expire now e) \<and> p = request_of now (entries m) k)" for p
    using assms(2) by (auto simp: due_def set_sort_due is_due_in_def image_iff split: option.splits)
  have all: "fst (tick_send due os m1) = map (\<lambda>p. (key p, presence p)) due \<and>
    (\<forall>k. k \<notin> key ` set due \<longrightarrow> entries (snd (tick_send due os m1)) k = entries m1 k) \<and>
    (\<forall>p \<in> set due. \<forall>e. entries m1 (key p) = Some e \<longrightarrow>
      (\<exists>t. entries (snd (tick_send due os m1)) (key p) = Some (e\<lparr>sentAt := t, sent := presence p, sentMsg := msg p\<rparr>)))"
    using assms len dist by (intro tick_send_all) (auto simp: m1_def intro: order.trans[OF _ assms(5)])
  have reqs: "set (fst (tick_send due os m1)) = {(k, desired (expire now e)) |k e. entries m k = Some e \<and> is_due (cfg m) now (expire now e)}"
  proof -
    have "set (fst (tick_send due os m1)) = {(key p, presence p) |p. p \<in> set due}" using all by auto
    also have "\<dots> = {(k, desired (expire now e)) |k e. entries m k = Some e \<and> is_due (cfg m) now (expire now e)}"
      unfolding in_due by (auto simp: request_of_simps) (metis option.sel request_of_simps(1,2))
    finally show ?thesis .
  qed
  have "distinct (map fst (fst (tick_send due os m1)))" using all dist by (simp add: comp_def)
  moreover obtain xs ys where "due = xs @ ys" "\<forall>p \<in> set xs. presence p = Online" "\<forall>p \<in> set ys. presence p \<noteq> Online"
    using online_first unfolding due_def by blast
  then have "\<exists>xs ys. fst (tick_send due os m1) = xs @ ys \<and> snd ` set xs \<subseteq> {Online} \<and> Online \<notin> snd ` set ys"
    using all by (intro exI[of _ "map (\<lambda>p. (key p, presence p)) xs"] exI[of _ "map (\<lambda>p. (key p, presence p)) ys"]) auto
  moreover have "\<exists>e'. entries (snd (tick_send due os m1)) k = Some e' \<and> desired e' = desired (expire now e) \<and> sent e' = desired e' \<and> sentMsg e' = desiredMsg e'"
    if e: "entries m k = Some e" "is_due (cfg m) now (expire now e)" for k e
  proof -
    have "request_of now (entries m) k \<in> set due" using e in_due by blast
    moreover have "entries m1 k = Some (expire now e)" using e assms(2) by (auto simp: m1_def scanned_def)
    ultimately obtain t where "entries (snd (tick_send due os m1)) k = Some ((expire now e)\<lparr>sentAt := t, sent := desired (expire now e), sentMsg := desiredMsg (expire now e)\<rparr>)"
      using conjunct2[OF conjunct2[OF all]] e by (metis option.sel request_of_simps)
    then show ?thesis by simp
  qed
  ultimately show ?thesis using reqs by (simp add: Tick case_prod_beta)
qed

theorem a_round_catches_up_witness:
  "set (fst (Tick [''a''] 60000000000 [(0, 0, True)] (Update [] 0 ''a'' \<lparr>stPresence = Online, stMsg = '''', stUntil = zeroTime\<rparr> (NewManager small_config 0)))) = {(''a'', Online)}"
proof -
  define m where "m = Update [] 0 ''a'' \<lparr>stPresence = Online, stMsg = '''', stUntil = zeroTime\<rparr> (NewManager small_config 0)"
  have m: "entries m = [''a'' \<mapsto> zero_entry\<lparr>desired := Online, desiredMsg := '''', until := zeroTime, touched := 0\<rparr>]"
    "limiter m = NewTokenBucket 1 1 0" "cfg m = setDefaults small_config"
    by (simp_all add: m_def Update_def NewManager_def tracked_def small_config_def setDefaults_def Let_def)
  have due: "is_due (cfg m) 60000000000 (expire 60000000000 (zero_entry\<lparr>desired := Online, desiredMsg := '''', until := zeroTime, touched := 0\<rparr>))"
    "desired (expire 60000000000 (zero_entry\<lparr>desired := Online, desiredMsg := '''', until := zeroTime, touched := 0\<rparr>)) = Online"
    by (simp_all add: m is_due_def expire_def zero_entry_def zeroTime_def Sub_def setDefaults_def small_config_def Let_def)
  from a_round_catches_up[of "[''a'']" m "[(0, 0, True)]" 60000000000]
  have "set (fst (Tick [''a''] 60000000000 [(0, 0, True)] m)) =
      {(k, desired (expire 60000000000 e)) |k e. entries m k = Some e \<and> is_due (cfg m) 60000000000 (expire 60000000000 e)}"
    by (simp add: m(1,2) NewTokenBucket_def case_prod_beta)
  also have "\<dots> = {(''a'', Online)}" using due by (auto simp: m(1) split: if_splits)
  finally show ?thesis by (simp add: m_def)
qed

section \<open>Reports of last-active times\<close>

datatype seen_event = Noted string int int | Took seen_result

text \<open>What happens to a reporter: the reports sent, and the users forgotten because the queue was full.\<close>

fun seen_happen :: "seen_event \<Rightarrow> SeenReporter \<Rightarrow> (string \<times> int) list \<times> string list \<times> SeenReporter" where
  "seen_happen (Noted k t now) r =
     ([], if \<not> disabled r \<and> fst (isNews k t now r) \<and> \<not> length (seenQueue r) < queueSize then [k] else [], Note k t now r)"
| "seen_happen (Took res) r = (case seen_step res r of (x, r) \<Rightarrow> (case x of None \<Rightarrow> [] | Some i \<Rightarrow> [i], [], r))"

fun seen_history :: "seen_event list \<Rightarrow> SeenReporter \<Rightarrow> (string \<times> int) list \<times> string list \<times> SeenReporter" where
  "seen_history [] r = ([], [], r)"
| "seen_history (e # es) r =
     (let (xs, fs, r) = seen_happen e r; (ys, gs, r) = seen_history es r in (xs @ ys, fs @ gs, r))"

definition seconds_of :: "string \<Rightarrow> (string \<times> int) list \<Rightarrow> int list" where
  "seconds_of k xs = map (\<lambda>(_, t). truncate_second t) (filter (\<lambda>(k', _). k' = k) xs)"

text \<open>What was sent and what still waits, as it stands with what is remembered.\<close>

definition in_order :: "string \<Rightarrow> (string \<times> int) list \<Rightarrow> SeenReporter \<Rightarrow> bool" where
  "in_order k xs r \<longleftrightarrow> sorted_wrt (<) (seconds_of k (xs @ seenQueue r)) \<and> length (seenQueue r) \<le> queueSize \<and>
     (\<forall>u \<in> set (seconds_of k (xs @ seenQueue r)). \<exists>v. lastSeen r k = Some v \<and> u \<le> v)"

lemma Note_cases:
  obtains "Note k t now r = r"
  | "length (seenQueue r) < queueSize" "\<forall>v. lastSeen r k = Some v \<longrightarrow> v < truncate_second t"
    "Note k t now r = r\<lparr>lastSeen := (lastSeen r)(k \<mapsto> truncate_second t), seenQueue := seenQueue r @ [(k, t)]\<rparr>"
  | "fst (snd (seen_happen (Noted k t now) r)) = [k]" "Note k t now r = r\<lparr>lastSeen := (lastSeen r)(k := None)\<rparr>"
  by (cases "disabled r"; cases "fst (isNews k t now r)"; cases "length (seenQueue r) < queueSize"; cases "lastSeen r k")
    (auto simp: Note_def isNews_def Let_def split: if_splits)

lemma seen_happen_in_order:
  assumes "in_order k xs r" "k \<notin> set (fst (snd (seen_happen e r)))"
  shows "in_order k (xs @ fst (seen_happen e r)) (snd (snd (seen_happen e r)))"
proof (cases e)
  case (Noted k' t now)
  show ?thesis
  proof (cases rule: Note_cases[of k' t now r])
    case 2
    have "seconds_of k (xs @ seenQueue r @ [(k', t)]) = seconds_of k (xs @ seenQueue r) @ (if k' = k then [truncate_second t] else [])"
      by (simp add: seconds_of_def)
    then show ?thesis using assms 2 by (fastforce simp: Noted in_order_def sorted_wrt_append)
  qed (use assms in \<open>auto simp: Noted in_order_def\<close>)
next
  case (Took res)
  then show ?thesis
    using assms by (cases "disabled r"; cases "seenQueue r") (simp_all add: in_order_def seen_step_def)
qed

lemma seen_history_in_order:
  "in_order k xs r \<Longrightarrow> k \<notin> set (fst (snd (seen_history es r))) \<Longrightarrow>
    in_order k (xs @ fst (seen_history es r)) (snd (snd (seen_history es r)))"
proof (induction es arbitrary: xs r)
  case (Cons e es)
  have "in_order k (xs @ fst (seen_happen e r)) (snd (snd (seen_happen e r)))"
    using Cons.prems by (intro seen_happen_in_order) (auto simp: Let_def case_prod_beta)
  from Cons.IH[OF this] show ?case using Cons.prems by (simp add: Let_def case_prod_beta)
qed simp

text \<open>each last-active time is sent once and in order.  Whatever is noted, in whichever order, the
  seconds reported of a user, and those that wait to be, strictly increase and are none later than
  what is remembered, as long as none of that user had to be forgotten because the queue was full;
  and the queue never holds more than its size.\<close>

theorem times_are_sent_once_in_order:
  assumes "seen_history es NewSeenReporter = (reports, forgotten, r)" "k \<notin> set forgotten"
  shows "sorted_wrt (<) (seconds_of k (reports @ seenQueue r)) \<and> length (seenQueue r) \<le> queueSize \<and>
    (\<forall>u \<in> set (seconds_of k (reports @ seenQueue r)). \<exists>v. lastSeen r k = Some v \<and> u \<le> v)"
proof -
  have "in_order k [] NewSeenReporter" by (simp add: in_order_def NewSeenReporter_def seconds_of_def)
  from seen_history_in_order[OF this, of es] show ?thesis using assms by (simp add: in_order_def)
qed

theorem times_are_sent_once_in_order_witness:
  "sorted_wrt (<) (seconds_of ''a'' [(''a'', 1000000000), (''a'', 3000000000)])"
proof -
  have "seen_history [Noted ''a'' 1000000000 0, Noted ''a'' 1000000001 0, Took SeenOK, Noted ''a'' 3000000000 0, Took SeenFailed] NewSeenReporter =
      ([(''a'', 1000000000), (''a'', 3000000000)], [], \<lparr>lastSeen = [''a'' \<mapsto> 3000000000], seenQueue = [], disabled = False\<rparr>)"
    by (simp add: NewSeenReporter_def Note_def isNews_def truncate_second_def zeroTime_def seen_step_def queueSize_def)
  from times_are_sent_once_in_order[OF this, of "''a''"] show ?thesis by simp
qed

end
