(* ===== verification/Ids.thy ===== *)
theory Ids
  imports UpdData "HOL-Library.Sublist"
begin

text \<open>
  The identifiers that the connector hands to the bridge, \<open>pkg/connector/ids\<close>: text forms of users,
  portals, messages and emojis, and the binary form of media that is downloaded on demand.  Strings
  are byte strings; \<open>FormatInt\<close>, \<open>ParseInt\<close> and \<open>Split\<close> are those of Go, and a function that panics
  gives None.  Numbers are of 64 bits, as \<open>int64\<close> says.
\<close>

section \<open>Numbers in text\<close>

definition int64 :: "int \<Rightarrow> bool" where "int64 n \<longleftrightarrow> - (2 ^ 63) \<le> n \<and> n < 2 ^ 63"

datatype id_err =
    ErrSyntax | ErrRange
  | ErrChatID id_err
  | ErrMigrated | ErrCall | ErrParts
  | ErrPeerType byte
  | ErrEmptyMedia | ErrVersion byte | ErrShort

definition digit :: "nat \<Rightarrow> char" where "digit d = char_of (48 + d)"

fun digits :: "nat \<Rightarrow> string" where
  "digits n = (if n < 10 then [digit n] else digits (n div 10) @ [digit (n mod 10)])"

declare digits.simps [simp del]

definition FormatInt :: "int \<Rightarrow> string" where
  "FormatInt n = (if n < 0 then CHR ''-'' # digits (nat (- n)) else digits (nat n))"

definition is_digit :: "char \<Rightarrow> bool" where "is_digit c \<longleftrightarrow> 48 \<le> (of_char c :: nat) \<and> (of_char c :: nat) \<le> 57"

text \<open>The loop of \<open>ParseUint\<close> in base 10: it stops at the first byte that is no digit or takes the
  number beyond 64 bits.\<close>

fun parse_digits :: "string \<Rightarrow> nat \<Rightarrow> nat \<times> id_err option" where
  "parse_digits [] n = (n, None)"
| "parse_digits (c # cs) n =
     (if \<not> is_digit c then (0, Some ErrSyntax)
      else let n1 = n * 10 + (of_char c - 48) in
        if n1 \<ge> 2 ^ 64 then (2 ^ 64 - 1, Some ErrRange) else parse_digits cs n1)"

definition ParseUint :: "string \<Rightarrow> nat \<times> id_err option" where
  "ParseUint s = (if s = [] then (0, Some ErrSyntax) else parse_digits s 0)"

definition ParseInt :: "string \<Rightarrow> int \<times> id_err option" where
  "ParseInt s =
     (if s = [] then (0, Some ErrSyntax)
      else
        let neg = hd s = CHR ''-'';
            s = (if hd s = CHR ''+'' \<or> hd s = CHR ''-'' then tl s else s)
        in case ParseUint s of
             (un, Some ErrSyntax) \<Rightarrow> (0, Some ErrSyntax)
           | (un, _) \<Rightarrow>
               if \<not> neg \<and> un \<ge> 2 ^ 63 then (2 ^ 63 - 1, Some ErrRange)
               else if neg \<and> un > 2 ^ 63 then (- (2 ^ 63), Some ErrRange)
               else (if neg then - int un else int un, None))"

lemma is_digit_digit: "d < 10 \<Longrightarrow> is_digit (digit d) \<and> of_char (digit d) - 48 = d"
  by (simp add: is_digit_def digit_def)

lemma parse_digits_digits:
  "n < 2 ^ 64 \<Longrightarrow> parse_digits (digits n @ cs) 0 = parse_digits cs n"
proof (induction n arbitrary: cs rule: digits.induct)
  case (1 n)
  show ?case
  proof (cases "n < 10")
    case True
    then show ?thesis using is_digit_digit[of n] by (simp add: digits.simps[of n])
  next
    case False
    then show ?thesis
      using 1 is_digit_digit[of "n mod 10"] by (simp add: digits.simps[of n] Let_def)
  qed
qed

lemma digits_ne: "digits n \<noteq> []" and digits_is_digit: "c \<in> set (digits n) \<Longrightarrow> is_digit c"
proof -
  show "digits n \<noteq> []" by (simp add: digits.simps[of n])
  show "c \<in> set (digits n) \<Longrightarrow> is_digit c"
  proof (induction n rule: digits.induct)
    case (1 n)
    then show ?case using is_digit_digit[of n] is_digit_digit[of "n mod 10"]
      by (auto simp add: digits.simps[of n] split: if_splits)
  qed
qed

lemma not_digits [simp]: "\<not> is_digit CHR ''-''" "\<not> is_digit CHR ''+''" "\<not> is_digit CHR '':''" "\<not> is_digit CHR ''.''"
  "\<not> is_digit CHR ''c''" "\<not> is_digit CHR ''m''"
  by (simp_all add: is_digit_def)

lemma ParseInt_FormatInt [simp]: "int64 n \<Longrightarrow> ParseInt (FormatInt n) = (n, None)"
proof -
  assume n: "int64 n"
  have hd: "is_digit (hd (digits k))" for k using digits_is_digit[of "hd (digits k)" k] digits_ne[of k] by simp
  then have hds: "hd (digits k) \<noteq> CHR ''-''" "hd (digits k) \<noteq> CHR ''+''" for k by (metis not_digits(1,2))+
  show ?thesis
    using n hds parse_digits_digits[of "nat n" "[]"] parse_digits_digits[of "nat (- n)" "[]"]
    by (cases "n < 0") (simp_all add: ParseInt_def FormatInt_def ParseUint_def digits_ne int64_def nat_less_iff nat_le_iff le_nat_iff)
qed

lemma FormatInt_chars: "c \<in> set (FormatInt n) \<Longrightarrow> is_digit c \<or> c = CHR ''-''"
  using digits_is_digit by (auto simp: FormatInt_def split: if_splits)

lemma FormatInt_free [simp]: "CHR '':'' \<notin> set (FormatInt n)" "CHR ''.'' \<notin> set (FormatInt n)"
  by (auto dest!: FormatInt_chars)

lemma FormatInt_ne: "FormatInt n \<noteq> []" by (simp add: FormatInt_def digits_ne)

lemma hd_FormatInt: "hd (FormatInt n) \<noteq> CHR ''c''" "hd (FormatInt n) \<noteq> CHR ''m''"
  using FormatInt_chars[of "hd (FormatInt n)" n] FormatInt_ne by auto

fun Split :: "char \<Rightarrow> string \<Rightarrow> string list" where
  "Split c [] = [[]]"
| "Split c (x # xs) = (if x = c then [] # Split c xs else (x # hd (Split c xs)) # tl (Split c xs))"

lemma Split_one: "c \<notin> set s \<Longrightarrow> Split c s = [s]"
  by (induction s) auto

lemma Split_more: "c \<notin> set s \<Longrightarrow> Split c (s @ c # t) = s # Split c t"
  by (induction s) auto

section \<open>Users\<close>

type_synonym PeerType = string

definition PeerTypeUser :: PeerType where "PeerTypeUser = ''user''"
definition PeerTypeChat :: PeerType where "PeerTypeChat = ''chat''"
definition PeerTypeChannel :: PeerType where "PeerTypeChannel = ''channel''"
definition FakePeerTypeEmoji :: PeerType where "FakePeerTypeEmoji = ''emoji''"
definition FakePeerTypeSticker :: PeerType where "FakePeerTypeSticker = ''sticker''"
definition FakePeerTypeWallpaper :: PeerType where "FakePeerTypeWallpaper = ''wallpaper''"

lemmas peer_types = PeerTypeUser_def PeerTypeChat_def PeerTypeChannel_def
  FakePeerTypeEmoji_def FakePeerTypeSticker_def FakePeerTypeWallpaper_def

definition MakeUserID :: "int \<Rightarrow> string" where
  "MakeUserID userID = (if userID = 0 then '''' else FormatInt userID)"

definition MakeChannelUserID :: "int \<Rightarrow> string" where
  "MakeChannelUserID channelID = (if channelID = 0 then '''' else ''channel-'' @ FormatInt channelID)"

definition ParseUserID :: "string \<Rightarrow> PeerType \<times> int \<times> id_err option" where
  "ParseUserID userID =
     (if prefix ''channel-'' userID
      then (PeerTypeChannel, ParseInt (drop (length ''channel-'') userID))
      else (PeerTypeUser, ParseInt userID))"

definition ParseUserLoginID :: "string \<Rightarrow> int \<times> id_err option" where
  "ParseUserLoginID userID = ParseInt userID"

definition UserLoginIDToUserID :: "string \<Rightarrow> string" where
  "UserLoginIDToUserID userLoginID = userLoginID"

definition MakeUserLoginID :: "int \<Rightarrow> string" where
  "MakeUserLoginID userID = (if userID = 0 then '''' else FormatInt userID)"

section \<open>Portals\<close>

record PortalKey =
  portalID :: string
  Receiver :: string

definition MakePortalID :: "PeerType \<Rightarrow> int \<Rightarrow> string" where
  "MakePortalID pt chatID = pt @ '':'' @ FormatInt chatID"

definition TopicIDSpaceRoom :: int where "TopicIDSpaceRoom = -1"

definition MakeTopicPortalID :: "int \<Rightarrow> int \<Rightarrow> string" where
  "MakeTopicPortalID channelID topicID = PeerTypeChannel @ '':'' @ FormatInt channelID @ '':'' @ FormatInt topicID"

definition MakeForumParentPortalID :: "int \<Rightarrow> string" where
  "MakeForumParentPortalID channelID = MakeTopicPortalID channelID TopicIDSpaceRoom"

definition InternalMakePortalKey :: "PeerType \<Rightarrow> int \<Rightarrow> int \<Rightarrow> string \<Rightarrow> PortalKey" where
  "InternalMakePortalKey pt chatID topicID rcv =
     (let portalKey = \<lparr>portalID = MakePortalID pt chatID, Receiver = ''''\<rparr> in
      if pt = PeerTypeUser \<or> pt = PeerTypeChat then portalKey\<lparr>Receiver := rcv\<rparr>
      else if topicID \<noteq> 0 then portalKey\<lparr>portalID := MakeTopicPortalID chatID topicID\<rparr>
      else portalKey)"

fun InternalPeerToPortalKey :: "PeerClass \<Rightarrow> int \<Rightarrow> string \<Rightarrow> PortalKey" where
  "InternalPeerToPortalKey (PeerUser i) topicID rcv = InternalMakePortalKey PeerTypeUser i topicID rcv"
| "InternalPeerToPortalKey (PeerChat i) topicID rcv = InternalMakePortalKey PeerTypeChat i topicID rcv"
| "InternalPeerToPortalKey (PeerChannel i) topicID rcv = InternalMakePortalKey PeerTypeChannel i topicID rcv"

definition ParsePortalID :: "string \<Rightarrow> (PeerType \<times> int \<times> int \<times> id_err option) option" where
  "ParsePortalID s =
     (let parts = Split (CHR '':'') s; pt = parts ! 0 in
      if length parts < 2 then None
      else case ParseInt (parts ! 1) of (i, err) \<Rightarrow>
        if length parts = 3 \<and> err = None \<and> pt = PeerTypeChannel
        then (case ParseInt (parts ! 2) of (topicID, err) \<Rightarrow> Some (pt, i, topicID, err))
        else Some (pt, i, 0, err))"

text \<open>\<open>makePortalKeyFromPeer\<close> and \<open>makePortalKeyFromID\<close> of \<open>connector/ids.go\<close>.\<close>

definition makePortalKeyFromPeer :: "string \<Rightarrow> bool \<Rightarrow> string \<Rightarrow> PeerClass \<Rightarrow> int \<Rightarrow> PortalKey" where
  "makePortalKeyFromPeer loginID splitPortals userLogin peer topicID =
     (let portalKey = InternalPeerToPortalKey peer topicID loginID
      in if splitPortals then portalKey\<lparr>Receiver := userLogin\<rparr> else portalKey)"

definition makePortalKeyFromID :: "string \<Rightarrow> bool \<Rightarrow> string \<Rightarrow> PeerType \<Rightarrow> int \<Rightarrow> int \<Rightarrow> PortalKey" where
  "makePortalKeyFromID loginID splitPortals userLogin pt chatID topicID =
     (let portalKey = InternalMakePortalKey pt chatID topicID loginID
      in if splitPortals then portalKey\<lparr>Receiver := userLogin\<rparr> else portalKey)"

section \<open>Messages and emojis\<close>

text \<open>What \<open>MakeMessageID\<close> takes as the chat; anything else panics, as a portal identifier without a
  colon does.\<close>

datatype ChatRef = RefPortal PortalKey | RefPeer PeerClass | RefID int | RefNil | RefOther

definition MakeMessageID :: "ChatRef \<Rightarrow> int \<Rightarrow> string option" where
  "MakeMessageID rawChatID messageID =
     map_option (\<lambda>channelID. if channelID \<noteq> 0 then FormatInt channelID @ ''.'' @ FormatInt messageID else FormatInt messageID)
       (case rawChatID of
          RefPortal k \<Rightarrow> (case ParsePortalID (portalID k) of
            None \<Rightarrow> None | Some (pt, i, _, _) \<Rightarrow> Some (if pt = PeerTypeChannel then i else 0))
        | RefPeer (PeerChannel i) \<Rightarrow> Some i
        | RefID i \<Rightarrow> Some i
        | RefPeer _ \<Rightarrow> Some 0
        | RefNil \<Rightarrow> Some 0
        | RefOther \<Rightarrow> None)"

text \<open>A message without a peer, as only an empty one can be, has none in its identifier.\<close>

definition GetMessageIDFromMessage :: "PeerClass option \<Rightarrow> int \<Rightarrow> string option" where
  "GetMessageIDFromMessage peer i = MakeMessageID (case peer of None \<Rightarrow> RefNil | Some p \<Rightarrow> RefPeer p) i"

definition MakePaginationCursorID :: "int \<Rightarrow> string" where
  "MakePaginationCursorID messageID = FormatInt messageID"

definition ParseMessageID :: "string \<Rightarrow> int \<times> int \<times> id_err option" where
  "ParseMessageID networkID =
     (if prefix ''migrated:'' networkID then (0, 0, Some ErrMigrated)
      else if prefix ''call:'' networkID then (0, 0, Some ErrCall)
      else
        let parts = Split (CHR ''.'') networkID in
        if length parts = 1 then (0, ParseInt (parts ! 0))
        else if length parts = 2
        then (case ParseInt (parts ! 0) of
                (channelID, Some e) \<Rightarrow> (channelID, 0, Some (ErrChatID e))
              | (channelID, None) \<Rightarrow> (channelID, ParseInt (parts ! 1)))
        else (0, 0, Some ErrParts))"

definition MakeAvatarID :: "int \<Rightarrow> string" where "MakeAvatarID photoID = FormatInt photoID"

definition MakeEmojiIDFromDocumentID :: "int \<Rightarrow> string" where
  "MakeEmojiIDFromDocumentID documentID = FormatInt documentID"

definition isNumbers :: "string \<Rightarrow> bool" where "isNumbers s \<longleftrightarrow> (\<forall>r \<in> set s. is_digit r)"

definition ParseEmojiID :: "string \<Rightarrow> int \<times> string \<times> id_err option" where
  "ParseEmojiID emojiID =
     (if isNumbers emojiID then (case ParseInt emojiID of (documentID, err) \<Rightarrow> (documentID, '''', err))
      else (0, emojiID, None))"

section \<open>Media\<close>

definition PeerTypeFromByte :: "byte \<Rightarrow> id_err + PeerType" where
  "PeerTypeFromByte pt =
     (if pt = 0x01 then Inr PeerTypeUser
      else if pt = 0x02 then Inr PeerTypeChat
      else if pt = 0x03 then Inr PeerTypeChannel
      else if pt = 0x04 then Inr FakePeerTypeEmoji
      else if pt = 0x05 then Inr FakePeerTypeSticker
      else if pt = 0x06 then Inr FakePeerTypeWallpaper
      else Inl (ErrPeerType pt))"

definition AsByte :: "PeerType \<Rightarrow> byte option" where
  "AsByte pt =
     (if pt = PeerTypeUser then Some 0x01
      else if pt = PeerTypeChat then Some 0x02
      else if pt = PeerTypeChannel then Some 0x03
      else if pt = FakePeerTypeEmoji then Some 0x04
      else if pt = FakePeerTypeSticker then Some 0x05
      else if pt = FakePeerTypeWallpaper then Some 0x06
      else None)"

record DirectMediaInfo =
  mPeerType :: PeerType
  mPeerID :: int
  mUserID :: int
  mMessageID :: int
  mID :: int
  mThumbnail :: bool

definition be64 :: "int \<Rightarrow> bytes" where "be64 n = rev (le 8 (unat (word_of_int n :: 64 word)))"

definition AsMediaID :: "DirectMediaInfo \<Rightarrow> bytes option" where
  "AsMediaID m = map_option (\<lambda>pt. [0, pt] @ be64 (mPeerID m) @ be64 (mUserID m) @ be64 (mMessageID m) @ be64 (mID m) @
     [if mThumbnail m then 1 else 0]) (AsByte (mPeerType m))"

text \<open>Reading from the buffer: too few bytes are an error.\<close>

definition read_int64 :: "bytes \<Rightarrow> id_err + int \<times> bytes" where
  "read_int64 buf = (if length buf < 8 then Inl ErrShort
     else Inr (sint (word_of_nat (unle (rev (take 8 buf))) :: 64 word), drop 8 buf))"

definition read_byte :: "bytes \<Rightarrow> id_err + byte \<times> bytes" where
  "read_byte buf = (case buf of [] \<Rightarrow> Inl ErrShort | b # buf \<Rightarrow> Inr (b, buf))"

definition bind_err :: "'e + 'a \<Rightarrow> ('a \<Rightarrow> 'e + 'b) \<Rightarrow> 'e + 'b" where
  "bind_err x f = (case x of Inl e \<Rightarrow> Inl e | Inr a \<Rightarrow> f a)"

definition ParseDirectMediaInfo :: "bytes \<Rightarrow> id_err + DirectMediaInfo" where
  "ParseDirectMediaInfo mediaID =
     (if mediaID = [] then Inl ErrEmptyMedia
      else bind_err (read_byte mediaID) (\<lambda>(version, buf).
        if version \<noteq> 0 then Inl (ErrVersion version)
        else bind_err (read_byte buf) (\<lambda>(b, buf).
          bind_err (PeerTypeFromByte b) (\<lambda>pt.
          bind_err (read_int64 buf) (\<lambda>(peerID, buf).
          bind_err (read_int64 buf) (\<lambda>(userID, buf).
          bind_err (read_int64 buf) (\<lambda>(messageID, buf).
          bind_err (read_int64 buf) (\<lambda>(i, buf).
          bind_err (read_byte buf) (\<lambda>(t, buf).
          Inr \<lparr>mPeerType = pt, mPeerID = peerID, mUserID = userID, mMessageID = messageID, mID = i,
            mThumbnail = (t \<noteq> 0)\<rparr>)))))))))"

section \<open>What comes back\<close>

definition is_peer_type :: "PeerType \<Rightarrow> bool" where
  "is_peer_type pt \<longleftrightarrow> pt \<in> {PeerTypeUser, PeerTypeChat, PeerTypeChannel}"

lemma ParsePortalID_Make:
  assumes "is_peer_type pt" "int64 i"
  shows "ParsePortalID (MakePortalID pt i) = Some (pt, i, 0, None)"
proof -
  have "CHR '':'' \<notin> set pt" using assms(1) by (auto simp: is_peer_type_def peer_types)
  then show ?thesis using assms(2) by (simp add: ParsePortalID_def MakePortalID_def Split_more Split_one)
qed

lemma ParsePortalID_Topic:
  assumes "int64 i" "int64 topicID"
  shows "ParsePortalID (MakeTopicPortalID i topicID) = Some (PeerTypeChannel, i, topicID, None)"
proof -
  have "CHR '':'' \<notin> set PeerTypeChannel" by (simp add: peer_types)
  then show ?thesis using assms by (simp add: ParsePortalID_def MakeTopicPortalID_def Split_more Split_one)
qed

text \<open>What all text forms promise: what is made reads back, so that equal texts are of equal things.\<close>

locale text_form =
  fixes make :: "'a \<Rightarrow> string"
    and parse :: "string \<Rightarrow> ('a \<times> id_err option) option"
    and valid :: "'a \<Rightarrow> bool"
  assumes read_back: "valid x \<Longrightarrow> parse (make x) = Some (x, None)"
begin

lemma make_inj: "valid x \<Longrightarrow> valid y \<Longrightarrow> make x = make y \<Longrightarrow> x = y"
  by (metis read_back Pair_inject option.inject)

end

interpretation number: text_form FormatInt "\<lambda>s. Some (ParseInt s)" int64
  by unfold_locales simp

interpretation user: text_form MakeUserID "\<lambda>s. Some (ParseInt s)" "\<lambda>i. int64 i \<and> i \<noteq> 0"
  by unfold_locales (simp add: MakeUserID_def)

interpretation user_login: text_form MakeUserLoginID "\<lambda>s. Some (ParseUserLoginID s)" "\<lambda>i. int64 i \<and> i \<noteq> 0"
  by unfold_locales (simp add: MakeUserLoginID_def ParseUserLoginID_def)

text \<open>The chat a portal is for: its type, its identifier and, in a channel, the topic.\<close>

definition portal_of :: "PeerType \<times> int \<times> int \<Rightarrow> string" where
  "portal_of c = (case c of (pt, i, topicID) \<Rightarrow> portalID (InternalMakePortalKey pt i topicID ''''))"

interpretation portal: text_form portal_of "\<lambda>s. map_option (\<lambda>(pt, i, t, e). ((pt, i, t), e)) (ParsePortalID s)"
  "\<lambda>(pt, i, t). is_peer_type pt \<and> int64 i \<and> int64 t \<and> (pt \<noteq> PeerTypeChannel \<longrightarrow> t = 0)"
proof unfold_locales
  fix x :: "PeerType \<times> int \<times> int"
  assume "case x of (pt, i, t) \<Rightarrow> is_peer_type pt \<and> int64 i \<and> int64 t \<and> (pt \<noteq> PeerTypeChannel \<longrightarrow> t = 0)"
  then obtain pt i t where x: "x = (pt, i, t)" "is_peer_type pt" "int64 i" "int64 t" "pt \<noteq> PeerTypeChannel \<longrightarrow> t = 0"
    by (cases x) simp
  have ne: "PeerTypeChannel \<noteq> PeerTypeUser" "PeerTypeChannel \<noteq> PeerTypeChat" by (simp_all add: peer_types)
  have "portal_of x = (if pt = PeerTypeChannel \<and> t \<noteq> 0 then MakeTopicPortalID i t else MakePortalID pt i)"
    using x(2,5) ne unfolding x(1) portal_of_def InternalMakePortalKey_def Let_def is_peer_type_def by auto
  then show "map_option (\<lambda>(pt, i, t, e). ((pt, i, t), e)) (ParsePortalID (portal_of x)) = Some (x, None)"
    using ParsePortalID_Make[OF x(2,3)] ParsePortalID_Topic[OF x(3,4)] x(1,5) by (auto split: if_splits)
qed

text \<open>A portal's identifier without a colon makes \<open>ParsePortalID\<close> panic.\<close>

lemma Split_length: "c \<in> set s \<Longrightarrow> 2 \<le> length (Split c s)"
proof (induction s)
  case (Cons x s)
  have "Split c s \<noteq> []" by (cases s) simp_all
  then show ?case using Cons by (cases "x = c") (auto simp: Suc_le_eq)
qed simp

lemma portal_without_colon_panics: "ParsePortalID s = None \<longleftrightarrow> CHR '':'' \<notin> set s"
proof
  show "ParsePortalID s = None \<Longrightarrow> CHR '':'' \<notin> set s"
    using Split_length[of "CHR '':''" s] by (auto simp: ParsePortalID_def Let_def split: if_splits prod.splits)
  show "CHR '':'' \<notin> set s \<Longrightarrow> ParsePortalID s = None" by (simp add: ParsePortalID_def Split_one)
qed

text \<open>C15: a chat's portal says which chat it is.  The portal that is made for a peer, with or without a
  forum topic, reads back as that peer's type and identifier and the topic, the latter for channels
  only; and portals of different chats or topics have different keys.\<close>

theorem portals_name_their_chats:
  assumes "is_peer_type pt" "int64 i" "int64 topicID" "is_peer_type pt'" "int64 i'" "int64 topicID'"
  shows "ParsePortalID (portalID (InternalMakePortalKey pt i topicID rcv)) =
      Some (pt, i, if pt = PeerTypeChannel then topicID else 0, None) \<and>
    (portalID (makePortalKeyFromID l sp u pt i topicID) = portalID (makePortalKeyFromID l sp u pt' i' topicID') \<longrightarrow>
      pt' = pt \<and> i' = i \<and> (pt = PeerTypeChannel \<longrightarrow> topicID' = topicID))"
proof -
  define chat where "chat = (\<lambda>pt i t. (pt, i, if pt = PeerTypeChannel then t else 0) :: PeerType \<times> int \<times> int)"
  have key: "portalID (InternalMakePortalKey pt i t rcv) = portal_of (chat pt i t)" if "is_peer_type pt" for pt i t rcv
    using that by (auto simp: chat_def portal_of_def InternalMakePortalKey_def Let_def is_peer_type_def peer_types)
  have valid: "case chat pt i t of (pt, i, t) \<Rightarrow> is_peer_type pt \<and> int64 i \<and> int64 t \<and> (pt \<noteq> PeerTypeChannel \<longrightarrow> t = 0)"
    if "is_peer_type pt" "int64 i" "int64 t" for pt i t
    using that by (simp add: chat_def int64_def)
  have "portalID (makePortalKeyFromID l sp u q j t) = portal_of (chat q j t)" if "is_peer_type q" for q j t
    using key[OF that] by (simp add: makePortalKeyFromID_def Let_def)
  moreover have "chat pt i topicID = chat pt' i' topicID' \<Longrightarrow> pt' = pt \<and> i' = i \<and> (pt = PeerTypeChannel \<longrightarrow> topicID' = topicID)"
    by (auto simp: chat_def split: if_splits)
  moreover have "ParsePortalID (portal_of (chat pt i topicID)) = Some (pt, i, if pt = PeerTypeChannel then topicID else 0, None)"
    using portal.read_back[OF valid[OF assms(1-3)]] by (auto simp: chat_def split: prod.splits)
  ultimately show ?thesis
    using portal.make_inj[OF valid[OF assms(1-3)] valid[OF assms(4-6)]] key[OF assms(1)] assms(1,4) by auto
qed

theorem portals_name_their_chats_witness:
  "ParsePortalID (portalID (InternalMakePortalKey ''channel'' (- 5) 7 ''42'')) = Some (''channel'', - 5, 7, None)"
  using portals_name_their_chats[of "''channel''" "- 5" 7 "''user''" 1 0 "''42''"]
  by (simp add: is_peer_type_def peer_types int64_def)

lemma prefix_hd: "prefix (c # p) s \<Longrightarrow> s \<noteq> [] \<and> hd s = c" by (cases s) auto

text \<open>The number of a peer, and the channel that a message in it belongs to, none being 0.\<close>

primrec peer_number :: "PeerClass \<Rightarrow> int" where
  "peer_number (PeerUser i) = i"
| "peer_number (PeerChat i) = i"
| "peer_number (PeerChannel i) = i"

primrec peer_channel :: "PeerClass \<Rightarrow> int" where
  "peer_channel (PeerUser i) = 0"
| "peer_channel (PeerChat i) = 0"
| "peer_channel (PeerChannel i) = i"

lemma ParsePortalID_peer:
  assumes "int64 (peer_number peer)" "int64 topicID"
  shows "\<exists>t. ParsePortalID (portalID (InternalPeerToPortalKey peer topicID rcv)) =
      Some (case peer of PeerUser _ \<Rightarrow> PeerTypeUser | PeerChat _ \<Rightarrow> PeerTypeChat | PeerChannel _ \<Rightarrow> PeerTypeChannel,
        peer_number peer, t, None)"
  using assms
  by (cases peer) (auto simp: InternalMakePortalKey_def Let_def ParsePortalID_Make ParsePortalID_Topic is_peer_type_def peer_types)

lemma isNumbers_FormatInt: "isNumbers (FormatInt i) \<longleftrightarrow> 0 \<le> i"
  using digits_is_digit by (auto simp: isNumbers_def FormatInt_def is_digit_def)

lemma not_marked:
  "\<not> prefix ''channel-'' (FormatInt n)" "\<not> prefix ''migrated:'' (FormatInt n @ s)" "\<not> prefix ''call:'' (FormatInt n @ s)"
  using hd_FormatInt[of n] FormatInt_ne[of n] by (auto dest!: prefix_hd)

lemma ParseMessageID_Make:
  assumes "int64 i" "int64 m"
  shows "ParseMessageID (if i \<noteq> 0 then FormatInt i @ ''.'' @ FormatInt m else FormatInt m) = (i, m, None)"
  using assms not_marked(2,3)[of i] not_marked(2,3)[of m "[]"] by (simp add: ParseMessageID_def Split_more Split_one)



section \<open>Media identifiers\<close>

lemma length_be64 [simp]: "length (be64 n) = 8" by (simp add: be64_def)

lemma read_be64: "int64 n \<Longrightarrow> read_int64 (be64 n @ buf) = Inr (n, buf)"
proof -
  assume "int64 n"
  then have "sint (word_of_int n :: 64 word) = n"
    by (simp add: int64_def signed_of_int signed_take_bit_int_eq_self)
  then show ?thesis by (simp add: read_int64_def) (simp add: be64_def)
qed

lemma read_int64_be: "read_int64 buf = Inr (n, rest) \<Longrightarrow> int64 n \<and> buf = be64 n @ rest"
proof -
  assume r: "read_int64 buf = Inr (n, rest)"
  then have l: "length (take 8 buf) = 8" by (auto simp: read_int64_def split: if_splits)
  define w where "w = (word_of_nat (unle (rev (take 8 buf))) :: 64 word)"
  have n: "n = sint w" "rest = drop 8 buf" using r by (auto simp: read_int64_def w_def split: if_splits)
  have "unat w = unle (rev (take 8 buf))"
    using unle_bound[of "rev (take 8 buf)"] l by (simp add: w_def unat_of_nat)
  then have "be64 n = take 8 buf" using le_unle[of "rev (take 8 buf)"] l by (simp add: be64_def n)
  moreover have "int64 n" using sint_ge[of w] sint_lt[of w] by (simp add: n int64_def)
  ultimately show ?thesis using n by simp
qed

lemma peer_byte: "AsByte pt = Some b \<longleftrightarrow> PeerTypeFromByte b = Inr pt"
  by (auto simp: AsByte_def PeerTypeFromByte_def peer_types)

definition media_ok :: "DirectMediaInfo \<Rightarrow> bool" where
  "media_ok m \<longleftrightarrow> int64 (mPeerID m) \<and> int64 (mUserID m) \<and> int64 (mMessageID m) \<and> int64 (mID m) \<and> AsByte (mPeerType m) \<noteq> None"

text \<open>the identifier of media to be downloaded on demand says all of it.  Whatever has a known kind
  of peer is written and reads back the same, also with bytes behind it; and what reads without error
  is, up to the byte of the flag and to bytes behind it, what is written for the value read, so no two
  media share an identifier.\<close>

theorem media_ids_round_trip:
  shows "(media_ok m \<longrightarrow> (\<exists>b. AsMediaID m = Some b \<and> length b = 35 \<and> ParseDirectMediaInfo (b @ rest) = Inr m)) \<and>
    (ParseDirectMediaInfo b = Inr m' \<longrightarrow> media_ok m' \<and>
      (\<exists>t rest. length b = 35 + length rest \<and> map_option butlast (AsMediaID m') = Some (take 34 b) \<and>
        b = take 34 b @ t # rest \<and> mThumbnail m' = (t \<noteq> 0)))"
proof
  show "media_ok m \<longrightarrow> (\<exists>b. AsMediaID m = Some b \<and> length b = 35 \<and> ParseDirectMediaInfo (b @ rest) = Inr m)"
  proof
    assume m: "media_ok m"
    then obtain p where p: "AsByte (mPeerType m) = Some p" by (auto simp: media_ok_def)
    then show "\<exists>b. AsMediaID m = Some b \<and> length b = 35 \<and> ParseDirectMediaInfo (b @ rest) = Inr m"
      using m peer_byte[of "mPeerType m" p]
      by (simp add: AsMediaID_def ParseDirectMediaInfo_def bind_err_def read_byte_def read_be64 media_ok_def)
  qed
  show "ParseDirectMediaInfo b = Inr m' \<longrightarrow> media_ok m' \<and>
      (\<exists>t rest. length b = 35 + length rest \<and> map_option butlast (AsMediaID m') = Some (take 34 b) \<and>
        b = take 34 b @ t # rest \<and> mThumbnail m' = (t \<noteq> 0))"
  proof
    assume "ParseDirectMediaInfo b = Inr m'"
    then obtain p b1 pt n1 b2 n2 b3 n3 b4 n4 b5 t b6 where
      "b = 0 # p # b1" "PeerTypeFromByte p = Inr pt" "read_int64 b1 = Inr (n1, b2)" "read_int64 b2 = Inr (n2, b3)"
      "read_int64 b3 = Inr (n3, b4)" "read_int64 b4 = Inr (n4, b5)" "b5 = t # b6"
      "m' = \<lparr>mPeerType = pt, mPeerID = n1, mUserID = n2, mMessageID = n3, mID = n4, mThumbnail = (t \<noteq> 0)\<rparr>"
      by (auto simp: ParseDirectMediaInfo_def bind_err_def read_byte_def split: if_splits list.splits sum.splits prod.splits)
    then show "media_ok m' \<and> (\<exists>t rest. length b = 35 + length rest \<and> map_option butlast (AsMediaID m') = Some (take 34 b) \<and>
        b = take 34 b @ t # rest \<and> mThumbnail m' = (t \<noteq> 0))"
      using peer_byte[of pt p]
      by (auto simp: media_ok_def AsMediaID_def butlast_append dest!: read_int64_be)
  qed
qed

theorem media_ids_round_trip_witness:
  "\<exists>b. AsMediaID \<lparr>mPeerType = PeerTypeChannel, mPeerID = - 5, mUserID = 42, mMessageID = 7, mID = 9, mThumbnail = True\<rparr> = Some b \<and>
     ParseDirectMediaInfo b = Inr \<lparr>mPeerType = PeerTypeChannel, mPeerID = - 5, mUserID = 42, mMessageID = 7, mID = 9, mThumbnail = True\<rparr>"
proof -
  have "media_ok \<lparr>mPeerType = PeerTypeChannel, mPeerID = - 5, mUserID = 42, mMessageID = 7, mID = 9, mThumbnail = True\<rparr>"
    by (simp add: media_ok_def int64_def AsByte_def peer_types)
  then show ?thesis using media_ids_round_trip[where rest = "[]"] by fastforce
qed

end
