(* ===== verification/Status.thy ===== *)
theory Status
  imports Presence Ids
begin

text \<open>
  Where online status comes from and goes to in the connector: \<open>connector/presence.go\<close> hands what
  Telegram says of other users to the presence manager and the reporter of last-active times, and
  \<open>connector/onlinewhileactive.go\<close> tells Telegram when the bridge's own user is active.  Times are
  nanoseconds; a status update to Telegram comes out as the time and whether it says online.
\<close>

section \<open>The status of others\<close>

datatype UserStatusClass = UserStatusOnline int | UserStatusOffline int | OtherStatus

definition Unix :: "int \<Rightarrow> int" where "Unix s = s * 1000000000"

fun mapTelegramStatus :: "UserStatusClass \<Rightarrow> int \<Rightarrow> State \<times> bool" where
  "mapTelegramStatus (UserStatusOnline expires) now =
     (let til = Unix expires in
      if expires > 0 \<and> \<not> til > now then (\<lparr>stPresence = Offline, stMsg = '''', stUntil = zeroTime\<rparr>, True)
      else (\<lparr>stPresence = Online, stMsg = '''', stUntil = if expires \<le> 0 then zeroTime else til\<rparr>, True))"
| "mapTelegramStatus (UserStatusOffline w) now = (\<lparr>stPresence = Offline, stMsg = '''', stUntil = zeroTime\<rparr>, True)"
| "mapTelegramStatus OtherStatus now = (\<lparr>stPresence = NoPresence, stMsg = '''', stUntil = zeroTime\<rparr>, False)"

text \<open>The client and the connector it belongs to; no manager is presence bridging switched off, and no
  reporter that of last-active times.\<close>

record client =
  telegramUserID :: int
  manager :: "Manager option"
  seen :: "SeenReporter option"

text \<open>The clock is read up to three times; \<open>order\<close> is how the manager goes through its users.\<close>

definition handleUserStatus :: "string list \<Rightarrow> int \<Rightarrow> int \<Rightarrow> int \<Rightarrow> int \<Rightarrow> UserStatusClass option \<Rightarrow> client \<Rightarrow> client" where
  "handleUserStatus order now now2 now3 userID status tc =
     (case (manager tc, status) of
        (Some m, Some status) \<Rightarrow>
          if userID = 0 \<or> userID = telegramUserID tc then tc
          else
            let tc = (case status of
                  UserStatusOffline wasOnline \<Rightarrow>
                    if wasOnline > 0 then tc\<lparr>seen := map_option (Note (MakeUserID userID) (Unix wasOnline) now2) (seen tc)\<rparr> else tc
                | _ \<Rightarrow> tc)
            in (case mapTelegramStatus status now of
                  (st, ok) \<Rightarrow> if \<not> ok then tc else tc\<lparr>manager := Some (Update order now3 (MakeUserID userID) st m)\<rparr>)
      | _ \<Rightarrow> tc)"

record EventSender =
  IsFromMe :: bool
  Sender :: string

definition noteActivity :: "string list \<Rightarrow> int \<Rightarrow> int \<Rightarrow> string \<Rightarrow> EventSender \<Rightarrow> int \<Rightarrow> client \<Rightarrow> client" where
  "noteActivity order now now2 ownID sender t tc =
     (case manager tc of
        None \<Rightarrow> tc
      | Some m \<Rightarrow>
          if IsFromMe sender \<or> Sender sender = '''' \<or> Sender sender = ownID then tc
          else tc\<lparr>manager := Some (Activity order now now2 (Sender sender) t m)\<rparr>)"

lemma own_key: "int64 i \<Longrightarrow> int64 j \<Longrightarrow> MakeUserID i = MakeUserID j \<Longrightarrow> i = j"
  using user.make_inj[of i j] FormatInt_ne by (cases "i = 0 \<or> j = 0") (auto simp: MakeUserID_def split: if_splits dest: sym)

lemma Update_other: "k' \<noteq> k \<Longrightarrow> entries (Update order now k st m) k' = entries m k' \<or> entries (Update order now k st m) k' = None"
  by (auto simp: Update_def evictOne_def Let_def split: option.split prod.split)

text \<open>a status report concerns the user it is about.  It is taken up only with presence bridging on
  and for another user than the bridge's own; then what the manager wants for the user is online until
  the given expiry, or offline once that has passed, and the reporter is told when an offline user was
  last seen.  What is kept of any other user stays or is dropped, and a vague status changes nothing.\<close>

theorem reports_concern_their_user:
  assumes "int64 userID" "tracked m < nat (MaxTracked (cfg m))"
    and "manager tc = Some m" and "handleUserStatus order now now2 now3 userID (Some status) tc = tc'"
  shows "(userID = 0 \<or> userID = telegramUserID tc \<or> status = OtherStatus \<longrightarrow> tc' = tc) \<and>
    (userID \<noteq> 0 \<and> userID \<noteq> telegramUserID tc \<and> status \<noteq> OtherStatus \<longrightarrow>
      (\<exists>m' e. manager tc' = Some m' \<and> entries m' (MakeUserID userID) = Some e \<and>
        (case status of UserStatusOnline x \<Rightarrow>
            (desired e = Online \<longleftrightarrow> x \<le> 0 \<or> now < Unix x) \<and> (desired e = Online \<longrightarrow> until e = (if x \<le> 0 then zeroTime else Unix x)) \<and> seen tc' = seen tc
         | UserStatusOffline w \<Rightarrow> desired e = Offline \<and> (w \<le> 0 \<longrightarrow> seen tc' = seen tc) \<and>
             (0 < w \<longrightarrow> seen tc' = map_option (Note (MakeUserID userID) (Unix w) now2) (seen tc))) \<and>
        (\<forall>j e. int64 j \<and> j \<noteq> userID \<and> entries m' (MakeUserID j) = Some e \<longrightarrow> entries m (MakeUserID j) = Some e)))"
proof -
  have ne: "userID \<noteq> 0 \<Longrightarrow> MakeUserID userID \<noteq> ''''" by (simp add: MakeUserID_def FormatInt_ne)
  have room: "\<not> int (tracked m) \<ge> MaxTracked (cfg m)" using assms(2) by simp
  have others: "\<forall>j e. int64 j \<and> j \<noteq> userID \<and> entries (Update order now3 (MakeUserID userID) st m) (MakeUserID j) = Some e \<longrightarrow>
      entries m (MakeUserID j) = Some e" for st
    using Update_other[of "MakeUserID _" "MakeUserID userID" order now3 st m] own_key[OF _ assms(1)] by fastforce
  have entry: "userID \<noteq> 0 \<Longrightarrow> stPresence st \<noteq> NoPresence \<Longrightarrow> stPresence st \<noteq> Unavailable \<Longrightarrow>
      \<exists>e. entries (Update order now3 (MakeUserID userID) st m) (MakeUserID userID) = Some e \<and> desired e = stPresence st \<and> until e = stUntil st" for st
    using ne room by (auto simp: Update_def Let_def split: option.split)
  show ?thesis
  proof (cases "userID = 0 \<or> userID = telegramUserID tc")
    case True
    then show ?thesis using assms(3,4) by (auto simp: handleUserStatus_def)
  next
    case False
    then show ?thesis
      using assms(3,4) others entry[of "fst (mapTelegramStatus status now)"]
      by (cases status) (auto simp: handleUserStatus_def Let_def)
  qed
qed

theorem reports_concern_their_user_witness:
  "\<exists>m' e. manager (handleUserStatus [] 5 5 5 7 (Some (UserStatusOnline 1))
      \<lparr>telegramUserID = 1, manager = Some (NewManager small_config 0), seen = None\<rparr>) = Some m' \<and>
    entries m' (MakeUserID 7) = Some e \<and> desired e = Online"
  using reports_concern_their_user[of 7 "NewManager small_config 0"
      "\<lparr>telegramUserID = 1, manager = Some (NewManager small_config 0), seen = None\<rparr>" "[]" 5 5 5 "UserStatusOnline 1"]
  by (auto simp: int64_def NewManager_def tracked_def small_config_def setDefaults_def Let_def Unix_def)

section \<open>The status of the bridge's own user\<close>

record activity =
  isOnline :: bool
  lastSent :: int
  idleTimer :: "int option"

definition new_activity :: activity where
  "new_activity = \<lparr>isOnline = False, lastSent = zeroTime, idleTimer = None\<rparr>"

definition onlineRenewInterval :: int where "onlineRenewInterval = 60 * 1000000000"

text \<open>\<open>off\<close> is the feature switched off, a bot, or no client; \<open>timeoutSeconds\<close> is from the configuration.\<close>

definition idle_timeout :: "int \<Rightarrow> int" where
  "idle_timeout timeoutSeconds = (if timeoutSeconds * 1000000000 \<le> 0 then 5 * 60 * 1000000000 else timeoutSeconds * 1000000000)"

definition markActive :: "bool \<Rightarrow> int \<Rightarrow> int \<Rightarrow> activity \<Rightarrow> (int \<times> bool) list \<times> activity" where
  "markActive off timeoutSeconds now a =
     (if off then ([], a)
      else
        let a = a\<lparr>idleTimer := Some (now + idle_timeout timeoutSeconds)\<rparr> in
        if \<not> isOnline a \<or> Sub now (lastSent a) \<ge> onlineRenewInterval
        then ([(now, True)], a\<lparr>isOnline := True, lastSent := now\<rparr>) else ([], a))"

definition setTelegramOnline :: "bool \<Rightarrow> int \<Rightarrow> activity \<Rightarrow> (int \<times> bool) list \<times> activity" where
  "setTelegramOnline online now a =
     (if isOnline a = online then ([], a) else ([(now, online)], a\<lparr>isOnline := online, lastSent := now\<rparr>))"

text \<open>What happens: the user is active, or an idle timer fires, which may be one that was just stopped.\<close>

datatype own_event = IsActive int int | TimerFired int

fun own_step :: "own_event \<Rightarrow> activity \<Rightarrow> (int \<times> bool) list \<times> activity" where
  "own_step (IsActive timeoutSeconds now) a = markActive False timeoutSeconds now a"
| "own_step (TimerFired now) a =
     setTelegramOnline False now (a\<lparr>idleTimer := (case idleTimer a of None \<Rightarrow> None | Some t \<Rightarrow> if t \<le> now then None else Some t)\<rparr>)"

fun own_run :: "own_event list \<Rightarrow> activity \<Rightarrow> (int \<times> bool) list \<times> activity" where
  "own_run [] a = ([], a)"
| "own_run (e # es) a = (let (xs, a) = own_step e a; (ys, a) = own_run es a in (xs @ ys, a))"

primrec own_time :: "own_event \<Rightarrow> int" where
  "own_time (IsActive timeoutSeconds now) = now"
| "own_time (TimerFired now) = now"

text \<open>The order of updates: an online is not repeated within the interval, nor an offline at all.\<close>

fun well_spaced :: "int \<Rightarrow> bool \<Rightarrow> (int \<times> bool) list \<Rightarrow> bool" where
  "well_spaced t online [] \<longleftrightarrow> True"
| "well_spaced t online ((u, b) # xs) \<longleftrightarrow> (b \<and> online \<longrightarrow> u - t \<ge> onlineRenewInterval) \<and> (b \<or> online) \<and> well_spaced u b xs"

lemma own_run_spaced:
  "(isOnline a \<longrightarrow> lastSent a = t) \<Longrightarrow> well_spaced t (isOnline a) (fst (own_run es a))"
proof (induction es arbitrary: a t)
  case (Cons e es)
  show ?case
  proof (cases "fst (own_step e a)")
    case Nil
    then have "isOnline (snd (own_step e a)) = isOnline a \<and> lastSent (snd (own_step e a)) = lastSent a"
      by (cases e) (auto simp: markActive_def setTelegramOnline_def Let_def split: if_splits)
    then show ?thesis
      using Cons.IH[of "snd (own_step e a)" t] Cons.prems Nil by (simp add: Let_def case_prod_beta)
  next
    case (Cons x xs)
    then have "xs = [] \<and> isOnline (snd (own_step e a)) = snd x \<and> lastSent (snd (own_step e a)) = fst x \<and>
        (snd x \<and> isOnline a \<longrightarrow> fst x - lastSent a \<ge> onlineRenewInterval) \<and> (snd x \<or> isOnline a)"
      by (cases e) (auto simp: markActive_def setTelegramOnline_def Let_def Sub_def onlineRenewInterval_def max_def min_def split: if_splits)
    then show ?thesis using Cons Cons.IH[of "snd (own_step e a)" "fst x"] Cons.prems
      by (cases x) (auto simp add: Let_def case_prod_beta)
  qed
qed simp

lemma own_run_timer:
  "idleTimer (snd (own_run es a)) = None \<Longrightarrow> (idleTimer a = None \<longrightarrow> \<not> isOnline a) \<Longrightarrow> \<not> isOnline (snd (own_run es a))"
proof (induction es arbitrary: a)
  case (Cons e es)
  have "idleTimer (snd (own_step e a)) = None \<longrightarrow> \<not> isOnline (snd (own_step e a))"
    using Cons.prems(2)
    by (cases e) (auto simp: markActive_def setTelegramOnline_def Let_def split: if_splits option.splits)
  then show ?case using Cons by (simp add: Let_def case_prod_beta)
qed simp

lemma own_run_last:
  "(fst (own_run es a) = [] \<longrightarrow> isOnline (snd (own_run es a)) = isOnline a) \<and>
   (fst (own_run es a) \<noteq> [] \<longrightarrow> snd (last (fst (own_run es a))) = isOnline (snd (own_run es a)))"
proof (induction es arbitrary: a)
  case (Cons e es)
  have "(fst (own_step e a) = [] \<longrightarrow> isOnline (snd (own_step e a)) = isOnline a) \<and>
      (fst (own_step e a) \<noteq> [] \<longrightarrow> snd (last (fst (own_step e a))) = isOnline (snd (own_step e a)))"
    by (cases e) (auto simp: markActive_def setTelegramOnline_def Let_def)
  then show ?case using Cons.IH[of "snd (own_step e a)"] by (auto simp: Let_def case_prod_beta last_append)
qed simp

text \<open>C35: Telegram is not flooded with the own status, nor left with a stale one.  However activity and
  idle timers, also stopped ones, follow each other, an update that says online comes at least the
  renewal interval after the last one unless an offline was between, the first says online, and an
  offline is never repeated; and when no idle timer is running any more the last one said is offline.\<close>

theorem own_status_is_spaced:
  assumes "own_run es new_activity = (updates, a)"
  shows "well_spaced t False updates \<and> (isOnline a \<longrightarrow> idleTimer a \<noteq> None) \<and>
    (updates \<noteq> [] \<longrightarrow> snd (last updates) = isOnline a)"
proof -
  have "well_spaced t False (fst (own_run es new_activity))"
    using own_run_spaced[of new_activity t es] by (simp add: new_activity_def)
  moreover have "isOnline a \<longrightarrow> idleTimer a \<noteq> None"
    using own_run_timer[of es new_activity] assms by (auto simp: new_activity_def)
  ultimately show ?thesis using own_run_last[of es new_activity] assms by simp
qed

theorem own_status_is_spaced_witness:
  "well_spaced 0 False [(0, True), (60000000000, True), (400000000000, False)]"
proof -
  have "own_run [IsActive 0 0, IsActive 0 1000000000, IsActive 0 60000000000, TimerFired 400000000000, TimerFired 400000000001] new_activity =
      ([(0, True), (60000000000, True), (400000000000, False)], \<lparr>isOnline = False, lastSent = 400000000000, idleTimer = None\<rparr>)"
    by (simp add: new_activity_def markActive_def setTelegramOnline_def idle_timeout_def onlineRenewInterval_def Sub_def zeroTime_def Let_def)
  from own_status_is_spaced[OF this] show ?thesis by blast
qed
end
