(* ===== verification/Telegramfmt.thy ===== *)
theory Telegramfmt
  imports Ids
begin

text \<open>
  Telegram's formatted text and its conversion to HTML, \<open>pkg/connector/telegramfmt\<close>.  Text is a list of
  runes (Unicode code points); Telegram counts in UTF-16 units, which are 16-bit words.  A slice out
  of bounds panics, which is None.  What the bridge and the library add, the HTML of plain runes, links
  to users and what is known of users, are parameters.
\<close>

type_synonym runes = "nat list"

definition lit :: "string \<Rightarrow> runes" where "lit s = map of_char s"

section \<open>UTF-16\<close>

type_synonym UTF16String = "16 word list"

text \<open>Go's \<open>utf16.Encode\<close> and \<open>Decode\<close>; what is no scalar value becomes the replacement character.\<close>

definition valid_rune :: "nat \<Rightarrow> bool" where
  "valid_rune r \<longleftrightarrow> r < 0xD800 \<or> 0xE000 \<le> r \<and> r < 0x110000"

fun encode_rune :: "nat \<Rightarrow> UTF16String" where
  "encode_rune r =
     (if r < 0xD800 \<or> 0xE000 \<le> r \<and> r < 0x10000 then [word_of_nat r]
      else if 0x10000 \<le> r \<and> r < 0x110000
      then [word_of_nat (0xD800 + (r - 0x10000) div 1024), word_of_nat (0xDC00 + (r - 0x10000) mod 1024)]
      else [0xFFFD])"

definition NewUTF16String :: "runes \<Rightarrow> UTF16String" where
  "NewUTF16String s = concat (map encode_rune s)"

definition is_high :: "16 word \<Rightarrow> bool" where "is_high u \<longleftrightarrow> 0xD800 \<le> unat u \<and> unat u < 0xDC00"
definition is_low :: "16 word \<Rightarrow> bool" where "is_low u \<longleftrightarrow> 0xDC00 \<le> unat u \<and> unat u < 0xE000"

fun decode :: "UTF16String \<Rightarrow> runes" where
  "decode [] = []"
| "decode [u] = [if is_high u \<or> is_low u then 0xFFFD else unat u]"
| "decode (u # v # us) =
     (if is_high u \<and> is_low v then (0x10000 + (unat u - 0xD800) * 1024 + (unat v - 0xDC00)) # decode us
      else if is_high u \<or> is_low u then 0xFFFD # decode (v # us)
      else unat u # decode (v # us))"

lemma decode_encode: "valid_rune r \<Longrightarrow> decode (encode_rune r @ us) = r # decode us"
proof -
  assume v: "valid_rune r"
  show ?thesis
  proof (cases "r < 0x10000")
    case True
    then have "unat (word_of_nat r :: 16 word) = r" by (simp add: unat_of_nat)
    then show ?thesis using v True by (cases us) (auto simp: valid_rune_def is_high_def is_low_def)
  next
    case False
    let ?q = "(r - 0x10000) div 1024" and ?m = "(r - 0x10000) mod 1024"
    have q: "?q < 1024" "?q * 1024 + ?m = r - 0x10000" using v False by (auto simp: valid_rune_def)
    have "unat (word_of_nat (0xD800 + ?q) :: 16 word) = 0xD800 + ?q" "unat (word_of_nat (0xDC00 + ?m) :: 16 word) = 0xDC00 + ?m"
      using q(1) by (simp_all only: unat_of_nat) simp_all
    then show ?thesis using v False q by (simp add: valid_rune_def is_high_def is_low_def)
  qed
qed

lemma decode_NewUTF16String: "\<forall>r \<in> set s. valid_rune r \<Longrightarrow> decode (NewUTF16String s) = s"
  by (induction s) (simp_all add: NewUTF16String_def decode_encode del: encode_rune.simps)

section \<open>Ranges\<close>

record 'v BodyRange =
  Start :: int
  Length :: int
  Value :: 'v

definition End :: "'v BodyRange \<Rightarrow> int" where "End b = Start b + Length b"

definition Less :: "'v BodyRange \<Rightarrow> 'v BodyRange \<Rightarrow> bool" where
  "Less a b \<longleftrightarrow> Start a < Start b \<or> Length a > Length b"

definition Offset :: "int \<Rightarrow> 'v BodyRange \<Rightarrow> 'v BodyRange" where
  "Offset off b = b\<lparr>Start := Start b + off\<rparr>"

definition TruncateStart :: "int \<Rightarrow> 'v BodyRange \<Rightarrow> 'v BodyRange" where
  "TruncateStart startAt b =
     (if Start b < startAt then b\<lparr>Length := Length b - (startAt - Start b), Start := startAt\<rparr> else b)"

definition TruncateEnd :: "int \<Rightarrow> 'v BodyRange \<Rightarrow> 'v BodyRange" where
  "TruncateEnd maxEnd b = (if End b > maxEnd then b\<lparr>Length := maxEnd - Start b\<rparr> else b)"

lemmas range_defs = End_def Offset_def TruncateStart_def TruncateEnd_def

section \<open>The tree of ranges\<close>

text \<open>\<open>Leaf\<close> is a nil tree, and the root before it has a range.\<close>

datatype 'v LinkedRangeTree =
    Leaf
  | Node "'v BodyRange" (Sibling: "'v LinkedRangeTree") (Child: "'v LinkedRangeTree")

fun Add :: "'v BodyRange \<Rightarrow> 'v LinkedRangeTree \<Rightarrow> 'v LinkedRangeTree" where
  "Add r Leaf = Node r Leaf Leaf"
| "Add r (Node nd sib child) =
     (let lrtEnd = End nd in
      if Start r \<ge> lrtEnd then Node nd (Add (Offset (- lrtEnd) r) sib) child
      else Node nd
        (if End r > lrtEnd then Add (Offset (- lrtEnd) (TruncateStart lrtEnd r)) sib else sib)
        (Add (Offset (- Start nd) (TruncateEnd lrtEnd r)) child))"

definition build :: "'v BodyRange list \<Rightarrow> 'v LinkedRangeTree" where
  "build rs = foldl (\<lambda>t r. Add r t) Leaf rs"

section \<open>HTML\<close>

text \<open>The walk of \<open>Format\<close>: what becomes of a piece of plain text, in a code block or not, and how the
  value of a range wraps what is inside it, are parameters.\<close>

fun Format :: "(bool \<Rightarrow> UTF16String \<Rightarrow> 'o list) \<Rightarrow> ('v \<Rightarrow> 'o list \<Rightarrow> 'o list) \<Rightarrow> ('v \<Rightarrow> bool) \<Rightarrow>
    'v LinkedRangeTree \<Rightarrow> UTF16String \<Rightarrow> bool \<Rightarrow> 'o list option" where
  "Format plain wrap isCode Leaf message code = Some (plain code message)"
| "Format plain wrap isCode (Node nd sib child) message code =
     (if \<not> (0 \<le> Start nd \<and> Start nd \<le> End nd \<and> End nd \<le> int (length message)) then None
      else
        let s = nat (Start nd); e = nat (End nd) in
        case Format plain wrap isCode child (take (e - s) (drop s message)) (code \<or> isCode (Value nd)) of
          None \<Rightarrow> None
        | Some childMessage \<Rightarrow>
            (case Format plain wrap isCode sib (drop e message) code of
               None \<Rightarrow> None
             | Some siblingMessage \<Rightarrow> Some (plain code (take s message) @ wrap (Value nd) childMessage @ siblingMessage)))"

datatype StyleType =
    StyleNone | StyleBold | StyleItalic | StyleUnderline | StyleStrikethrough | StyleBlockquote | StyleCode
  | StylePre | StyleEmail | StyleTextURL | StyleURL | StyleCustomEmoji | StyleBotCommand | StyleHashtag
  | StyleCashtag | StylePhone | StyleSpoiler | StyleBankCard | StyleFormattedDate

record EmojiInfo =
  Emoji :: runes
  DocumentID :: int
  EmojiURI :: runes

record Style =
  stType :: StyleType
  Language :: runes
  URL :: runes
  emojiInfo :: EmojiInfo

record UserInfo =
  MXID :: runes
  Name :: runes

record Mention =
  mentioned :: UserInfo
  mentionID :: string
  mentionHash :: int
  Username :: runes

datatype BodyRangeValue = MentionValue Mention | StyleValue Style

definition noEmoji :: EmojiInfo where "noEmoji = \<lparr>Emoji = [], DocumentID = 0, EmojiURI = []\<rparr>"

definition style :: "StyleType \<Rightarrow> Style" where
  "style st = \<lparr>stType = st, Language = [], URL = [], emojiInfo = noEmoji\<rparr>"

fun IsCode :: "BodyRangeValue \<Rightarrow> bool" where
  "IsCode (MentionValue m) = False"
| "IsCode (StyleValue s) = (stType s = StyleCode \<or> stType s = StylePre)"

definition hashColor :: runes where "hashColor = lit ''#3771bb''"

definition emojiInfoToHTML :: "EmojiInfo \<Rightarrow> runes \<Rightarrow> runes" where
  "emojiInfoToHTML info fallback =
     (if Emoji info \<noteq> [] then Emoji info
      else if EmojiURI info \<noteq> []
      then lit ''<img data-mx-emoticon src=\"'' @ EmojiURI info @ lit ''\" height=\"32\" width=\"32\" alt=\"'' @ fallback @
        lit ''\" title=\"'' @ fallback @ lit ''\"/>''
      else fallback)"

definition Mention_Format :: "(runes \<Rightarrow> runes) \<Rightarrow> Mention \<Rightarrow> runes" where
  "Mention_Format toURL m =
     (if Username m \<noteq> [] then lit ''<a href=\"'' @ toURL (MXID (mentioned m)) @ lit ''\">@'' @ Username m @ lit ''</a>''
      else lit ''<a href=\"'' @ toURL (MXID (mentioned m)) @ lit ''\">'' @ Name (mentioned m) @ lit ''</a>'')"

definition tagged :: "string \<Rightarrow> runes \<Rightarrow> string \<Rightarrow> runes" where
  "tagged a message b = lit a @ message @ lit b"

definition Style_Format :: "Style \<Rightarrow> runes \<Rightarrow> runes" where
  "Style_Format s message = (case stType s of
     StyleBold \<Rightarrow> tagged ''<strong>'' message ''</strong>''
   | StyleItalic \<Rightarrow> tagged ''<em>'' message ''</em>''
   | StyleSpoiler \<Rightarrow> tagged ''<span data-mx-spoiler>'' message ''</span>''
   | StyleStrikethrough \<Rightarrow> tagged ''<del>'' message ''</del>''
   | StyleCode \<Rightarrow>
       if 10 \<in> set message then tagged ''<pre><code>'' message ''</code></pre>'' else tagged ''<code>'' message ''</code>''
   | StyleUnderline \<Rightarrow> tagged ''<u>'' message ''</u>''
   | StyleBlockquote \<Rightarrow> tagged ''<blockquote>'' message ''</blockquote>''
   | StylePre \<Rightarrow>
       if Language s \<noteq> [] then lit ''<pre><code class=\"language-'' @ Language s @ tagged ''\">'' message ''</code></pre>''
       else tagged ''<pre><code>'' message ''</code></pre>''
   | StyleEmail \<Rightarrow> lit ''<a href=\"mailto:'' @ message @ tagged ''\">'' message ''</a>''
   | StyleTextURL \<Rightarrow> lit ''<a href=\"'' @ URL s @ tagged ''\">'' message ''</a>''
   | StyleURL \<Rightarrow> lit ''<a href=\"'' @ URL s @ tagged ''\">'' message ''</a>''
   | StyleCustomEmoji \<Rightarrow> emojiInfoToHTML (emojiInfo s) message
   | StyleBotCommand \<Rightarrow> lit ''<span data-mx-color=\"'' @ hashColor @ tagged ''\">'' message ''</span>''
   | StyleHashtag \<Rightarrow> lit ''<span data-mx-color=\"'' @ hashColor @ tagged ''\">'' message ''</span>''
   | StyleCashtag \<Rightarrow> lit ''<span data-mx-color=\"'' @ hashColor @ tagged ''\">'' message ''</span>''
   | StylePhone \<Rightarrow> lit ''<span data-mx-color=\"'' @ hashColor @ tagged ''\">'' message ''</span>''
   | StyleBankCard \<Rightarrow> lit ''<span data-mx-color=\"'' @ hashColor @ tagged ''\">'' message ''</span>''
   | StyleNone \<Rightarrow> message
   | StyleFormattedDate \<Rightarrow> message)"

fun Value_Format :: "(runes \<Rightarrow> runes) \<Rightarrow> BodyRangeValue \<Rightarrow> runes \<Rightarrow> runes" where
  "Value_Format toURL (MentionValue m) message = Mention_Format toURL m"
| "Value_Format toURL (StyleValue s) message = Style_Format s message"

text \<open>Go's \<open>html.EscapeString\<close>.\<close>

fun escape_rune :: "nat \<Rightarrow> runes" where
  "escape_rune r =
     (if r = 38 then lit ''&amp;'' else if r = 39 then lit ''&#39;'' else if r = 60 then lit ''&lt;''
      else if r = 62 then lit ''&gt;'' else if r = 34 then lit ''&#34;'' else [r])"

definition EscapeString :: "runes \<Rightarrow> runes" where "EscapeString s = concat (map escape_rune s)"

text \<open>The HTML of plain text outside code blocks, \<open>event.TextToHTML\<close>, is the library's.\<close>

definition TextToHTML :: "(runes \<Rightarrow> runes) \<Rightarrow> bool \<Rightarrow> runes \<Rightarrow> runes" where
  "TextToHTML toHTML isInCodeblock s = (if isInCodeblock then EscapeString s else toHTML s)"

section \<open>Messages\<close>

datatype EntityKind =
    EntityMention | EntityHashtag | EntityBotCommand | EntityURL | EntityEmail | EntityBold | EntityItalic
  | EntityCode | EntityPre runes | EntityTextURL runes | EntityMentionName int | EntityPhone | EntityCashtag
  | EntityUnderline | EntityStrike | EntityBankCard | EntitySpoiler | EntityCustomEmoji int
  | EntityBlockquote | EntityFormattedDate | EntityOther

record MessageEntity =
  eKind :: EntityKind
  eOffset :: int
  eLength :: int

record FormatParams =
  CustomEmojis :: "string \<rightharpoonup> EmojiInfo"
  GetUserInfoByUsername :: "runes \<Rightarrow> UserInfo option"
  GetUserInfoByID :: "int \<Rightarrow> UserInfo option"
  NormalizeURL :: "runes \<Rightarrow> runes"
  toHTML :: "runes \<Rightarrow> runes"
  toURL :: "runes \<Rightarrow> runes"

record content =
  Body :: runes
  FormattedBody :: "runes option"
  MentionIDs :: "runes set"

definition slice :: "UTF16String \<Rightarrow> int \<Rightarrow> int \<Rightarrow> UTF16String option" where
  "slice u a b = (if 0 \<le> a \<and> a \<le> b \<and> b \<le> int (length u) then Some (take (nat (b - a)) (drop (nat a) u)) else None)"

text \<open>The value of an entity: None panics, and \<open>Some None\<close> skips it.\<close>

definition entityValue :: "FormatParams \<Rightarrow> UTF16String \<Rightarrow> MessageEntity \<Rightarrow> BodyRangeValue option option" where
  "entityValue params utf16Message e = (case eKind e of
     EntityMention \<Rightarrow>
       (case slice utf16Message (eOffset e + 1) (eOffset e + eLength e) of
          None \<Rightarrow> None
        | Some u \<Rightarrow>
            (case GetUserInfoByUsername params (decode u) of
               None \<Rightarrow> Some None
             | Some userInfo \<Rightarrow> Some (Some (MentionValue \<lparr>mentioned = userInfo, mentionID = '''', mentionHash = 0, Username = decode u\<rparr>))))
   | EntityHashtag \<Rightarrow> Some (Some (StyleValue (style StyleHashtag)))
   | EntityBotCommand \<Rightarrow> Some (Some (StyleValue (style StyleBotCommand)))
   | EntityURL \<Rightarrow>
       map_option (\<lambda>u. Some (StyleValue (style StyleURL\<lparr>URL := NormalizeURL params (decode u)\<rparr>)))
         (slice utf16Message (eOffset e) (eOffset e + eLength e))
   | EntityEmail \<Rightarrow> Some (Some (StyleValue (style StyleEmail)))
   | EntityBold \<Rightarrow> Some (Some (StyleValue (style StyleBold)))
   | EntityItalic \<Rightarrow> Some (Some (StyleValue (style StyleItalic)))
   | EntityCode \<Rightarrow> Some (Some (StyleValue (style StyleCode)))
   | EntityPre l \<Rightarrow> Some (Some (StyleValue (style StylePre\<lparr>Language := l\<rparr>)))
   | EntityTextURL u \<Rightarrow> Some (Some (StyleValue (style StyleURL\<lparr>URL := NormalizeURL params u\<rparr>)))
   | EntityMentionName i \<Rightarrow>
       (case GetUserInfoByID params i of
          None \<Rightarrow> Some None
        | Some userInfo \<Rightarrow> Some (Some (MentionValue \<lparr>mentioned = userInfo, mentionID = '''', mentionHash = 0, Username = []\<rparr>)))
   | EntityPhone \<Rightarrow> Some (Some (StyleValue (style StylePhone)))
   | EntityCashtag \<Rightarrow> Some (Some (StyleValue (style StyleCashtag)))
   | EntityUnderline \<Rightarrow> Some (Some (StyleValue (style StyleUnderline)))
   | EntityStrike \<Rightarrow> Some (Some (StyleValue (style StyleStrikethrough)))
   | EntityBankCard \<Rightarrow> Some (Some (StyleValue (style StyleBankCard)))
   | EntitySpoiler \<Rightarrow> Some (Some (StyleValue (style StyleSpoiler)))
   | EntityCustomEmoji d \<Rightarrow>
       Some (Some (StyleValue (style StyleCustomEmoji\<lparr>emojiInfo :=
         case CustomEmojis params (MakeEmojiIDFromDocumentID d) of None \<Rightarrow> noEmoji | Some i \<Rightarrow> i\<rparr>)))
   | EntityBlockquote \<Rightarrow> Some (Some (StyleValue (style StyleBlockquote)))
   | EntityFormattedDate \<Rightarrow> Some (Some (StyleValue (style StyleFormattedDate)))
   | EntityOther \<Rightarrow> Some None)"

text \<open>The loop of \<open>Parse\<close>: the ranges that go into the tree.\<close>

fun entityRanges :: "FormatParams \<Rightarrow> UTF16String \<Rightarrow> MessageEntity list \<Rightarrow> BodyRangeValue BodyRange list option" where
  "entityRanges params u [] = Some []"
| "entityRanges params u (e # es) =
     (case entityValue params u e of
        None \<Rightarrow> None
      | Some None \<Rightarrow> entityRanges params u es
      | Some (Some v) \<Rightarrow>
          map_option (\<lambda>rs. TruncateEnd (int (length u)) \<lparr>Start = eOffset e, Length = eLength e, Value = v\<rparr> # rs)
            (entityRanges params u es))"

fun mention_of :: "BodyRangeValue \<Rightarrow> runes set" where
  "mention_of (MentionValue m) = {MXID (mentioned m)}"
| "mention_of (StyleValue s) = {}"

definition Parse :: "FormatParams \<Rightarrow> runes \<Rightarrow> MessageEntity list \<Rightarrow> content option" where
  "Parse params message entities =
     (if entities = [] then Some \<lparr>Body = message, FormattedBody = None, MentionIDs = {}\<rparr>
      else
        let u = NewUTF16String message in
        case entityRanges params u entities of
          None \<Rightarrow> None
        | Some rs \<Rightarrow>
            map_option (\<lambda>h. \<lparr>Body = message, FormattedBody = Some h, MentionIDs = (\<Union>r \<in> set rs. mention_of (Value r))\<rparr>)
              (Format (\<lambda>code u. TextToHTML (toHTML params) code (decode u)) (Value_Format (toURL params)) IsCode (build rs) u False))"

section \<open>The tree keeps the ranges apart\<close>

text \<open>The values of the ranges around a position, from the outside in.\<close>

fun around :: "'v LinkedRangeTree \<Rightarrow> int \<Rightarrow> 'v list" where
  "around Leaf i = []"
| "around (Node nd sib child) i =
     (if i < Start nd then [] else if i < End nd then Value nd # around child (i - Start nd) else around sib (i - End nd))"

definition covers :: "int \<Rightarrow> 'v BodyRange \<Rightarrow> bool" where "covers i r \<longleftrightarrow> Start r \<le> i \<and> i < End r"

text \<open>A tree that lies within \<open>n\<close> units, and to which ranges that start at \<open>k\<close> or later can be added.\<close>

fun fits :: "int \<Rightarrow> int \<Rightarrow> 'v LinkedRangeTree \<Rightarrow> bool" where
  "fits n k Leaf \<longleftrightarrow> True"
| "fits n k (Node nd sib child) \<longleftrightarrow>
     0 \<le> Start nd \<and> Start nd \<le> max 0 k \<and> 0 \<le> Length nd \<and> End nd \<le> n \<and>
     fits (n - End nd) (k - End nd) sib \<and> fits (Length nd) (k - Start nd) child"

lemma fits_later: "fits n k t \<Longrightarrow> max 0 k \<le> max 0 k' \<Longrightarrow> fits n k' t"
proof (induction n k t arbitrary: k' rule: fits.induct)
  case (2 n k nd sib child)
  then show ?case by (auto simp: End_def)
qed simp

lemma Add_fits:
  "fits n k t \<Longrightarrow> 0 \<le> Start r \<Longrightarrow> k \<le> Start r \<Longrightarrow> 0 \<le> Length r \<Longrightarrow> End r \<le> n \<Longrightarrow> fits n (Start r) (Add r t)"
proof (induction r t arbitrary: n k rule: Add.induct)
  case (1 r)
  then show ?case by simp
next
  case (2 r nd sib child)
  note pre = "2.prems"
  have st: "Start nd \<le> Start r" using pre by (auto simp: max_def split: if_splits)
  show ?case
  proof (cases "Start r \<ge> End nd")
    case True
    have "fits (n - End nd) (Start (Offset (- End nd) r)) (Add (Offset (- End nd) r) sib)"
      using pre True by (intro "2.IH"(1)[where k = "k - End nd"]) (auto simp: Offset_def End_def)
    moreover have "fits (Length nd) (Start r - Start nd) child"
      using pre by (auto intro: fits_later)
    ultimately show ?thesis using pre True st by (simp add: Let_def Offset_def)
  next
    case False
    have "fits (Length nd) (Start (Offset (- Start nd) (TruncateEnd (End nd) r))) (Add (Offset (- Start nd) (TruncateEnd (End nd) r)) child)"
      using pre False by (intro "2.IH"(3)[where k = "k - Start nd"]) (auto simp: range_defs)
    moreover have "fits (n - End nd) (Start r - End nd) sib" using pre by (auto intro: fits_later)
    moreover have "fits (n - End nd) (Start r - End nd) (Add (Offset (- End nd) (TruncateStart (End nd) r)) sib)" if "End r > End nd"
    proof -
      have "fits (n - End nd) (Start (Offset (- End nd) (TruncateStart (End nd) r))) (Add (Offset (- End nd) (TruncateStart (End nd) r)) sib)"
        using pre False that by (intro "2.IH"(2)[where k = "k - End nd"]) (auto simp: range_defs)
      then show ?thesis using False by (auto elim!: fits_later simp: Offset_def TruncateStart_def)
    qed
    ultimately show ?thesis using pre False st by (simp add: Let_def Offset_def TruncateEnd_def split: if_splits)
  qed
qed

lemma Add_around:
  "fits n k t \<Longrightarrow> 0 \<le> Start r \<Longrightarrow> k \<le> Start r \<Longrightarrow> 0 \<le> Length r \<Longrightarrow> End r \<le> n \<Longrightarrow> 0 \<le> i \<Longrightarrow>
    around (Add r t) i = around t i @ (if covers i r then [Value r] else [])"
proof (induction r t arbitrary: n k i rule: Add.induct)
  case (1 r)
  then show ?case by (simp add: covers_def)
next
  case (2 r nd sib child)
  note pre = "2.prems"
  show ?case
  proof (cases "Start r \<ge> End nd")
    case True
    have "i \<ge> End nd \<Longrightarrow> around (Add (Offset (- End nd) r) sib) (i - End nd) =
        around sib (i - End nd) @ (if covers (i - End nd) (Offset (- End nd) r) then [Value (Offset (- End nd) r)] else [])"
      using pre True by (intro "2.IH"(1)[where k = "k - End nd" and n = "n - End nd"]) (auto simp: Offset_def End_def)
    then show ?thesis using pre True by (auto simp: Let_def Offset_def covers_def End_def)
  next
    case False
    have "i \<ge> Start nd \<Longrightarrow> around (Add (Offset (- Start nd) (TruncateEnd (End nd) r)) child) (i - Start nd) =
        around child (i - Start nd) @ (if covers (i - Start nd) (Offset (- Start nd) (TruncateEnd (End nd) r))
          then [Value (Offset (- Start nd) (TruncateEnd (End nd) r))] else [])"
      using pre False by (intro "2.IH"(3)[where k = "k - Start nd" and n = "Length nd"]) (auto simp: range_defs)
    moreover have "End r > End nd \<Longrightarrow> i \<ge> End nd \<Longrightarrow> around (Add (Offset (- End nd) (TruncateStart (End nd) r)) sib) (i - End nd) =
        around sib (i - End nd) @ (if covers (i - End nd) (Offset (- End nd) (TruncateStart (End nd) r))
          then [Value (Offset (- End nd) (TruncateStart (End nd) r))] else [])"
      using pre False by (intro "2.IH"(2)[where k = "k - End nd" and n = "n - End nd"]) (auto simp: range_defs)
    ultimately show ?thesis
      using pre False by (cases "i < End nd"; cases "i < Start nd") (auto simp: Let_def range_defs covers_def)
  qed
qed

definition within :: "int \<Rightarrow> 'v BodyRange \<Rightarrow> bool" where
  "within n r \<longleftrightarrow> 0 \<le> Start r \<and> 0 \<le> Length r \<and> End r \<le> n"

lemma build_snoc: "build (rs @ [r]) = Add r (build rs)" by (simp add: build_def)

lemma build_ok:
  "sorted (map Start rs) \<Longrightarrow> \<forall>r \<in> set rs. within n r \<Longrightarrow>
    (rs = [] \<longrightarrow> build rs = Leaf) \<and> (rs \<noteq> [] \<longrightarrow> fits n (Start (last rs)) (build rs)) \<and>
    (\<forall>i \<ge> 0. around (build rs) i = map Value (filter (covers i) rs))"
proof (induction rs rule: rev_induct)
  case Nil
  then show ?case by (simp add: build_def)
next
  case (snoc r rs)
  have r: "0 \<le> Start r" "0 \<le> Length r" "End r \<le> n" using snoc.prems by (simp_all add: within_def)
  have IH: "(rs = [] \<longrightarrow> build rs = Leaf) \<and> (rs \<noteq> [] \<longrightarrow> fits n (Start (last rs)) (build rs)) \<and>
    (\<forall>i \<ge> 0. around (build rs) i = map Value (filter (covers i) rs))"
    using snoc by (simp add: sorted_append)
  have f: "fits n (if rs = [] then 0 else Start (last rs)) (build rs)" using IH by auto
  have k: "(if rs = [] then 0 else Start (last rs)) \<le> Start r" using r snoc.prems(1) by (auto simp: sorted_append)
  show ?case
    using Add_fits[OF f r(1) k r(2,3)] Add_around[OF f r(1) k r(2,3)] IH by (simp add: build_snoc)
qed

text \<open>The walk with what it makes of each unit written out: the unit, whether it is in a code block, and
  the values around it.\<close>

definition note_text :: "bool \<Rightarrow> UTF16String \<Rightarrow> (16 word \<times> bool \<times> 'v list) list" where
  "note_text code u = map (\<lambda>c. (c, code, [])) u"

definition note_wrap :: "'v \<Rightarrow> (16 word \<times> bool \<times> 'v list) list \<Rightarrow> (16 word \<times> bool \<times> 'v list) list" where
  "note_wrap v xs = map (\<lambda>(c, code, vs). (c, code, v # vs)) xs"

lemma Format_returns: "fits (int (length u)) k t \<Longrightarrow> Format plain wrap isCode t u code \<noteq> None"
proof (induction t arbitrary: u k code)
  case (Node nd sib child)
  obtain x where x: "Format plain wrap isCode child (take (nat (End nd) - nat (Start nd)) (drop (nat (Start nd)) u)) (code \<or> isCode (Value nd)) = Some x"
    using Node.prems Node.IH(2)[where k = "k - Start nd"] by (fastforce simp: End_def)
  obtain y where y: "Format plain wrap isCode sib (drop (nat (End nd)) u) code = Some y"
    using Node.prems Node.IH(1)[where k = "k - End nd"] by (fastforce simp: End_def)
  show ?case using Node.prems by (simp add: Let_def x y) (simp add: End_def)
qed simp

lemma Format_notes:
  "fits (int (length u)) k t \<Longrightarrow> Format note_text note_wrap isCode t u code =
    Some (map (\<lambda>i. (u ! i, code \<or> (\<exists>v \<in> set (around t (int i)). isCode v), around t (int i))) [0..<length u])"
proof (induction t arbitrary: u k code)
  case Leaf
  show ?case by (simp add: note_text_def) (rule nth_equalityI; simp)
next
  case (Node nd sib child)
  define s where "s = nat (Start nd)"
  define e where "e = nat (End nd)"
  define inner where "inner = take (e - s) (drop s u)"
  have b: "0 \<le> Start nd" "Start nd \<le> End nd" "End nd \<le> int (length u)" "s \<le> e" "e \<le> length u" "int s = Start nd" "int e = End nd"
    using Node.prems by (auto simp: End_def s_def e_def)
  have len: "int (length inner) = Length nd" "int (length (drop e u)) = int (length u) - End nd"
    using b by (auto simp: inner_def End_def)
  have child: "Format note_text note_wrap isCode child inner c = Some (map (\<lambda>i. (inner ! i, c \<or> (\<exists>v \<in> set (around child (int i)). isCode v), around child (int i))) [0..<length inner])" for c
    using Node.prems len by (intro Node.IH(2)[where k = "k - Start nd"]) simp
  have sib: "Format note_text note_wrap isCode sib (drop e u) code = Some (map (\<lambda>i. (drop e u ! i, code \<or> (\<exists>v \<in> set (around sib (int i)). isCode v), around sib (int i))) [0..<length (drop e u)])"
    using Node.prems len by (intro Node.IH(1)[where k = "k - End nd"]) simp
  have three: "map f [0..<length u] = map f [0..<s] @ map (\<lambda>i. f (i + s)) [0..<e - s] @ map (\<lambda>i. f (i + e)) [0..<length u - e]" for f :: "nat \<Rightarrow> 'z"
    using b by (intro nth_equalityI) (auto simp: nth_append)
  show ?case
    using b child sib unfolding three
    by (simp add: Let_def note_text_def[of _ "take s u"] note_wrap_def[of "Value nd"] flip: s_def e_def inner_def)
      (auto simp: inner_def add.commute intro!: nth_equalityI)
qed

text \<open>C12: formatting keeps the text and its styles.  For ranges in the order of their starts and within the
  text, however they overlap, the tree that is built of them formats without a panic; and what it
  makes of the text is every unit of it once and in order, wrapped by exactly the ranges around it,
  the first outermost, and taken as code exactly when one of those is code.\<close>

theorem formatting_keeps_styles:
  assumes "sorted (map Start rs)" "\<forall>r \<in> set rs. within (int (length u)) r"
  shows "Format note_text note_wrap isCode (build rs) u code =
      Some (map (\<lambda>i. (u ! i, code \<or> (\<exists>r \<in> set rs. covers (int i) r \<and> isCode (Value r)), map Value (filter (covers (int i)) rs))) [0..<length u]) \<and>
    (\<forall>plain wrap. Format plain wrap isCode (build rs) u code \<noteq> None)"
proof -
  note ok = build_ok[OF assms]
  obtain k where k: "fits (int (length u)) k (build rs)" using ok by (cases "rs = []") auto
  show ?thesis using Format_notes[OF k] Format_returns[OF k] ok by auto
qed

theorem formatting_keeps_styles_witness:
  "Format note_text note_wrap (\<lambda>v. v) (build [\<lparr>Start = 0, Length = 2, Value = True\<rparr>, \<lparr>Start = 1, Length = 2, Value = False\<rparr>]) [97, 98, 99] False =
    Some [(97, True, [True]), (98, True, [True, False]), (99, False, [False])]"
proof -
  let ?rs = "[\<lparr>Start = 0, Length = 2, Value = True\<rparr>, \<lparr>Start = 1, Length = 2, Value = False\<rparr>]"
  have "sorted (map Start ?rs)" "\<forall>r \<in> set ?rs. within (int (length [97, 98, 99 :: 16 word])) r"
    by (simp_all add: within_def End_def)
  note conjunct1[OF formatting_keeps_styles[OF this, of "\<lambda>v. v" False]]
  also have "Some (map (\<lambda>i. ([97, 98, 99 :: 16 word] ! i, False \<or> (\<exists>r \<in> set ?rs. covers (int i) r \<and> Value r),
      map Value (filter (covers (int i)) ?rs))) [0..<length [97, 98, 99 :: 16 word]]) =
    Some [(97, True, [True]), (98, True, [True, False]), (99, False, [False])]"
    by (simp add: upt_rec End_def covers_def)
  finally show ?thesis .
qed

text \<open>Ranges out of order are not kept apart: one that starts before the first panics.\<close>

lemma unordered_ranges_panic:
  "Format plain wrap isCode (build [\<lparr>Start = 5, Length = 1, Value = v\<rparr>, \<lparr>Start = 0, Length = 1, Value = w\<rparr>]) (replicate 6 0) code = None"
  by (simp add: build_def range_defs eval_nat_numeral)

lemma Less_both_ways:
  "Less \<lparr>Start = 0, Length = 1, Value = v\<rparr> \<lparr>Start = 1, Length = 5, Value = w\<rparr>"
  "Less \<lparr>Start = 1, Length = 5, Value = w\<rparr> \<lparr>Start = 0, Length = 1, Value = v\<rparr>"
  by (simp_all add: Less_def)

section \<open>Parsing a message\<close>

definition entity_ok :: "int \<Rightarrow> MessageEntity \<Rightarrow> bool" where
  "entity_ok n e \<longleftrightarrow> 0 \<le> eOffset e \<and> eOffset e \<le> n \<and> 0 \<le> eLength e \<and>
     (eKind e = EntityMention \<longrightarrow> 1 \<le> eLength e) \<and>
     (eKind e = EntityMention \<or> eKind e = EntityURL \<longrightarrow> eOffset e + eLength e \<le> n)"

lemma entityValue_ok: "entity_ok (int (length u)) e \<Longrightarrow> entityValue params u e \<noteq> None"
  by (cases "eKind e") (auto simp: entity_ok_def entityValue_def slice_def split: option.split)

lemma entityRanges_ok:
  "\<forall>e \<in> set es. entity_ok (int (length u)) e \<Longrightarrow> sorted (map eOffset es) \<Longrightarrow>
    \<exists>rs. entityRanges params u es = Some rs \<and> sorted (map Start rs) \<and> (\<forall>r \<in> set rs. within (int (length u)) r) \<and>
      Start ` set rs \<subseteq> eOffset ` set es"
proof (induction es)
  case (Cons e es)
  then obtain rs where rs: "entityRanges params u es = Some rs" "sorted (map Start rs)"
    "\<forall>r \<in> set rs. within (int (length u)) r" "Start ` set rs \<subseteq> eOffset ` set es" by auto
  obtain v where v: "entityValue params u e = Some v" using entityValue_ok Cons.prems by fastforce
  define r where "r x = TruncateEnd (int (length u)) \<lparr>Start = eOffset e, Length = eLength e, Value = x\<rparr>" for x :: BodyRangeValue
  have r: "Start (r x) = eOffset e" "within (int (length u)) (r x)" for x
    using Cons.prems(1) by (auto simp: r_def entity_ok_def within_def range_defs)
  have "\<forall>q \<in> set rs. eOffset e \<le> Start q" using rs(4) Cons.prems(2) by fastforce
  then show ?case using rs v r by (cases v) (auto simp flip: r_def)
qed simp

text \<open>C34: a well-formed message is always converted.  With entities in order that lie in the message, a
  mention with its sign, parsing does not panic: the body is the message, and there is HTML unless
  there are no entities, which is the walk over ranges in order and within the message, so that it
  keeps text and styles as said above.  A message of scalar values is also counted in UTF-16 without
  loss.\<close>

theorem messages_are_converted:
  assumes "\<forall>e \<in> set entities. entity_ok (int (length (NewUTF16String message))) e" "sorted (map eOffset entities)"
    and "\<forall>r \<in> set message. valid_rune r"
  shows "\<exists>c rs. Parse params message entities = Some c \<and> Body c = message \<and> (FormattedBody c = None \<longleftrightarrow> entities = []) \<and>
    entityRanges params (NewUTF16String message) entities = Some rs \<and> sorted (map Start rs) \<and>
    (\<forall>r \<in> set rs. within (int (length (NewUTF16String message))) r) \<and>
    (entities \<noteq> [] \<longrightarrow> FormattedBody c = Format (\<lambda>code u. TextToHTML (toHTML params) code (decode u))
       (Value_Format (toURL params)) IsCode (build rs) (NewUTF16String message) False) \<and>
    decode (NewUTF16String message) = message"
proof -
  define u where "u = NewUTF16String message"
  obtain rs where rs: "entityRanges params u entities = Some rs" "sorted (map Start rs)" "\<forall>r \<in> set rs. within (int (length u)) r"
    using entityRanges_ok assms(1,2) unfolding u_def by blast
  have "Format plain wrap isCode (build rs) u code \<noteq> None" for plain wrap isCode code
  proof -
    note ok = build_ok[OF rs(2,3)]
    obtain k where "fits (int (length u)) k (build rs)" using ok by (cases "rs = []") auto
    then show ?thesis by (rule Format_returns)
  qed
  then obtain h where "Format (\<lambda>code u. TextToHTML (toHTML params) code (decode u)) (Value_Format (toURL params)) IsCode (build rs) u False = Some h"
    by blast
  then show ?thesis
    using rs decode_NewUTF16String[OF assms(3)] by (cases "entities = []") (simp_all add: Parse_def Let_def flip: u_def)
qed

definition no_params :: FormatParams where
  "no_params = \<lparr>CustomEmojis = (\<lambda>_. None), GetUserInfoByUsername = (\<lambda>_. None), GetUserInfoByID = (\<lambda>_. None),
     NormalizeURL = (\<lambda>u. u), toHTML = EscapeString, toURL = (\<lambda>u. u)\<rparr>"

theorem messages_are_converted_witness:
  "\<exists>c. Parse no_params [97, 128512, 98] [\<lparr>eKind = EntityBold, eOffset = 0, eLength = 3\<rparr>] = Some c \<and> FormattedBody c \<noteq> None"
  using messages_are_converted[of "[\<lparr>eKind = EntityBold, eOffset = 0, eLength = 3\<rparr>]" "[97, 128512, 98]" no_params]
  by (auto simp: entity_ok_def NewUTF16String_def valid_rune_def)

text \<open>The name of a mentioned user is put into the HTML as it is, markup and all.\<close>

lemma names_are_not_escaped:
  "Mention_Format mkURL \<lparr>mentioned = \<lparr>MXID = m, Name = lit ''<h1>x</h1>''\<rparr>, mentionID = i, mentionHash = h, Username = []\<rparr> =
     lit ''<a href=\"'' @ mkURL m @ lit ''\"><h1>x</h1></a>''"
  by (simp add: Mention_Format_def lit_def)

end
