(* ===== verification/Matrixfmt.thy ===== *)
theory Matrixfmt
  imports Telegramfmt
begin

text \<open>
  Matrix HTML and its conversion to Telegram's formatted text, \<open>pkg/connector/matrixfmt\<close>.  A nil
  \<open>*EntityString\<close> is \<open>NilPtr\<close>, and a panic is None.  The parsed HTML comes as a tree from the HTML
  library; what the bridge, its database and the libraries know is an environment.  What the context
  carries that no result depends on, its tag stack, is left out.
\<close>

section \<open>Strings with entities\<close>

record EntityString =
  estr :: UTF16String
  ents :: "BodyRangeValue BodyRange list"

datatype esptr = NilPtr | Ptr EntityString

definition NewEntityString :: "runes \<Rightarrow> EntityString" where
  "NewEntityString val = \<lparr>estr = NewUTF16String val, ents = []\<rparr>"

text \<open>\<open>Split\<close>: the piece from \<open>prevSplit\<close> to \<open>i\<close>, and the loop with the piece after it.\<close>

definition doSplit :: "EntityString \<Rightarrow> int \<Rightarrow> int \<Rightarrow> EntityString" where
  "doSplit es prevSplit i =
     \<lparr>estr = take (nat (i - prevSplit)) (drop (nat prevSplit) (estr es)),
      ents = filter (\<lambda>e. Length e > 0)
        (map (\<lambda>e. Offset (- prevSplit) (TruncateEnd i (TruncateStart prevSplit e)))
          (filter (\<lambda>e. (End e \<le> i \<or> End e > prevSplit) \<and> (Start e \<ge> prevSplit \<or> Start e < i)) (ents es)))\<rparr>"

fun split_loop :: "EntityString \<Rightarrow> 16 word \<Rightarrow> UTF16String \<Rightarrow> int \<Rightarrow> int \<Rightarrow> EntityString list" where
  "split_loop es sep [] i prevSplit =
     (if prevSplit \<noteq> int (length (estr es)) then [doSplit es prevSplit (int (length (estr es)))] else [])"
| "split_loop es sep (chr # chrs) i prevSplit =
     (if chr \<noteq> sep then split_loop es sep chrs (i + 1) prevSplit
      else doSplit es prevSplit i # split_loop es sep chrs (i + 1) (i + 1))"

definition SplitAt :: "16 word \<Rightarrow> EntityString \<Rightarrow> EntityString list option" where
  "SplitAt sep es =
     (if unat sep > 0x7F then None
      else if sep \<notin> set (estr es) then Some [es]
      else Some (split_loop es sep (estr es) 0 0))"

definition is_space :: "16 word \<Rightarrow> bool" where
  "is_space u \<longleftrightarrow> u \<in> set [9, 10, 11, 12, 13, 32, 0x85, 0xA0]"

definition TrimSpace :: "EntityString \<Rightarrow> EntityString" where
  "TrimSpace es =
     (let cutStart = length (takeWhile is_space (estr es));
          cutEnd = length (estr es) - length (takeWhile is_space (rev (estr es)))
      in if cutStart = length (estr es) then \<lparr>estr = [], ents = []\<rparr>
         else if cutStart = 0 \<and> cutEnd = length (estr es) then es
         else \<lparr>estr = take (cutEnd - cutStart) (drop cutStart (estr es)),
           ents = filter (\<lambda>e. Length e > 0) (map (\<lambda>e. TruncateEnd (int cutEnd) (Offset (- int cutStart) e)) (ents es))\<rparr>)"

fun trim :: "esptr \<Rightarrow> esptr" where
  "trim NilPtr = NilPtr"
| "trim (Ptr es) = Ptr (TrimSpace es)"

definition Append :: "EntityString \<Rightarrow> EntityString \<Rightarrow> EntityString" where
  "Append es oth =
     \<lparr>estr = estr es @ estr oth, ents = ents es @ map (\<lambda>e. e\<lparr>Start := Start e + int (length (estr es))\<rparr>) (ents oth)\<rparr>"

fun es_append :: "esptr \<Rightarrow> esptr \<Rightarrow> esptr" where
  "es_append NilPtr oth = oth"
| "es_append es NilPtr = es"
| "es_append (Ptr es) (Ptr oth) = Ptr (Append es oth)"

definition AppendString :: "EntityString \<Rightarrow> runes \<Rightarrow> EntityString" where
  "AppendString es oth = (if oth = [] then es else es\<lparr>estr := estr es @ NewUTF16String oth\<rparr>)"

text \<open>\<open>JoinEntityString\<close> asks each string for its length first, so a nil one panics.\<close>

fun join_loop :: "UTF16String \<Rightarrow> EntityString list \<Rightarrow> EntityString \<Rightarrow> EntityString" where
  "join_loop sep [] acc = acc"
| "join_loop sep (s # ss) acc =
     (if estr s = [] then join_loop sep ss acc
      else join_loop sep ss
        \<lparr>estr = estr acc @ estr s @ sep,
         ents = ents acc @ map (\<lambda>e. e\<lparr>Start := Start e + int (length (estr acc))\<rparr>) (ents s)\<rparr>)"

fun pointed :: "esptr list \<Rightarrow> EntityString list option" where
  "pointed [] = Some []"
| "pointed (NilPtr # ps) = None"
| "pointed (Ptr es # ps) = map_option ((#) es) (pointed ps)"

definition JoinEntityString :: "runes \<Rightarrow> esptr list \<Rightarrow> EntityString option" where
  "JoinEntityString sep ss =
     map_option (\<lambda>ss. join_loop (NewUTF16String sep) ss \<lparr>estr = [], ents = []\<rparr>) (pointed ss)"

definition es_format :: "BodyRangeValue \<Rightarrow> EntityString \<Rightarrow> EntityString" where
  "es_format v es = es\<lparr>ents := \<lparr>Start = 0, Length = int (length (estr es)), Value = v\<rparr> # ents es\<rparr>"

fun format :: "BodyRangeValue \<Rightarrow> esptr \<Rightarrow> esptr" where
  "format v NilPtr = NilPtr"
| "format v (Ptr es) = Ptr (es_format v es)"

text \<open>A negative end panics.\<close>

definition Substring :: "int \<Rightarrow> EntityString \<Rightarrow> EntityString option" where
  "Substring end es =
     (if end \<ge> int (length (estr es)) then Some es
      else if end < 0 then None
      else Some \<lparr>estr = take (nat end) (estr es), ents = filter (\<lambda>e. Length e > 0) (map (TruncateEnd end) (ents es))\<rparr>)"

section \<open>The HTML tree and its environment\<close>

type_synonym attrs = "(string \<times> runes) list"

datatype HTML =
    TextNode runes
  | ElementNode string attrs "HTML list"
  | DocumentNode "HTML list"
  | OtherNode

definition getAttribute :: "attrs \<Rightarrow> string \<Rightarrow> runes" where
  "getAttribute as k = (case map_of as k of None \<Rightarrow> [] | Some v \<Rightarrow> v)"

record MatrixURI =
  Sigil1 :: nat
  Sigil2 :: nat
  uriUser :: runes
  uriEvent :: runes

record Env =
  floorLog10 :: "int \<Rightarrow> nat"
  ParseMatrixURI :: "runes \<Rightarrow> bool \<times> MatrixURI option"
  ParseGhostMXID :: "runes \<Rightarrow> string option"
  PreferredLogin :: "runes \<Rightarrow> string option"
  GetAccessHash :: "PeerType \<Rightarrow> int \<Rightarrow> int option"
  GetUsername :: "PeerType \<Rightarrow> int \<Rightarrow> runes option"
  GetPartByMXID :: "runes \<Rightarrow> (string \<times> string) option"
  ParseContentURI :: "runes \<Rightarrow> bytes option"
  GetByMXC :: "runes \<Rightarrow> string option"

record ctx =
  AllowedMentions :: "runes set option"
  PreserveWhitespace :: bool
  ListDepth :: int

definition NewContext :: ctx where
  "NewContext = \<lparr>AllowedMentions = None, PreserveWhitespace = False, ListDepth = 0\<rparr>"

definition WithWhitespace :: "ctx \<Rightarrow> ctx" where "WithWhitespace c = c\<lparr>PreserveWhitespace := True\<rparr>"

definition WithIncrementedListDepth :: "ctx \<Rightarrow> ctx" where
  "WithIncrementedListDepth c = c\<lparr>ListDepth := ListDepth c + 1\<rparr>"

text \<open>An \<open>int\<close> of Go has 64 bits.  \<open>Digits\<close> calls itself on the negation of a negative number, and the
  negation of the least number is that number again: \<open>None\<close> is the recursion that does not end, which
  overflows the stack.  The logarithm is floating point in the code.\<close>

partial_function (option) Digits :: "Env \<Rightarrow> int \<Rightarrow> nat option" where
  "Digits env num =
     (if num = 0 then Some 1
      else if num < 0 then Option.bind (Digits env (wrap64 (- num))) (\<lambda>n. Some (n + 1))
      else Some (floorLog10 env num + 1))"

text \<open>The bytes of an attribute as far as numbers need them.\<close>

definition ascii :: "runes \<Rightarrow> string" where "ascii s = map (\<lambda>r. if r < 128 then char_of r else char_of (255 :: nat)) s"

section \<open>Elements\<close>

text \<open>What an element becomes, given what its children became: the list of their strings and tags.\<close>

type_synonym kids = "(esptr \<times> string) list option"

definition BlockTags :: "string list" where
  "BlockTags = [''p'', ''h1'', ''h2'', ''h3'', ''h4'', ''h5'', ''h6'', ''ol'', ''ul'', ''pre'', ''blockquote'', ''div'', ''hr'', ''table'']"

definition isBlockTag :: "string \<Rightarrow> bool" where "isBlockTag tag \<longleftrightarrow> tag \<in> set BlockTags"

definition block :: "esptr \<times> string \<Rightarrow> esptr" where
  "block p = (case p of (tstr, tag) \<Rightarrow>
     if isBlockTag tag
     then (case es_append (Ptr (NewEntityString [10])) tstr of NilPtr \<Rightarrow> NilPtr | Ptr es \<Rightarrow> Ptr (AppendString es [10]))
     else tstr)"

definition tagAwareString :: "kids \<Rightarrow> esptr option" where
  "tagAwareString ks = map_option (\<lambda>strs. trim (foldl (\<lambda>output p. es_append output (block p)) NilPtr strs)) ks"

definition plainString :: "kids \<Rightarrow> EntityString option" where
  "plainString ks = Option.bind ks (\<lambda>strs. JoinEntityString [] (map fst strs))"

definition listBullets :: "runes list" where "listBullets = [[0x25CF], [0x25CB], [0x25A0], [0x2023]]"

text \<open>What stands in front of an item, and the loop of \<open>listToString\<close>: \<open>ordered\<close> has the width of the
  longest number.\<close>

definition list_prefix :: "Env \<Rightarrow> ctx \<Rightarrow> nat option \<Rightarrow> int \<Rightarrow> runes option" where
  "list_prefix env c ordered counter = (case ordered of
     Some indentLength \<Rightarrow>
       map_option (\<lambda>digits. lit (FormatInt counter) @ lit ''. '' @ replicate (indentLength - digits) 32) (Digits env counter)
   | None \<Rightarrow> Some (listBullets ! nat ((ListDepth c - 1) mod 4) @ [32]))"

fun list_loop :: "Env \<Rightarrow> ctx \<Rightarrow> nat option \<Rightarrow> (esptr \<times> string) list \<Rightarrow> int \<Rightarrow> EntityString list option" where
  "list_loop env c ordered [] counter = Some []"
| "list_loop env c ordered ((s, tag) # kids) counter =
     (if tag \<noteq> ''li'' then list_loop env c ordered kids counter
      else
        let indent = replicate ((case ordered of Some n \<Rightarrow> n | None \<Rightarrow> 0) + 2) 32 in
        Option.bind (list_prefix env c ordered counter) (\<lambda>prefix.
        case es_append (Ptr (NewEntityString prefix)) s of
          NilPtr \<Rightarrow> None
        | Ptr es \<Rightarrow>
            (case SplitAt 10 es of
               Some (part # parts) \<Rightarrow>
                 map_option (\<lambda>children. part # map (\<lambda>p. Append (NewEntityString indent) p) parts @ children)
                   (list_loop env c ordered kids (wrap64 (counter + 1)))
             | _ \<Rightarrow> None)))"

definition listToString :: "Env \<Rightarrow> string \<Rightarrow> attrs \<Rightarrow> ctx \<Rightarrow> kids \<Rightarrow> esptr option" where
  "listToString env data as c ks = Option.bind ks (\<lambda>taggedChildren.
     let ordered = (data = ''ol'');
         start = getAttribute as ''start'';
         counter = (if ordered \<and> start \<noteq> [] then fst (ParseInt (ascii start)) else 1);
         longestIndex = wrap64 (wrap64 (counter - 1) + int (length taggedChildren))
     in Option.bind (if ordered then map_option Some (Digits env longestIndex) else Some None) (\<lambda>indentLength.
        Option.bind (list_loop env c indentLength taggedChildren counter) (\<lambda>children.
          map_option Ptr (JoinEntityString [10] (map Ptr children)))))"

definition basicFormatToString :: "string \<Rightarrow> kids \<Rightarrow> esptr option" where
  "basicFormatToString data ks = map_option (\<lambda>str.
     if data \<in> {''b'', ''strong''} then format (StyleValue (style StyleBold)) str
     else if data \<in> {''i'', ''em''} then format (StyleValue (style StyleItalic)) str
     else if data \<in> {''s'', ''del'', ''strike''} then format (StyleValue (style StyleStrikethrough)) str
     else if data \<in> {''u'', ''ins''} then format (StyleValue (style StyleUnderline)) str
     else if data \<in> {''tt'', ''code''} then format (StyleValue (style StyleCode)) str
     else str) (tagAwareString ks)"

definition spanToString :: "string \<Rightarrow> attrs \<Rightarrow> kids \<Rightarrow> esptr option" where
  "spanToString data as ks = map_option (\<lambda>str.
     if data = ''span'' \<and> map_of as ''data-mx-spoiler'' \<noteq> None then format (StyleValue (style StyleSpoiler)) str else str)
     (tagAwareString ks)"

definition headerToString :: "string \<Rightarrow> kids \<Rightarrow> esptr option" where
  "headerToString data ks = map_option (\<lambda>s.
     Ptr (es_format (StyleValue (style StyleBold))
       (Append (NewEntityString (replicate (of_char (data ! 1) - 48) 35 @ [32])) s))) (plainString ks)"

definition getGhostDetails :: "Env \<Rightarrow> runes \<Rightarrow> (string \<times> runes \<times> int) option" where
  "getGhostDetails env ui =
     Option.bind (case ParseGhostMXID env ui of Some userID \<Rightarrow> Some userID
        | None \<Rightarrow> map_option UserLoginIDToUserID (PreferredLogin env ui)) (\<lambda>userID.
     case ParseUserID userID of
       (_, _, Some err) \<Rightarrow> None
     | (peerType, telegramUserID, None) \<Rightarrow>
         (case GetAccessHash env peerType telegramUserID of
            None \<Rightarrow> None
          | Some accessHash \<Rightarrow>
              if accessHash = 0 then None
              else map_option (\<lambda>username. (userID, username, accessHash)) (GetUsername env peerType telegramUserID)))"

text \<open>The target of a link to a Matrix message that came from Telegram.\<close>

definition message_link :: "Env \<Rightarrow> MatrixURI \<Rightarrow> runes option option" where
  "message_link env uri = (case GetPartByMXID env (uriEvent uri) of
     None \<Rightarrow> Some None
   | Some (room, msg) \<Rightarrow>
       map_option (\<lambda>(_, chatID, topicID, _).
         let msgID = fst (snd (ParseMessageID msg)) in
         if msgID \<noteq> 0 \<and> chatID \<noteq> 0
         then Some (if topicID > 0
           then lit ''https://t.me/c/'' @ lit (FormatInt chatID) @ lit ''/'' @ lit (FormatInt topicID) @ lit ''/'' @ lit (FormatInt msgID)
           else lit ''https://t.me/c/'' @ lit (FormatInt chatID) @ lit ''/'' @ lit (FormatInt msgID))
         else None) (ParsePortalID room))"

definition noUser :: UserInfo where "noUser = \<lparr>MXID = [], Name = []\<rparr>"

definition linkToString :: "Env \<Rightarrow> attrs \<Rightarrow> ctx \<Rightarrow> kids \<Rightarrow> esptr option" where
  "linkToString env as c ks = Option.bind (tagAwareString ks) (\<lambda>str.
     let href = getAttribute as ''href'' in
     if href = [] then Some str
     else case str of
       NilPtr \<Rightarrow> None
     | Ptr es \<Rightarrow>
         let linkText = decode (estr es);
             linkTextEnt = NewEntityString linkText;
             isRawLink = (linkText = href);
             (err, parsedMatrix) = ParseMatrixURI env href;
             plain = (\<lambda>href linkTextEnt. Some (Ptr (es_format
               (StyleValue (style (if isRawLink then StyleURL else StyleTextURL)\<lparr>URL := href\<rparr>)) linkTextEnt)))
         in case parsedMatrix of
              None \<Rightarrow> plain href linkTextEnt
            | Some uri \<Rightarrow>
                if \<not> err \<and> Sigil1 uri = 64
                then
                  if AllowedMentions c \<noteq> None \<and> uriUser uri \<notin> the (AllowedMentions c) then Some str
                  else (case getGhostDetails env (uriUser uri) of
                          None \<Rightarrow> Some str
                        | Some (userID, username, accessHash) \<Rightarrow>
                            if username = []
                            then Some (Ptr (es_format (MentionValue \<lparr>mentioned = noUser, mentionID = userID, mentionHash = accessHash, Username = []\<rparr>) linkTextEnt))
                            else Some (Ptr (es_format (MentionValue \<lparr>mentioned = noUser, mentionID = userID, mentionHash = 0, Username = username\<rparr>)
                              (NewEntityString (lit ''@'' @ username)))))
                else if Sigil1 uri = 33 \<and> Sigil2 uri = 36
                then (case message_link env uri of
                        None \<Rightarrow> None
                      | Some None \<Rightarrow> plain href linkTextEnt
                      | Some (Some href) \<Rightarrow> plain href (if isRawLink then NewEntityString href else linkTextEnt))
                else plain href linkTextEnt)"

definition sparkle :: runes where "sparkle = [0x2728, 0xFE0F]"

definition custom_emoji :: "int \<Rightarrow> esptr" where
  "custom_emoji d = Ptr (es_format (StyleValue (style StyleCustomEmoji\<lparr>emojiInfo := noEmoji\<lparr>DocumentID := d\<rparr>\<rparr>)) (NewEntityString sparkle))"

definition imgToString :: "Env \<Rightarrow> attrs \<Rightarrow> esptr" where
  "imgToString env as =
     (let src = getAttribute as ''src''; alt = Ptr (NewEntityString (getAttribute as ''alt'')) in
      if map_of as ''data-mx-emoticon'' = None then alt
      else case ParseContentURI env src of
        Some parsedMXC \<Rightarrow>
          (case ParseDirectMediaInfo parsedMXC of
             Inr info \<Rightarrow>
               if mPeerType info = FakePeerTypeEmoji \<or> mPeerType info = FakePeerTypeSticker then custom_emoji (mID info) else alt
           | Inl _ \<Rightarrow> alt)
      | None \<Rightarrow>
          (case GetByMXC env src of
             None \<Rightarrow> alt
           | Some loc \<Rightarrow> (case ParseInt loc of (documentID, None) \<Rightarrow> custom_emoji documentID | _ \<Rightarrow> alt)))"

definition preToString :: "runes \<Rightarrow> kids \<Rightarrow> esptr option" where
  "preToString language ks = map_option (\<lambda>preStr.
     Ptr (es_format (StyleValue (style StylePre\<lparr>Language := language\<rparr>)) (TrimSpace (preStr\<lparr>ents := []\<rparr>)))) (plainString ks)"

definition codeLanguage :: "attrs \<Rightarrow> runes" where
  "codeLanguage as = (let class = getAttribute as ''class'' in
     if prefix (lit ''language-'') class then drop (length ''language-'') class else [])"

text \<open>\<open>tagToString\<close>: \<open>deeper\<close> and \<open>pre\<close> are the children in the contexts of an unordered list and of
  preformatted text, the latter with the language.\<close>

definition tagToString :: "Env \<Rightarrow> string \<Rightarrow> attrs \<Rightarrow> ctx \<Rightarrow> kids \<Rightarrow> kids \<Rightarrow> runes \<times> kids \<Rightarrow> esptr option" where
  "tagToString env data as c ks deeper pre =
     (if data = ''blockquote''
      then if map_of as ''data-telegram-partial-reply'' \<noteq> None then Some (Ptr (NewEntityString []))
        else map_option (format (StyleValue (style StyleBlockquote))) (tagAwareString ks)
      else if data = ''ol'' then listToString env data as c ks
      else if data = ''ul'' then listToString env data as (WithIncrementedListDepth c) deeper
      else if data \<in> {''h1'', ''h2'', ''h3'', ''h4'', ''h5'', ''h6''} then headerToString data ks
      else if data = ''br'' then Some (Ptr (NewEntityString [10]))
      else if data \<in> {''b'', ''strong'', ''i'', ''em'', ''s'', ''strike'', ''del'', ''u'', ''ins'', ''tt'', ''code''} then basicFormatToString data ks
      else if data \<in> {''span'', ''font''} then spanToString data as ks
      else if data = ''a'' then linkToString env as c ks
      else if data = ''img'' then Some (imgToString env as)
      else if data = ''hr'' then Some (Ptr (NewEntityString (lit ''---'')))
      else if data = ''pre'' then preToString (fst pre) (snd pre)
      else tagAwareString ks)"

fun nodeToTaggedStrings :: "Env \<Rightarrow> HTML list \<Rightarrow> ctx \<Rightarrow> kids" and
  singleNodeToString :: "Env \<Rightarrow> HTML \<Rightarrow> ctx \<Rightarrow> (esptr \<times> string) option" where
  "nodeToTaggedStrings env [] c = Some []"
| "nodeToTaggedStrings env (n # ns) c =
     (case singleNodeToString env n c of
        None \<Rightarrow> None
      | Some s \<Rightarrow> map_option ((#) s) (nodeToTaggedStrings env ns c))"
| "singleNodeToString env (TextNode data) c =
     Some (Ptr (NewEntityString (if PreserveWhitespace c then data else filter (\<lambda>r. r \<noteq> 10) data)), ''text'')"
| "singleNodeToString env (ElementNode data as cs) c =
     map_option (\<lambda>s. (s, data))
       (tagToString env data as c (nodeToTaggedStrings env cs c) (nodeToTaggedStrings env cs (WithIncrementedListDepth c))
         (case cs of
            ElementNode d as' cs' # _ \<Rightarrow>
              if d = ''code'' then (codeLanguage as', nodeToTaggedStrings env cs' (WithWhitespace c))
              else ([], nodeToTaggedStrings env cs (WithWhitespace c))
          | _ \<Rightarrow> ([], nodeToTaggedStrings env cs (WithWhitespace c))))"
| "singleNodeToString env (DocumentNode cs) c = map_option (\<lambda>s. (s, ''html'')) (tagAwareString (nodeToTaggedStrings env cs c))"
| "singleNodeToString env OtherNode c = Some (Ptr \<lparr>estr = [], ents = []\<rparr>, ''unknown'')"

text \<open>\<open>Parse\<close> of the HTML parser: \<open>doc\<close> is the document node that the HTML library gives.\<close>

definition ParseHTML :: "Env \<Rightarrow> HTML \<Rightarrow> ctx \<Rightarrow> esptr option" where
  "ParseHTML env doc c = tagAwareString (nodeToTaggedStrings env [doc] c)"

section \<open>Sending\<close>

text \<open>Telegram's entities as they are sent: \<open>EntityMentionName\<close> also says the access hash.\<close>

datatype SentKind = Sent EntityKind | SentMentionName int int

record SentEntity =
  sKind :: SentKind
  sOffset :: int
  sLength :: int

fun sentKind :: "BodyRangeValue \<Rightarrow> SentKind option" where
  "sentKind (MentionValue m) =
     (if Username m \<noteq> [] then Some (Sent EntityMention)
      else (case ParseUserID (mentionID m) of (peerType, userID, _) \<Rightarrow>
        if peerType \<noteq> PeerTypeUser then None else Some (SentMentionName userID (mentionHash m))))"
| "sentKind (StyleValue s) = (case stType s of
     StyleBold \<Rightarrow> Some (Sent EntityBold)
   | StyleItalic \<Rightarrow> Some (Sent EntityItalic)
   | StyleUnderline \<Rightarrow> Some (Sent EntityUnderline)
   | StyleStrikethrough \<Rightarrow> Some (Sent EntityStrike)
   | StyleBlockquote \<Rightarrow> Some (Sent EntityBlockquote)
   | StyleCode \<Rightarrow> Some (Sent EntityCode)
   | StylePre \<Rightarrow> Some (Sent (EntityPre (Language s)))
   | StyleEmail \<Rightarrow> Some (Sent EntityEmail)
   | StyleTextURL \<Rightarrow> Some (Sent (EntityTextURL (URL s)))
   | StyleURL \<Rightarrow> Some (Sent EntityURL)
   | StyleBotCommand \<Rightarrow> Some (Sent EntityBotCommand)
   | StyleHashtag \<Rightarrow> Some (Sent EntityHashtag)
   | StyleCashtag \<Rightarrow> Some (Sent EntityCashtag)
   | StylePhone \<Rightarrow> Some (Sent EntityPhone)
   | StyleSpoiler \<Rightarrow> Some (Sent EntitySpoiler)
   | StyleBankCard \<Rightarrow> Some (Sent EntityBankCard)
   | StyleCustomEmoji \<Rightarrow> Some (Sent (EntityCustomEmoji (DocumentID (emojiInfo s))))
   | _ \<Rightarrow> None)"

definition toTelegramEntity :: "BodyRangeValue BodyRange \<Rightarrow> SentEntity option" where
  "toTelegramEntity br = map_option (\<lambda>k. \<lparr>sKind = k, sOffset = Start br, sLength = Length br\<rparr>) (sentKind (Value br))"

fun all_some :: "'a option list \<Rightarrow> 'a list option" where
  "all_some [] = Some []"
| "all_some (None # xs) = None"
| "all_some (Some x # xs) = map_option ((#) x) (all_some xs)"

record MessageEventContent =
  IsMedia :: bool
  FileName :: runes
  cBody :: runes
  IsHTML :: bool
  HTMLBody :: runes
  cMentions :: "runes set option"

definition cutoffText :: runes where "cutoffText = lit '' [long message cut off]''"

definition shorten :: "int \<Rightarrow> EntityString \<Rightarrow> EntityString option" where
  "shorten maxLength parsed =
     (if int (length (estr parsed)) > maxLength
      then map_option (\<lambda>es. Append es (es_format (StyleValue (style StyleItalic)) (NewEntityString cutoffText)))
        (Substring (maxLength - int (length cutoffText)) parsed)
      else Some parsed)"

text \<open>\<open>parse\<close> is the HTML library.\<close>

definition Parse :: "Env \<Rightarrow> (runes \<Rightarrow> HTML) \<Rightarrow> MessageEventContent \<Rightarrow> int \<Rightarrow> (runes \<times> SentEntity list) option" where
  "Parse env parse content maxLength =
     (if IsMedia content \<and> (FileName content = [] \<or> FileName content = cBody content) then Some ([], [])
      else if \<not> IsHTML content then Some (cBody content, [])
      else Option.bind (ParseHTML env (parse (HTMLBody content)) (NewContext\<lparr>AllowedMentions := cMentions content\<rparr>))
        (\<lambda>parsed. case parsed of
           NilPtr \<Rightarrow> Some ([], [])
         | Ptr es \<Rightarrow>
             Option.bind (shorten maxLength es) (\<lambda>es.
               map_option (\<lambda>entities. (decode (estr es), entities)) (all_some (map toTelegramEntity (ents es))))))"

section \<open>Entities inside the text\<close>

text \<open>An entity lies within the text, and when not empty between two characters that are no space: on the
  left one at or before its start, unless \<open>l\<close> says there is one before the text, and the same on the
  right.  Trimming then leaves it within the text.\<close>

definition ent_ok :: "bool \<Rightarrow> bool \<Rightarrow> UTF16String \<Rightarrow> 'v BodyRange \<Rightarrow> bool" where
  "ent_ok l r s e \<longleftrightarrow> within (int (length s)) e \<and> (0 < Length e \<longrightarrow>
     (l \<or> (\<exists>k < length s. \<not> is_space (s ! k) \<and> int k \<le> Start e)) \<and>
     (r \<or> (\<exists>k < length s. \<not> is_space (s ! k) \<and> End e \<le> int k + 1)))"

definition ents_ok :: "bool \<Rightarrow> bool \<Rightarrow> EntityString \<Rightarrow> bool" where
  "ents_ok l r es \<longleftrightarrow> (\<forall>e \<in> set (ents es). ent_ok l r (estr es) e \<and> sentKind (Value e) \<noteq> None)"

lemma same_value [simp]: "Value (Offset off e) = Value e" "Value (TruncateEnd n e) = Value e" "Value (TruncateStart m e) = Value e"
  by (simp_all add: range_defs)

definition nonblank :: "UTF16String \<Rightarrow> bool" where "nonblank s \<longleftrightarrow> (\<exists>k < length s. \<not> is_space (s ! k))"

definition trimmed :: "UTF16String \<Rightarrow> bool" where
  "trimmed s \<longleftrightarrow> (s \<noteq> [] \<longrightarrow> \<not> is_space (hd s) \<and> \<not> is_space (last s))"

lemma nonblank_append: "nonblank (s @ t) \<longleftrightarrow> nonblank s \<or> nonblank t"
proof -
  have "nonblank s \<longleftrightarrow> (\<exists>u \<in> set s. \<not> is_space u)" for s by (metis in_set_conv_nth nonblank_def)
  then show ?thesis by auto
qed

lemma ent_ok_mono: "ent_ok l r s e \<Longrightarrow> (l \<longrightarrow> l') \<Longrightarrow> (r \<longrightarrow> r') \<Longrightarrow> ent_ok l' r' s e"
  by (auto simp: ent_ok_def)

lemma ent_ok_before: "ent_ok l (r \<or> nonblank t) s e \<Longrightarrow> ent_ok l r (s @ t) e"
proof -
  assume e: "ent_ok l (r \<or> nonblank t) s e"
  have mem: "k < length s \<Longrightarrow> k < length (s @ t) \<and> (s @ t) ! k = s ! k" for k by (simp add: nth_append)
  have left: "(\<exists>k < length s. \<not> is_space (s ! k) \<and> int k \<le> Start e) \<Longrightarrow> \<exists>k < length (s @ t). \<not> is_space ((s @ t) ! k) \<and> int k \<le> Start e"
    by (metis mem)
  have right: "(\<exists>k < length s. \<not> is_space (s ! k) \<and> End e \<le> int k + 1) \<Longrightarrow> \<exists>k < length (s @ t). \<not> is_space ((s @ t) ! k) \<and> End e \<le> int k + 1"
    by (metis mem)
  have after: "End e \<le> int (length s) \<Longrightarrow> nonblank t \<Longrightarrow> \<exists>k < length (s @ t). \<not> is_space ((s @ t) ! k) \<and> End e \<le> int k + 1"
  proof -
    assume "End e \<le> int (length s)" "nonblank t"
    then obtain k where "k < length t" "\<not> is_space (t ! k)" by (auto simp: nonblank_def)
    then show ?thesis using \<open>End e \<le> int (length s)\<close> by (intro exI[of _ "length s + k"]) (simp add: nth_append)
  qed
  have w: "within (int (length s)) e" using e by (simp add: ent_ok_def)
  then have "within (int (length (s @ t))) e" "End e \<le> int (length s)" by (simp_all add: within_def)
  then show ?thesis using e left right after unfolding ent_ok_def by blast
qed

lemma ent_ok_after: "ent_ok (l \<or> nonblank s) r t e \<Longrightarrow> ent_ok l r (s @ t) (e\<lparr>Start := Start e + int (length s)\<rparr>)"
proof -
  assume e: "ent_ok (l \<or> nonblank s) r t e"
  let ?e = "e\<lparr>Start := Start e + int (length s)\<rparr>"
  have shift: "\<exists>k < length (s @ t). \<not> is_space ((s @ t) ! k) \<and> P (int k - int (length s))"
    if "k < length t" "\<not> is_space (t ! k)" "P (int k)" for k P
    using that by (intro exI[of _ "length s + k"]) (simp add: nth_append)
  have left: "(\<exists>k < length t. \<not> is_space (t ! k) \<and> int k \<le> Start e) \<Longrightarrow> \<exists>k < length (s @ t). \<not> is_space ((s @ t) ! k) \<and> int k \<le> Start ?e"
    using shift[of _ "\<lambda>k. k \<le> Start e"] by (auto simp: algebra_simps)
  have right: "(\<exists>k < length t. \<not> is_space (t ! k) \<and> End e \<le> int k + 1) \<Longrightarrow> \<exists>k < length (s @ t). \<not> is_space ((s @ t) ! k) \<and> End ?e \<le> int k + 1"
    using shift[of _ "\<lambda>k. End e \<le> k + 1"] by (auto simp: End_def algebra_simps)
  have before: "nonblank s \<Longrightarrow> 0 \<le> Start e \<Longrightarrow> \<exists>k < length (s @ t). \<not> is_space ((s @ t) ! k) \<and> int k \<le> Start ?e"
  proof -
    assume "nonblank s" "0 \<le> Start e"
    then obtain k where "k < length s" "\<not> is_space (s ! k)" by (auto simp: nonblank_def)
    then show ?thesis using \<open>0 \<le> Start e\<close> by (intro exI[of _ k]) (simp add: nth_append)
  qed
  have w: "within (int (length t)) e" using e by (simp add: ent_ok_def)
  then have "within (int (length (s @ t))) ?e" "0 \<le> Start e" by (simp_all add: within_def End_def)
  moreover have "Length ?e = Length e" by simp
  ultimately show ?thesis using e left right before unfolding ent_ok_def by auto
qed

lemma Append_ok:
  "ents_ok l (r \<or> nonblank (estr b)) a \<Longrightarrow> ents_ok (l \<or> nonblank (estr a)) r b \<Longrightarrow> ents_ok l r (Append a b)"
  by (auto simp: ents_ok_def Append_def intro: ent_ok_before ent_ok_after)

lemma Append_snug: "ents_ok False False a \<Longrightarrow> ents_ok False False b \<Longrightarrow> ents_ok False False (Append a b)"
  by (intro Append_ok) (auto simp: ents_ok_def elim: ent_ok_mono)

lemma no_ents_ok [simp]: "ents es = [] \<Longrightarrow> ents_ok l r es" by (simp add: ents_ok_def)

lemma AppendString_snug: "ents_ok l r es \<Longrightarrow> ents_ok l r (AppendString es s)"
  by (auto simp: AppendString_def ents_ok_def intro!: ent_ok_before elim: ent_ok_mono)

lemma es_format_ok: "sentKind v \<noteq> None \<Longrightarrow> trimmed (estr es) \<Longrightarrow> ents_ok l r es \<Longrightarrow> ents_ok l r (es_format v es)"
proof -
  assume v: "sentKind v \<noteq> None" and t: "trimmed (estr es)" and ok: "ents_ok l r es"
  have "ent_ok l r (estr es) \<lparr>Start = 0, Length = int (length (estr es)), Value = v\<rparr>"
  proof (cases "estr es = []")
    case False
    then have "\<exists>k < length (estr es). \<not> is_space (estr es ! k) \<and> int k \<le> 0" "\<exists>k < length (estr es). \<not> is_space (estr es ! k) \<and> int (length (estr es)) \<le> int k + 1"
      using t by (auto simp: trimmed_def hd_conv_nth last_conv_nth intro: exI[of _ 0] exI[of _ "length (estr es) - 1"])
    then show ?thesis by (simp add: ent_ok_def within_def End_def)
  qed (simp add: ent_ok_def within_def End_def)
  then show ?thesis using ok v by (simp add: ents_ok_def es_format_def)
qed

text \<open>Trimming.\<close>

lemma TrimSpace_trimmed: "trimmed (estr (TrimSpace es))"
proof -
  define s where "s = estr es"
  define a where "a = length (takeWhile is_space s)"
  define b where "b = length s - length (takeWhile is_space (rev s))"
  show ?thesis
  proof (cases "a = length s")
    case True
    then show ?thesis by (simp add: TrimSpace_def Let_def trimmed_def flip: s_def a_def)
  next
    case False
    then have a: "a < length s" "\<not> is_space (s ! a)"
      using length_takeWhile_le[of is_space s] nth_length_takeWhile[of is_space s] by (simp_all add: a_def le_neq_trans)
    have "length (takeWhile is_space (rev s)) < length (rev s)"
    proof (rule ccontr)
      assume "\<not> ?thesis"
      then have "takeWhile is_space (rev s) = rev s"
        by (metis length_takeWhile_le linorder_not_less order_antisym takeWhile_eq_take take_all order_refl)
      then have "\<forall>u \<in> set s. is_space u" by (metis set_rev set_takeWhileD)
      then show False using a by simp
    qed
    note r = this nth_length_takeWhile[OF this]
    have b: "b \<noteq> 0" "\<not> is_space (s ! (b - 1))" using r by (auto simp: b_def rev_nth)
    have ab: "a < b"
    proof (rule ccontr)
      assume "\<not> a < b"
      then have "b - 1 < length (takeWhile is_space s)" using b by (simp add: a_def)
      then have "is_space (s ! (b - 1))" by (metis nth_mem set_takeWhileD takeWhile_nth)
      then show False using b by simp
    qed
    have bl: "b \<le> length s" by (simp add: b_def)
    have "trimmed (take (b - a) (drop a s))"
      using a b ab bl by (auto simp: trimmed_def hd_take hd_drop_conv_nth last_conv_nth)
    moreover have "a = 0 \<and> b = length s \<Longrightarrow> trimmed s"
      using a b by (auto simp: trimmed_def hd_conv_nth last_conv_nth)
    ultimately show ?thesis using False by (auto simp: TrimSpace_def Let_def simp flip: s_def a_def b_def)
  qed
qed

lemma ent_ok_trim:
  assumes "ent_ok False False s e" "a = length (takeWhile is_space s)" "b = length s - length (takeWhile is_space (rev s))"
    and "0 < Length (TruncateEnd (int b) (Offset (- int a) e))"
  shows "within (int b - int a) (TruncateEnd (int b) (Offset (- int a) e))"
proof -
  have len: "0 < Length e" using assms(4) by (auto simp: range_defs split: if_splits)
  obtain j where j: "j < length s" "\<not> is_space (s ! j)" "int j \<le> Start e" using assms(1) len by (auto simp: ent_ok_def)
  obtain k where k: "k < length s" "\<not> is_space (s ! k)" "End e \<le> int k + 1" using assms(1) len by (auto simp: ent_ok_def)
  have "a \<le> j"
  proof (rule ccontr)
    assume "\<not> a \<le> j"
    then show False using j assms(2) by (metis linorder_not_less nth_mem set_takeWhileD takeWhile_nth)
  qed
  moreover have "k < b"
  proof (rule ccontr)
    assume "\<not> k < b"
    then have "length s - Suc k < length (takeWhile is_space (rev s))" using k assms(3) by auto
    then have "is_space (rev s ! (length s - Suc k))" by (metis nth_mem set_takeWhileD takeWhile_nth)
    then show False using k by (simp add: rev_nth)
  qed
  ultimately show ?thesis using j k len by (auto simp: within_def range_defs)
qed

lemma trimmed_within: "trimmed s \<Longrightarrow> within (int (length s)) e \<Longrightarrow> ent_ok l r s e"
proof -
  assume t: "trimmed s" and w: "within (int (length s)) e"
  show ?thesis
  proof (cases "s = []")
    case False
    then have "\<exists>k < length s. \<not> is_space (s ! k) \<and> int k \<le> Start e" "\<exists>k < length s. \<not> is_space (s ! k) \<and> End e \<le> int k + 1"
      using t w by (auto simp: within_def trimmed_def hd_conv_nth last_conv_nth intro: exI[of _ 0] exI[of _ "length s - 1"])
    then show ?thesis using w by (simp add: ent_ok_def)
  qed (use w in \<open>auto simp: ent_ok_def within_def End_def\<close>)
qed

lemma TrimSpace_ok: "ents_ok False False es \<Longrightarrow> ents_ok l r (TrimSpace es)"
proof -
  assume ok: "ents_ok False False es"
  define s where "s = estr es"
  define a where "a = length (takeWhile is_space s)"
  define b where "b = length s - length (takeWhile is_space (rev s))"
  have "within (int (length (estr (TrimSpace es)))) e" if "e \<in> set (ents (TrimSpace es))" for e
  proof (cases "a = length s")
    case True
    then show ?thesis using that by (simp add: TrimSpace_def Let_def flip: s_def a_def)
  next
    case False
    note no = False
    show ?thesis
    proof (cases "a = 0 \<and> b = length s")
      case True
      then show ?thesis using that ok no
        by (auto simp: TrimSpace_def Let_def ents_ok_def ent_ok_def simp flip: s_def a_def b_def)
    next
      case False
      note mem = that
      have "b \<le> length s" by (simp add: b_def)
      then have "int (length (estr (TrimSpace es))) = max 0 (int b - int a)"
        using no False by (auto simp: TrimSpace_def Let_def simp flip: s_def a_def b_def)
      moreover have "ents (TrimSpace es) = filter (\<lambda>e. Length e > 0) (map (\<lambda>e. TruncateEnd (int b) (Offset (- int a) e)) (ents es))"
        using no False by (auto simp: TrimSpace_def Let_def simp flip: s_def a_def b_def)
      then obtain e0 where "e0 \<in> set (ents es)" "e = TruncateEnd (int b) (Offset (- int a) e0)" "0 < Length e"
        using mem by auto
      moreover then have "within (int b - int a) e"
        using ok ent_ok_trim[OF _ a_def b_def] unfolding ents_ok_def s_def by blast
      ultimately show ?thesis by (auto simp: within_def)
    qed
  qed
  moreover have "\<forall>e \<in> set (ents (TrimSpace es)). sentKind (Value e) \<noteq> None"
    using ok by (auto simp: TrimSpace_def Let_def ents_ok_def simp del: not_None_eq)
  ultimately show ?thesis by (simp add: ents_ok_def trimmed_within TrimSpace_trimmed)
qed

text \<open>Lines that are going to be joined: what stands between characters in the joined text.\<close>

fun lines_ok :: "bool \<Rightarrow> bool \<Rightarrow> EntityString list \<Rightarrow> bool" where
  "lines_ok l r [] \<longleftrightarrow> True"
| "lines_ok l r (p # ps) \<longleftrightarrow>
     ents_ok l (r \<or> (\<exists>q \<in> set ps. nonblank (estr q))) p \<and> lines_ok (l \<or> nonblank (estr p)) r ps"

lemma ents_ok_mono: "ents_ok l r es \<Longrightarrow> (l \<longrightarrow> l') \<Longrightarrow> (r \<longrightarrow> r') \<Longrightarrow> ents_ok l' r' es"
  by (auto simp: ents_ok_def elim: ent_ok_mono)

lemma lines_ok_mono: "lines_ok l r ps \<Longrightarrow> (l \<longrightarrow> l') \<Longrightarrow> (r \<longrightarrow> r') \<Longrightarrow> lines_ok l' r' ps"
proof (induction ps arbitrary: l l')
  case (Cons p ps)
  show ?case
    using Cons.prems Cons.IH[of "l \<or> nonblank (estr p)" "l' \<or> nonblank (estr p)"]
    by (auto elim: ents_ok_mono)
qed simp

lemma lines_ok_append: "lines_ok l r ps \<Longrightarrow> lines_ok l r qs \<Longrightarrow> lines_ok l r (ps @ qs)"
proof (induction ps arbitrary: l)
  case (Cons p ps)
  have "lines_ok (l \<or> nonblank (estr p)) r qs" using Cons.prems(2) by (rule lines_ok_mono) simp_all
  then show ?case using Cons by (auto elim: ents_ok_mono)
qed simp

lemma join_loop_ok:
  "ents_ok l (r \<or> (\<exists>q \<in> set ss. nonblank (estr q))) acc \<Longrightarrow> lines_ok (l \<or> nonblank (estr acc)) r ss \<Longrightarrow>
    ents_ok l r (join_loop sep ss acc)"
proof (induction ss arbitrary: acc)
  case (Cons s ss)
  show ?case
  proof (cases "estr s = []")
    case True
    then have "\<not> nonblank (estr s)" by (simp add: nonblank_def)
    then show ?thesis using Cons True by simp
  next
    case False
    let ?rest = "\<exists>q \<in> set ss. nonblank (estr q)"
    define acc' where "acc' = \<lparr>estr = estr acc @ estr s @ sep,
      ents = ents acc @ map (\<lambda>e. e\<lparr>Start := Start e + int (length (estr acc))\<rparr>) (ents s)\<rparr>"
    have "ent_ok l (r \<or> ?rest) (estr acc') e" if "e \<in> set (ents acc)" for e
    proof -
      have "ent_ok l ((r \<or> ?rest) \<or> nonblank (estr s @ sep)) (estr acc) e"
        using that Cons.prems(1) by (auto simp: ents_ok_def nonblank_append elim!: ent_ok_mono)
      from ent_ok_before[OF this] show ?thesis by (simp add: acc'_def)
    qed
    moreover have "ent_ok l (r \<or> ?rest) (estr acc') (e\<lparr>Start := Start e + int (length (estr acc))\<rparr>)" if "e \<in> set (ents s)" for e
    proof -
      have "ent_ok (l \<or> nonblank (estr acc)) (r \<or> ?rest) (estr s) e" using that Cons.prems(2) by (simp add: ents_ok_def)
      from ent_ok_after[OF this] have "ent_ok l ((r \<or> ?rest) \<or> nonblank sep) (estr acc @ estr s) (e\<lparr>Start := Start e + int (length (estr acc))\<rparr>)"
        by (rule ent_ok_mono) simp_all
      from ent_ok_before[OF this] show ?thesis by (simp add: acc'_def)
    qed
    ultimately have "ents_ok l (r \<or> ?rest) acc'"
      using Cons.prems by (auto simp: ents_ok_def acc'_def)
    moreover have "lines_ok (l \<or> nonblank (estr acc')) r ss"
      using Cons.prems(2) by (auto simp: acc'_def nonblank_append elim!: lines_ok_mono)
    ultimately have "ents_ok l r (join_loop sep ss acc')" by (rule Cons.IH)
    then show ?thesis using False by (simp add: acc'_def)
  qed
qed simp

lemma lines_ok_indent: "lines_ok l r ps \<Longrightarrow> lines_ok l r (map (Append (NewEntityString ind)) ps)"
proof (induction ps arbitrary: l)
  case (Cons p ps)
  have nb: "nonblank (estr q) \<Longrightarrow> nonblank (estr (Append (NewEntityString ind) q))" for q
    by (simp add: Append_def nonblank_append)
  have "ents_ok l (r \<or> (\<exists>q \<in> set ps. nonblank (estr q))) (Append (NewEntityString ind) p)"
    using Cons.prems by (intro Append_ok) (auto simp: NewEntityString_def elim: ents_ok_mono)
  then have "ents_ok l (r \<or> (\<exists>q \<in> set (map (Append (NewEntityString ind)) ps). nonblank (estr q))) (Append (NewEntityString ind) p)"
    by (rule ents_ok_mono) (use nb in auto)
  moreover have "lines_ok (l \<or> nonblank (estr (Append (NewEntityString ind) p))) r (map (Append (NewEntityString ind)) ps)"
    using Cons.prems nb[of p] by (intro Cons.IH) (auto elim: lines_ok_mono)
  ultimately show ?case by simp
qed simp

text \<open>Splitting.\<close>

definition text_from :: "EntityString \<Rightarrow> nat \<Rightarrow> bool" where
  "text_from es p \<longleftrightarrow> (\<exists>k < length (estr es). p \<le> k \<and> \<not> is_space (estr es ! k))"

definition text_to :: "EntityString \<Rightarrow> nat \<Rightarrow> bool" where
  "text_to es p \<longleftrightarrow> (\<exists>k < length (estr es). k < p \<and> \<not> is_space (estr es ! k))"

lemma nonblank_doSplit:
  "i \<le> length (estr es) \<Longrightarrow> nonblank (estr (doSplit es (int p) (int i))) \<longleftrightarrow> (\<exists>k < length (estr es). p \<le> k \<and> k < i \<and> \<not> is_space (estr es ! k))"
proof -
  assume i: "i \<le> length (estr es)"
  have s: "estr (doSplit es (int p) (int i)) = take (i - p) (drop p (estr es))"
    by (simp add: doSplit_def nat_diff_distrib' flip: of_nat_diff)
  show ?thesis
  proof
    assume "nonblank (estr (doSplit es (int p) (int i)))"
    then obtain k where "k < i - p" "k + p < length (estr es)" "\<not> is_space (estr es ! (p + k))" by (auto simp: s nonblank_def)
    then show "\<exists>k < length (estr es). p \<le> k \<and> k < i \<and> \<not> is_space (estr es ! k)" by (intro exI[of _ "p + k"]) auto
  next
    assume "\<exists>k < length (estr es). p \<le> k \<and> k < i \<and> \<not> is_space (estr es ! k)"
    then obtain k where "k < length (estr es)" "p \<le> k" "k < i" "\<not> is_space (estr es ! k)" by auto
    then show "nonblank (estr (doSplit es (int p) (int i)))" using i by (auto simp: s nonblank_def intro!: exI[of _ "k - p"])
  qed
qed

lemma doSplit_ok:
  assumes "ents_ok False False es" "p \<le> i" "i \<le> length (estr es)"
  shows "ents_ok (text_to es p) (text_from es i) (doSplit es (int p) (int i))"
  unfolding ents_ok_def
proof (intro ballI conjI)
  fix e assume in_piece: "e \<in> set (ents (doSplit es (int p) (int i)))"
  from in_piece obtain e0 where e0: "e0 \<in> set (ents es)" "e = Offset (- int p) (TruncateEnd (int i) (TruncateStart (int p) e0))" "0 < Length e"
    by (auto simp: doSplit_def)
  have s: "estr (doSplit es (int p) (int i)) = take (i - p) (drop p (estr es))"
    by (simp add: doSplit_def nat_diff_distrib' flip: of_nat_diff)
  have len: "0 < Length e0" using e0(2,3) by (auto simp: range_defs split: if_splits)
  have w: "within (int (length (estr es))) e0" using assms(1) e0(1) by (simp add: ents_ok_def ent_ok_def)
  have pos: "Start e = max (Start e0) (int p) - int p" "End e = min (End e0) (int i) - int p"
    using e0(2,3) by (auto simp: range_defs)
  obtain j where j: "j < length (estr es)" "\<not> is_space (estr es ! j)" "int j \<le> Start e0"
    using assms(1) e0(1) len by (auto simp: ents_ok_def ent_ok_def)
  obtain k where k: "k < length (estr es)" "\<not> is_space (estr es ! k)" "End e0 \<le> int k + 1"
    using assms(1) e0(1) len by (auto simp: ents_ok_def ent_ok_def)
  have lt: "Start e < End e" using e0(3) by (simp add: End_def)
  have "text_to es p \<or> (\<exists>k < i - p. \<not> is_space (estr es ! (p + k)) \<and> int k \<le> Start e)"
  proof (cases "j < p")
    case True
    then show ?thesis using j by (auto simp: text_to_def)
  next
    case False
    then show ?thesis using j pos lt by (intro disjI2 exI[of _ "j - p"]) auto
  qed
  moreover have "text_from es i \<or> (\<exists>k < i - p. \<not> is_space (estr es ! (p + k)) \<and> End e \<le> int k + 1)"
  proof (cases "k < i")
    case True
    have "p \<le> k" using pos lt k by auto
    then show ?thesis using k pos True by (intro disjI2 exI[of _ "k - p"]) auto
  next
    case False
    then show ?thesis using k by (auto simp: text_from_def)
  qed
  moreover have "within (int (i - p)) e" using pos lt w assms(2) by (auto simp: within_def End_def)
  ultimately show "ent_ok (text_to es p) (text_from es i) (estr (doSplit es (int p) (int i))) e"
    using assms(3) by (auto simp: ent_ok_def s min_absorb2)
  show "sentKind (Value e) \<noteq> None" using assms(1) e0(1,2) by (simp add: ents_ok_def)
qed

lemma split_loop_ok:
  assumes "ents_ok False False es" "is_space sep" "chrs = drop i (estr es)" "p \<le> i" "i \<le> length (estr es)"
  shows "lines_ok (text_to es p) False (split_loop es sep chrs (int i) (int p)) \<and>
    (text_from es p \<longrightarrow> (\<exists>q \<in> set (split_loop es sep chrs (int i) (int p)). nonblank (estr q)))"
  using assms
proof (induction chrs arbitrary: i p)
  case Nil
  then have "i = length (estr es)" by simp
  then show ?case
    using Nil doSplit_ok[of es p "length (estr es)"] nonblank_doSplit[of "length (estr es)" es p]
    by (auto simp: text_from_def elim!: ents_ok_mono)
next
  case (Cons chr chrs)
  have i: "i < length (estr es)" "estr es ! i = chr" "chrs = drop (Suc i) (estr es)"
    using Cons.prems(3) by (metis drop_all leI list.distinct(1), metis Cons.prems(3) nth_via_drop, metis drop_Suc list.sel(3) tl_drop)
  show ?case
  proof (cases "chr = sep")
    case False
    then have "split_loop es sep (chr # chrs) (int i) (int p) = split_loop es sep chrs (int (Suc i)) (int p)"
      by (simp add: add.commute)
    then show ?thesis using Cons.IH[of "Suc i" p] Cons.prems(1,2,4) i by simp
  next
    case True
    have IH: "lines_ok (text_to es (Suc i)) False (split_loop es sep chrs (int (Suc i)) (int (Suc i))) \<and>
      (text_from es (Suc i) \<longrightarrow> (\<exists>q \<in> set (split_loop es sep chrs (int (Suc i)) (int (Suc i))). nonblank (estr q)))"
      using Cons.prems i by (intro Cons.IH) auto
    have sp: "is_space (estr es ! i)" using i True Cons.prems(2) by simp
    then have from_i: "text_from es i \<longleftrightarrow> text_from es (Suc i)"
      by (auto simp: text_from_def) (metis le_less_Suc_eq not_less_eq_eq nle_le)
    have nb: "nonblank (estr (doSplit es (int p) (int i))) \<longleftrightarrow> (\<exists>k < length (estr es). p \<le> k \<and> k < i \<and> \<not> is_space (estr es ! k))"
      using i by (intro nonblank_doSplit) simp
    have "text_to es (Suc i) \<longrightarrow> text_to es p \<or> nonblank (estr (doSplit es (int p) (int i)))"
      unfolding nb text_to_def using sp by (metis less_antisym linorder_not_less)
    then have "lines_ok (text_to es p \<or> nonblank (estr (doSplit es (int p) (int i)))) False (split_loop es sep chrs (int (Suc i)) (int (Suc i)))"
      using IH by (auto elim: lines_ok_mono)
    moreover have "ents_ok (text_to es p) (False \<or> (\<exists>q \<in> set (split_loop es sep chrs (int (Suc i)) (int (Suc i))). nonblank (estr q))) (doSplit es (int p) (int i))"
      using doSplit_ok[of es p i] Cons.prems i IH from_i by (auto elim!: ents_ok_mono)
    moreover have "text_from es p \<longrightarrow> nonblank (estr (doSplit es (int p) (int i))) \<or> text_from es (Suc i)"
    proof -
      have "text_from es p \<longrightarrow> nonblank (estr (doSplit es (int p) (int i))) \<or> text_from es i"
        unfolding nb text_from_def by (metis linorder_not_less)
      then show ?thesis using from_i by simp
    qed
    ultimately show ?thesis using True IH by (auto simp: add.commute)
  qed
qed

lemma Split_ok:
  "ents_ok False False es \<Longrightarrow> SplitAt 10 es \<noteq> None \<and> SplitAt 10 es \<noteq> Some [] \<and> (\<forall>ps. SplitAt 10 es = Some ps \<longrightarrow> lines_ok l False ps)"
proof -
  assume ok: "ents_ok False False es"
  have sp: "is_space 10" by (simp add: is_space_def)
  have "lines_ok False False (split_loop es 10 (estr es) 0 0)"
    using split_loop_ok[OF ok sp, of "estr es" 0 0] by (simp add: text_to_def)
  then have "lines_ok l False (split_loop es 10 (estr es) 0 0)" by (rule lines_ok_mono) simp_all
  moreover have "sep \<in> set s \<Longrightarrow> split_loop es sep s i p \<noteq> []" for sep s i p by (induction s arbitrary: i p) auto
  ultimately show ?thesis using ok by (auto simp: SplitAt_def elim: ents_ok_mono)
qed

section \<open>What the HTML becomes\<close>

lemma map2_spaces:
  assumes "list_all2 (\<lambda>a b. is_space b = is_space a) s t" "trimmed s"
  shows "trimmed t"
proof (cases "s = []")
  case False
  then have "length t = length s" "t \<noteq> []" "\<forall>k < length s. is_space (t ! k) = is_space (s ! k)"
    using assms(1) by (auto simp: list_all2_conv_all_nth)
  then show ?thesis using False assms(2) by (simp add: trimmed_def hd_conv_nth last_conv_nth)
qed (use assms in \<open>simp add: trimmed_def\<close>)

lemma encode_unit: "\<not> is_high u \<Longrightarrow> \<not> is_low u \<Longrightarrow> encode_rune (unat u) = [u]"
proof -
  have "unat u < 0x10000" using unsigned_less[of u] by simp
  then show "\<not> is_high u \<Longrightarrow> \<not> is_low u \<Longrightarrow> encode_rune (unat u) = [u]" by (auto simp: is_high_def is_low_def)
qed

lemma encode_pair:
  assumes "is_high u" "is_low v"
  shows "encode_rune (0x10000 + (unat u - 0xD800) * 1024 + (unat v - 0xDC00)) = [u, v]"
proof -
  define q where "q = unat u - 0xD800"
  define m where "m = unat v - 0xDC00"
  have b: "q < 1024" "m < 1024" "unat u = 0xD800 + q" "unat v = 0xDC00 + m"
    using assms by (auto simp: is_high_def is_low_def q_def m_def)
  have "word_of_nat (0xD800 + q) = u" "word_of_nat (0xDC00 + m) = v"
    by (simp_all flip: b(3,4))
  moreover have "(q * 1024 + m) div 1024 = q" "(q * 1024 + m) mod 1024 = m" using b by simp_all
  moreover have "\<not> 0x10000 + q * 1024 + m < 0xD800" "0x10000 + q * 1024 + m < 0x110000" using b by simp_all
  ultimately show ?thesis by (simp flip: q_def m_def)
qed

lemma not_space_surrogate: "is_high u \<or> is_low u \<Longrightarrow> \<not> is_space u"
  by (auto simp: is_high_def is_low_def is_space_def)

lemma recode_spaces: "list_all2 (\<lambda>a b. is_space b = is_space a) s (NewUTF16String (decode s))"
proof (induction s rule: decode.induct)
  case 1
  then show ?case by (simp add: NewUTF16String_def)
next
  case (2 u)
  have "encode_rune 0xFFFD = [0xFFFD]" "is_space (0xFFFD :: 16 word) = False" by (simp_all add: is_space_def)
  then show ?case using encode_unit[of u] not_space_surrogate[of u] by (auto simp: NewUTF16String_def simp del: encode_rune.simps)
next
  case (3 u v us)
  have fffd: "encode_rune 0xFFFD = [0xFFFD]" "is_space (0xFFFD :: 16 word) = False" by (simp_all add: is_space_def)
  show ?case
  proof (cases "is_high u \<and> is_low v")
    case True
    have "encode_rune (0x10000 + (unat u - 0xD800) * 1024 + (unat v - 0xDC00)) = [u, v]"
      using True by (intro encode_pair) simp_all
    then show ?thesis using 3(1)[OF True] True by (simp add: NewUTF16String_def del: encode_rune.simps)
  next
    case False
    then show ?thesis
      using 3(2,3) encode_unit[of u] not_space_surrogate[of u] fffd by (auto simp: NewUTF16String_def simp del: encode_rune.simps)
  qed
qed

fun snug :: "esptr \<Rightarrow> bool" where
  "snug NilPtr = True"
| "snug (Ptr es) = ents_ok False False es"

text \<open>What an environment has to keep to: the identifiers of rooms that the database gives have a colon,
  a username does not end in a space, and who is known to have none is a user.\<close>

definition env_ok :: "Env \<Rightarrow> bool" where
  "env_ok env \<longleftrightarrow> (\<forall>e room msg. GetPartByMXID env e = Some (room, msg) \<longrightarrow> CHR '':'' \<in> set room) \<and>
     (\<forall>pt i u. GetUsername env pt i = Some u \<and> u \<noteq> [] \<longrightarrow> \<not> is_space (last (NewUTF16String u))) \<and>
     (\<forall>pt i. GetUsername env pt i = Some [] \<longrightarrow> pt = PeerTypeUser)"

text \<open>Nodes that surely become a string, and documents without headers whose links and preformatted texts
  have text.\<close>

fun gives_text :: "HTML \<Rightarrow> bool" and any_text :: "HTML list \<Rightarrow> bool" where
  "gives_text (TextNode s) = True"
| "gives_text (ElementNode d as cs) =
     (d \<in> {''ol'', ''ul'', ''br'', ''img'', ''hr'', ''pre''} \<or>
      d = ''blockquote'' \<and> map_of as ''data-telegram-partial-reply'' \<noteq> None \<or> any_text cs)"
| "gives_text (DocumentNode cs) = any_text cs"
| "gives_text OtherNode = True"
| "any_text [] = False"
| "any_text (n # ns) = (gives_text n \<or> any_text ns)"

definition inner_of :: "HTML list \<Rightarrow> HTML list" where
  "inner_of cs = (case cs of ElementNode d as cs' # _ \<Rightarrow> if d = ''code'' then cs' else cs | _ \<Rightarrow> cs)"

text \<open>The numbers of a list that starts where its attribute says stay above the least but one and below the
  greatest \<open>int\<close>.\<close>

definition list_start :: "attrs \<Rightarrow> int" where
  "list_start as = (let start = getAttribute as ''start'' in if start = [] then 1 else fst (ParseInt (ascii start)))"

definition numbers_fit :: "attrs \<Rightarrow> HTML list \<Rightarrow> bool" where
  "numbers_fit as cs \<longleftrightarrow> - (2 ^ 63) + 1 < list_start as \<and> list_start as + int (length cs) < 2 ^ 63"

fun convertible :: "HTML \<Rightarrow> bool" and all_convertible :: "HTML list \<Rightarrow> bool" where
  "convertible (TextNode s) = True"
| "convertible (ElementNode d as cs) =
     (d \<notin> {''h1'', ''h2'', ''h3'', ''h4'', ''h5'', ''h6''} \<and> all_convertible cs \<and>
      (d = ''a'' \<and> getAttribute as ''href'' \<noteq> [] \<longrightarrow> any_text cs) \<and>
      (d = ''pre'' \<longrightarrow> list_all gives_text (inner_of cs)) \<and>
      (d = ''ol'' \<longrightarrow> numbers_fit as cs))"
| "convertible (DocumentNode cs) = all_convertible cs"
| "convertible OtherNode = True"
| "all_convertible [] = True"
| "all_convertible (n # ns) = (convertible n \<and> all_convertible ns)"

definition kid_ok :: "HTML \<Rightarrow> esptr \<times> string \<Rightarrow> bool" where
  "kid_ok n p \<longleftrightarrow> snug (fst p) \<and> (gives_text n \<longrightarrow> fst p \<noteq> NilPtr)"

lemma snug_append: "snug a \<Longrightarrow> snug b \<Longrightarrow> snug (es_append a b)"
  by (cases a; cases b) (auto intro: Append_snug)

lemma append_NilPtr: "es_append a b = NilPtr \<longleftrightarrow> a = NilPtr \<and> b = NilPtr"
  by (cases a; cases b) auto

lemma New_ok [simp]: "ents (NewEntityString s) = []" by (simp add: NewEntityString_def)

lemma snug_block: "snug (fst p) \<Longrightarrow> snug (block p) \<and> (block p = NilPtr \<longrightarrow> fst p = NilPtr)"
proof -
  assume p: "snug (fst p)"
  have "snug (es_append (Ptr (NewEntityString [10])) (fst p))" using p by (intro snug_append) simp_all
  then show ?thesis
    using p by (auto simp: block_def append_NilPtr intro!: AppendString_snug split: prod.split esptr.split)
qed

definition fine :: "esptr \<Rightarrow> bool" where
  "fine s \<longleftrightarrow> (case s of NilPtr \<Rightarrow> True | Ptr es \<Rightarrow> ents_ok False False es \<and> trimmed (estr es))"

lemma appended_snug:
  "list_all2 kid_ok ns ks \<Longrightarrow> snug acc \<Longrightarrow> snug (foldl (\<lambda>output p. es_append output (block p)) acc ks) \<and>
    (foldl (\<lambda>output p. es_append output (block p)) acc ks = NilPtr \<longrightarrow> acc = NilPtr \<and> \<not> any_text ns)"
proof (induction ks arbitrary: ns acc)
  case Nil
  then show ?case by simp
next
  case (Cons k ks)
  then obtain n ns' where ns: "ns = n # ns'" "kid_ok n k" "list_all2 kid_ok ns' ks" by (auto simp: list_all2_Cons2)
  have b: "snug (block k)" "block k = NilPtr \<longrightarrow> fst k = NilPtr" using ns(2) snug_block[of k] by (simp_all add: kid_ok_def)
  have "snug (es_append acc (block k))" using Cons.prems(2) b(1) by (rule snug_append)
  from Cons.IH[OF ns(3) this] show ?case using ns(1,2) b(2) by (simp add: append_NilPtr kid_ok_def) blast
qed

lemma tagAware_fine:
  assumes "list_all2 kid_ok ns ks"
  shows "\<exists>s. tagAwareString (Some ks) = Some s \<and> fine s \<and> (any_text ns \<longrightarrow> s \<noteq> NilPtr)"
proof (cases "foldl (\<lambda>output p. es_append output (block p)) NilPtr ks")
  case NilPtr
  then show ?thesis using appended_snug[OF assms, of NilPtr] by (simp add: tagAwareString_def fine_def)
next
  case (Ptr es)
  then show ?thesis
    using appended_snug[OF assms, of NilPtr] TrimSpace_ok[of es] TrimSpace_trimmed[of es]
    by (simp add: tagAwareString_def fine_def)
qed

lemma fine_snug: "fine s \<Longrightarrow> snug s" by (cases s) (auto simp: fine_def)

lemma fine_format: "sentKind v \<noteq> None \<Longrightarrow> fine s \<Longrightarrow> fine (format v s) \<and> (format v s = NilPtr \<longleftrightarrow> s = NilPtr)"
  using es_format_ok[of v] by (cases s) (auto simp: fine_def es_format_def)

lemma pointed_ok: "list_all2 kid_ok ns ks \<Longrightarrow> list_all gives_text ns \<Longrightarrow> pointed (map fst ks) \<noteq> None"
proof (induction ks arbitrary: ns)
  case (Cons k ks)
  then obtain n ns' where "ns = n # ns'" "kid_ok n k" "list_all2 kid_ok ns' ks" by (auto simp: list_all2_Cons2)
  then show ?case using Cons by (cases "fst k") (auto simp: kid_ok_def)
qed simp

lemma Digits_Some: "- (2 ^ 63) < n \<Longrightarrow> n < 2 ^ 63 \<Longrightarrow> Digits env n \<noteq> None"
  by (subst Digits.simps) (auto simp: wrap64_id Digits.simps[of env "- n"])

text \<open>A number in its width has digits unless it is the least.\<close>

lemma Digits_least: "Digits env (- (2 ^ 63)) = None"
proof -
  have "wrap64 (2 ^ 63) = - (2 ^ 63)" by (simp add: wrap64_def)
  then have "Digits env (- (2 ^ 63)) = Option.bind (Digits env (- (2 ^ 63))) (\<lambda>n. Some (n + 1))"
    using Digits.simps[of env "- (2 ^ 63)"] by simp
  then show ?thesis by (cases "Digits env (- (2 ^ 63))") auto
qed

lemma list_prefix_Some: "ordered \<noteq> None \<longrightarrow> - (2 ^ 63) < n \<and> n < 2 ^ 63 \<Longrightarrow> \<exists>p. list_prefix env c ordered n = Some p"
  using Digits_Some[of n env] by (auto simp: list_prefix_def split: option.split)

lemma list_loop_ok:
  "list_all2 kid_ok ns ks \<Longrightarrow> ordered \<noteq> None \<longrightarrow> - (2 ^ 63) < counter \<and> counter + int (length ks) < 2 ^ 63 \<Longrightarrow>
    \<exists>ch. list_loop env c ordered ks counter = Some ch \<and> lines_ok l False ch"
proof (induction ks arbitrary: ns counter)
  case Nil
  then show ?case by simp
next
  case (Cons k ks)
  then obtain n ns' where ns: "kid_ok n k" "list_all2 kid_ok ns' ks" by (auto simp: list_all2_Cons2)
  obtain s tag where k: "k = (s, tag)" by (cases k)
  show ?case
  proof (cases "tag = ''li''")
    case False
    have "ordered \<noteq> None \<longrightarrow> - (2 ^ 63) < counter \<and> counter + int (length ks) < 2 ^ 63" using Cons.prems(2) by auto
    from Cons.IH[OF ns(2) this] show ?thesis using False by (simp add: k)
  next
    case True
    have "ordered \<noteq> None \<longrightarrow> wrap64 (counter + 1) = counter + 1" using Cons.prems(2) by (auto intro!: wrap64_id)
    then obtain ch where ch: "list_loop env c ordered ks (wrap64 (counter + 1)) = Some ch" "lines_ok l False ch"
      using Cons.IH[OF ns(2), of "wrap64 (counter + 1)"] Cons.prems(2) by fastforce
    obtain pre where pre: "list_prefix env c ordered counter = Some pre"
      using list_prefix_Some[of ordered counter env c] Cons.prems(2) by fastforce
    define ind where "ind = (replicate ((case ordered of Some n \<Rightarrow> n | None \<Rightarrow> 0) + 2) 32 :: runes)"
    have "snug (es_append (Ptr (NewEntityString pre)) s)" using ns(1) by (intro snug_append) (simp_all add: kid_ok_def k)
    then obtain es where es: "es_append (Ptr (NewEntityString pre)) s = Ptr es" "ents_ok False False es"
      by (cases "es_append (Ptr (NewEntityString pre)) s") (auto simp: append_NilPtr)
    obtain part parts where ps: "SplitAt 10 es = Some (part # parts)" "lines_ok l False (part # parts)"
      using Split_ok[OF es(2)] by (cases "SplitAt 10 es"; cases "the (SplitAt 10 es)") auto
    have nb: "nonblank (estr q) \<Longrightarrow> nonblank (estr (Append (NewEntityString ind) q))" for q
      by (simp add: Append_def nonblank_append)
    have "ents_ok l (\<exists>q \<in> set (map (Append (NewEntityString ind)) parts). nonblank (estr q)) part"
    proof (rule ents_ok_mono)
      show "ents_ok l (\<exists>q \<in> set parts. nonblank (estr q)) part" using ps(2) by simp
    qed (use nb in auto)
    moreover have "lines_ok (l \<or> nonblank (estr part)) False (map (Append (NewEntityString ind)) parts)"
      using ps(2) by (intro lines_ok_indent) simp
    ultimately have "lines_ok l False (part # map (Append (NewEntityString ind)) parts @ ch)"
      using lines_ok_append[of l False "part # map (Append (NewEntityString ind)) parts" ch] ch(2) by simp
    then show ?thesis using True by (simp add: k Let_def es ps ch pre ind_def)
  qed
qed

lemma pointed_Ptr [simp]: "pointed (map Ptr ss) = Some ss" by (induction ss) simp_all

lemma listToString_ok:
  assumes "list_all2 kid_ok ns ks" "data = ''ol'' \<longrightarrow> numbers_fit as ns"
  shows "\<exists>es. listToString env data as c (Some ks) = Some (Ptr es) \<and> ents_ok False False es"
proof -
  define ordered where "ordered = (data = ''ol'')"
  define counter where "counter = (if ordered \<and> getAttribute as ''start'' \<noteq> [] then fst (ParseInt (ascii (getAttribute as ''start''))) else 1)"
  have fit: "ordered \<longrightarrow> - (2 ^ 63) + 1 < counter \<and> counter + int (length ks) < 2 ^ 63"
    using assms(2) list_all2_lengthD[OF assms(1)] by (auto simp: ordered_def counter_def numbers_fit_def list_start_def Let_def)
  have "ordered \<longrightarrow> wrap64 (wrap64 (counter - 1) + int (length ks)) = counter - 1 + int (length ks)"
    using fit by (auto simp: wrap64_id[of "counter - 1"] wrap64_id[of "counter - 1 + int (length ks)"])
  then have "ordered \<longrightarrow> Digits env (wrap64 (wrap64 (counter - 1) + int (length ks))) \<noteq> None"
    using fit Digits_Some[of "counter - 1 + int (length ks)" env] by auto
  then obtain width where width: "(if ordered then map_option Some (Digits env (wrap64 (wrap64 (counter - 1) + int (length ks)))) else Some None) = Some width"
    "width \<noteq> None \<longrightarrow> ordered"
    by (cases ordered) auto
  obtain ch where ch: "list_loop env c width ks counter = Some ch" "lines_ok False False ch"
    using list_loop_ok[OF assms(1), of width counter env c False] fit width(2) by fastforce
  have "ents_ok False False (join_loop (NewUTF16String [10]) ch \<lparr>estr = [], ents = []\<rparr>)"
    using ch(2) by (intro join_loop_ok) (simp_all add: nonblank_def)
  then show ?thesis
    unfolding listToString_def Let_def bind.simps ordered_def[symmetric] counter_def[symmetric]
    by (simp only: width(1) bind.simps ch(1)) (simp add: JoinEntityString_def)
qed

lemma New_lit: "NewUTF16String (lit s) = map (\<lambda>c. word_of_nat (of_char c)) s"
proof (induction s)
  case (Cons c s)
  have "(of_char c :: nat) < 256" by simp
  then have "(of_char c :: nat) < 0xD800" by linarith
  then have "encode_rune (of_char c) = [word_of_nat (of_char c)]" by simp
  then show ?case using Cons by (simp add: NewUTF16String_def lit_def del: encode_rune.simps)
qed (simp add: NewUTF16String_def lit_def)

lemma space_of_char: "45 \<le> (of_char c :: nat) \<Longrightarrow> (of_char c :: nat) < 128 \<Longrightarrow> \<not> is_space (word_of_nat (of_char c))"
proof -
  assume c: "45 \<le> (of_char c :: nat)" "(of_char c :: nat) < 128"
  then have "unat (word_of_nat (of_char c) :: 16 word) = of_char c" by (simp add: unat_of_nat)
  then show ?thesis using c by (auto simp: is_space_def)
qed

lemma last_FormatInt: "\<not> is_space (word_of_nat (of_char (last (FormatInt n))))"
proof -
  have "last (FormatInt n) \<in> set (FormatInt n)" by (simp add: FormatInt_ne)
  then have "is_digit (last (FormatInt n)) \<or> last (FormatInt n) = CHR ''-''" by (rule FormatInt_chars)
  then have "45 \<le> (of_char (last (FormatInt n)) :: nat)" "(of_char (last (FormatInt n)) :: nat) < 128"
    by (auto simp: is_digit_def)
  then show ?thesis by (rule space_of_char)
qed

lemma lit_append: "lit s @ lit t = lit (s @ t)" by (simp add: lit_def)

lemma message_link_ok:
  assumes "env_ok env"
  shows "\<exists>r. message_link env uri = Some r \<and> (\<forall>href. r = Some href \<longrightarrow> trimmed (NewUTF16String href))"
proof (cases "GetPartByMXID env (uriEvent uri)")
  case None
  then show ?thesis by (simp add: message_link_def)
next
  case (Some p)
  obtain room msg where p: "p = (room, msg)" by (cases p)
  have "ParsePortalID room \<noteq> None"
    using assms Some p portal_without_colon_panics[of room] by (auto simp: env_ok_def)
  then obtain a b t d where q: "ParsePortalID room = Some (a, b, t, d)" by auto
  have "trimmed (NewUTF16String (lit (''https://t.me/c/'' @ s @ FormatInt n)))" for s n
    using last_FormatInt[of n] FormatInt_ne[of n]
    by (simp add: New_lit trimmed_def last_map) (simp add: is_space_def)
  note t = this[of "[]"] this[of "FormatInt _ @ ''/''"] this[of "FormatInt _ @ ''/'' @ FormatInt _ @ ''/''"]
  then show ?thesis
    using Some p q by (auto simp: message_link_def Let_def lit_append)
qed

lemma New_At: "u \<noteq> [] \<Longrightarrow> \<not> is_space (last (NewUTF16String u)) \<Longrightarrow> trimmed (NewUTF16String (lit ''@'' @ u))"
proof -
  assume u: "u \<noteq> []" "\<not> is_space (last (NewUTF16String u))"
  have "NewUTF16String (lit ''@'' @ u) = 64 # NewUTF16String u"
    by (simp add: NewUTF16String_def lit_def)
  moreover have "NewUTF16String u \<noteq> []" using u(1) by (cases u) (auto simp: NewUTF16String_def)
  ultimately show ?thesis using u(2) by (simp add: trimmed_def) (simp add: is_space_def)
qed

lemma format_New_ok: "sentKind v \<noteq> None \<Longrightarrow> trimmed (NewUTF16String s) \<Longrightarrow> ents_ok False False (es_format v (NewEntityString s))"
  by (intro es_format_ok) (simp_all add: NewEntityString_def)

lemma ghost_username:
  "env_ok env \<Longrightarrow> getGhostDetails env ui = Some (i, u, h) \<Longrightarrow>
    (u \<noteq> [] \<longrightarrow> \<not> is_space (last (NewUTF16String u))) \<and> (u = [] \<longrightarrow> fst (ParseUserID i) = PeerTypeUser)"
proof -
  assume e: "env_ok env" and g: "getGhostDetails env ui = Some (i, u, h)"
  obtain userID where "(case ParseUserID userID of
       (_, _, Some err) \<Rightarrow> None
     | (peerType, telegramUserID, None) \<Rightarrow>
         (case GetAccessHash env peerType telegramUserID of
            None \<Rightarrow> None
          | Some accessHash \<Rightarrow>
              if accessHash = 0 then None
              else map_option (\<lambda>username. (userID, username, accessHash)) (GetUsername env peerType telegramUserID))) = Some (i, u, h)"
    using g unfolding getGhostDetails_def bind_eq_Some_conv by blast
  moreover obtain pt j err where "ParseUserID userID = (pt, j, err)" by (cases "ParseUserID userID")
  ultimately have "GetUsername env pt j = Some u \<and> fst (ParseUserID i) = pt"
    by (auto split: option.splits if_splits)
  then show ?thesis using e unfolding env_ok_def by blast
qed

lemma linkToString_ok:
  assumes "env_ok env" "list_all2 kid_ok ns ks" "getAttribute as ''href'' \<noteq> [] \<longrightarrow> any_text ns"
  shows "\<exists>s. linkToString env as c (Some ks) = Some s \<and> snug s \<and> (any_text ns \<longrightarrow> s \<noteq> NilPtr)"
proof -
  obtain s where s: "tagAwareString (Some ks) = Some s" "fine s" "any_text ns \<longrightarrow> s \<noteq> NilPtr"
    using tagAware_fine[OF assms(2)] by blast
  show ?thesis
  proof (cases "getAttribute as ''href'' = []")
    case True
    then show ?thesis using s fine_snug by (simp add: linkToString_def)
  next
    case False
    then obtain es where es: "s = Ptr es" using s(3) assms(3) by (cases s) auto
    have ok: "ents_ok False False es" "trimmed (estr es)" using s(2) by (simp_all add: es fine_def)
    have recoded: "trimmed (NewUTF16String (decode (estr es)))" by (rule map2_spaces[OF recode_spaces ok(2)])
    obtain err uri where uri: "ParseMatrixURI env (getAttribute as ''href'') = (err, uri)" by fastforce
    define lt where "lt = decode (estr es)"
    define href where "href = getAttribute as ''href''"
    define raw where "raw = (lt = href)"
    define mk where "mk = (\<lambda>h ent. Some (Ptr (es_format (StyleValue (style (if raw then StyleURL else StyleTextURL)\<lparr>URL := h\<rparr>)) ent)))"
    have fmt: "sentKind v \<noteq> None \<Longrightarrow> ents_ok False False (es_format v (NewEntityString lt))" for v
      using format_New_ok recoded unfolding lt_def by blast
    have mk_ok: "trimmed (NewUTF16String t) \<Longrightarrow> \<exists>es. mk h (NewEntityString t) = Some (Ptr es) \<and> ents_ok False False es" for h t
      using format_New_ok by (simp add: mk_def style_def)
    have link: "linkToString env as c (Some ks) = (case uri of
              None \<Rightarrow> mk href (NewEntityString lt)
            | Some uri \<Rightarrow>
                if \<not> err \<and> Sigil1 uri = 64
                then
                  if AllowedMentions c \<noteq> None \<and> uriUser uri \<notin> the (AllowedMentions c) then Some s
                  else (case getGhostDetails env (uriUser uri) of
                          None \<Rightarrow> Some s
                        | Some (userID, username, accessHash) \<Rightarrow>
                            if username = []
                            then Some (Ptr (es_format (MentionValue \<lparr>mentioned = noUser, mentionID = userID, mentionHash = accessHash, Username = []\<rparr>) (NewEntityString lt)))
                            else Some (Ptr (es_format (MentionValue \<lparr>mentioned = noUser, mentionID = userID, mentionHash = 0, Username = username\<rparr>)
                              (NewEntityString (lit ''@'' @ username)))))
                else if Sigil1 uri = 33 \<and> Sigil2 uri = 36
                then (case message_link env uri of
                        None \<Rightarrow> None
                      | Some None \<Rightarrow> mk href (NewEntityString lt)
                      | Some (Some h) \<Rightarrow> mk h (if raw then NewEntityString h else NewEntityString lt))
                else mk href (NewEntityString lt))"
      using False unfolding linkToString_def s(1) bind.simps Let_def
      by (simp only: es esptr.case uri lt_def href_def mk_def raw_def if_False prod.case)
    have "\<exists>es. linkToString env as c (Some ks) = Some (Ptr es) \<and> ents_ok False False es"
    proof (cases uri)
      case None
      then show ?thesis using mk_ok[of lt href] recoded by (simp add: link lt_def)
    next
      case (Some u)
      obtain r where r: "message_link env u = Some r" "\<And>href. r = Some href \<Longrightarrow> trimmed (NewUTF16String href)"
        using message_link_ok[OF assms(1)] by blast
      have ghost: "ents_ok False False (es_format (MentionValue \<lparr>mentioned = noUser, mentionID = i, mentionHash = h', Username = n\<rparr>)
          (NewEntityString (lit ''@'' @ n)))" if "getGhostDetails env (uriUser u) = Some (i, n, h)" "n \<noteq> []" for i n h h'
        using ghost_username[OF assms(1) that(1)] that(2) New_At by (intro format_New_ok) auto
      have bare: "ents_ok False False (es_format (MentionValue \<lparr>mentioned = noUser, mentionID = i, mentionHash = h', Username = []\<rparr>)
          (NewEntityString lt))" if "getGhostDetails env (uriUser u) = Some (i, [], h)" for i h h'
        using ghost_username[OF assms(1) that(1)] by (intro fmt) (simp add: case_prod_beta)
      have t: "trimmed (NewUTF16String lt)" using recoded by (simp add: lt_def)
      show ?thesis
      proof (cases "\<not> err \<and> Sigil1 u = 64")
        case True
        then show ?thesis
          using ok(1) bare ghost unfolding link Some option.case
          by (cases "getGhostDetails env (uriUser u)") (auto simp: es)
      next
        case False
        then show ?thesis
          using mk_ok[OF t] r mk_ok unfolding link Some option.case
          by (cases r) auto
      qed
    qed
    then show ?thesis by auto
  qed
qed

lemma imgToString_ok: "\<exists>es. imgToString env as = Ptr es \<and> ents_ok False False es"
proof -
  have "trimmed (NewUTF16String sparkle)" by (simp add: sparkle_def NewUTF16String_def trimmed_def is_space_def)
  then have "\<exists>es. custom_emoji d = Ptr es \<and> ents_ok False False es" for d
    by (simp add: custom_emoji_def format_New_ok style_def)
  moreover have "\<exists>es. Ptr (NewEntityString s) = Ptr es \<and> ents_ok False False es" for s by simp
  ultimately show ?thesis by (simp add: imgToString_def Let_def split: option.split sum.split prod.split)
qed

lemma preToString_ok:
  assumes "list_all2 kid_ok ns ks" "list_all gives_text ns"
  shows "\<exists>es. preToString lang (Some ks) = Some (Ptr es) \<and> ents_ok False False es"
proof -
  obtain ss where "pointed (map fst ks) = Some ss" using pointed_ok[OF assms] by auto
  moreover have "ents_ok False False (es_format (StyleValue (style StylePre\<lparr>Language := lang\<rparr>)) (TrimSpace (es\<lparr>ents := []\<rparr>)))" for es
    by (intro es_format_ok TrimSpace_trimmed TrimSpace_ok) (simp_all add: style_def)
  ultimately show ?thesis by (simp add: preToString_def plainString_def JoinEntityString_def)
qed

lemma fine_ptr: "fine s \<Longrightarrow> b \<Longrightarrow> b \<longrightarrow> s \<noteq> NilPtr \<Longrightarrow> snug s \<and> s \<noteq> NilPtr" using fine_snug by blast

definition kid_result :: "HTML \<Rightarrow> esptr option \<Rightarrow> bool" where
  "kid_result n r \<longleftrightarrow> (\<exists>s. r = Some s \<and> snug s \<and> (gives_text n \<longrightarrow> s \<noteq> NilPtr))"

lemma result_branch: "(b \<Longrightarrow> kid_result n r) \<Longrightarrow> (\<not> b \<Longrightarrow> kid_result n r') \<Longrightarrow> kid_result n (if b then r else r')"
  by simp

lemma result_made: "\<exists>es. r = Some (Ptr es) \<and> ents_ok False False es \<Longrightarrow> kid_result n r"
  by (auto simp: kid_result_def)

lemma result_given:
  "snug s \<Longrightarrow> any_text cs \<longrightarrow> s \<noteq> NilPtr \<Longrightarrow> gives_text (ElementNode data as cs) = any_text cs \<Longrightarrow> kid_result (ElementNode data as cs) (Some s)"
  by (simp add: kid_result_def)

lemma basicFormat_ok:
  assumes "tagAwareString ks = Some s" "fine s" "any_text cs \<longrightarrow> s \<noteq> NilPtr" "gives_text (ElementNode data as cs) = any_text cs"
  shows "kid_result (ElementNode data as cs) (basicFormatToString data ks)" "kid_result (ElementNode data as cs) (spanToString data as ks)"
    "kid_result (ElementNode data as cs) (tagAwareString ks)"
proof -
  have f: "snug (format (StyleValue (style st)) s)" "any_text cs \<longrightarrow> format (StyleValue (style st)) s \<noteq> NilPtr"
    if "st \<in> {StyleBold, StyleItalic, StyleStrikethrough, StyleUnderline, StyleCode, StyleSpoiler}" for st
    using assms(2,3) fine_format[of "StyleValue (style st)" s] that by (auto simp: style_def fine_snug)
  note plain = result_given[OF fine_snug[OF assms(2)] assms(3,4)]
  have g: "kid_result (ElementNode data as cs) (Some (format (StyleValue (style st)) s))"
    if "st \<in> {StyleBold, StyleItalic, StyleStrikethrough, StyleUnderline, StyleCode, StyleSpoiler}" for st
    using f[OF that] by (rule result_given) (rule assms(4))
  note gs = g[of StyleBold, simplified] g[of StyleItalic, simplified] g[of StyleStrikethrough, simplified]
    g[of StyleUnderline, simplified] g[of StyleCode, simplified] g[of StyleSpoiler, simplified]
  show "kid_result (ElementNode data as cs) (basicFormatToString data ks)"
    unfolding basicFormatToString_def assms(1) option.map by (simp add: gs plain del: insert_iff)
  show "kid_result (ElementNode data as cs) (spanToString data as ks)"
    unfolding spanToString_def assms(1) option.map by (split if_split) (use gs plain in blast)
  show "kid_result (ElementNode data as cs) (tagAwareString ks)" unfolding assms(1) by (rule plain)
qed

lemma tagToString_ok:
  assumes env: "env_ok env" and ks: "list_all2 kid_ok cs ks" and deeper: "list_all2 kid_ok cs ks'"
    and pre: "\<exists>ks''. snd p = Some ks'' \<and> list_all2 kid_ok (inner_of cs) ks''"
    and conv: "convertible (ElementNode data as cs)"
  shows "kid_result (ElementNode data as cs) (tagToString env data as c (Some ks) (Some ks') p)"
  unfolding tagToString_def
proof (intro result_branch)
  obtain s where s: "tagAwareString (Some ks) = Some s" "fine s" "any_text cs \<longrightarrow> s \<noteq> NilPtr"
    using tagAware_fine[OF ks] by blast
  have f: "snug (format (StyleValue (style StyleBlockquote)) s)" "any_text cs \<longrightarrow> format (StyleValue (style StyleBlockquote)) s \<noteq> NilPtr"
    using s(2,3) fine_format[of "StyleValue (style StyleBlockquote)" s] by (auto simp: style_def fine_snug)
  note basic = basicFormat_ok[OF s]
  show "kid_result (ElementNode data as cs) (Some (Ptr (NewEntityString [])))"
    "kid_result (ElementNode data as cs) (Some (Ptr (NewEntityString [10])))"
    "kid_result (ElementNode data as cs) (Some (Ptr (NewEntityString (lit ''---''))))"
    by (intro result_made; simp)+
  show "kid_result (ElementNode data as cs) (map_option (format (StyleValue (style StyleBlockquote))) (tagAwareString (Some ks)))"
    if "data = ''blockquote''" "\<not> map_of as ''data-telegram-partial-reply'' \<noteq> None"
    using s f that by (simp add: kid_result_def)
  have fit: "data = ''ol'' \<longrightarrow> numbers_fit as cs" using conv by simp
  show "kid_result (ElementNode data as cs) (listToString env data as c (Some ks))" by (rule result_made[OF listToString_ok[OF ks fit]])
  show "kid_result (ElementNode data as cs) (listToString env data as (WithIncrementedListDepth c) (Some ks'))"
    by (rule result_made[OF listToString_ok[OF deeper fit]])
  show "kid_result (ElementNode data as cs) (Some (imgToString env as))" using imgToString_ok[of env as] by (intro result_made) auto
  show "kid_result (ElementNode data as cs) (headerToString data (Some ks))"
    if "data \<in> {''h1'', ''h2'', ''h3'', ''h4'', ''h5'', ''h6''}" using conv that by simp
  show "kid_result (ElementNode data as cs) (basicFormatToString data (Some ks))"
    if "data \<in> {''b'', ''strong'', ''i'', ''em'', ''s'', ''strike'', ''del'', ''u'', ''ins'', ''tt'', ''code''}"
    using that by (intro basic) (elim insertE emptyE; simp)
  show "kid_result (ElementNode data as cs) (spanToString data as (Some ks))" if "data \<in> {''span'', ''font''}"
    using that by (intro basic) (elim insertE emptyE; simp)
  show "kid_result (ElementNode data as cs) (linkToString env as c (Some ks))" if "data = ''a''"
    using linkToString_ok[OF env ks, of as c] conv that by (simp add: kid_result_def)
  show "kid_result (ElementNode data as cs) (preToString (fst p) (snd p))" if "data = ''pre''"
    using pre preToString_ok[of "inner_of cs" _ "fst p"] conv that by (intro result_made) auto
  show "kid_result (ElementNode data as cs) (tagAwareString (Some ks))"
    if "data \<noteq> ''blockquote''" "data \<noteq> ''ol''" "data \<noteq> ''ul''" "data \<noteq> ''br''" "data \<noteq> ''img''" "data \<noteq> ''hr''" "data \<noteq> ''pre''"
    using that by (intro basic) simp
qed

lemma inner_convertible: "all_convertible cs \<Longrightarrow> all_convertible (inner_of cs)"
  by (cases cs) (auto simp: inner_of_def split: HTML.split)

lemma kids_ok_inner:
  assumes "\<And>cs c. size_list size cs < n \<Longrightarrow> all_convertible cs \<Longrightarrow> \<exists>ks. nodeToTaggedStrings env cs c = Some ks \<and> list_all2 kid_ok cs ks"
    and "size (ElementNode d as cs) \<le> n" "all_convertible cs"
  shows "\<exists>ks. nodeToTaggedStrings env (inner_of cs) c = Some ks \<and> list_all2 kid_ok (inner_of cs) ks"
  using assms by (intro assms(1) inner_convertible) (auto simp: inner_of_def split: list.split HTML.split)

lemma nodes_ok:
  assumes "env_ok env"
  shows "size_list size ns < n \<Longrightarrow> all_convertible ns \<Longrightarrow> \<exists>ks. nodeToTaggedStrings env ns c = Some ks \<and> list_all2 kid_ok ns ks"
    and "size m < n \<Longrightarrow> convertible m \<Longrightarrow> \<exists>p. singleNodeToString env m c = Some p \<and> kid_ok m p"
proof (induction n arbitrary: ns m c rule: less_induct)
  case (less n)
  show node: "\<exists>p. singleNodeToString env m c = Some p \<and> kid_ok m p" if "size m < n" "convertible m" for m c
  proof (cases m)
    case (ElementNode data as cs)
    have conv: "all_convertible cs" "size_list size cs < size m" using that ElementNode by simp_all
    have m: "convertible (ElementNode data as cs)" using that ElementNode by simp
    have kids: "\<exists>ks. nodeToTaggedStrings env cs' c = Some ks \<and> list_all2 kid_ok cs' ks"
      if "size_list size cs' < size m" "all_convertible cs'" for cs' c
      using less(1)[OF \<open>size m < n\<close>] that by blast
    obtain ks where ks: "nodeToTaggedStrings env cs c = Some ks" "list_all2 kid_ok cs ks" using kids conv by blast
    obtain ks' where ks': "nodeToTaggedStrings env cs (WithIncrementedListDepth c) = Some ks'" "list_all2 kid_ok cs ks'"
      using kids conv by blast
    define p where "p = (case cs of
            ElementNode d as' cs' # _ \<Rightarrow>
              if d = ''code'' then (codeLanguage as', nodeToTaggedStrings env cs' (WithWhitespace c))
              else ([], nodeToTaggedStrings env cs (WithWhitespace c))
          | _ \<Rightarrow> ([], nodeToTaggedStrings env cs (WithWhitespace c)))"
    have "snd p = nodeToTaggedStrings env (inner_of cs) (WithWhitespace c)"
      by (simp add: p_def inner_of_def split: list.split HTML.split)
    moreover have "size_list size (inner_of cs) < size m"
      using conv(2) by (auto simp: inner_of_def split: list.split HTML.split)
    ultimately have "\<exists>ks''. snd p = Some ks'' \<and> list_all2 kid_ok (inner_of cs) ks''"
      using kids inner_convertible conv(1) by simp
    from tagToString_ok[OF assms ks(2) ks'(2) this, of data as c]
    obtain s where "tagToString env data as c (Some ks) (Some ks') p = Some s" "kid_ok m (s, data)"
      using m by (auto simp: kid_result_def kid_ok_def ElementNode simp del: gives_text.simps)
    then show ?thesis by (simp add: ElementNode ks(1) ks'(1) flip: p_def)
  next
    case (DocumentNode cs)
    then have "\<exists>ks. nodeToTaggedStrings env cs c = Some ks \<and> list_all2 kid_ok cs ks"
      using less(1)[OF that(1)] that(2) by simp
    then obtain ks where "nodeToTaggedStrings env cs c = Some ks" "list_all2 kid_ok cs ks" by blast
    then show ?thesis using tagAware_fine[of cs ks] fine_snug DocumentNode by (fastforce simp: kid_ok_def)
  qed (auto simp: kid_ok_def)
  show "\<exists>ks. nodeToTaggedStrings env ns c = Some ks \<and> list_all2 kid_ok ns ks" if "size_list size ns < n" "all_convertible ns" for ns c
    using that
  proof (induction ns)
    case (Cons m ns)
    then show ?case using node[of m c] by fastforce
  qed simp
qed

lemma document_ok:
  assumes "env_ok env" "convertible doc"
  shows "\<exists>p. ParseHTML env doc c = Some p \<and> (case p of NilPtr \<Rightarrow> \<not> gives_text doc
    | Ptr es \<Rightarrow> trimmed (estr es) \<and> (\<forall>e \<in> set (ents es). within (int (length (estr es))) e \<and> sentKind (Value e) \<noteq> None))"
proof -
  obtain ks where ks: "nodeToTaggedStrings env [doc] c = Some ks" "list_all2 kid_ok [doc] ks"
    using nodes_ok(1)[OF assms(1), of "[doc]" _ c] assms(2) by fastforce
  obtain s where "tagAwareString (Some ks) = Some s" "fine s" "any_text [doc] \<longrightarrow> s \<noteq> NilPtr"
    using tagAware_fine[OF ks(2)] by blast
  then show ?thesis
    unfolding ParseHTML_def ks(1) by (cases s) (auto simp: fine_def ents_ok_def ent_ok_def)
qed

text \<open>C11: formatted messages convert, with entities inside the text.  A document without headers, whose
  links and preformatted texts have some text and whose lists count within the range of an \<open>int\<close>, is
  converted without a panic; the text has no space at either end, and every entity of it lies within the
  text and is of a kind that can be sent.  (\<open>least_start_overflows\<close> says what a list does that starts at
  the least \<open>int\<close>.)\<close>

theorem documents_are_converted:
  assumes "env_ok env" "convertible doc"
  shows "\<exists>p. ParseHTML env doc c = Some p \<and> (case p of NilPtr \<Rightarrow> \<not> gives_text doc
    | Ptr es \<Rightarrow> trimmed (estr es) \<and> (\<forall>e \<in> set (ents es). within (int (length (estr es))) e \<and> toTelegramEntity e \<noteq> None))"
proof -
  have "toTelegramEntity e \<noteq> None \<longleftrightarrow> sentKind (Value e) \<noteq> None" for e by (simp add: toTelegramEntity_def)
  then show ?thesis using document_ok[OF assms, of c] by (simp only:)
qed

definition env0 :: Env where
  "env0 = \<lparr>floorLog10 = (\<lambda>_. 0), ParseMatrixURI = (\<lambda>_. (True, None)), ParseGhostMXID = (\<lambda>_. None), PreferredLogin = (\<lambda>_. None),
     GetAccessHash = (\<lambda>_ _. None), GetUsername = (\<lambda>_ _. None), GetPartByMXID = (\<lambda>_. None), ParseContentURI = (\<lambda>_. None),
     GetByMXC = (\<lambda>_. None)\<rparr>"

definition bold_doc :: HTML where
  "bold_doc = DocumentNode [ElementNode ''b'' [] [TextNode [97, 32]], ElementNode ''ul'' [] [ElementNode ''li'' [] [TextNode [98]]]]"

theorem documents_are_converted_witness:
  "\<exists>es. ParseHTML env0 bold_doc NewContext = Some (Ptr es) \<and> (\<forall>e \<in> set (ents es). within (int (length (estr es))) e)"
proof -
  have ok: "env_ok env0" "convertible bold_doc" and some_text: "gives_text bold_doc"
    by (simp_all add: env_ok_def env0_def bold_doc_def)
  from documents_are_converted[OF ok, of NewContext] obtain p where "ParseHTML env0 bold_doc NewContext = Some p"
    "case p of NilPtr \<Rightarrow> \<not> gives_text bold_doc
      | Ptr es \<Rightarrow> trimmed (estr es) \<and> (\<forall>e \<in> set (ents es). within (int (length (estr es))) e \<and> toTelegramEntity e \<noteq> None)" by blast
  then show ?thesis using some_text by (cases p) auto
qed

text \<open>Shortening.\<close>

lemma shorten_ok:
  assumes "\<forall>e \<in> set (ents es). within (int (length (estr es))) e \<and> sentKind (Value e) \<noteq> None" "23 \<le> maxLength"
  shows "\<exists>es'. shorten maxLength es = Some es' \<and> int (length (estr es')) \<le> maxLength \<and>
    (\<forall>e \<in> set (ents es'). within (int (length (estr es'))) e \<and> sentKind (Value e) \<noteq> None) \<and>
    (int (length (estr es)) \<le> maxLength \<longrightarrow> es' = es)"
proof (cases "int (length (estr es)) > maxLength")
  case False
  then show ?thesis using assms(1) by (simp add: shorten_def)
next
  case True
  have "length (NewUTF16String cutoffText) = 23" by (simp add: cutoffText_def New_lit)
  moreover have "length cutoffText = 23" by (simp add: cutoffText_def lit_def)
  moreover have "0 < Length (TruncateEnd (maxLength - 23) e) \<Longrightarrow> within (int (length (estr es))) e \<Longrightarrow>
      within maxLength (TruncateEnd (maxLength - 23) e)" for e :: "BodyRangeValue BodyRange"
    using assms(2) by (auto simp: within_def range_defs split: if_splits)
  moreover have "nat (maxLength - 23) \<le> length (estr es)" using True by simp
  ultimately show ?thesis
    using True assms
    by (auto simp: shorten_def Substring_def Append_def es_format_def NewEntityString_def within_def End_def style_def simp del: not_None_eq)
qed

lemma all_some_map: "\<forall>x \<in> set xs. f x \<noteq> None \<Longrightarrow> all_some (map f xs) = Some (map (the \<circ> f) xs)"
  by (induction xs) auto

text \<open>C33: what is sent to Telegram keeps to its limit.  When the message is HTML that converts as above
  and the limit has room for the note that it was cut off, sending does not panic: the text is at most
  the limit of UTF-16 units, the whole of it when that fits, and every entity lies within the text.\<close>

theorem sent_text_keeps_its_limit:
  assumes "env_ok env" "convertible (parse (HTMLBody content))" "23 \<le> maxLength"
    and "IsHTML content"
  shows "\<exists>u entities. Parse env parse content maxLength = Some (decode u, entities) \<and> int (length u) \<le> maxLength \<and>
    (\<forall>e \<in> set entities. 0 \<le> sOffset e \<and> 0 \<le> sLength e \<and> sOffset e + sLength e \<le> int (length u)) \<and>
    (\<forall>es. \<not> IsMedia content \<and> int (length (estr es)) \<le> maxLength \<and>
       ParseHTML env (parse (HTMLBody content)) (NewContext\<lparr>AllowedMentions := cMentions content\<rparr>) = Some (Ptr es) \<longrightarrow> u = estr es)"
proof (cases "IsMedia content \<and> (FileName content = [] \<or> FileName content = cBody content)")
  case True
  then show ?thesis using assms(3) by (intro exI[of _ "[]"]) (simp add: Parse_def)
next
  case False
  note text_content = this
  obtain p where p: "ParseHTML env (parse (HTMLBody content)) (NewContext\<lparr>AllowedMentions := cMentions content\<rparr>) = Some p"
    "case p of NilPtr \<Rightarrow> \<not> gives_text (parse (HTMLBody content))
      | Ptr es \<Rightarrow> trimmed (estr es) \<and> (\<forall>e \<in> set (ents es). within (int (length (estr es))) e \<and> sentKind (Value e) \<noteq> None)"
    using document_ok[OF assms(1,2), of "NewContext\<lparr>AllowedMentions := cMentions content\<rparr>"] by blast
  show ?thesis
  proof (cases p)
    case NilPtr
    then show ?thesis using p(1) assms(3,4) text_content by (intro exI[of _ "[]"] exI[of _ "[]"]) (simp add: Parse_def)
  next
    case (Ptr es)
    then obtain es' where es': "shorten maxLength es = Some es'" "int (length (estr es')) \<le> maxLength"
      "\<forall>e \<in> set (ents es'). within (int (length (estr es'))) e \<and> sentKind (Value e) \<noteq> None"
      "int (length (estr es)) \<le> maxLength \<longrightarrow> es' = es"
      using shorten_ok[of es maxLength] p(2) assms(3) by auto
    have "\<forall>e \<in> set (ents es'). toTelegramEntity e \<noteq> None" using es'(3) by (simp add: toTelegramEntity_def)
    note sent = all_some_map[OF this]
    have "0 \<le> sOffset (the (toTelegramEntity e)) \<and> 0 \<le> sLength (the (toTelegramEntity e)) \<and>
        sOffset (the (toTelegramEntity e)) + sLength (the (toTelegramEntity e)) \<le> int (length (estr es'))" if "e \<in> set (ents es')" for e
      using es'(3) that by (auto simp: toTelegramEntity_def within_def End_def simp del: not_None_eq split: option.split)
    moreover have "Parse env parse content maxLength = Some (decode (estr es'), map (the \<circ> toTelegramEntity) (ents es'))"
      unfolding Parse_def if_not_P[OF text_content] using p(1) Ptr es'(1) assms(4) sent by simp
    ultimately show ?thesis
      using p(1) Ptr es'
      by (intro exI[of _ "estr es'"] exI[of _ "map (the \<circ> toTelegramEntity) (ents es')"]) simp
  qed
qed

theorem sent_text_keeps_its_limit_witness:
  "\<exists>u entities. Parse env0 (\<lambda>_. bold_doc) \<lparr>IsMedia = False, FileName = [], cBody = [], IsHTML = True, HTMLBody = [97], cMentions = None\<rparr> 4096 =
    Some (decode u, entities) \<and> int (length u) \<le> 4096"
  using sent_text_keeps_its_limit[of env0 "\<lambda>_. bold_doc" "\<lparr>IsMedia = False, FileName = [], cBody = [], IsHTML = True, HTMLBody = [97], cMentions = None\<rparr>" 4096]
  by (auto simp: env_ok_def env0_def bold_doc_def)

section \<open>Styles through the operations\<close>

text \<open>A string unit by unit, each with the values of the entities around it, and what the operations mean
  for it.\<close>

definition marked :: "EntityString \<Rightarrow> (16 word \<times> BodyRangeValue list) list" where
  "marked es = map (\<lambda>i. (estr es ! i, map Value (filter (covers (int i)) (ents es)))) [0..<length (estr es)]"

definition inside :: "EntityString \<Rightarrow> bool" where
  "inside es \<longleftrightarrow> (\<forall>e \<in> set (ents es). within (int (length (estr es))) e)"

text \<open>The fields of a list that end in a separator, and what is left unless it is nothing.\<close>

fun fields :: "('a \<Rightarrow> bool) \<Rightarrow> 'a list \<Rightarrow> 'a list \<Rightarrow> 'a list list" where
  "fields sep [] acc = (if acc = [] then [] else [acc])"
| "fields sep (x # xs) acc = (if sep x then acc # fields sep xs [] else fields sep xs (acc @ [x]))"

lemma length_marked [simp]: "length (marked es) = length (estr es)" by (simp add: marked_def)

lemma marked_nth: "i < length (estr es) \<Longrightarrow> marked es ! i = (estr es ! i, map Value (filter (covers (int i)) (ents es)))"
  by (simp add: marked_def)

lemma marked_Append: "inside a \<Longrightarrow> inside b \<Longrightarrow> marked (Append a b) = marked a @ marked b"
proof (rule nth_equalityI)
  assume ab: "inside a" "inside b"
  fix i assume i: "i < length (marked (Append a b))"
  define sh where "sh = (\<lambda>e :: BodyRangeValue BodyRange. e\<lparr>Start := Start e + int (length (estr a))\<rparr>)"
  have i': "i < length (estr a) + length (estr b)" using i by (simp add: Append_def)
  show "marked (Append a b) ! i = (marked a @ marked b) ! i"
  proof (cases "i < length (estr a)")
    case True
    have "filter (covers (int i)) (map sh (ents b)) = []"
      using ab(2) True by (auto simp: filter_empty_conv sh_def covers_def inside_def within_def)
    then show ?thesis
      using True i' by (simp add: marked_nth nth_append) (simp add: Append_def nth_append marked_nth flip: sh_def)
  next
    case False
    have "filter (covers (int i)) (ents a) = []"
      using ab(1) False by (auto simp: filter_empty_conv covers_def inside_def within_def)
    moreover have "map Value (filter (covers (int i)) (map sh es)) = map Value (filter (covers (int (i - length (estr a)))) es)" for es
      using False by (induction es) (auto simp: sh_def covers_def End_def)
    ultimately show ?thesis
      using False i' by (simp add: marked_nth nth_append) (simp add: Append_def nth_append marked_nth flip: sh_def)
  qed
qed (simp add: Append_def)

lemma inside_Append: "inside a \<Longrightarrow> inside b \<Longrightarrow> inside (Append a b)"
  by (auto simp: inside_def Append_def within_def End_def)

lemma marked_doSplit:
  assumes "p \<le> i" "i \<le> length (estr es)"
  shows "marked (doSplit es (int p) (int i)) = take (i - p) (drop p (marked es))"
proof (rule nth_equalityI)
  have s: "estr (doSplit es (int p) (int i)) = take (i - p) (drop p (estr es))"
    by (simp add: doSplit_def nat_diff_distrib' flip: of_nat_diff)
  show "length (marked (doSplit es (int p) (int i))) = length (take (i - p) (drop p (marked es)))" by (simp add: s)
  fix k assume "k < length (marked (doSplit es (int p) (int i)))"
  then have k: "k < i - p" "p + k < length (estr es)" using assms by (simp_all add: s)
  define cut where "cut = (\<lambda>e :: BodyRangeValue BodyRange. Offset (- int p) (TruncateEnd (int i) (TruncateStart (int p) e)))"
  have "covers (int k) (cut e) \<longleftrightarrow> covers (int (p + k)) e" for e
    using k by (auto simp: cut_def covers_def range_defs)
  moreover have "covers (int k) (cut e) \<Longrightarrow> Length (cut e) > 0" for e by (auto simp: covers_def End_def)
  moreover have "covers (int (p + k)) e \<Longrightarrow> (End e \<le> int i \<or> End e > int p) \<and> (Start e \<ge> int p \<or> Start e < int i)" for e :: "BodyRangeValue BodyRange"
    using k by (auto simp: covers_def)
  moreover have "Value (cut e) = Value e" for e by (simp add: cut_def)
  ultimately have "map Value (filter (covers (int k)) (filter (\<lambda>e. Length e > 0) (map cut (filter
      (\<lambda>e. (End e \<le> int i \<or> End e > int p) \<and> (Start e \<ge> int p \<or> Start e < int i)) xs)))) = map Value (filter (covers (int (p + k))) xs)" for xs
    by (induction xs) auto
  then show "marked (doSplit es (int p) (int i)) ! k = take (i - p) (drop p (marked es)) ! k"
    using k by (simp add: marked_nth s) (simp add: doSplit_def flip: cut_def)
qed

lemma marked_split_loop:
  assumes "chrs = drop i (estr es)" "p \<le> i" "i \<le> length (estr es)"
  shows "map marked (split_loop es sep chrs (int i) (int p)) = fields (\<lambda>x. fst x = sep) (drop i (marked es)) (take (i - p) (drop p (marked es)))"
  using assms
proof (induction chrs arbitrary: i p)
  case Nil
  then have "i = length (estr es)" by simp
  then show ?case using Nil marked_doSplit[of p "length (estr es)" es] by auto
next
  case (Cons chr chrs)
  have i: "i < length (estr es)" "estr es ! i = chr" "chrs = drop (Suc i) (estr es)"
    using Cons.prems(1) by (metis drop_all leI list.distinct(1), metis Cons.prems(1) nth_via_drop, metis drop_Suc list.sel(3) tl_drop)
  have d: "drop i (marked es) = marked es ! i # drop (Suc i) (marked es)" using i(1) by (simp add: Cons_nth_drop_Suc)
  have f: "fst (marked es ! i) = chr" using i by (simp add: marked_nth)
  show ?case
  proof (cases "chr = sep")
    case True
    then have "split_loop es sep (chr # chrs) (int i) (int p) = doSplit es (int p) (int i) # split_loop es sep chrs (int (Suc i)) (int (Suc i))"
      by (simp add: add.commute)
    then show ?thesis
      using Cons.IH[of "Suc i" "Suc i"] marked_doSplit[of p i es] Cons.prems(2) i d f True by simp
  next
    case False
    have "take (i - p) (drop p (marked es)) @ [marked es ! i] = take (Suc i - p) (drop p (marked es))"
      using Cons.prems(2) i(1) by (simp add: Suc_diff_le take_Suc_conv_app_nth)
    moreover have "split_loop es sep (chr # chrs) (int i) (int p) = split_loop es sep chrs (int (Suc i)) (int p)"
      using False by (simp add: add.commute)
    ultimately show ?thesis using Cons.IH[of "Suc i" p] Cons.prems(2) i d f False by simp
  qed
qed

lemma marked_Substring: "Substring (int n) es = Some es' \<Longrightarrow> marked es' = take n (marked es)"
proof -
  assume sub: "Substring (int n) es = Some es'"
  have "filter (covers (int i)) (filter (\<lambda>e. Length e > 0) (map (TruncateEnd (int n)) xs)) = map (TruncateEnd (int n)) (filter (covers (int i)) xs)"
    if "i < n" for i and xs :: "BodyRangeValue BodyRange list"
    using that by (induction xs) (auto simp: covers_def range_defs)
  then show ?thesis
    using sub by (auto simp: Substring_def marked_nth comp_def split: if_splits intro!: nth_equalityI)
qed

text \<open>C21: the operations on formatted strings keep text and styles.  Seen as units with the values around
  each, appending is appending, cutting at an end is taking a prefix, and splitting at a character
  gives the fields between its occurrences, with each entity on every field it reaches into; and
  appending keeps entities inside the text.\<close>

theorem strings_keep_styles:
  assumes "inside a" "inside b"
  shows "marked (Append a b) = marked a @ marked b \<and> inside (Append a b) \<and>
    (\<forall>n a'. Substring (int n) a = Some a' \<longrightarrow> marked a' = take n (marked a)) \<and>
    (\<forall>ps. SplitAt sep a = Some ps \<longrightarrow> map marked ps =
      (if \<exists>x \<in> set (marked a). fst x = sep then fields (\<lambda>x. fst x = sep) (marked a) [] else [marked a]))"
proof (intro conjI allI impI)
  fix ps assume "SplitAt sep a = Some ps"
  moreover have "(\<exists>x \<in> set (marked a). fst x = sep) \<longleftrightarrow> sep \<in> set (estr a)"
    by (auto simp: marked_def in_set_conv_nth)
  ultimately show "map marked ps = (if \<exists>x \<in> set (marked a). fst x = sep then fields (\<lambda>x. fst x = sep) (marked a) [] else [marked a])"
    using marked_split_loop[of "estr a" 0 a 0 sep] by (auto simp: SplitAt_def split: if_splits)
qed (use assms marked_Append inside_Append marked_Substring in auto)

theorem strings_keep_styles_witness:
  "marked (Append \<lparr>estr = [97], ents = [\<lparr>Start = 0, Length = 1, Value = StyleValue (style StyleBold)\<rparr>]\<rparr> \<lparr>estr = [98], ents = []\<rparr>) =
    [(97, [StyleValue (style StyleBold)]), (98, [])]"
proof -
  have "inside \<lparr>estr = [97], ents = [\<lparr>Start = 0, Length = 1, Value = StyleValue (style StyleBold)\<rparr>]\<rparr>" "inside \<lparr>estr = [98], ents = []\<rparr>"
    by (simp_all add: inside_def within_def End_def)
  from strings_keep_styles[OF this] show ?thesis by (simp add: marked_def covers_def End_def)
qed

section \<open>What goes wrong\<close>

text \<open>A link without text panics, and the entity of a header that ends in a space goes past the text.\<close>

lemma empty_link_panics:
  "linkToString env [(''href'', [120])] c (Some []) = None"
  by (simp add: linkToString_def tagAwareString_def getAttribute_def)

text \<open>A list with an item that starts at the least number, and an empty one that starts after it, overflow
  the stack.\<close>

lemma least_start_loop:
  "(s, ''li'') \<in> set ks \<Longrightarrow> list_loop env c (Some w) ks (- (2 ^ 63)) = None"
  using Digits_least[of env] by (induction ks) (auto simp: list_prefix_def)

lemma least_start_overflows:
  "list_start as = - (2 ^ 63) \<Longrightarrow> (s, ''li'') \<in> set ks \<Longrightarrow> listToString env ''ol'' as c (Some ks) = None"
  "list_start as = - (2 ^ 63) + 1 \<Longrightarrow> listToString env ''ol'' as c (Some []) = None"
proof -
  have start: "(if getAttribute as ''start'' \<noteq> [] then fst (ParseInt (ascii (getAttribute as ''start''))) else 1) = list_start as"
    by (simp add: list_start_def Let_def)
  show "listToString env ''ol'' as c (Some ks) = None" if "list_start as = - (2 ^ 63)" "(s, ''li'') \<in> set ks"
    using that(1) least_start_loop[OF that(2), of env c] start
    by (cases "Digits env (wrap64 (wrap64 (list_start as - 1) + int (length ks)))") (simp_all add: listToString_def Let_def)
  have "wrap64 (wrap64 (- (2 ^ 63) + 1 - 1) + int (length [])) = - (2 ^ 63)" by (simp add: wrap64_id)
  then show "listToString env ''ol'' as c (Some []) = None" if "list_start as = - (2 ^ 63) + 1"
    using that Digits_least[of env] start by (simp add: listToString_def Let_def)
qed

lemma nil_join_panics: "JoinEntityString sep [NilPtr] = None"
  by (simp add: JoinEntityString_def)

lemma header_takes_space:
  "headerToString ''h1'' (Some [(Ptr (NewEntityString [97, 32]), ''text'')]) =
    Some (Ptr \<lparr>estr = [35, 32, 97, 32], ents = [\<lparr>Start = 0, Length = 4, Value = StyleValue (style StyleBold)\<rparr>]\<rparr>)"
  by (simp add: headerToString_def plainString_def JoinEntityString_def NewEntityString_def NewUTF16String_def Append_def es_format_def)

lemma trimming_overruns:
  "TrimSpace \<lparr>estr = [10, 35, 32, 97, 32, 10], ents = [\<lparr>Start = 1, Length = 4, Value = v\<rparr>]\<rparr> =
    \<lparr>estr = [35, 32, 97], ents = [\<lparr>Start = 0, Length = 4, Value = v\<rparr>]\<rparr>"
  by (simp add: TrimSpace_def is_space_def range_defs Let_def)

lemma channel_mention_panics:
  "sentKind (MentionValue \<lparr>mentioned = noUser, mentionID = ''channel-7'', mentionHash = h, Username = []\<rparr>) = None"
  by (simp add: ParseUserID_def peer_types case_prod_beta)

end
