(* ===== verification/Spec2Isabelle.thy ===== *)
theory Spec2Isabelle
  imports Codec UpdChannel UpdCatch UpdManager ConnSpec ExchangeSpec Srp Bisect Status Matrixfmt
begin

text \<open>
  A verification library for the Matrix-Telegram bridge and its in-tree Telegram client.

  The bridge (\<open>pkg/connector\<close>, \<open>pkg/presence\<close>) talks to Telegram through the MTProto client in
  \<open>pkg/gotd\<close>.  Bytes from the network are cut into packets by a transport codec, packets carry
  messages in the TL format, and the updates in them pass the update manager, which restores the
  order and completeness the network does not guarantee before the bridge sees them.

  The theories, in the order of the layers:

  \<^item> \<open>Prelude\<close>: state passing with errors, little-endian numbers, \<open>named_theorems\<close>.
  \<^item> \<open>TLBuffer\<close>: \<open>pkg/gotd/bin\<close>, the reader and writer of TL values; a buffer is its bytes, and a slice
    or a read out of range is a panic, so that each reader is safe by the lengths it checks.
  \<^item> \<open>Codec\<close>: \<open>pkg/gotd/proto/codec\<close> and the codec detection of \<open>pkg/gotd/transport\<close>.
  \<^item> \<open>SeqBox\<close>: the sequence box and its gap buffer in \<open>pkg/gotd/telegram/updates\<close>.
  \<^item> \<open>UpdData\<close>: updates, entities, the order of a container and the expansion of short updates.
  \<^item> \<open>TgErr\<close>: \<open>pkg/gotd/tgerr\<close>, errors of the server and flood waits.
  \<^item> \<open>UpdStore\<close>: the storage and access hash interfaces as locales, with the in-memory ones.
  \<^item> \<open>UpdState\<close>: the update state of an account, \<open>state.go\<close> and \<open>state_apply.go\<close>.
  \<^item> \<open>UpdChannel\<close>: the update state of a channel, \<open>state_channel.go\<close>.
  \<^item> \<open>UpdCatch\<close>: what both loops \<open>getDifference\<close> reach with a server that answers by the position.
  \<^item> \<open>UpdManager\<close>: loading and starting a state, \<open>manager.go\<close>.

  \<^item> \<open>Hash\<close>: SHA-1 and SHA-256, which the cipher takes from the standard library.
  \<^item> \<open>Cipher\<close>: \<open>pkg/gotd/crypto\<close>, authorization keys, message keys, the encrypted layout.
  \<^item> \<open>MsgId\<close>: \<open>proto/message_id.go\<close>, identifiers, their generator and the replay buffer.
  \<^item> \<open>MtTypes\<close>: the generated coders in \<open>pkg/gotd/mt\<close> of the service messages in use.
  \<^item> \<open>ProtoMsg\<close>: the wrappers in \<open>pkg/gotd/proto\<close>: containers, results, plaintext, packed objects.
  \<^item> \<open>Rpc\<close>: \<open>pkg/gotd/rpc\<close>, pending requests as a transition system of atomic actions.
  \<^item> \<open>Conn\<close>: \<open>pkg/gotd/mtproto\<close>, the state of a connection and all its handlers.
  \<^item> \<open>ConnSpec\<close>: what the connection promises, over the theories above.

  \<^item> \<open>ExTypes\<close>: the generated coders in \<open>pkg/gotd/mt\<close> of the messages of the key exchange.
  \<^item> \<open>Kex\<close>: its arithmetic and envelopes in \<open>pkg/gotd/crypto\<close>: factoring, RSA, checks of a group.
  \<^item> \<open>Exchange\<close>: \<open>pkg/gotd/exchange\<close>, both flows of the key exchange, step by step.
  \<^item> \<open>ExchangeSpec\<close>: what the exchange promises: what an accepted key has passed, and agreement.
  \<^item> \<open>Srp\<close>: \<open>pkg/gotd/crypto/srp\<close>, the proof of a password and the verifier of a new one.

  \<^item> \<open>Presence\<close>: \<open>pkg/presence\<close>, the presence manager, its rate limiter and the reporter of
    last-active times.
  \<^item> \<open>Bisect\<close>: \<open>connector/presencebisect.go\<close> and the rotation of \<open>presencepoll.go\<close>, polls of statuses.
  \<^item> \<open>Ids\<close>: \<open>connector/ids\<close> and \<open>connector/ids.go\<close>, the identifiers of the bridge.
  \<^item> \<open>Status\<close>: \<open>connector/presence.go\<close> and \<open>onlinewhileactive.go\<close>, statuses of others and the own one.
  \<^item> \<open>Telegramfmt\<close>: \<open>connector/telegramfmt\<close>, Telegram's entities to HTML.
  \<^item> \<open>Matrixfmt\<close>: \<open>connector/matrixfmt\<close>, HTML to Telegram's entities.

  Handler, storage and server are parameters: records of functions on a state of their own
  (\<open>deps\<close>, \<open>channelDeps\<close>, \<open>managerDeps\<close>).  The locales \<open>update_env\<close>, \<open>handler_env\<close> and
  \<open>channel_env\<close> state what is expected of them and are interpreted on the in-memory storage with
  a handler that records what it is given and a server that answers from a script.  In \<open>UpdCatch\<close> the locales
  \<open>diff_env\<close> and \<open>chan_diff_env\<close> let the server answer by the position in the request, fail now and then,
  the handler refuse, and the clock go as it likes; they are interpreted on the in-memory storage with any such
  server and handler.

  The functions that call each other without a bound in the code (\<open>handleUpdates\<close>,
  \<open>getDifference\<close> and their companions) take fuel and fail with \<open>OutOfFuel\<close> without it; the
  properties that say they return give the fuel that is enough.  Goroutines are the order of the
  events they handle, their channels are queues.  A timer is a flag that says whether it runs.

  AES-IGE and the gzip streams come from other modules and are parameters (\<open>aes_ige\<close>, \<open>gzip_lib\<close>);
  where a property needs them to invert, \<open>ige_law\<close> and \<open>gzip_law\<close> say so.  \<open>handleMessage\<close> takes the
  depth of nesting as fuel, which the code does not bound; \<open>handling_ends_with_nesting\<close> says when there is enough, and
  \<open>incoming_never_panics\<close> what the read loop does then.  The RPC
  engine's \<open>step\<close> is one action under its mutex, one choice of a \<open>select\<close> or one call of a
  handler, so its runs are the interleavings of its goroutines; the connection handles incoming
  messages one after the other.

  Each flow of the key exchange runs on a \<open>world\<close>: the bytes its random source will give, the messages
  it will receive (no more of them is a timeout), those it has sent, and how often it has read the
  clock.  A loop that draws until it is content ends when the bytes are used up.  \<open>kexEnv\<close> holds the cipher, the
  primality test of the standard library, the clock and whether a message can be sent; \<open>rsa_law\<close> says
  that a key pair inverts.  The offer of the server is sent at most once for every message it has
  still to receive, so \<open>server_hello\<close> has fuel enough (\<open>server_hello_fuel\<close>).  The key derivation of passwords, PBKDF2 with
  SHA-512, comes from another module and is a parameter (\<open>pbkdf2\<close>) that no property assumes anything of.

  Texts of messages are lists of runes, with UTF-16 in lists of words where the code has it; an
  identifier is a \<open>string\<close>.  Slicing out of range, nil pointers and
  a recursion that does not end, as that of \<open>Digits\<close> for the least integer, are \<open>None\<close>.  \<open>Format\<close> in \<open>Telegramfmt\<close>
  takes what it does with text and with a range as arguments, so that one walk gives both the HTML and
  the list of units with the values around them.  The environment \<open>Env\<close> of \<open>Matrixfmt\<close> holds the look-ups in the
  bridge's database, the parsers of Matrix addresses and the floating-point logarithm.  Lists given as
  \<open>order\<close> are the order in which Go walks a map, which is any.  The limiter counts in exact fractions.

  Not modelled: floating-point values, logging and tracing, the parsing of the built-in public keys,
  how \<open>connect\<close> runs the key exchange (there it is a parameter), the generated types of \<open>pkg/gotd/tg\<close> (the constructors that matter here are data types),
  starting and stopping of goroutines, and the glue of the bridge.
\<close>

end
